(* ===== verification/MkPrelude.thy ===== *)
theory MkPrelude
  imports Main "HOL-Library.Word" "HOL-Library.Char_ord" "HOL-Library.List_Lexorder"
begin

text \<open>
  The prelude of the development: fixed-width integers as Go computes with them, big-endian byte
  strings, sums as results, and the list lemmas the components share.

  Go's integers are HOL integers together with the width at which the program keeps them:
  \<open>wrap_s w x\<close> is the conversion of \<open>x\<close> to a signed \<open>w\<close>-bit integer (two's complement
  wrap-around) and \<open>wrap_u w x\<close> the conversion to an unsigned one. The model writes the conversion
  wherever the source converts or where an addition can leave the width.
\<close>

named_theorems wire_simps \<open>evaluation of the byte-level readers and writers\<close>
named_theorems size_simps \<open>lengths of encoded values\<close>

type_synonym byte = "8 word"
type_synonym bytes = "byte list"

section \<open>Fixed-width integers\<close>

definition wrap_s :: "nat \<Rightarrow> int \<Rightarrow> int" where
  "wrap_s w x = (x + 2 ^ (w - 1)) mod 2 ^ w - 2 ^ (w - 1)"

definition wrap_u :: "nat \<Rightarrow> int \<Rightarrow> int" where
  "wrap_u w x = x mod 2 ^ w"

definition in_s :: "nat \<Rightarrow> int \<Rightarrow> bool" where
  "in_s w x \<longleftrightarrow> - (2 ^ (w - 1)) \<le> x \<and> x < 2 ^ (w - 1)"

abbreviation int8 :: "int \<Rightarrow> int" where "int8 \<equiv> wrap_s 8"
abbreviation int16 :: "int \<Rightarrow> int" where "int16 \<equiv> wrap_s 16"
abbreviation int32 :: "int \<Rightarrow> int" where "int32 \<equiv> wrap_s 32"
abbreviation int64 :: "int \<Rightarrow> int" where "int64 \<equiv> wrap_s 64"
abbreviation uint32 :: "int \<Rightarrow> int" where "uint32 \<equiv> wrap_u 32"

lemma pow2_half: "0 < w \<Longrightarrow> (2::int) ^ w = 2 * 2 ^ (w - 1)"
  by (cases w) simp_all

lemma wrap_s_id:
  assumes "0 < w" and "in_s w x"
  shows "wrap_s w x = x"
proof -
  have "0 \<le> x + 2 ^ (w - 1)" and "x + 2 ^ (w - 1) < 2 ^ w"
    using assms pow2_half [of w] by (auto simp: in_s_def)
  then show ?thesis by (simp add: wrap_s_def)
qed

lemma wrap_s_mod: "wrap_s w (x mod 2 ^ w) = wrap_s w x"
  by (simp add: wrap_s_def mod_add_left_eq)

lemma in_s_wrap_s:
  assumes "0 < w"
  shows "in_s w (wrap_s w x)"
proof -
  have "0 \<le> (x + 2 ^ (w - 1)) mod 2 ^ w" and "(x + 2 ^ (w - 1)) mod 2 ^ w < 2 ^ w"
    by simp_all
  then show ?thesis using pow2_half [OF assms] by (simp add: in_s_def wrap_s_def)
qed

lemma wrap_u_id: "0 \<le> x \<Longrightarrow> x < 2 ^ w \<Longrightarrow> wrap_u w x = x"
  by (simp add: wrap_u_def)

lemma wrap_u_bounds [simp]: "0 \<le> wrap_u w x" "wrap_u w x < 2 ^ w"
  by (simp_all add: wrap_u_def)

lemma in_s_0 [simp]: "in_s w 0"
  by (simp add: in_s_def)

lemma in_s_mono: "in_s v x \<Longrightarrow> v \<le> w \<Longrightarrow> in_s w x"
proof -
  assume x: "in_s v x" and "v \<le> w"
  then have "(2::int) ^ (v - 1) \<le> 2 ^ (w - 1)" by (intro power_increasing) auto
  with x show ?thesis unfolding in_s_def by linarith
qed

section \<open>Big-endian byte strings\<close>

text \<open>
  \<open>be_put n v\<close> is what \<open>binary.BigEndian.PutUint\<close> stores for an \<open>n\<close>-byte integer (the bits of
  \<open>v\<close> modulo \<open>256 ^ n\<close>), \<open>be_get\<close> what \<open>binary.BigEndian.Uint\<close> reads back.
\<close>

fun be_put :: "nat \<Rightarrow> int \<Rightarrow> bytes" where
  "be_put 0 v = []"
| "be_put (Suc n) v = be_put n (v div 256) @ [word_of_int v]"

definition be_get :: "bytes \<Rightarrow> int" where
  "be_get bs = foldl (\<lambda>a b. a * 256 + uint b) 0 bs"

lemma be_put_eval:
  "be_put (numeral k) v = be_put (pred_numeral k) (v div 256) @ [word_of_int v]" "be_put 1 v = [word_of_int v]"
  by (simp_all add: numeral_eq_Suc)

lemma length_be_put [simp, size_simps]: "length (be_put n v) = n"
  by (induction n arbitrary: v) simp_all

lemma be_get_snoc: "be_get (bs @ [b]) = be_get bs * 256 + uint b"
  by (simp add: be_get_def)

lemma be_get_Nil [simp]: "be_get [] = 0"
  by (simp add: be_get_def)

lemma uint_byte_of_int: "uint (word_of_int v :: byte) = v mod 256"
  by (simp add: uint_word_of_int)

lemma be_get_be_put: "be_get (be_put n v) = v mod 256 ^ n"
proof (induction n arbitrary: v)
  case 0
  show ?case by simp
next
  case (Suc n)
  have "be_get (be_put (Suc n) v) = (v div 256) mod 256 ^ n * 256 + v mod 256"
    by (simp add: be_get_snoc uint_byte_of_int Suc.IH)
  also have "\<dots> = v mod 256 ^ Suc n"
    using zmod_zmult2_eq [of "256 ^ n" v 256] by (simp add: mult.commute)
  finally show ?case .
qed

lemma uint_byte_bounds [simp]: "0 \<le> uint (b :: byte)" "uint (b :: byte) < 256"
  using uint_lt2p [of b] by simp_all

lemma be_get_nonneg [simp]: "0 \<le> be_get bs"
  by (induction bs rule: rev_induct) (simp_all add: be_get_snoc)

lemma be_get_less: "be_get bs < 256 ^ length bs"
proof (induction bs rule: rev_induct)
  case Nil
  show ?case by simp
next
  case (snoc b bs)
  have "be_get (bs @ [b]) < (be_get bs + 1) * 256"
    by (simp add: be_get_snoc)
  also have "\<dots> \<le> 256 ^ length bs * 256"
    using snoc by (intro mult_right_mono) auto
  finally show ?case by (simp add: mult.commute)
qed

lemma be_put_be_get: "be_put (length bs) (be_get bs) = bs"
proof (induction bs rule: rev_induct)
  case Nil
  show ?case by simp
next
  case (snoc b bs)
  have "(be_get bs * 256 + uint b) div 256 = be_get bs"
    by (simp add: div_add1_eq)
  moreover have "word_of_int (be_get bs * 256 + uint b) = b"
    by (rule word_uint_eqI) (simp only: uint_byte_of_int mod_mult_self3, simp)
  ultimately show ?case using snoc by (simp add: be_get_snoc)
qed

lemma pow256: "(256::int) ^ n = 2 ^ (8 * n)"
  by (simp add: power_mult)

text \<open>A signed \<open>n\<close>-byte integer read back from its two's complement bytes.\<close>

lemma be_signed_roundtrip:
  assumes "0 < n" and "in_s (8 * n) v"
  shows "wrap_s (8 * n) (be_get (be_put n v)) = v"
proof -
  have "wrap_s (8 * n) (be_get (be_put n v)) = wrap_s (8 * n) v"
    by (simp only: be_get_be_put pow256 wrap_s_mod)
  also have "\<dots> = v" using assms by (intro wrap_s_id) simp_all
  finally show ?thesis .
qed

lemma be_unsigned_roundtrip:
  assumes "0 \<le> v" and "v < 256 ^ n"
  shows "be_get (be_put n v) = v"
  using assms by (simp add: be_get_be_put)

lemma be_put_mod: "be_put n (v mod 256 ^ n) = be_put n v"
  using be_put_be_get [of "be_put n v"] by (simp add: be_get_be_put)

section \<open>Lists\<close>

lemma take_append_exact [simp]: "length xs = n \<Longrightarrow> take n (xs @ ys) = xs"
  by simp

lemma drop_append_exact [simp]: "length xs = n \<Longrightarrow> drop n (xs @ ys) = ys"
  by simp

lemma length_concat_map: "length (concat (map f xs)) = sum_list (map (length \<circ> f) xs)"
  by (induction xs) simp_all

lemma concat_map_take_drop:
  "concat (map f xs) = concat (map f (take k xs)) @ concat (map f (drop k xs))"
  by (metis append_take_drop_id concat_append map_append)

lemma sum_list_take_mono:
  "(\<And>x. x \<in> set xs \<Longrightarrow> (0::nat) < f x) \<Longrightarrow> i < j \<Longrightarrow> j \<le> length xs \<Longrightarrow>
   sum_list (map f (take i xs)) < sum_list (map f (take j xs))"
proof (induction xs arbitrary: i j)
  case Nil
  then show ?case by simp
next
  case (Cons x xs)
  then show ?case by (cases i; cases j) force+
qed

lemma last_take_nth: "0 < k \<Longrightarrow> k \<le> length xs \<Longrightarrow> last (take k xs) = xs ! (k - 1)"
  by (subst last_conv_nth) auto

end
