(* ===== verification/GoLib.thy ===== *)
theory GoLib
  imports MkPrelude
begin

text \<open>
  What the sources use of Go and its standard library: error values (\<open>errors\<close>, \<open>fmt\<close>), readers
  and writers over byte streams (\<open>io\<close>, \<open>encoding/binary\<close>, \<open>bytes\<close>), \<open>bufio.Writer\<close> over an
  \<open>os.File\<close>, \<open>sort.Search\<close>, \<open>hash/crc32\<close> and \<open>hash/fnv\<close>.

  A reader is a function from the bytes that are left in the stream to an error or to a value and
  the bytes left after it; a writer into a \<open>bytes.Buffer\<close> (which never fails) is an error or the
  bytes appended. The locale \<open>codec\<close> is the interface between every wire format of the program and
  its users: what is encoded is decoded back, whatever follows it in the stream.
\<close>

section \<open>Errors\<close>

text \<open>
  The sentinel errors of the packages by name; \<open>ErrorNew\<close> is \<open>errors.New\<close>, \<open>Wrapped\<close> is
  \<open>fmt.Errorf\<close> with a \<open>%w\<close> verb, and \<open>Panic\<close> is a run-time panic of the Go program.
\<close>

datatype go_error =
    EOF | ErrUnexpectedEOF
  | ErrCorruptRecord | ErrRecordTooLarge | ErrIndexFull | ErrSegmentClosed | ErrOffsetOutOfRange
  | ErrLogClosed | ErrEmptyBatch
  | ErrFrameTooLarge | ErrFrameSizeMismatch
  | ErrInvalidTopicName | ErrProduceTimeout
  | ErrorNew string | Wrapped string go_error | Panic string

type_synonym 'a result = "go_error + 'a"

fun errors_Is :: "go_error \<Rightarrow> go_error \<Rightarrow> bool" where
  "errors_Is (Wrapped m e) t \<longleftrightarrow> Wrapped m e = t \<or> errors_Is e t"
| "errors_Is e t \<longleftrightarrow> e = t"

section \<open>Readers\<close>

type_synonym 'a reader = "bytes \<Rightarrow> ('a \<times> bytes) result"

definition returnR :: "'a \<Rightarrow> 'a reader" where
  "returnR a bs = Inr (a, bs)"

definition failR :: "go_error \<Rightarrow> 'a reader" where
  "failR e bs = Inl e"

definition bindR :: "'a reader \<Rightarrow> ('a \<Rightarrow> 'b reader) \<Rightarrow> 'b reader" where
  "bindR m f bs = (case m bs of Inl e \<Rightarrow> Inl e | Inr (a, bs') \<Rightarrow> f a bs')"

text \<open>A counted loop \<open>for i := 0; i < n; i++\<close> whose body reads one element.\<close>

fun repeatR :: "nat \<Rightarrow> 'a reader \<Rightarrow> 'a list reader" where
  "repeatR 0 m = returnR []"
| "repeatR (Suc n) m = bindR m (\<lambda>x. bindR (repeatR n m) (\<lambda>xs. returnR (x # xs)))"

text \<open>
  \<open>io.ReadFull\<close> on a stream that holds the remaining bytes: \<open>EOF\<close> when nothing could be read,
  \<open>ErrUnexpectedEOF\<close> when only a part could.
\<close>

definition ReadFull :: "nat \<Rightarrow> bytes reader" where
  "ReadFull n bs =
     (if n \<le> length bs then Inr (take n bs, drop n bs)
      else if bs = [] then Inl EOF else Inl ErrUnexpectedEOF)"

lemma bindR_simps [wire_simps]:
  "m bs = Inl e \<Longrightarrow> bindR m f bs = Inl e"
  "m bs = Inr (a, bs') \<Longrightarrow> bindR m f bs = f a bs'"
  by (simp_all add: bindR_def)

lemma returnR_simp [wire_simps]: "returnR a bs = Inr (a, bs)"
  by (simp add: returnR_def)

lemma ReadFull_append [wire_simps]: "length p = n \<Longrightarrow> ReadFull n (p @ rest) = Inr (p, rest)"
  by (simp add: ReadFull_def)

lemma ReadFull_short:
  "length bs < n \<Longrightarrow> ReadFull n bs = Inl (if bs = [] then EOF else ErrUnexpectedEOF)"
  by (simp add: ReadFull_def)

text \<open>
  A reader that never gives back more bytes than it was given; the record scanners terminate
  because of this.
\<close>

lemma ReadFull_length: "ReadFull n bs = Inr (p, rest) \<Longrightarrow> bs = p @ rest \<and> length p = n"
  by (auto simp: ReadFull_def split: if_splits)

section \<open>Writers\<close>

text \<open>
  A sequence of \<open>Put\<close> calls into one \<open>bytes.Buffer\<close>: the bytes are appended in order and the first
  error aborts the sequence (the callers discard the buffer then).
\<close>

fun seqW :: "bytes result list \<Rightarrow> bytes result" where
  "seqW [] = Inr []"
| "seqW (w # ws) =
     (case w of Inl e \<Rightarrow> Inl e
      | Inr b \<Rightarrow> (case seqW ws of Inl e \<Rightarrow> Inl e | Inr bs \<Rightarrow> Inr (b @ bs)))"

lemma seqW_Inr: "seqW (map Inr bss) = Inr (concat bss)"
  by (induction bss) simp_all

lemma seqW_append:
  "seqW (xs @ ys) =
     (case seqW xs of Inl e \<Rightarrow> Inl e
      | Inr b \<Rightarrow> (case seqW ys of Inl e \<Rightarrow> Inl e | Inr bs \<Rightarrow> Inr (b @ bs)))"
  by (induction xs) (auto split: sum.splits)

section \<open>The interface of a wire format\<close>

text \<open>
  \<open>decodes w m x\<close>: the writer \<open>w\<close> succeeds, and on what it wrote, followed by anything, the reader
  \<open>m\<close> returns \<open>x\<close> and leaves exactly what followed.
\<close>

definition decodes :: "bytes result \<Rightarrow> 'a reader \<Rightarrow> 'a \<Rightarrow> bool" where
  "decodes w m x \<longleftrightarrow> (\<exists>bs. w = Inr bs \<and> (\<forall>rest. m (bs @ rest) = Inr (x, rest)))"

lemma decodesI: "w = Inr bs \<Longrightarrow> (\<And>rest. m (bs @ rest) = Inr (x, rest)) \<Longrightarrow> decodes w m x"
  by (auto simp: decodes_def)

lemma decodes_return: "a = b \<Longrightarrow> decodes (seqW []) (returnR a) b"
  by (simp add: decodes_def returnR_def)

lemma decodes_bind:
  assumes "decodes w m a" and "decodes (seqW ws) (f a) b"
  shows "decodes (seqW (w # ws)) (bindR m f) b"
proof -
  obtain x y where x: "w = Inr x" "\<And>rest. m (x @ rest) = Inr (a, rest)"
    and y: "seqW ws = Inr y" "\<And>rest. f a (y @ rest) = Inr (b, rest)"
    using assms by (auto simp: decodes_def)
  then show ?thesis
    by (intro decodesI [where bs = "x @ y"]) (simp_all add: bindR_def)
qed

lemma decodes_map: "decodes w m a \<Longrightarrow> f a = returnR b \<Longrightarrow> decodes w (bindR m f) b"
  by (fastforce simp: decodes_def bindR_def returnR_def)

lemma decodes_raw: "length p = n \<Longrightarrow> decodes (Inr p) (ReadFull n) p"
  by (simp add: decodes_def ReadFull_append)

lemma decodes_last: "decodes w m a \<Longrightarrow> decodes (seqW [w]) m a"
  by (auto simp: decodes_def)

lemma decodes_seqW_append:
  assumes "decodes (seqW ws) m a" and "decodes (seqW vs) (f a) b"
  shows "decodes (seqW (ws @ vs)) (bindR m f) b"
proof -
  obtain x y where "seqW ws = Inr x" "\<And>rest. m (x @ rest) = Inr (a, rest)"
    and "seqW vs = Inr y" "\<And>rest. f a (y @ rest) = Inr (b, rest)"
    using assms by (auto simp: decodes_def)
  then show ?thesis
    by (intro decodesI [where bs = "x @ y"]) (simp_all add: bindR_def seqW_append)
qed

lemma decodes_repeat:
  "(\<And>x. x \<in> set xs \<Longrightarrow> decodes (enc x) m x) \<Longrightarrow>
   decodes (seqW (map enc xs)) (repeatR (length xs) m) xs"
proof (induction xs)
  case Nil
  show ?case using decodes_return [of "[]" "[]"] by simp
next
  case (Cons x xs)
  have "decodes (seqW (map enc xs @ [])) (bindR (repeatR (length xs) m) (\<lambda>xs. returnR (x # xs))) (x # xs)"
    using Cons by (intro decodes_seqW_append [where a = xs] decodes_return) auto
  then have "decodes (seqW (enc x # map enc xs))
      (bindR m (\<lambda>x. bindR (repeatR (length xs) m) (\<lambda>xs. returnR (x # xs)))) (x # xs)"
    using Cons.prems [of x] by (intro decodes_bind [where a = x]) simp_all
  then show ?case by (simp del: seqW.simps)
qed

locale codec =
  fixes enc :: "'a \<Rightarrow> bytes result" and dec :: "'a reader" and wf :: "'a \<Rightarrow> bool"
  assumes roundtrip: "wf x \<Longrightarrow> decodes (enc x) dec x"
begin

lemma enc_total: "wf x \<Longrightarrow> \<exists>bs. enc x = Inr bs"
  using roundtrip by (auto simp: decodes_def)

lemma dec_enc: "wf x \<Longrightarrow> enc x = Inr bs \<Longrightarrow> dec (bs @ rest) = Inr (x, rest)"
  using roundtrip by (fastforce simp: decodes_def)

lemma dec_enc_all: "wf x \<Longrightarrow> enc x = Inr bs \<Longrightarrow> dec bs = Inr (x, [])"
  using dec_enc [where rest = "[]"] by simp

text \<open>No encoding is a proper prefix of another one, so encodings can be told apart in a stream.\<close>

lemma prefix_free:
  assumes "wf x" and "wf y" and "enc x = Inr bs" and "enc y = Inr (bs @ more)"
  shows "x = y \<and> more = []"
proof -
  have "dec (bs @ more) = Inr (x, more)" using assms by (intro dec_enc)
  moreover have "dec (bs @ more) = Inr (y, [])" using assms by (intro dec_enc_all)
  ultimately show ?thesis by simp
qed

lemma enc_inj:
  assumes "wf x" and "wf y" and "enc x = enc y"
  shows "x = y"
  using assms enc_total [of x] prefix_free [of x y _ "[]"] by auto

text \<open>A stream of messages is read back message by message.\<close>

lemma stream_roundtrip:
  assumes "\<And>x. x \<in> set xs \<Longrightarrow> wf x"
  shows "decodes (seqW (map enc xs)) (repeatR (length xs) dec) xs"
  using assms by (intro decodes_repeat roundtrip)

end

text \<open>
  \<open>reads m P\<close>: whatever the stream holds, a value that \<open>m\<close> returns satisfies \<open>P\<close>, and what \<open>m\<close> leaves is
  the rest of the stream behind the bytes it took.
\<close>

definition reads :: "'a reader \<Rightarrow> ('a \<Rightarrow> bool) \<Rightarrow> bool" where
  "reads m P \<longleftrightarrow> (\<forall>bs x rest. m bs = Inr (x, rest) \<longrightarrow> P x \<and> (\<exists>p. bs = p @ rest))"

lemma readsD: "reads m P \<Longrightarrow> m bs = Inr (x, rest) \<Longrightarrow> P x \<and> (\<exists>p. bs = p @ rest)"
  by (simp add: reads_def)

lemma reads_return: "P a \<Longrightarrow> reads (returnR a) P"
  by (simp add: reads_def returnR_def)

lemma reads_fail: "reads (failR e) P"
  by (simp add: reads_def failR_def)

lemma reads_bind:
  assumes "reads m P" and "\<And>a. P a \<Longrightarrow> reads (f a) Q"
  shows "reads (bindR m f) Q"
  unfolding reads_def
proof (intro allI impI)
  fix bs x rest assume "bindR m f bs = Inr (x, rest)"
  then obtain a mid where m: "m bs = Inr (a, mid)" "f a mid = Inr (x, rest)"
    by (auto simp: bindR_def split: sum.splits prod.splits)
  from readsD [OF assms(1) m(1)] obtain p where p: "P a" "bs = p @ mid" by blast
  from readsD [OF assms(2) [OF p(1)] m(2)] p(2) show "Q x \<and> (\<exists>p. bs = p @ rest)" by auto
qed

lemma reads_if: "(c \<Longrightarrow> reads m P) \<Longrightarrow> (\<not> c \<Longrightarrow> reads m' P) \<Longrightarrow> reads (if c then m else m') P"
  by simp

lemma reads_raw: "(\<And>p. length p = n \<Longrightarrow> P p) \<Longrightarrow> reads (ReadFull n) P"
  by (auto simp: reads_def dest!: ReadFull_length)

lemma reads_mono: "reads m P \<Longrightarrow> (\<And>a. P a \<Longrightarrow> Q a) \<Longrightarrow> reads m Q"
  by (auto simp: reads_def)

lemma reads_repeat:
  assumes "reads m P"
  shows "reads (repeatR n m) (\<lambda>xs. length xs = n \<and> (\<forall>x \<in> set xs. P x))"
proof (induction n)
  case 0
  show ?case by (simp add: reads_return)
next
  case (Suc n)
  show ?case by (auto intro!: reads_bind [OF assms] reads_bind [OF Suc] reads_return)
qed

text \<open>A format whose decoder returns nothing but what the encoder accepts.\<close>

locale strict_codec = codec +
  assumes decoded: "reads dec wf"
begin

text \<open>What was decoded from any bytes can be encoded again, and gives the same message back.\<close>

lemma reencode:
  assumes "dec bs = Inr (x, rest)"
  shows "wf x \<and> (\<exists>p. bs = p @ rest) \<and> (\<exists>bs'. enc x = Inr bs' \<and> dec bs' = Inr (x, []))"
proof -
  have x: "wf x" "\<exists>p. bs = p @ rest" using readsD [OF decoded assms] by simp_all
  moreover obtain bs' where "enc x = Inr bs'" using enc_total [OF x(1)] by blast
  ultimately show ?thesis using dec_enc_all by blast
qed

end

section \<open>Binary search\<close>

text \<open>\<open>sort.Search\<close>: the loop of the library, halving the interval \<open>[i, j)\<close>.\<close>

function search_loop :: "(nat \<Rightarrow> bool) \<Rightarrow> nat \<Rightarrow> nat \<Rightarrow> nat" where
  "search_loop f i j =
     (if i < j then
        (let h = (i + j) div 2
         in if \<not> f h then search_loop f (h + 1) j else search_loop f i h)
      else i)"
  by pat_completeness auto
termination
  by (relation "measure (\<lambda>(f, i, j). j - i)") auto

declare search_loop.simps [simp del]

definition sort_Search :: "nat \<Rightarrow> (nat \<Rightarrow> bool) \<Rightarrow> nat" where
  "sort_Search n f = search_loop f 0 n"

text \<open>The loop keeps: the predicate fails below \<open>i\<close> and holds from \<open>j\<close> on.\<close>

definition search_inv :: "(nat \<Rightarrow> bool) \<Rightarrow> nat \<Rightarrow> nat \<Rightarrow> nat \<Rightarrow> bool" where
  "search_inv f n i j \<longleftrightarrow>
     i \<le> j \<and> j \<le> n \<and> (\<forall>k < i. \<not> f k) \<and> (\<forall>k. j \<le> k \<longrightarrow> k < n \<longrightarrow> f k)"

lemma search_inv_step:
  assumes mono: "\<forall>a b. a \<le> b \<longrightarrow> b < n \<longrightarrow> f a \<longrightarrow> f b"
    and "search_inv f n i j" and "i < j"
  shows "f ((i + j) div 2) \<Longrightarrow> search_inv f n i ((i + j) div 2)"
    and "\<not> f ((i + j) div 2) \<Longrightarrow> search_inv f n ((i + j) div 2 + 1) j"
proof -
  let ?h = "(i + j) div 2"
  have h: "i \<le> ?h" "?h < j" "?h < n" using assms(2,3) by (auto simp: search_inv_def)
  show "search_inv f n i ?h" if "f ?h"
    using that h mono assms(2) unfolding search_inv_def by (metis less_imp_le)
  show "search_inv f n (?h + 1) j" if nf: "\<not> f ?h"
  proof -
    have "\<not> f k" if "k < ?h + 1" for k
      using that nf h mono by (metis Suc_eq_plus1 less_Suc_eq_le)
    then show ?thesis using h assms(2) by (auto simp: search_inv_def)
  qed
qed

lemma search_loop_spec:
  assumes mono: "\<forall>a b. a \<le> b \<longrightarrow> b < n \<longrightarrow> f a \<longrightarrow> f b"
  shows "search_inv f n i j \<Longrightarrow> search_inv f n (search_loop f i j) (search_loop f i j)"
  using mono
proof (induction f i j rule: search_loop.induct)
  case (1 f i j)
  show ?case
  proof (cases "i < j")
    case lt: True
    note steps = search_inv_step [OF 1(4,3) lt]
    show ?thesis
    proof (cases "f ((i + j) div 2)")
      case True
      with lt have "search_loop f i j = search_loop f i ((i + j) div 2)"
        by (simp add: search_loop.simps [of f i j])
      with True show ?thesis using 1(2) [OF lt refl _ steps(1) 1(4)] by simp
    next
      case False
      with lt have "search_loop f i j = search_loop f ((i + j) div 2 + 1) j"
        by (simp add: search_loop.simps [of f i j])
      with False show ?thesis using 1(1) [OF lt refl _ steps(2) 1(4)] by simp
    qed
  next
    case False
    then have "search_loop f i j = i" by (simp add: search_loop.simps [of f i j])
    with False show ?thesis using 1(3) by (auto simp: search_inv_def)
  qed
qed

lemma sort_Search_spec:
  assumes "\<forall>a b. a \<le> b \<longrightarrow> b < n \<longrightarrow> f a \<longrightarrow> f b"
  shows "sort_Search n f \<le> n"
    and "k < sort_Search n f \<Longrightarrow> \<not> f k"
    and "sort_Search n f \<le> k \<Longrightarrow> k < n \<Longrightarrow> f k"
proof -
  have "search_inv f n (sort_Search n f) (sort_Search n f)"
    unfolding sort_Search_def by (rule search_loop_spec [OF assms]) (simp add: search_inv_def)
  then show "sort_Search n f \<le> n"
    and "k < sort_Search n f \<Longrightarrow> \<not> f k"
    and "sort_Search n f \<le> k \<Longrightarrow> k < n \<Longrightarrow> f k"
    by (simp_all add: search_inv_def)
qed

section \<open>Files and buffered writers\<close>

text \<open>An \<open>os.File\<close> opened for reading and writing: its bytes and the cursor of \<open>Write\<close>.\<close>

record osfile =
  fdata :: bytes
  fpos :: nat

definition file_Write :: "osfile \<Rightarrow> bytes \<Rightarrow> osfile" where
  "file_Write f p =
     \<lparr>fdata = take (fpos f) (fdata f @ replicate (fpos f - length (fdata f)) 0) @ p
               @ drop (fpos f + length p) (fdata f),
      fpos = fpos f + length p\<rparr>"

definition file_Truncate :: "nat \<Rightarrow> bytes \<Rightarrow> bytes" where
  "file_Truncate n d = take n d @ replicate (n - length d) 0"

definition at_end :: "osfile \<Rightarrow> bool" where
  "at_end f \<longleftrightarrow> fpos f = length (fdata f)"

lemma file_Write_at_end:
  "at_end f \<Longrightarrow> fdata (file_Write f p) = fdata f @ p \<and> at_end (file_Write f p)"
  by (simp add: file_Write_def at_end_def)

text \<open>
  \<open>bufio.Writer\<close>: a write that does not fit fills the buffer and flushes it, or goes straight to the
  file when the buffer is empty; the rest stays in the buffer.
\<close>

record bufwriter =
  wfile :: osfile
  wbuf :: bytes

definition bufio_Flush :: "bufwriter \<Rightarrow> bufwriter" where
  "bufio_Flush w =
     (if wbuf w = [] then w else w\<lparr>wfile := file_Write (wfile w) (wbuf w), wbuf := []\<rparr>)"

function bufio_Write :: "nat \<Rightarrow> bufwriter \<Rightarrow> bytes \<Rightarrow> bufwriter" where
  "bufio_Write cap w p =
     (if cap - length (wbuf w) < length p then
        (if wbuf w = [] then bufio_Write cap (w\<lparr>wfile := file_Write (wfile w) p\<rparr>) []
         else
           (let n = cap - length (wbuf w)
            in bufio_Write cap (bufio_Flush (w\<lparr>wbuf := wbuf w @ take n p\<rparr>)) (drop n p)))
      else w\<lparr>wbuf := wbuf w @ p\<rparr>)"
  by pat_completeness auto
termination
  by (relation "measure (\<lambda>(cap, w, p). 2 * length p + (if wbuf w = [] then 0 else 1))")
     (auto simp: bufio_Flush_def)

declare bufio_Write.simps [simp del]

text \<open>Everything handed to the writer, flushed or not.\<close>

definition written :: "bufwriter \<Rightarrow> bytes" where
  "written w = fdata (wfile w) @ wbuf w"

lemma bufio_Flush_written:
  "at_end (wfile w) \<Longrightarrow>
   fdata (wfile (bufio_Flush w)) = written w \<and> wbuf (bufio_Flush w) = [] \<and>
   at_end (wfile (bufio_Flush w))"
  by (auto simp: bufio_Flush_def written_def file_Write_at_end)

lemma bufio_Write_written:
  "at_end (wfile w) \<Longrightarrow>
   written (bufio_Write cap w p) = written w @ p \<and> at_end (wfile (bufio_Write cap w p))"
proof (induction cap w p rule: bufio_Write.induct)
  case (1 cap w p)
  let ?n = "cap - length (wbuf w)"
  let ?v = "bufio_Flush (w\<lparr>wbuf := wbuf w @ take ?n p\<rparr>)"
  have v: "at_end (wfile ?v)" "written ?v = written w @ take ?n p"
    using bufio_Flush_written [of "w\<lparr>wbuf := wbuf w @ take ?n p\<rparr>"] 1(3)
    by (simp_all add: written_def)
  consider (direct) "?n < length p" "wbuf w = []" | (flush) "?n < length p" "wbuf w \<noteq> []"
    | (fits) "\<not> ?n < length p" by blast
  then show ?case
  proof cases
    case direct
    then show ?thesis using 1(1) 1(3) file_Write_at_end [of "wfile w" p]
      by (simp add: bufio_Write.simps [of cap w p] written_def)
  next
    case flush
    then show ?thesis using 1(2) [OF _ _ refl] v
      by (simp add: bufio_Write.simps [of cap w p] Let_def)
  next
    case fits
    then show ?thesis using 1(3) by (simp add: bufio_Write.simps [of cap w p] written_def)
  qed
qed

section \<open>Hashes\<close>

unbundle bit_operations_syntax

text \<open>\<open>crc32.Checksum\<close> with the Castagnoli table, one table entry being eight shifts.\<close>

definition castagnoli :: "32 word" where
  "castagnoli = 0x82f63b78"

definition crc_bit :: "32 word \<Rightarrow> 32 word" where
  "crc_bit c = (if c AND 1 = 1 then drop_bit 1 c XOR castagnoli else drop_bit 1 c)"

definition crc_table :: "byte \<Rightarrow> 32 word" where
  "crc_table i =
     crc_bit (crc_bit (crc_bit (crc_bit (crc_bit (crc_bit (crc_bit (crc_bit (ucast i))))))))"

definition crc_step :: "32 word \<Rightarrow> byte \<Rightarrow> 32 word" where
  "crc_step c b = crc_table (ucast c XOR b) XOR drop_bit 8 c"

definition crc32_Checksum :: "bytes \<Rightarrow> 32 word" where
  "crc32_Checksum bs = NOT (foldl crc_step (NOT 0) bs)"

text \<open>\<open>fnv.New32a\<close> followed by one \<open>Write\<close> and \<open>Sum32\<close>.\<close>

definition fnv32a :: "bytes \<Rightarrow> 32 word" where
  "fnv32a bs = foldl (\<lambda>h b. (h XOR ucast b) * 16777619) 2166136261 bs"

text \<open>Evaluation from the inside out, on numerals only.\<close>

lemma crc_eval:
  "crc_bit (numeral n) =
     (if (numeral n :: 32 word) AND 1 = 1 then drop_bit 1 (numeral n) XOR 0x82f63b78
      else drop_bit 1 (numeral n))"
  "crc_bit 0 = 0" "crc_bit 1 = 0x82f63b78"
  "crc_step (numeral n) b = crc_table (ucast (numeral n :: 32 word) XOR b) XOR drop_bit 8 (numeral n)"
  "crc_step (- 1) b = crc_table (255 XOR b) XOR 0xffffff"
proof -
  have "ucast (- 1 :: 32 word) = (255 :: byte)" and "drop_bit 8 (- 1 :: 32 word) = 0xffffff"
    by code_simp+
  then show "crc_step (- 1) b = crc_table (255 XOR b) XOR 0xffffff"
    by (simp add: crc_step_def)
qed (simp_all add: crc_bit_def crc_step_def castagnoli_def)

text \<open>The check value of CRC-32C, the checksum of the ASCII digits 1 to 9.\<close>

lemma crc32_check_value:
  "crc32_Checksum [0x31, 0x32, 0x33, 0x34, 0x35, 0x36, 0x37, 0x38, 0x39] = 0xe3069283"
  by (simp add: crc32_Checksum_def crc_eval crc_table_def)

section \<open>Strings\<close>

text \<open>A Go string is a sequence of bytes: \<open>[]byte(s)\<close> and \<open>string(b)\<close>.\<close>

definition bytes_of :: "string \<Rightarrow> bytes" where
  "bytes_of s = map of_char s"

definition string_of :: "bytes \<Rightarrow> string" where
  "string_of bs = map (\<lambda>b. char_of (unat b)) bs"

lemma length_bytes_of [simp, size_simps]: "length (bytes_of s) = length s"
  by (simp add: bytes_of_def)

lemma string_of_bytes_of [simp]: "string_of (bytes_of s) = s"
proof -
  have "unat (of_char c :: byte) = of_char c" for c
    using nat_of_char_less_256 [of c] by (simp flip: of_nat_of_char [where 'a = byte] add: unat_of_nat)
  then show ?thesis by (simp add: bytes_of_def string_of_def comp_def map_idI)
qed

section \<open>Decimal numbers\<close>

text \<open>\<open>strconv.Itoa\<close> and the verbs \<open>%d\<close> and \<open>%020d\<close> of \<open>fmt\<close>.\<close>

definition digit_char :: "nat \<Rightarrow> char" where
  "digit_char d = char_of (48 + d)"

fun digits :: "nat \<Rightarrow> string" where
  "digits n = (if n < 10 then [digit_char n] else digits (n div 10) @ [digit_char (n mod 10)])"

declare digits.simps [simp del]

definition itoa :: "int \<Rightarrow> string" where
  "itoa i = (if i < 0 then CHR ''-'' # digits (nat (- i)) else digits (nat i))"

definition zero_pad :: "nat \<Rightarrow> string \<Rightarrow> string" where
  "zero_pad w s = replicate (w - length s) (CHR ''0'') @ s"

definition sprintf_020d :: "int \<Rightarrow> string" where
  "sprintf_020d i =
     (if i < 0 then CHR ''-'' # zero_pad 19 (digits (nat (- i))) else zero_pad 20 (digits (nat i)))"

text \<open>\<open>strconv.ParseInt(s, 10, 64)\<close>, with \<open>None\<close> for a syntax or range error.\<close>

definition char_digit :: "char \<Rightarrow> nat option" where
  "char_digit c = (if 48 \<le> (of_char c :: nat) \<and> (of_char c :: nat) \<le> 57 then Some (of_char c - 48) else None)"

fun parse_digits :: "nat \<Rightarrow> string \<Rightarrow> nat option" where
  "parse_digits acc [] = Some acc"
| "parse_digits acc (c # cs) =
     (case char_digit c of None \<Rightarrow> None | Some d \<Rightarrow> parse_digits (acc * 10 + d) cs)"

definition ParseInt :: "string \<Rightarrow> int option" where
  "ParseInt s =
     (let neg = (s \<noteq> [] \<and> hd s = CHR ''-'');
          body = (if s \<noteq> [] \<and> (hd s = CHR ''-'' \<or> hd s = CHR ''+'') then tl s else s)
      in if body = [] then None
         else (case parse_digits 0 body of
                 None \<Rightarrow> None
               | Some n \<Rightarrow> (let i = (if neg then - int n else int n) in if in_s 64 i then Some i else None)))"

lemma char_digit_digit [simp]: "d < 10 \<Longrightarrow> char_digit (digit_char d) = Some d"
  by (simp add: char_digit_def digit_char_def)

lemma parse_digits_append:
  "parse_digits acc (s @ t) = (case parse_digits acc s of None \<Rightarrow> None | Some a \<Rightarrow> parse_digits a t)"
  by (induction s arbitrary: acc) (simp_all split: option.split)

lemma parse_digits_digits: "parse_digits 0 (digits n) = Some n"
proof (induction n rule: digits.induct)
  case (1 n)
  show ?case
  proof (cases "n < 10")
    case True
    then show ?thesis by (simp add: digits.simps [of n])
  next
    case False
    then have "parse_digits 0 (digits (n div 10)) = Some (n div 10)" by (rule 1)
    then show ?thesis using False by (simp add: digits.simps [of n] parse_digits_append)
  qed
qed

lemma parse_digits_zeros: "parse_digits 0 (replicate k (CHR ''0'') @ s) = parse_digits 0 s"
proof (induction k)
  case (Suc k)
  have "char_digit (CHR ''0'') = Some 0" by (simp add: char_digit_def)
  then show ?case using Suc by simp
qed simp

lemma length_digits: "n < 10 ^ k \<Longrightarrow> 0 < k \<Longrightarrow> length (digits n) \<le> k"
proof (induction k arbitrary: n)
  case (Suc k)
  show ?case
  proof (cases "n < 10")
    case False
    then have "0 < k" using Suc.prems by (cases k) simp_all
    moreover have "n div 10 < 10 ^ k" using Suc.prems by (simp add: less_mult_imp_div_less)
    ultimately show ?thesis using Suc.IH [of "n div 10"] False by (simp add: digits.simps [of n])
  qed (simp add: digits.simps [of n])
qed simp

lemma set_digits: "c \<in> set (digits n) \<Longrightarrow> \<exists>d < 10. c = digit_char d"
proof (induction n rule: digits.induct)
  case (1 n)
  then show ?case by (cases "n < 10") (auto simp: digits.simps [of n] intro: exI [of _ "n mod 10"])
qed

lemma digits_not_Nil [simp]: "digits n \<noteq> []"
  by (simp add: digits.simps [of n])

text \<open>A non-negative 64-bit number is printed on exactly twenty digits and parsed back.\<close>

lemma length_sprintf_020d:
  assumes "0 \<le> i" and "in_s 64 i"
  shows "length (sprintf_020d i) = 20"
proof -
  have "nat i < 10 ^ 20" using assms by (simp add: in_s_def)
  then have "length (digits (nat i)) \<le> 20" by (rule length_digits) simp
  then show ?thesis using assms(1) by (simp add: sprintf_020d_def zero_pad_def)
qed

lemma digits_no_sign: "c \<in> set (digits n) \<Longrightarrow> c \<noteq> CHR ''-'' \<and> c \<noteq> CHR ''+''"
proof -
  assume "c \<in> set (digits n)"
  then have "char_digit c \<noteq> None" using set_digits by force
  moreover have "char_digit (CHR ''-'') = None" "char_digit (CHR ''+'') = None"
    by (simp_all add: char_digit_def)
  ultimately show ?thesis by metis
qed

lemma ParseInt_itoa:
  assumes "0 \<le> i" and "in_s 64 i"
  shows "ParseInt (itoa i) = Some i"
proof -
  have "hd (digits (nat i)) \<in> set (digits (nat i))" by (rule hd_in_set) simp
  then have "hd (digits (nat i)) \<noteq> CHR ''-'' \<and> hd (digits (nat i)) \<noteq> CHR ''+''" by (rule digits_no_sign)
  then show ?thesis using assms by (simp add: ParseInt_def itoa_def Let_def parse_digits_digits)
qed

lemma ParseInt_sprintf_020d:
  assumes "0 \<le> i" and "in_s 64 i"
  shows "ParseInt (sprintf_020d i) = Some i"
proof -
  let ?s = "zero_pad 20 (digits (nat i))"
  have sign: "c \<noteq> CHR ''-'' \<and> c \<noteq> CHR ''+''" if "c \<in> set ?s" for c
  proof -
    have "c = CHR ''0'' \<or> c \<in> set (digits (nat i))"
      using that by (auto simp: zero_pad_def split: if_split_asm)
    then show ?thesis using digits_no_sign by auto
  qed
  have ne: "?s \<noteq> []" by (simp add: zero_pad_def)
  have "parse_digits 0 ?s = Some (nat i)"
    by (simp add: zero_pad_def parse_digits_zeros parse_digits_digits)
  then show ?thesis
    using assms ne sign [OF hd_in_set [OF ne]] by (simp add: ParseInt_def sprintf_020d_def Let_def)
qed

lemma digits_inj: "digits m = digits n \<Longrightarrow> m = n"
  by (metis option.inject parse_digits_digits)

lemma itoa_inj:
  assumes "itoa i = itoa j"
  shows "i = j"
proof -
  have sign: "CHR ''-'' \<notin> set (digits n)" for n using digits_no_sign by blast
  have ne: "digits n \<noteq> CHR ''-'' # digits m" for m n using sign [of n] by (metis list.set_intros(1))
  show ?thesis using assms by (cases "i < 0"; cases "j < 0") (auto simp: itoa_def ne ne [symmetric] dest!: digits_inj)
qed

end
