(* ===== verification/RecordFmt.thy ===== *)
theory RecordFmt
  imports GoLib
begin

text \<open>
  The record format, \<^verbatim>\<open>internal/storage/record.go\<close>: the record type, its encoded size, the encoder
  and the decoder, and the format's laws: round trip in any stream, detection of every change of the
  checksum, and progress of the decoder.

  A \<open>nil\<close> key or value is \<^term>\<open>None\<close>; \<open>Encode\<close> writes into a buffer that does not fail.
\<close>

section \<open>The record and its size\<close>

definition MaxRecordSize :: nat where
  "MaxRecordSize = 1048576"

record Record =
  Offset :: int
  Timestamp :: int
  Attributes :: int
  Key :: "bytes option"
  Value :: "bytes option"

definition opt_len :: "bytes option \<Rightarrow> nat" where
  "opt_len b = (case b of None \<Rightarrow> 0 | Some x \<Rightarrow> length x)"

definition EncodedSize :: "Record \<Rightarrow> nat" where
  "EncodedSize r =
     (let size = 4 + 8 + 8 + 4 + 1;
          size = size + 4;
          size = (case Key r of None \<Rightarrow> size | Some k \<Rightarrow> size + length k);
          size = size + 4
      in (case Value r of None \<Rightarrow> size | Some v \<Rightarrow> size + length v))"

lemma EncodedSize_eq: "EncodedSize r = 33 + opt_len (Key r) + opt_len (Value r)"
  by (simp add: EncodedSize_def opt_len_def split: option.split)

section \<open>Encoding\<close>

text \<open>A nullable payload: its length, or all ones for \<open>nil\<close>, and its bytes.\<close>

definition put_payload :: "bytes option \<Rightarrow> bytes" where
  "put_payload b =
     (case b of None \<Rightarrow> be_put 4 (2 ^ 32 - 1) | Some x \<Rightarrow> be_put 4 (int (length x)) @ x)"

text \<open>The region covered by the checksum: attributes, key and value.\<close>

definition record_body :: "Record \<Rightarrow> bytes" where
  "record_body r = be_put 1 (Attributes r) @ put_payload (Key r) @ put_payload (Value r)"

definition Record_Encode :: "Record \<Rightarrow> bytes result" where
  "Record_Encode r =
     (let total = EncodedSize r
      in if MaxRecordSize < total then Inl ErrRecordTooLarge
         else Inr (be_put 4 (int total - 4) @ be_put 8 (Offset r) @ be_put 8 (Timestamp r)
                   @ be_put 4 (uint (crc32_Checksum (record_body r))) @ record_body r))"

section \<open>Decoding\<close>

text \<open>
  A nullable payload read from position \<open>off\<close> of the record's bytes: the value and the position
  after it.
\<close>

definition get_payload :: "bytes \<Rightarrow> nat \<Rightarrow> (bytes option \<times> nat) result" where
  "get_payload payload off =
     (if length payload < off + 4 then Inl ErrUnexpectedEOF
      else
        (let len = int32 (be_get (take 4 (drop off payload))); off = off + 4
         in if len = -1 then Inr (None, off)
            else if len < 0 then Inl ErrCorruptRecord
            else if length payload < off + nat len then Inl ErrUnexpectedEOF
            else Inr (Some (take (nat len) (drop off payload)), off + nat len)))"

text \<open>
  \<open>DecodeRecord\<close> returns the record, the number of bytes consumed and the rest of the stream, or the
  error with the number of bytes consumed before it.
\<close>

definition DecodeRecord :: "bytes \<Rightarrow> (go_error \<times> nat) + (Record \<times> nat \<times> bytes)" where
  "DecodeRecord bs =
     (case ReadFull 4 bs of
        Inl e \<Rightarrow> Inl (e, 0)
      | Inr (lenBuf, rest) \<Rightarrow>
          (let length_field = int32 (be_get lenBuf)
           in if length_field < 0 then Inl (ErrCorruptRecord, 4)
              else if int MaxRecordSize < length_field then Inl (ErrRecordTooLarge, 4)
              else
                (case ReadFull (nat length_field) rest of
                   Inl e \<Rightarrow> Inl (e, 4)
                 | Inr (payload, rest') \<Rightarrow>
                     (let read = 4 + length payload
                      in if length payload < 8 + 8 + 4 + 1 + 4 + 4 then Inl (ErrUnexpectedEOF, read)
                         else
                           (let off = int64 (be_get (take 8 payload));
                                ts = int64 (be_get (take 8 (drop 8 payload)));
                                checksum = be_get (take 4 (drop 16 payload))
                            in if uint (crc32_Checksum (drop 20 payload)) \<noteq> checksum
                               then Inl (ErrCorruptRecord, read)
                               else
                                 (let attrs = int8 (be_get (take 1 (drop 20 payload)))
                                  in case get_payload payload 21 of
                                       Inl e \<Rightarrow> Inl (e, read)
                                     | Inr (key, p) \<Rightarrow>
                                         (case get_payload payload p of
                                            Inl e \<Rightarrow> Inl (e, read)
                                          | Inr (val, _) \<Rightarrow>
                                              Inr (\<lparr>Offset = off, Timestamp = ts, Attributes = attrs,
                                                    Key = key, Value = val\<rparr>, read, rest'))))))))"

section \<open>Well-formed records\<close>

text \<open>
  The fields of a Go record have their widths, and its encoding is within the limit (otherwise
  \<open>Encode\<close> refuses it).
\<close>

definition typed_record :: "Record \<Rightarrow> bool" where
  "typed_record r \<longleftrightarrow> in_s 64 (Offset r) \<and> in_s 64 (Timestamp r) \<and> in_s 8 (Attributes r)"

definition wf_record :: "Record \<Rightarrow> bool" where
  "wf_record r \<longleftrightarrow> typed_record r \<and> EncodedSize r \<le> MaxRecordSize"

text \<open>The encoding of a record within the limit.\<close>

definition enc :: "Record \<Rightarrow> bytes" where
  "enc r = be_put 4 (int (EncodedSize r) - 4) @ be_put 8 (Offset r) @ be_put 8 (Timestamp r)
           @ be_put 4 (uint (crc32_Checksum (record_body r))) @ record_body r"

lemma Record_Encode_wf: "wf_record r \<Longrightarrow> Record_Encode r = Inr (enc r)"
  by (simp add: Record_Encode_def wf_record_def enc_def)

lemma length_put_payload [size_simps]: "length (put_payload b) = 4 + opt_len b"
  by (simp add: put_payload_def opt_len_def split: option.split)

lemma length_record_body [size_simps]: "length (record_body r) = EncodedSize r - 24"
  by (simp add: record_body_def EncodedSize_eq length_put_payload)

lemma length_enc [simp, size_simps]: "length (enc r) = EncodedSize r"
  by (simp add: enc_def length_record_body) (simp add: EncodedSize_eq)

lemma EncodedSize_ge: "33 \<le> EncodedSize r"
  by (simp add: EncodedSize_eq)

lemma EncodedSize_Offset [simp]: "EncodedSize (r\<lparr>Offset := x\<rparr>) = EncodedSize r"
  by (simp add: EncodedSize_eq)

lemma enc_not_Nil [simp]: "enc r \<noteq> []"
  using length_enc [of r] EncodedSize_ge [of r] by (metis list.size(3) not_numeral_le_zero)

section \<open>The round trip\<close>

lemma get_payload_put:
  assumes "opt_len b < 2 ^ 31" and "payload = pre @ put_payload b @ post" and "length pre = off"
  shows "get_payload payload off = Inr (b, off + 4 + opt_len b)"
proof (cases b)
  case None
  have "int32 (be_get (be_put 4 (2 ^ 32 - 1))) = -1"
    by (simp add: be_get_be_put wrap_s_def)
  then show ?thesis using assms None
    by (simp add: get_payload_def put_payload_def opt_len_def)
next
  case (Some x)
  then have "int32 (be_get (be_put 4 (int (length x)))) = int (length x)"
    using be_signed_roundtrip [of 4 "int (length x)"] assms(1)
    by (simp add: opt_len_def in_s_def)
  then show ?thesis using assms Some
    by (simp add: get_payload_def put_payload_def opt_len_def)
qed

lemma DecodeRecord_enc_le:
  assumes wf: "typed_record r" and "EncodedSize r \<le> MaxRecordSize + 4"
  shows "DecodeRecord (enc r @ rest) = Inr (r, EncodedSize r, rest)"
proof -
  let ?b = "record_body r"
  let ?c = "be_put 4 (uint (crc32_Checksum ?b))"
  let ?payload = "be_put 8 (Offset r) @ be_put 8 (Timestamp r) @ ?c @ ?b"
  have size: "33 \<le> EncodedSize r" "EncodedSize r \<le> 1048580"
    using assms(2) EncodedSize_ge by (auto simp: MaxRecordSize_def)
  have small: "opt_len (Key r) < 2 ^ 31" "opt_len (Value r) < 2 ^ 31"
    using size by (auto simp: EncodedSize_eq)
  have len: "length ?payload = EncodedSize r - 4"
    using size by (simp add: length_record_body)
  have field: "int32 (be_get (be_put 4 (int (EncodedSize r) - 4))) = int (EncodedSize r) - 4"
    using size by (intro be_signed_roundtrip [of 4, simplified]) (simp add: in_s_def)
  have ints: "int64 (be_get (be_put 8 (Offset r))) = Offset r"
    "int64 (be_get (be_put 8 (Timestamp r))) = Timestamp r"
    "int8 (be_get (be_put 1 (Attributes r))) = Attributes r"
    using wf be_signed_roundtrip [of 8 "Offset r"] be_signed_roundtrip [of 8 "Timestamp r"]
      be_signed_roundtrip [of 1 "Attributes r"] by (simp_all add: typed_record_def)
  have crc: "be_get ?c = uint (crc32_Checksum ?b)"
    using uint_lt2p [of "crc32_Checksum ?b"] by (intro be_unsigned_roundtrip) simp_all
  have key: "get_payload ?payload 21 = Inr (Key r, 25 + opt_len (Key r))"
    using get_payload_put [OF small(1), of ?payload
        "be_put 8 (Offset r) @ be_put 8 (Timestamp r) @ ?c @ be_put 1 (Attributes r)"
        "put_payload (Value r)" 21]
    by (simp add: record_body_def)
  have val: "get_payload ?payload (25 + opt_len (Key r)) =
      Inr (Value r, 29 + opt_len (Key r) + opt_len (Value r))"
    using get_payload_put [OF small(2), of ?payload
        "be_put 8 (Offset r) @ be_put 8 (Timestamp r) @ ?c @ be_put 1 (Attributes r) @ put_payload (Key r)"
        "[]" "25 + opt_len (Key r)"]
    by (simp add: record_body_def length_put_payload)
  have attrs: "take 1 (record_body r) = be_put 1 (Attributes r)"
    by (simp add: record_body_def)
  have read: "ReadFull 4 (enc r @ rest) = Inr (be_put 4 (int (EncodedSize r) - 4), ?payload @ rest)"
    unfolding enc_def by (simp add: ReadFull_def)
  have read': "ReadFull (nat (int (EncodedSize r) - 4)) (?payload @ rest) = Inr (?payload, rest)"
    using len size by (intro ReadFull_append) simp
  show ?thesis
    unfolding DecodeRecord_def
    using size len ints(3)
    by (auto simp: read read' field ints crc key val attrs Let_def MaxRecordSize_def
          simp del: append_assoc be_put.simps One_nat_def)
qed

lemma DecodeRecord_enc: "wf_record r \<Longrightarrow> DecodeRecord (enc r @ rest) = Inr (r, EncodedSize r, rest)"
  by (rule DecodeRecord_enc_le) (simp_all add: wf_record_def)

section \<open>What the decoder accepts\<close>

text \<open>
  A decoded record is typed, the decoder consumed at least a minimal record, and what it leaves is
  the rest of the stream behind the bytes it counted.
\<close>

lemma get_payload_Inr:
  assumes "get_payload payload off = Inr (b, p)"
  shows "p = off + 4 + opt_len b" and "p \<le> length payload"
  using assms by (auto simp: get_payload_def opt_len_def Let_def split: if_splits)

lemma DecodeRecord_Inr:
  assumes "DecodeRecord bs = Inr (r, n, rest)"
  shows "bs = take n bs @ rest" and "n + length rest = length bs" and "33 \<le> n"
    and "EncodedSize r \<le> n" and "n \<le> MaxRecordSize + 4" and "typed_record r"
proof -
  obtain lenBuf rest0 payload key p val q where
    r0: "ReadFull 4 bs = Inr (lenBuf, rest0)" and
    small: "int32 (be_get lenBuf) \<le> int MaxRecordSize" and
    r1: "ReadFull (nat (int32 (be_get lenBuf))) rest0 = Inr (payload, rest)" and
    min: "29 \<le> length payload" and
    key: "get_payload payload 21 = Inr (key, p)" and
    val: "get_payload payload p = Inr (val, q)" and
    r: "r = \<lparr>Offset = int64 (be_get (take 8 payload)),
             Timestamp = int64 (be_get (take 8 (drop 8 payload))),
             Attributes = int8 (be_get (take 1 (drop 20 payload))), Key = key, Value = val\<rparr>" and
    n: "n = 4 + length payload"
    using assms unfolding DecodeRecord_def
    by (auto simp: Let_def not_less split: sum.splits prod.splits if_splits)
  note f0 = ReadFull_length [OF r0] and f1 = ReadFull_length [OF r1]
  note k = get_payload_Inr [OF key] and v = get_payload_Inr [OF val]
  have split: "bs = (lenBuf @ payload) @ rest" "length (lenBuf @ payload) = n"
    using f0 f1 n by simp_all
  then show "bs = take n bs @ rest" and "n + length rest = length bs" and "33 \<le> n"
    using min n by auto
  show "EncodedSize r \<le> n" using k v n r by (simp add: EncodedSize_eq)
  show "n \<le> MaxRecordSize + 4" using small f1 n by simp
  show "typed_record r" unfolding typed_record_def r by (simp add: in_s_wrap_s)
qed

lemma DecodeRecord_shrinks:
  "DecodeRecord bs = Inr (r, n, rest) \<Longrightarrow> length rest < length bs"
  using DecodeRecord_Inr(2,3) [of bs r n rest] by linarith

lemma DecodeRecord_short: "length bs < 33 \<Longrightarrow> \<exists>e. DecodeRecord bs = Inl e"
  using DecodeRecord_Inr(2,3) [of bs] by (cases "DecodeRecord bs") fastforce+

lemma DecodeRecord_Nil [simp]: "DecodeRecord [] = Inl (EOF, 0)"
  by (simp add: DecodeRecord_def ReadFull_def)

text \<open>A proper prefix of an encoded record is refused as truncated: a torn write is noticed.\<close>

lemma DecodeRecord_torn:
  assumes "wf_record r" and "k < EncodedSize r" and "0 < k"
  shows "\<exists>n. DecodeRecord (take k (enc r)) = Inl ((if k = 4 then EOF else ErrUnexpectedEOF), n)"
proof (cases "k < 4")
  case True
  moreover have "length (take k (enc r)) = k" using assms by simp
  moreover from this have "take k (enc r) \<noteq> []" using assms(3) by (metis list.size(3) less_irrefl)
  ultimately show ?thesis by (auto simp: DecodeRecord_def ReadFull_short)
next
  case False
  let ?L = "be_put 4 (int (EncodedSize r) - 4)"
  let ?p = "drop 4 (enc r)"
  have size: "33 \<le> EncodedSize r" "EncodedSize r \<le> 1048576"
    using assms EncodedSize_ge by (auto simp: wf_record_def MaxRecordSize_def)
  have cut: "take k (enc r) = ?L @ take (k - 4) ?p"
    using False by (simp add: enc_def)
  have field: "int32 (be_get ?L) = int (EncodedSize r) - 4"
    using size by (intro be_signed_roundtrip [of 4, simplified]) (simp add: in_s_def)
  have "length (take (k - 4) ?p) = k - 4" using assms(2) False by simp
  then have "ReadFull (nat (int (EncodedSize r) - 4)) (take (k - 4) ?p) =
      Inl (if k = 4 then EOF else ErrUnexpectedEOF)"
    using assms(2) size False by (subst ReadFull_short) auto
  then show ?thesis
    using size unfolding cut by (simp add: DecodeRecord_def ReadFull_append field MaxRecordSize_def)
qed

text \<open>
  The bytes from the attributes on are protected by the checksum: when they are replaced by others of
  the same length with a different checksum, the decoder reports corruption.
\<close>

lemma DecodeRecord_corrupt:
  assumes wf: "wf_record r" and len: "length body = length (record_body r)"
    and crc: "crc32_Checksum body \<noteq> crc32_Checksum (record_body r)"
  shows "DecodeRecord (take 24 (enc r) @ body @ rest) = Inl (ErrCorruptRecord, EncodedSize r)"
proof -
  let ?c = "be_put 4 (uint (crc32_Checksum (record_body r)))"
  let ?h = "be_put 8 (Offset r) @ be_put 8 (Timestamp r) @ ?c"
  have size: "33 \<le> EncodedSize r" "EncodedSize r \<le> 1048576"
    using wf EncodedSize_ge by (auto simp: wf_record_def MaxRecordSize_def)
  have split: "take 24 (enc r) @ body @ rest
      = be_put 4 (int (EncodedSize r) - 4) @ (?h @ body) @ rest"
    by (simp add: enc_def)
  have plen: "length (?h @ body) = EncodedSize r - 4"
    using len size by (simp add: length_record_body)
  have field: "int32 (be_get (be_put 4 (int (EncodedSize r) - 4))) = int (EncodedSize r) - 4"
    using size by (intro be_signed_roundtrip [of 4, simplified]) (simp add: in_s_def)
  have sum: "be_get ?c = uint (crc32_Checksum (record_body r))"
    using uint_lt2p [of "crc32_Checksum (record_body r)"] by (intro be_unsigned_roundtrip) simp_all
  have "ReadFull (nat (int (EncodedSize r) - 4)) ((?h @ body) @ rest) = Inr (?h @ body, rest)"
    using plen size by (intro ReadFull_append) simp
  moreover have "\<not> length (?h @ body) < 29" and "4 + length (?h @ body) = EncodedSize r"
    using plen size by simp_all
  moreover have "uint (crc32_Checksum (drop 20 (?h @ body))) \<noteq> be_get (take 4 (drop 16 (?h @ body)))"
    using crc by (simp add: sum flip: word_uint_eq_iff)
  ultimately show ?thesis
    using size unfolding split
    by (simp add: DecodeRecord_def ReadFull_append field MaxRecordSize_def Let_def
          del: append_assoc length_append drop_append take_append)
qed

section \<open>Sequences of records\<close>

text \<open>
  Every reader of a log file or of a record set decodes record after record until an error. The bytes
  of a sequence of records:
\<close>

definition encs :: "Record list \<Rightarrow> bytes" where
  "encs rs = concat (map enc rs)"

lemma encs_simps [simp]:
  "encs [] = []" "encs (r # rs) = enc r @ encs rs" "encs (rs @ rs') = encs rs @ encs rs'"
  by (simp_all add: encs_def)

lemma length_encs: "length (encs rs) = sum_list (map EncodedSize rs)"
  by (induction rs) simp_all

lemma length_encs_ge: "33 * length rs \<le> length (encs rs)"
  using EncodedSize_ge by (induction rs) (auto simp: add_le_mono)

lemma encs_take_drop: "encs rs = encs (take k rs) @ encs (drop k rs)"
  by (metis append_take_drop_id encs_simps(3))

text \<open>
  The loop all the readers share: decode records until the first error. It terminates because every
  decoded record takes bytes off the stream.
\<close>

function decode_all :: "bytes \<Rightarrow> Record list" where
  "decode_all bs = (case DecodeRecord bs of Inl _ \<Rightarrow> [] | Inr (r, n, rest) \<Rightarrow> r # decode_all rest)"
  by pat_completeness auto
termination
  by (relation "measure length") (auto dest: DecodeRecord_shrinks)

declare decode_all.simps [simp del]

lemma decode_all_error: "DecodeRecord bs = Inl e \<Longrightarrow> decode_all bs = []"
  by (simp add: decode_all.simps)

lemma decode_all_Nil [simp]: "decode_all [] = []"
  by (simp add: decode_all_error)

lemma decode_all_enc: "wf_record r \<Longrightarrow> decode_all (enc r @ rest) = r # decode_all rest"
  by (simp add: decode_all.simps [of "enc r @ rest"] DecodeRecord_enc)

text \<open>What a writer of whole records left, with a torn record at the end or without, is read back.\<close>

lemma decode_all_encs_append:
  "\<forall>r \<in> set rs. wf_record r \<Longrightarrow> decode_all (encs rs @ rest) = rs @ decode_all rest"
  by (induction rs) (simp_all add: decode_all_enc)

lemma decode_all_encs: "\<forall>r \<in> set rs. wf_record r \<Longrightarrow> decode_all (encs rs) = rs"
  using decode_all_encs_append [of rs "[]"] by simp

lemma decode_all_torn:
  assumes "\<forall>r \<in> set rs. wf_record r" and "wf_record r" and "k < EncodedSize r"
  shows "decode_all (encs rs @ take k (enc r)) = rs"
proof (cases "k = 0")
  case False
  then show ?thesis
    using assms DecodeRecord_torn [of r k] by (auto simp: decode_all_encs_append decode_all_error)
qed (simp add: assms decode_all_encs)

text \<open>The records of a contiguous run of offsets.\<close>

definition contiguous :: "int \<Rightarrow> Record list \<Rightarrow> bool" where
  "contiguous base rs \<longleftrightarrow> map Offset rs = map (\<lambda>i. base + int i) [0..<length rs]"

lemma contiguous_nth: "contiguous base rs \<Longrightarrow> k < length rs \<Longrightarrow> Offset (rs ! k) = base + int k"
  by (drule contiguous_def [THEN iffD1], drule arg_cong [where f = "\<lambda>xs. xs ! k"]) simp

lemma contiguous_iff: "contiguous base rs \<longleftrightarrow> (\<forall>k < length rs. Offset (rs ! k) = base + int k)"
proof
  assume "\<forall>k < length rs. Offset (rs ! k) = base + int k"
  then show "contiguous base rs" unfolding contiguous_def by (intro nth_equalityI) simp_all
qed (simp add: contiguous_nth)

lemma contiguous_Nil [simp]: "contiguous base []"
  by (simp add: contiguous_def)

lemma contiguous_Cons:
  "contiguous base (r # rs) \<longleftrightarrow> Offset r = base \<and> contiguous (base + 1) rs"
  by (simp add: contiguous_iff All_less_Suc2 add.assoc)

lemma contiguous_append:
  "contiguous base (rs @ rs') \<longleftrightarrow> contiguous base rs \<and> contiguous (base + int (length rs)) rs'"
  by (induction rs arbitrary: base) (simp_all add: contiguous_Cons add.assoc)

lemma contiguous_take: "contiguous base rs \<Longrightarrow> contiguous base (take k rs)"
  using contiguous_append [of base "take k rs" "drop k rs"] by simp

lemma contiguous_drop: "contiguous base rs \<Longrightarrow> k \<le> length rs \<Longrightarrow> contiguous (base + int k) (drop k rs)"
  using contiguous_append [of base "take k rs" "drop k rs"] by simp

section \<open>Properties\<close>

text \<open>A record for the examples.\<close>

definition demo_record :: Record where
  "demo_record = \<lparr>Offset = 0, Timestamp = 7, Attributes = 0, Key = None, Value = Some [1, 2, 3]\<rparr>"

lemma demo_record_ok:
  "typed_record demo_record" "EncodedSize demo_record \<le> MaxRecordSize" "wf_record demo_record"
  by (simp_all add: demo_record_def typed_record_def wf_record_def in_s_def EncodedSize_def MaxRecordSize_def)

text \<open>
  C12: A record within the size limit is encoded on exactly \<open>EncodedSize\<close> bytes, and decoding a stream
  that starts with these bytes gives back the record, all fields and the difference between an absent
  and an empty key or value included, and leaves exactly what follows.
\<close>

theorem Record_roundtrip:
  assumes "wf_record r"
  shows "\<exists>bs. Record_Encode r = Inr bs \<and> length bs = EncodedSize r \<and>
              (\<forall>rest. DecodeRecord (bs @ rest) = Inr (r, length bs, rest))"
  using Record_Encode_wf [OF assms] DecodeRecord_enc [OF assms] by simp

theorem Record_roundtrip_witness:
  "\<exists>bs. Record_Encode demo_record = Inr bs \<and> length bs = 36 \<and>
        DecodeRecord (bs @ [0, 0]) = Inr (demo_record, 36, [0, 0])"
proof -
  have "EncodedSize demo_record = 36" by (simp add: EncodedSize_def demo_record_def)
  then show ?thesis using Record_roundtrip [OF demo_record_ok(3)] by fastforce
qed

text \<open>
  C13: The checksum protects attributes, key and value: when these bytes of an encoded record are
  replaced by any others of the same length with another CRC-32C, the decoder reports corruption and
  never returns a record.
\<close>

theorem DecodeRecord_detects_corruption:
  assumes "wf_record r" and "length body = length (record_body r)"
    and "crc32_Checksum body \<noteq> crc32_Checksum (record_body r)"
  shows "DecodeRecord (take 24 (enc r) @ body @ rest) = Inl (ErrCorruptRecord, EncodedSize r)"
  by (rule DecodeRecord_corrupt [OF assms])

theorem DecodeRecord_detects_corruption_witness:
  "DecodeRecord (take 24 (enc demo_record) @ [0, 255, 255, 255, 255, 0, 0, 0, 3, 1, 2, 4] @ [])
     = Inl (ErrCorruptRecord, 36)"
proof -
  have body: "record_body demo_record = [0, 255, 255, 255, 255, 0, 0, 0, 3, 1, 2, 3]"
    by (simp add: record_body_def put_payload_def demo_record_def be_put_eval)
  have "crc32_Checksum [0, 255, 255, 255, 255, 0, 0, 0, 3, 1, 2, 4] \<noteq>
        crc32_Checksum [0, 255, 255, 255, 255, 0, 0, 0, 3, 1, 2, 3]"
    by (simp add: crc32_Checksum_def crc_eval crc_table_def)
  moreover have "EncodedSize demo_record = 36" by (simp add: EncodedSize_def demo_record_def)
  ultimately show ?thesis
    using DecodeRecord_detects_corruption [OF demo_record_ok(3), of "[0, 255, 255, 255, 255, 0, 0, 0, 3, 1, 2, 4]" "[]"] body
    by simp
qed

end
