(* ===== verification/SparseIndex.thy ===== *)
theory SparseIndex
  imports RecordFmt
begin

text \<open>
  The sparse offset index, \<^verbatim>\<open>internal/storage/index.go\<close>: a preallocated, memory-mapped file of
  eight-byte entries (relative offset, position), both unsigned 32-bit and big-endian.

  The shared mapping is the file itself, so the state keeps the bytes of the file and the length that
  is mapped. The locale \<open>offset_index\<close> is the contract the segments rely on: an append adds an
  entry at the end, a lookup returns the greatest entry not above the target. It is interpreted on
  the operations below, whose lookup is a binary search over the mapped bytes.
\<close>

section \<open>State and operations\<close>

definition entrySize :: nat where
  "entrySize = 8"

record Index =
  i_file :: bytes
  i_open :: bool
  i_mmap :: "nat option"
  i_size :: nat
  i_maxSize :: nat

text \<open>The two fields of entry \<open>j\<close> of the mapped bytes.\<close>

definition entry_rel :: "bytes \<Rightarrow> nat \<Rightarrow> int" where
  "entry_rel data j = be_get (take 4 (drop (j * entrySize) data))"

definition entry_pos :: "bytes \<Rightarrow> nat \<Rightarrow> int" where
  "entry_pos data j = be_get (take 4 (drop (j * entrySize + 4) data))"

text \<open>The health check of \<open>NewIndex\<close>: trailing zero entries are dropped, the first entry is kept.\<close>

fun drop_zero_tail :: "bytes \<Rightarrow> nat \<Rightarrow> nat" where
  "drop_zero_tail data n =
     (if 1 < n then
        (if entry_rel data (n - 1) = 0 \<and> entry_pos data (n - 1) = 0
         then drop_zero_tail data (n - 1) else n)
      else n)"

declare drop_zero_tail.simps [simp del]

text \<open>
  The logical size found in the bytes of a file that is opened: whole entries only, within the
  maximum, without trailing zero entries of the preallocated file \<open>data\<close>.
\<close>

definition logical_size :: "nat \<Rightarrow> bytes \<Rightarrow> nat" where
  "logical_size mx content =
     (let logical = length content;
          logical = logical - logical mod entrySize;
          logical = (if mx < logical then mx else logical);
          data = file_Truncate mx content
      in if 0 < logical then drop_zero_tail data (logical div entrySize) * entrySize else logical)"

text \<open>\<open>content\<close> is what the file holds when it is opened (nothing for a file just created).\<close>

definition NewIndex :: "bytes \<Rightarrow> int \<Rightarrow> Index result" where
  "NewIndex content maxBytes =
     (if maxBytes < 0 then Inl (ErrorNew ''index: negative max size'')
      else
        (let mx = nat maxBytes - nat maxBytes mod entrySize
         in if mx = 0 then Inl (ErrorNew ''index: max size too small for one entry'')
            else Inr \<lparr>i_file = file_Truncate mx content, i_open = True, i_mmap = Some mx,
                      i_size = logical_size mx content, i_maxSize = mx\<rparr>))"

definition unmapLocked :: "Index \<Rightarrow> Index" where
  "unmapLocked i = i\<lparr>i_mmap := None\<rparr>"

definition Index_Seal :: "Index \<Rightarrow> Index result" where
  "Index_Seal i =
     (if \<not> i_open i then Inl (ErrorNew ''index: already closed'')
      else
        (let i = unmapLocked i;
             i = i\<lparr>i_file := file_Truncate (i_size i) (i_file i)\<rparr>
         in if i_size i = 0 then Inr (i\<lparr>i_mmap := None, i_maxSize := 0\<rparr>)
            else Inr (i\<lparr>i_mmap := Some (i_size i), i_maxSize := i_size i\<rparr>)))"

definition put_entry :: "int \<Rightarrow> int \<Rightarrow> bytes" where
  "put_entry relativeOffset position = be_put 4 relativeOffset @ be_put 4 position"

definition Index_Append :: "Index \<Rightarrow> int \<Rightarrow> int \<Rightarrow> Index result" where
  "Index_Append i relativeOffset position =
     (if i_maxSize i < i_size i + entrySize then Inl ErrIndexFull
      else if i_mmap i = None then Inl (ErrorNew ''index: not mapped'')
      else
        (let off = i_size i
         in Inr (i\<lparr>i_file := take off (i_file i) @ put_entry relativeOffset position
                             @ drop (off + entrySize) (i_file i),
                   i_size := i_size i + entrySize\<rparr>)))"

definition Index_Lookup :: "Index \<Rightarrow> int \<Rightarrow> (int \<times> bool) result" where
  "Index_Lookup i relativeOffset =
     (if i_mmap i = None then Inl (ErrorNew ''index: not mapped'')
      else
        (let n = i_size i div entrySize
         in if n = 0 then Inr (0, False)
            else
              (let idx = sort_Search n (\<lambda>j. relativeOffset \<le> entry_rel (i_file i) j)
               in if idx < n \<and> entry_rel (i_file i) idx = relativeOffset
                  then Inr (entry_pos (i_file i) idx, True)
                  else if 0 < idx then Inr (entry_pos (i_file i) (idx - 1), False)
                  else Inr (0, False))))"

text \<open>On a closed index \<open>os.File.Truncate\<close> fails on the nil file.\<close>

definition Index_Truncate :: "Index \<Rightarrow> Index result" where
  "Index_Truncate i =
     (let i = unmapLocked i
      in if \<not> i_open i then Inl (ErrorNew ''invalid argument'')
         else Inr (i\<lparr>i_file := file_Truncate (i_size i) (i_file i), i_open := False\<rparr>))"

definition Index_Close :: "Index \<Rightarrow> Index" where
  "Index_Close i =
     (if \<not> i_open i \<and> i_mmap i = None then i
      else
        (let i = unmapLocked i
         in if i_open i
            then i\<lparr>i_file := file_Truncate (i_size i) (i_file i), i_open := False\<rparr>
            else i))"

definition Index_Entries :: "Index \<Rightarrow> nat" where
  "Index_Entries i = i_size i div entrySize"

definition Index_Size :: "Index \<Rightarrow> nat" where
  "Index_Size i = i_size i"

section \<open>Abstraction and invariant\<close>

definition entries_of :: "bytes \<Rightarrow> nat \<Rightarrow> (int \<times> int) list" where
  "entries_of data n = map (\<lambda>j. (entry_rel data j, entry_pos data j)) [0..<n]"

definition index_entries :: "Index \<Rightarrow> (int \<times> int) list" where
  "index_entries i = entries_of (i_file i) (Index_Entries i)"

text \<open>
  Between operations of an open index the size is a whole number of entries, within the mapped
  region; only an index sealed when it was empty is not mapped.
\<close>

definition index_inv :: "Index \<Rightarrow> bool" where
  "index_inv i \<longleftrightarrow>
     i_open i \<and> i_size i mod entrySize = 0 \<and> i_maxSize i mod entrySize = 0 \<and>
     i_size i \<le> i_maxSize i \<and> i_maxSize i = length (i_file i) \<and>
     i_mmap i = (if i_maxSize i = 0 then None else Some (i_maxSize i))"

definition is_u32 :: "int \<Rightarrow> bool" where
  "is_u32 x \<longleftrightarrow> 0 \<le> x \<and> x < 2 ^ 32"

text \<open>The reference for a lookup, by a scan of the entries.\<close>

definition floor_entry :: "(int \<times> int) list \<Rightarrow> int \<Rightarrow> int \<times> bool" where
  "floor_entry es t =
     (case map_of es t of
        Some p \<Rightarrow> (p, True)
      | None \<Rightarrow> (case filter (\<lambda>e. fst e < t) es of [] \<Rightarrow> (0, False) | fs \<Rightarrow> (snd (last fs), False)))"

lemma length_index_entries [simp]: "length (index_entries i) = Index_Entries i"
  by (simp add: index_entries_def entries_of_def)

lemma length_put_entry [simp, size_simps]: "length (put_entry r p) = entrySize"
  by (simp add: put_entry_def entrySize_def)

text \<open>Reading the entries of a prefix depends on the prefix only.\<close>

lemma entry_prefix:
  assumes "j < n" and "take (n * entrySize) d = take (n * entrySize) d'"
  shows "entry_rel d j = entry_rel d' j" and "entry_pos d j = entry_pos d' j"
proof -
  have part: "take 4 (drop k d) = take 4 (drop k d')" if "k + 4 \<le> n * entrySize" for k
  proof -
    have "take 4 (drop k x) = take 4 (drop k (take (n * entrySize) x))" for x :: bytes
      using that by (simp add: drop_take min_def)
    then show ?thesis using assms(2) by metis
  qed
  have "j * entrySize + entrySize \<le> n * entrySize"
    using assms(1) by (metis Suc_leI mult_Suc add.commute mult_le_mono1)
  then show "entry_rel d j = entry_rel d' j" and "entry_pos d j = entry_pos d' j"
    by (auto simp: entry_rel_def entry_pos_def entrySize_def intro!: arg_cong [where f = be_get] part)
qed

lemma entries_of_prefix:
  "take (n * entrySize) d = take (n * entrySize) d' \<Longrightarrow> entries_of d n = entries_of d' n"
  by (auto simp: entries_of_def dest: entry_prefix)

lemma entry_put:
  assumes "is_u32 r" and "is_u32 p" and "length pre = j * entrySize"
  shows "entry_rel (pre @ put_entry r p @ post) j = r" and "entry_pos (pre @ put_entry r p @ post) j = p"
  using assms be_unsigned_roundtrip [of r 4] be_unsigned_roundtrip [of p 4]
  by (simp_all add: entry_rel_def entry_pos_def put_entry_def is_u32_def)

section \<open>The contract of the index\<close>

locale offset_index =
  fixes invar :: "'i \<Rightarrow> bool" and entries :: "'i \<Rightarrow> (int \<times> int) list"
    and append :: "'i \<Rightarrow> int \<Rightarrow> int \<Rightarrow> 'i result" and lookup :: "'i \<Rightarrow> int \<Rightarrow> (int \<times> bool) result"
  assumes append_ok: "invar i \<Longrightarrow> is_u32 r \<Longrightarrow> is_u32 p \<Longrightarrow> append i r p = Inr i' \<Longrightarrow>
      invar i' \<and> entries i' = entries i @ [(r, p)]"
    and append_err: "invar i \<Longrightarrow> append i r p = Inl e \<Longrightarrow> e = ErrIndexFull"
    and lookup_floor: "invar i \<Longrightarrow> entries i \<noteq> [] \<Longrightarrow> sorted_wrt (<) (map fst (entries i)) \<Longrightarrow>
      lookup i t = Inr (floor_entry (entries i) t)"
begin

text \<open>
  The position found is that of an entry not above the target, and no entry lies strictly between
  that entry and the target; an exact match is reported as such.
\<close>

lemma lookup_sound:
  assumes "invar i" and "entries i \<noteq> []" and "sorted_wrt (<) (map fst (entries i))"
    and "fst (hd (entries i)) \<le> t"
  shows "\<exists>r p. (r, p) \<in> set (entries i) \<and> r \<le> t \<and> lookup i t = Inr (p, r = t) \<and>
           (\<forall>e \<in> set (entries i). fst e \<le> t \<longrightarrow> fst e \<le> r)"
proof (cases "map_of (entries i) t")
  case (Some p)
  then have "(t, p) \<in> set (entries i)" by (rule map_of_SomeD)
  then show ?thesis using lookup_floor [OF assms(1-3), of t] Some
    by (intro exI [of _ t] exI [of _ p]) (auto simp: floor_entry_def)
next
  case None
  let ?fs = "filter (\<lambda>e. fst e < t) (entries i)"
  have no: "fst e \<noteq> t" if "e \<in> set (entries i)" for e
    using None that by (auto simp: map_of_eq_None_iff)
  have "hd (entries i) \<in> set ?fs"
    using assms(2,4) no [of "hd (entries i)"] by simp
  then have ne: "?fs \<noteq> []" by (metis empty_iff empty_set)
  then have last: "last ?fs \<in> set ?fs" by (rule last_in_set)
  have sorted: "sorted_wrt (<) (map fst ?fs)"
    using assms(3) by (simp add: sorted_wrt_map sorted_wrt_filter)
  have max: "fst e \<le> fst (last ?fs)" if "e \<in> set ?fs" for e
  proof -
    have "?fs = butlast ?fs @ [last ?fs]" using ne by simp
    then have "sorted_wrt (<) (map fst (butlast ?fs @ [last ?fs]))" using sorted by metis
    moreover have "e \<in> set (butlast ?fs) \<or> e = last ?fs"
      using that ne by (metis append_butlast_last_id in_set_butlast_appendI list.set_intros(1) rotate1.simps(2) set_ConsD set_rotate1)
    ultimately show ?thesis by (auto simp: sorted_wrt_append)
  qed
  have "lookup i t = Inr (snd (last ?fs), False)"
    using lookup_floor [OF assms(1-3), of t] None ne
    by (auto simp: floor_entry_def split: list.split)
  moreover have "fst e \<le> fst (last ?fs)" if "e \<in> set (entries i)" "fst e \<le> t" for e
    using that no [of e] by (intro max) auto
  ultimately show ?thesis using last
    by (intro exI [of _ "fst (last ?fs)"] exI [of _ "snd (last ?fs)"]) auto
qed

lemma append_then_lookup:
  assumes "invar i" and "is_u32 r" and "is_u32 p" and "append i r p = Inr i'"
    and "sorted_wrt (<) (map fst (entries i))" and "\<forall>e \<in> set (entries i). fst e < r"
  shows "lookup i' r = Inr (p, True)"
proof -
  have i': "invar i'" "entries i' = entries i @ [(r, p)]"
    using append_ok [OF assms(1-4)] by simp_all
  have "sorted_wrt (<) (map fst (entries i'))"
    using assms(5,6) i'(2) by (simp add: sorted_wrt_append)
  moreover have "map_of (entries i') r = Some p"
    using assms(6) i'(2) by (auto simp: map_add_Some_iff map_of_eq_None_iff)
  ultimately show ?thesis
    using lookup_floor [OF i'(1), of r] i'(2) by (simp add: floor_entry_def)
qed

end

section \<open>The operations meet the contract\<close>

lemma Index_Append_ok:
  assumes inv: "index_inv i" and r: "is_u32 r" and p: "is_u32 p" and ap: "Index_Append i r p = Inr i'"
  shows "index_inv i' \<and> index_entries i' = index_entries i @ [(r, p)]"
proof -
  let ?n = "i_size i div entrySize"
  have room: "i_size i + entrySize \<le> i_maxSize i"
    and i': "i' = i\<lparr>i_file := take (i_size i) (i_file i) @ put_entry r p
                              @ drop (i_size i + entrySize) (i_file i),
                    i_size := i_size i + entrySize\<rparr>"
    using ap by (auto simp: Index_Append_def Let_def split: if_splits)
  have size: "i_size i = ?n * entrySize" "i_size i \<le> length (i_file i)"
    using inv by (auto simp: index_inv_def entrySize_def)
  have pre: "length (take (i_size i) (i_file i)) = ?n * entrySize"
    using size by simp
  have n': "i_size i' div entrySize = Suc ?n"
    by (simp add: i' entrySize_def)
  have "take (?n * entrySize) (i_file i') = take (?n * entrySize) (i_file i)"
    using size by (simp add: i')
  then have "entries_of (i_file i') ?n = entries_of (i_file i) ?n"
    by (rule entries_of_prefix)
  then have "index_entries i' = index_entries i @ [(r, p)]"
    using entry_put [OF r p pre] n'
    by (simp add: index_entries_def Index_Entries_def entries_of_def i')
  moreover have "index_inv i'"
    using inv room by (auto simp: index_inv_def i' entrySize_def)
  ultimately show ?thesis by simp
qed

lemma index_inv_room:
  assumes "index_inv i" and "i_maxSize i \<noteq> 0"
  shows "entrySize \<le> i_maxSize i"
proof (rule dvd_imp_le)
  show "entrySize dvd i_maxSize i" using assms(1) unfolding index_inv_def mod_eq_0_iff_dvd by blast
qed (use assms(2) in simp)

lemma Index_Append_maxSize: "Index_Append i r p = Inr i' \<Longrightarrow> i_maxSize i' = i_maxSize i"
  by (auto simp: Index_Append_def Let_def split: if_split_asm)

lemma Index_Append_err:
  assumes "index_inv i" and "Index_Append i r p = Inl e"
  shows "e = ErrIndexFull"
  using assms by (auto simp: Index_Append_def index_inv_def Let_def entrySize_def split: if_splits)

lemma Index_Append_full_iff:
  assumes "index_inv i"
  shows "Index_Append i r p = Inl ErrIndexFull \<longleftrightarrow> i_maxSize i < i_size i + entrySize"
  using assms by (auto simp: Index_Append_def index_inv_def Let_def entrySize_def)

text \<open>In strictly sorted entries the binary search finds the floor of the target.\<close>

lemma Index_Lookup_floor:
  assumes inv: "index_inv i" and ne: "index_entries i \<noteq> []"
    and sorted: "sorted_wrt (<) (map fst (index_entries i))"
  shows "Index_Lookup i t = Inr (floor_entry (index_entries i) t)"
proof -
  let ?es = "index_entries i"
  let ?n = "Index_Entries i"
  let ?f = "\<lambda>j. t \<le> entry_rel (i_file i) j"
  let ?k = "sort_Search ?n ?f"
  have nth: "?es ! j = (entry_rel (i_file i) j, entry_pos (i_file i) j)" if "j < ?n" for j
    using that by (simp add: index_entries_def entries_of_def)
  have less: "entry_rel (i_file i) a < entry_rel (i_file i) b" if "a < b" "b < ?n" for a b
  proof -
    have "map fst ?es ! a < map fst ?es ! b"
      using that by (intro sorted_wrt_nth_less [OF sorted]) simp_all
    then show ?thesis using that nth by simp
  qed
  have mono: "\<forall>a b. a \<le> b \<longrightarrow> b < ?n \<longrightarrow> ?f a \<longrightarrow> ?f b"
  proof (intro allI impI)
    fix a b assume "a \<le> b" "b < ?n" "?f a"
    then show "?f b" using less [of a b] by (cases "a = b") simp_all
  qed
  note search = sort_Search_spec [OF mono]
  have pos: "0 < ?n" using ne by (metis length_index_entries length_greater_0_conv)
  then have mapped: "i_mmap i \<noteq> None"
    using inv by (auto simp: index_inv_def Index_Entries_def entrySize_def)
  have dist: "distinct (map fst ?es)"
    using sorted by (simp add: strict_sorted_iff)
  show ?thesis
  proof (cases "?k < ?n \<and> entry_rel (i_file i) ?k = t")
    case True
    then have "(t, entry_pos (i_file i) ?k) \<in> set ?es"
      using nth [of ?k] by (metis length_index_entries nth_mem)
    then have "map_of ?es t = Some (entry_pos (i_file i) ?k)"
      using dist by simp
    then show ?thesis using True mapped pos
      by (simp add: Index_Lookup_def floor_entry_def Index_Entries_def Let_def)
  next
    case False
    have none: "map_of ?es t = None"
    proof (rule ccontr)
      assume "map_of ?es t \<noteq> None"
      then obtain j where j: "j < ?n" "entry_rel (i_file i) j = t"
        by (auto simp: map_of_eq_None_iff in_set_conv_nth nth)
      then have "\<not> j < ?k" using search(2) [of j] by auto
      then have "?k = j"
        using j search(3) [of ?k] less [of ?k j] by (metis le_eq_less_or_eq linorder_not_less order_less_le_trans)
      then show False using j False by simp
    qed
    have "filter (\<lambda>e. fst e < t) ?es = take ?k ?es"
    proof -
      have "filter (\<lambda>e. fst e < t) (take ?k ?es) = take ?k ?es"
        using search(1) search(2) nth by (auto simp: filter_id_conv in_set_conv_nth not_le)
      moreover have "filter (\<lambda>e. fst e < t) (drop ?k ?es) = []"
        using search(3) nth by (auto simp: filter_empty_conv in_set_conv_nth not_less)
      ultimately show ?thesis
        by (metis append_Nil2 append_take_drop_id filter_append)
    qed
    moreover have "last (take ?k ?es) = ?es ! (?k - 1)" if "0 < ?k"
      using that search(1) by (intro last_take_nth) simp_all
    ultimately have "floor_entry ?es t = (if 0 < ?k then (entry_pos (i_file i) (?k - 1), False) else (0, False))"
      using none nth [of "?k - 1"] search(1) pos ne
      by (auto simp: floor_entry_def split: list.split)
    then show ?thesis using False mapped pos
      by (auto simp: Index_Lookup_def Index_Entries_def Let_def)
  qed
qed

interpretation oi: offset_index index_inv index_entries Index_Append Index_Lookup
  by unfold_locales (auto dest: Index_Append_ok Index_Append_err intro: Index_Lookup_floor)

section \<open>Opening, sealing and closing\<close>

lemma file_Truncate_length [simp]: "length (file_Truncate n d) = n"
  by (simp add: file_Truncate_def)

lemma file_Truncate_le: "n \<le> length d \<Longrightarrow> file_Truncate n d = take n d"
  by (simp add: file_Truncate_def)

lemma file_Truncate_zeros:
  assumes "length p = s" and "s \<le> m"
  shows "file_Truncate m (p @ replicate z 0) = p @ replicate (m - s) 0"
proof (cases "s + z \<le> m")
  case True
  then have "z + (m - (s + z)) = m - s" by simp
  then show ?thesis using True assms by (simp add: file_Truncate_def flip: replicate_add)
next
  case False
  then have "take (m - s) (replicate z 0) = replicate (m - s) (0::byte)" by simp
  then show ?thesis using False assms by (simp add: file_Truncate_def)
qed

lemma drop_zero_tail_le: "drop_zero_tail d n \<le> n"
proof (induction d n rule: drop_zero_tail.induct)
  case (1 d n)
  have "drop_zero_tail d (n - 1) \<le> n" if "1 < n" "entry_rel d (n - 1) = 0 \<and> entry_pos d (n - 1) = 0"
    using 1 [OF that] by simp
  then show ?case unfolding drop_zero_tail.simps [of d n] by simp
qed

lemma drop_zero_tail_stop:
  "1 < n \<Longrightarrow> (entry_rel d (n - 1), entry_pos d (n - 1)) \<noteq> (0, 0) \<Longrightarrow> drop_zero_tail d n = n"
  unfolding drop_zero_tail.simps [of d n] by auto

text \<open>Trailing zero entries are skipped down to the last entry that is not zero.\<close>

lemma drop_zero_tail_skip:
  assumes "m \<le> n" and "0 < m" and "\<And>j. m \<le> j \<Longrightarrow> j < n \<Longrightarrow> entry_rel d j = 0 \<and> entry_pos d j = 0"
  shows "drop_zero_tail d n = drop_zero_tail d m"
  using assms
proof (induction "n - m" arbitrary: n)
  case 0
  then show ?case by simp
next
  case (Suc k)
  have "1 < n" "entry_rel d (n - 1) = 0 \<and> entry_pos d (n - 1) = 0"
    using Suc.hyps(2) Suc.prems(1,2) Suc.prems(3) [of "n - 1"] by simp_all
  then have "drop_zero_tail d n = drop_zero_tail d (n - 1)"
    unfolding drop_zero_tail.simps [of d n] by simp
  also have "\<dots> = drop_zero_tail d m"
    using Suc.hyps(2) Suc.prems by (intro Suc.hyps(1)) auto
  finally show ?case .
qed

lemma NewIndex_Inr:
  assumes "NewIndex content maxBytes = Inr i"
  defines "mx \<equiv> nat maxBytes - nat maxBytes mod entrySize"
  shows "i = \<lparr>i_file = file_Truncate mx content, i_open = True, i_mmap = Some mx,
              i_size = logical_size mx content, i_maxSize = mx\<rparr>"
    and "mx mod entrySize = 0" and "entrySize \<le> mx"
proof -
  have "mx \<noteq> 0"
    and "i = \<lparr>i_file = file_Truncate mx content, i_open = True, i_mmap = Some mx,
              i_size = logical_size mx content, i_maxSize = mx\<rparr>"
    using assms(1) unfolding NewIndex_def mx_def by (simp_all add: Let_def split: if_split_asm)
  moreover have "mx = entrySize * (nat maxBytes div entrySize)"
    by (simp add: mx_def minus_mod_eq_mult_div)
  ultimately show "i = \<lparr>i_file = file_Truncate mx content, i_open = True, i_mmap = Some mx,
              i_size = logical_size mx content, i_maxSize = mx\<rparr>"
    and "mx mod entrySize = 0" and "entrySize \<le> mx"
    by simp_all
qed

lemma logical_size_bounds:
  assumes "mx mod entrySize = 0"
  shows "logical_size mx content mod entrySize = 0" and "logical_size mx content \<le> mx"
proof -
  have "drop_zero_tail d (l div entrySize) * entrySize \<le> mx" if "l \<le> mx" for d l
    using drop_zero_tail_le [of d "l div entrySize"] that
    by (metis div_times_less_eq_dividend mult_le_mono1 order_trans)
  then show "logical_size mx content mod entrySize = 0" and "logical_size mx content \<le> mx"
    by (auto simp: logical_size_def Let_def)
qed

lemma NewIndex_inv: "NewIndex content maxBytes = Inr i \<Longrightarrow> index_inv i"
  using NewIndex_Inr [of content maxBytes i] logical_size_bounds
  by (auto simp: index_inv_def entrySize_def)

lemma NewIndex_empty:
  assumes "NewIndex [] maxBytes = Inr i"
  shows "index_inv i" and "index_entries i = []" and "i_size i = 0" and "entrySize \<le> i_maxSize i"
  using NewIndex_Inr [OF assms] NewIndex_inv [OF assms]
  by (simp_all add: index_entries_def entries_of_def Index_Entries_def logical_size_def)

lemma NewIndex_ok: "entrySize \<le> nat maxBytes \<Longrightarrow> \<exists>i. NewIndex content maxBytes = Inr i"
  by (auto simp: NewIndex_def Let_def entrySize_def)

text \<open>Sealing keeps the entries, gives the slack back and refuses further appends.\<close>

lemma Index_Seal_ok:
  assumes "index_inv i"
  shows "\<exists>i'. Index_Seal i = Inr i' \<and> index_inv i' \<and> index_entries i' = index_entries i \<and>
              length (i_file i') = i_size i \<and> Index_Append i' r p = Inl ErrIndexFull"
proof -
  let ?d = "file_Truncate (i_size i) (i_file i)"
  have size: "i_size i \<le> length (i_file i)" "Index_Entries i * entrySize = i_size i"
    using assms by (auto simp: index_inv_def Index_Entries_def entrySize_def)
  have "entries_of ?d (Index_Entries i) = entries_of (i_file i) (Index_Entries i)"
    by (rule entries_of_prefix) (simp add: size file_Truncate_le)
  then show ?thesis using assms
    by (auto simp: Index_Seal_def unmapLocked_def index_inv_def index_entries_def Index_Entries_def
          Index_Append_def Let_def entrySize_def file_Truncate_def)
qed

lemma Index_Close_file: "index_inv i \<Longrightarrow> i_file (Index_Close i) = take (i_size i) (i_file i)"
  by (auto simp: Index_Close_def unmapLocked_def index_inv_def file_Truncate_le Let_def)

lemma logical_size_min:
  assumes "length content mod entrySize = 0" and "0 < min mx (length content)"
  shows "logical_size mx content =
           drop_zero_tail (file_Truncate mx content) (min mx (length content) div entrySize) * entrySize"
proof -
  have "(if mx < length content then mx else length content) = min mx (length content)" by simp
  then show ?thesis using assms by (simp add: logical_size_def Let_def)
qed

text \<open>
  Reopening, after a clean close (\<open>tail\<close> empty) or after a crash that left the preallocated file with
  zeros behind the entries: the entries are recovered. The last of several entries must not be
  \<open>(0, 0)\<close>, which no index built by increasing offsets has.
\<close>

lemma NewIndex_recovers:
  assumes inv: "index_inv i" and es: "index_entries i = es" "es \<noteq> []"
    and last: "1 < length es \<Longrightarrow> last es \<noteq> (0, 0)"
    and content: "content = take (i_size i) (i_file i) @ replicate z 0" and z: "z mod entrySize = 0"
    and new: "NewIndex content maxBytes = Inr i'" and fits: "i_size i \<le> i_maxSize i'"
  shows "index_entries i' = es"
proof -
  let ?n = "Index_Entries i"
  let ?max = "nat maxBytes - nat maxBytes mod entrySize"
  let ?d = "file_Truncate ?max content"
  have size: "i_size i = ?n * entrySize" "i_size i \<le> length (i_file i)"
    using inv by (auto simp: index_inv_def Index_Entries_def entrySize_def)
  have n: "0 < ?n" using es by (metis length_index_entries length_greater_0_conv)
  note i' = NewIndex_Inr [OF new]
  have max: "i_maxSize i' = ?max" and fl: "i_file i' = ?d" and sz: "i_size i' = logical_size ?max content"
    using i'(1) by simp_all
  have len: "length content = i_size i + z" using content size(2) by simp
  let ?l = "min ?max (length content)"
  have lmod: "length content mod entrySize = 0"
    using len z size(1) by (simp add: mod_add_eq)
  have l: "i_size i \<le> ?l" using fits unfolding max len by simp
  have ln: "?n \<le> ?l div entrySize"
    using div_le_mono [OF l, of entrySize] by (simp add: Index_Entries_def)
  have dz: "?d = take (i_size i) (i_file i) @ replicate (?max - i_size i) 0"
    unfolding content using size(2) fits max by (intro file_Truncate_zeros) simp_all
  have prefix: "take (?n * entrySize) ?d = take (?n * entrySize) (i_file i)"
    using size(2) unfolding dz size(1) [symmetric] by simp
  have zeros: "entry_rel ?d j = 0 \<and> entry_pos ?d j = 0" if "?n \<le> j" "j < ?l div entrySize" for j
  proof -
    have "i_size i \<le> j * entrySize" unfolding size(1) using that(1) by (rule mult_le_mono1)
    moreover have "be_get (replicate k 0) = 0" for k
      by (induction k) (simp_all add: be_get_def)
    ultimately show ?thesis
      using size(2) unfolding dz by (simp add: entry_rel_def entry_pos_def)
  qed
  have "drop_zero_tail ?d (?l div entrySize) = drop_zero_tail ?d ?n"
    using ln n zeros by (intro drop_zero_tail_skip) auto
  also have "\<dots> = ?n"
  proof (cases "1 < ?n")
    case True
    have "es ! (?n - 1) = (entry_rel (i_file i) (?n - 1), entry_pos (i_file i) (?n - 1))"
      using n unfolding es(1) [symmetric] index_entries_def entries_of_def by simp
    then have "(entry_rel ?d (?n - 1), entry_pos ?d (?n - 1)) = last es"
      using entry_prefix [of "?n - 1" ?n ?d "i_file i"] prefix n es
      by (auto simp: last_conv_nth)
    then show ?thesis using True last es by (intro drop_zero_tail_stop) auto
  next
    case False
    then show ?thesis unfolding drop_zero_tail.simps [of ?d ?n] by simp
  qed
  finally have "drop_zero_tail ?d (?l div entrySize) = ?n" .
  moreover have "i_size i' = drop_zero_tail ?d (?l div entrySize) * entrySize"
  proof -
    have "0 < i_size i" using n unfolding size(1) entrySize_def by simp
    then show ?thesis unfolding sz using l by (intro logical_size_min [OF lmod]) linarith
  qed
  ultimately have "i_size i' = ?n * entrySize" by (simp only:)
  then have "Index_Entries i' = ?n" unfolding Index_Entries_def [of i'] entrySize_def by simp
  moreover have "entries_of ?d ?n = entries_of (i_file i) ?n" by (rule entries_of_prefix [OF prefix])
  ultimately show ?thesis unfolding es(1) [symmetric] index_entries_def fl by (simp only:)
qed

section \<open>Properties\<close>

text \<open>The index with entries for the offsets 0, 10 and 20 at 0, 500 and 900.\<close>

definition demo_index :: Index where
  "demo_index = \<lparr>i_file = put_entry 0 0 @ put_entry 10 500 @ put_entry 20 900 @ replicate 8 0, i_open = True,
     i_mmap = Some 32, i_size = 24, i_maxSize = 32\<rparr>"

lemma demo_index_entries: "index_entries demo_index = [(0, 0), (10, 500), (20, 900)]"
  by (simp add: index_entries_def entries_of_def Index_Entries_def demo_index_def entrySize_def put_entry_def
      be_put_eval entry_rel_def entry_pos_def be_get_def upt_rec)

lemma demo_index_inv: "index_inv demo_index"
  by (simp add: index_inv_def demo_index_def entrySize_def put_entry_def)

text \<open>
  C14: The binary search of \<open>Lookup\<close> over the mapped bytes agrees with a scan of the entries: an exact
  entry gives its position and is reported as exact, otherwise the position of the greatest entry below
  the target is returned, or 0 when there is none.
\<close>

theorem Index_Lookup_correct:
  assumes "index_inv i" and "index_entries i \<noteq> []" and "sorted_wrt (<) (map fst (index_entries i))"
  shows "Index_Lookup i t = Inr (floor_entry (index_entries i) t)"
  by (rule oi.lookup_floor [OF assms])

theorem Index_Lookup_correct_witness:
  "Index_Lookup demo_index 10 = Inr (500, True) \<and> Index_Lookup demo_index 15 = Inr (500, False) \<and>
   Index_Lookup demo_index 99 = Inr (900, False)"
  using Index_Lookup_correct [OF demo_index_inv, of 10] Index_Lookup_correct [OF demo_index_inv, of 15]
    Index_Lookup_correct [OF demo_index_inv, of 99]
  by (simp add: demo_index_entries floor_entry_def)

end
