(* ===== verification/Segment.thy ===== *)
theory Segment
  imports SparseIndex
begin

text \<open>
  One segment of a partition log, \<^verbatim>\<open>internal/storage/segment.go\<close>: a log file written through a
  buffered writer, and its sparse index.

  The invariant \<open>seg_inv\<close> ties the state to the list of records appended (\<open>seg_recs\<close>): the bytes
  written are their encodings, the offsets run from the base without a gap, and every index entry
  points at a record. Appending, reading one record and reading a run of records are characterised by
  that list. The operating system's calls succeed; a record pointer is never \<open>nil\<close>.
\<close>

section \<open>Configuration\<close>

record Config =
  SegmentBytes :: int
  IndexMaxBytes :: int
  IndexIntervalBytes :: int
  RetentionMs :: int
  RetentionBytes :: int
  FlushMs :: int
  FlushMessages :: int
  SegmentMs :: int

definition withDefaults :: "Config \<Rightarrow> Config" where
  "withDefaults c =
     c\<lparr>SegmentBytes := (if SegmentBytes c \<le> 0 then 134217728 else SegmentBytes c),
       IndexMaxBytes := (if IndexMaxBytes c \<le> 0 then 10485760 else IndexMaxBytes c),
       IndexIntervalBytes := (if IndexIntervalBytes c \<le> 0 then 4096 else IndexIntervalBytes c),
       RetentionMs := (if RetentionMs c = 0 then 604800000 else RetentionMs c),
       RetentionBytes := (if RetentionBytes c = 0 then -1 else RetentionBytes c),
       FlushMs := (if FlushMs c = 0 then 1000 else FlushMs c),
       FlushMessages := (if FlushMessages c < 0 then 0 else FlushMessages c),
       SegmentMs := (if SegmentMs c = 0 then 604800000 else SegmentMs c)\<rparr>"

section \<open>State and operations\<close>

text \<open>
  \<open>writer\<close> holds the log file, its cursor and the buffer. The read handle is open exactly while the
  segment is not closed. Times are nanoseconds.
\<close>

record Segment =
  BaseOffset :: int
  NextOffset :: int
  writer :: bufwriter
  s_index :: Index
  s_maxBytes :: int
  indexInterval :: int
  bytesWritten :: int
  bytesSinceLastIndex :: int
  CreatedAt :: int
  s_closed :: bool

definition writerSize :: nat where
  "writerSize = 262144"

definition MaxUint32 :: int where
  "MaxUint32 = 4294967295"

text \<open>
  \<open>logdata\<close>, \<open>mtime\<close> and \<open>idxdata\<close> are what the two files hold when they are opened, \<open>now\<close> is the
  time of the call.
\<close>

definition NewSegment :: "bytes \<Rightarrow> int \<Rightarrow> bytes \<Rightarrow> int \<Rightarrow> Config \<Rightarrow> int \<Rightarrow> Segment result" where
  "NewSegment logdata mtime idxdata baseOffset cfg now =
     (let cfg = withDefaults cfg;
          size = length logdata;
          createdAt = (if 0 < size then mtime else now)
      in case NewIndex idxdata (IndexMaxBytes cfg) of
           Inl e \<Rightarrow> Inl (Wrapped ''segment: open index file'' e)
         | Inr index \<Rightarrow>
             Inr \<lparr>BaseOffset = baseOffset, NextOffset = baseOffset,
                  writer = \<lparr>wfile = \<lparr>fdata = logdata, fpos = size\<rparr>, wbuf = []\<rparr>,
                  s_index = index, s_maxBytes = SegmentBytes cfg,
                  indexInterval = IndexIntervalBytes cfg, bytesWritten = int size,
                  bytesSinceLastIndex = 0, CreatedAt = createdAt, s_closed = False\<rparr>)"

definition SetNextOffset :: "Segment \<Rightarrow> int \<Rightarrow> Segment" where
  "SetNextOffset s offset = s\<lparr>NextOffset := offset\<rparr>"

text \<open>The state is returned with an error too: a failing index append leaves the record written.\<close>

definition Segment_Append :: "Segment \<Rightarrow> Record \<Rightarrow> Segment \<times> int result" where
  "Segment_Append s rec =
     (if s_closed s then (s, Inl ErrSegmentClosed)
      else if MaxUint32 < bytesWritten s then
        (s, Inl (ErrorNew (''segment: log position '' @ itoa (bytesWritten s) @ '' exceeds uint32 index range'')))
      else
        (let offset = NextOffset s;
             rec = rec\<lparr>Offset := offset\<rparr>;
             position = uint32 (bytesWritten s)
         in case Record_Encode rec of
              Inl e \<Rightarrow> (s, Inl (Wrapped ''segment: encode record'' e))
            | Inr buf \<Rightarrow>
                (let n = int (length buf);
                     s = s\<lparr>writer := bufio_Write writerSize (writer s) buf,
                           bytesWritten := bytesWritten s + n,
                           bytesSinceLastIndex := bytesSinceLastIndex s + n\<rparr>
                 in if Index_Entries (s_index s) = 0 \<or> indexInterval s \<le> bytesSinceLastIndex s
                    then
                      (case Index_Append (s_index s) (uint32 (offset - BaseOffset s)) position of
                         Inl e \<Rightarrow> (s, Inl (Wrapped ''segment: append to index'' e))
                       | Inr ix \<Rightarrow>
                           (s\<lparr>s_index := ix, bytesSinceLastIndex := 0,
                              NextOffset := int64 (NextOffset s + 1)\<rparr>, Inr offset))
                    else (s\<lparr>NextOffset := int64 (NextOffset s + 1)\<rparr>, Inr offset))))"

text \<open>\<open>readHandle\<close>: a section of the log file up to \<open>bytesWritten\<close>.\<close>

definition readHandle :: "Segment \<Rightarrow> bytes" where
  "readHandle s = take (nat (bytesWritten s)) (fdata (wfile (writer s)))"

definition not_found :: "int \<Rightarrow> go_error" where
  "not_found target = ErrorNew (''segment: offset '' @ itoa target @ '' not found'')"

definition is_eof :: "go_error \<Rightarrow> bool" where
  "is_eof e \<longleftrightarrow> errors_Is e EOF \<or> errors_Is e ErrUnexpectedEOF"

function scan_loop :: "bytes \<Rightarrow> int \<Rightarrow> Record result" where
  "scan_loop br target =
     (case DecodeRecord br of
        Inl (e, _) \<Rightarrow>
          if is_eof e then Inl (not_found target) else Inl (Wrapped ''segment: decode record'' e)
      | Inr (rec, _, br') \<Rightarrow>
          if Offset rec = target then Inr rec
          else if target < Offset rec then Inl (not_found target)
          else scan_loop br' target)"
  by pat_completeness auto
termination
  by (relation "measure (\<lambda>(br, _). length br)") (auto dest: DecodeRecord_shrinks)

declare scan_loop.simps [simp del]

definition scanFrom :: "Segment \<Rightarrow> int \<Rightarrow> int \<Rightarrow> Record result" where
  "scanFrom s position target = scan_loop (drop (nat position) (readHandle s)) target"

definition readAt :: "Segment \<Rightarrow> int \<Rightarrow> int \<Rightarrow> Record result" where
  "readAt s position target =
     (case DecodeRecord (drop (nat position) (readHandle s)) of
        Inl (e, _) \<Rightarrow>
          if is_eof e then Inl (not_found target) else Inl (Wrapped ''segment: decode record'' e)
      | Inr (rec, _, _) \<Rightarrow> if Offset rec \<noteq> target then scanFrom s position target else Inr rec)"

definition Segment_Read :: "Segment \<Rightarrow> int \<Rightarrow> Record result" where
  "Segment_Read s offset =
     (if s_closed s then Inl ErrSegmentClosed
      else if offset < BaseOffset s then Inl ErrOffsetOutOfRange
      else
        (case Index_Lookup (s_index s) (uint32 (offset - BaseOffset s)) of
           Inl e \<Rightarrow> Inl (Wrapped ''segment: index lookup'' e)
         | Inr (position, found) \<Rightarrow>
             if found then readAt s position offset else scanFrom s position offset))"

text \<open>
  The loop of \<open>ReadFrom\<close>. \<open>accumulated\<close> is a 32-bit integer; the result is the slice collected and
  the error, if any.
\<close>

function readFrom_loop ::
    "int \<Rightarrow> int \<Rightarrow> bytes \<Rightarrow> Record list \<Rightarrow> int \<Rightarrow> Record list \<times> go_error option" where
  "readFrom_loop offset maxBytes br records accumulated =
     (case DecodeRecord br of
        Inl (e, _) \<Rightarrow>
          if is_eof e then (records, None)
          else (records, Some (Wrapped ''segment: decode record'' e))
      | Inr (rec, n, br') \<Rightarrow>
          if Offset rec < offset then readFrom_loop offset maxBytes br' records accumulated
          else if 0 < accumulated \<and> maxBytes < int32 (accumulated + int32 (int n)) then (records, None)
          else readFrom_loop offset maxBytes br' (records @ [rec]) (int32 (accumulated + int32 (int n))))"
  by pat_completeness auto
termination
  by (relation "measure (\<lambda>(_, _, br, _). length br)") (auto dest: DecodeRecord_shrinks)

declare readFrom_loop.simps [simp del]

definition Segment_ReadFrom :: "Segment \<Rightarrow> int \<Rightarrow> int \<Rightarrow> Record list \<times> go_error option" where
  "Segment_ReadFrom s offset maxBytes =
     (if s_closed s then ([], Some ErrSegmentClosed)
      else if maxBytes \<le> 0 then ([], None)
      else if offset < BaseOffset s then ([], Some ErrOffsetOutOfRange)
      else
        (case Index_Lookup (s_index s) (uint32 (offset - BaseOffset s)) of
           Inl e \<Rightarrow> ([], Some (Wrapped ''segment: index lookup'' e))
         | Inr (position, _) \<Rightarrow>
             readFrom_loop offset maxBytes (drop (nat position) (readHandle s)) [] 0))"

definition IsFull :: "Segment \<Rightarrow> bool" where
  "IsFull s \<longleftrightarrow>
     s_closed s \<or> s_maxBytes s \<le> bytesWritten s \<or>
     i_maxSize (s_index s) < Index_Size (s_index s) + entrySize"

definition Segment_Size :: "Segment \<Rightarrow> int" where
  "Segment_Size s = bytesWritten s"

definition Segment_Close :: "Segment \<Rightarrow> Segment" where
  "Segment_Close s =
     (if s_closed s then s
      else s\<lparr>s_closed := True, writer := bufio_Flush (writer s), s_index := Index_Close (s_index s)\<rparr>)"

definition FlushWriter :: "Segment \<Rightarrow> Segment result" where
  "FlushWriter s =
     (if s_closed s then Inl ErrSegmentClosed else Inr (s\<lparr>writer := bufio_Flush (writer s)\<rparr>))"

text \<open>\<open>Flush\<close> adds an \<open>fsync\<close>, which does not change what the program reads.\<close>

definition Segment_Flush :: "Segment \<Rightarrow> Segment result" where
  "Segment_Flush s =
     (if s_closed s then Inl ErrSegmentClosed else Inr (s\<lparr>writer := bufio_Flush (writer s)\<rparr>))"

section \<open>Invariant\<close>

definition seg_recs :: "Segment \<Rightarrow> Record list" where
  "seg_recs s = decode_all (written (writer s))"

text \<open>The index entries of the records numbered \<open>ks\<close>.\<close>

definition indexed :: "Record list \<Rightarrow> nat list \<Rightarrow> (int \<times> int) list" where
  "indexed rs ks = map (\<lambda>k. (int k, int (length (encs (take k rs))))) ks"

text \<open>A sparse index of \<open>rs\<close>: entries of some records in order, the first record among them.\<close>

definition sparse :: "Record list \<Rightarrow> (int \<times> int) list \<Rightarrow> bool" where
  "sparse rs es \<longleftrightarrow>
     (let ks = map (nat \<circ> fst) es
      in es = indexed rs ks \<and> sorted_wrt (<) ks \<and> (\<forall>k \<in> set ks. k < length rs) \<and>
         (rs \<noteq> [] \<longrightarrow> ks \<noteq> [] \<and> hd ks = 0))"

text \<open>
  The index that appending one record after the other builds with an interval of \<open>iv\<close> bytes: number
  of records, position, entries and the bytes since the last entry.
\<close>

type_synonym index_state = "nat \<times> int \<times> (int \<times> int) list \<times> int"

definition idx_step :: "int \<Rightarrow> index_state \<Rightarrow> Record \<Rightarrow> index_state" where
  "idx_step iv st r =
     (case st of (n, pos, es, since) \<Rightarrow>
        (let size = int (EncodedSize r)
         in if es = [] \<or> iv \<le> since + size then (n + 1, pos + size, es @ [(int n, pos)], 0)
            else (n + 1, pos + size, es, since + size)))"

definition idx_of :: "int \<Rightarrow> Record list \<Rightarrow> index_state" where
  "idx_of iv rs = foldl (idx_step iv) (0, 0, [], 0) rs"

text \<open>
  What appending and recovery keep of the accounting, for the records \<open>rs\<close> counted so far. The last
  record starts within the range of a 32-bit position.
\<close>

definition acct_inv :: "Segment \<Rightarrow> Record list \<Rightarrow> bool" where
  "acct_inv s rs \<longleftrightarrow>
     \<not> s_closed s \<and> index_inv (s_index s) \<and> i_maxSize (s_index s) \<noteq> 0 \<and>
     bytesWritten s = int (length (encs rs)) \<and>
     0 \<le> BaseOffset s \<and> NextOffset s = BaseOffset s + int (length rs) \<and> NextOffset s < 2 ^ 63 \<and>
     contiguous (BaseOffset s) rs \<and> (\<forall>r \<in> set rs. wf_record r) \<and>
     (rs \<noteq> [] \<longrightarrow> length (encs (butlast rs)) < 2 ^ 32) \<and>
     sparse rs (index_entries (s_index s)) \<and>
     idx_of (indexInterval s) rs =
       (length rs, bytesWritten s, index_entries (s_index s), bytesSinceLastIndex s)"

definition seg_inv :: "Segment \<Rightarrow> bool" where
  "seg_inv s \<longleftrightarrow>
     acct_inv s (seg_recs s) \<and> at_end (wfile (writer s)) \<and> written (writer s) = encs (seg_recs s)"

lemma seg_recs_eq:
  "acct_inv s rs \<Longrightarrow> written (writer s) = encs rs \<Longrightarrow> seg_recs s = rs"
  by (simp add: seg_recs_def acct_inv_def decode_all_encs)

lemma seg_invI:
  "acct_inv s rs \<Longrightarrow> written (writer s) = encs rs \<Longrightarrow> at_end (wfile (writer s)) \<Longrightarrow> seg_inv s"
  using seg_recs_eq [of s rs] by (simp add: seg_inv_def)

subsection \<open>Sparse indexes\<close>

lemma sparse_def': "sparse rs es \<longleftrightarrow>
  (\<exists>ks. es = indexed rs ks \<and> sorted_wrt (<) ks \<and> (\<forall>k \<in> set ks. k < length rs) \<and>
        (rs \<noteq> [] \<longrightarrow> ks \<noteq> [] \<and> hd ks = 0))"
proof -
  have "map (nat \<circ> fst) (indexed rs ks) = ks" for ks by (simp add: indexed_def comp_def)
  then show ?thesis unfolding sparse_def Let_def by metis
qed

lemma indexed_append: "\<forall>k \<in> set ks. k \<le> length rs \<Longrightarrow> indexed (rs @ rs') ks = indexed rs ks"
  by (simp add: indexed_def)

lemma sparse_extend: "sparse rs es \<Longrightarrow> rs \<noteq> [] \<Longrightarrow> sparse (rs @ [r]) es"
proof -
  assume "sparse rs es" and "rs \<noteq> []"
  then obtain ks where "es = indexed rs ks" "sorted_wrt (<) ks" "\<forall>k \<in> set ks. k < length rs"
    "ks \<noteq> [] \<and> hd ks = 0"
    unfolding sparse_def' by blast
  then show "sparse (rs @ [r]) es"
    unfolding sparse_def' by (intro exI [of _ ks]) (simp add: indexed_append less_imp_le less_SucI)
qed

lemma sparse_add:
  assumes "sparse rs es"
  shows "sparse (rs @ [r]) (es @ [(int (length rs), int (length (encs rs)))])"
proof -
  obtain ks where ks: "es = indexed rs ks" "sorted_wrt (<) ks" "\<forall>k \<in> set ks. k < length rs"
    "rs \<noteq> [] \<longrightarrow> ks \<noteq> [] \<and> hd ks = 0"
    using assms unfolding sparse_def' by blast
  have "indexed (rs @ [r]) (ks @ [length rs]) = es @ [(int (length rs), int (length (encs rs)))]"
    using ks(1,3) indexed_append [of ks rs "[r]"] by (simp add: indexed_def less_imp_le)
  moreover have "sorted_wrt (<) (ks @ [length rs])" using ks(2,3) by (simp add: sorted_wrt_append)
  moreover have "hd (ks @ [length rs]) = 0" using ks(3,4) by (cases "rs = []") (auto simp: hd_append)
  ultimately show ?thesis unfolding sparse_def'
    using ks(3) by (intro exI [of _ "ks @ [length rs]"]) (auto simp: less_Suc_eq)
qed

lemma sparse_Nil: "sparse [] [] "
  by (simp add: sparse_def indexed_def)

lemma sparse_empty_iff: "sparse rs es \<Longrightarrow> es = [] \<longleftrightarrow> rs = []"
  unfolding sparse_def' by (auto simp: indexed_def)

text \<open>
  The position a lookup finds is that of a record not after the target; the target may be beyond the
  records.
\<close>

lemma sparse_lookup:
  assumes "index_inv i" and "i_maxSize i \<noteq> 0" and "sparse rs (index_entries i)" and "0 \<le> t"
  shows "\<exists>k f. Index_Lookup i t = Inr (int (length (encs (take k rs))), f) \<and> k \<le> length rs \<and> int k \<le> t \<and>
              (rs \<noteq> [] \<longrightarrow> k < length rs) \<and> (f \<longrightarrow> int k = t)"
proof (cases "rs = []")
  case True
  then have "index_entries i = []" using assms(3) sparse_empty_iff by blast
  then have "Index_Entries i = 0" by (metis length_index_entries list.size(3))
  then have "Index_Lookup i t = Inr (0, False)"
    using assms(1,2) by (auto simp: Index_Lookup_def index_inv_def Index_Entries_def Let_def)
  then show ?thesis using True assms(4) by (intro exI [of _ 0] exI [of _ False]) simp
next
  case False
  obtain ks where ks: "index_entries i = indexed rs ks" "sorted_wrt (<) ks" "\<forall>k \<in> set ks. k < length rs"
    "ks \<noteq> []" "hd ks = 0"
    using assms(3) False unfolding sparse_def' by blast
  have "sorted_wrt (<) (map fst (index_entries i))"
    using ks(2) by (simp add: ks(1) indexed_def sorted_wrt_map comp_def)
  moreover have "index_entries i \<noteq> []" "fst (hd (index_entries i)) \<le> t"
    using ks assms(4) by (simp_all add: indexed_def hd_map)
  ultimately obtain r p where "(r, p) \<in> set (index_entries i)" "r \<le> t" "Index_Lookup i t = Inr (p, r = t)"
    using oi.lookup_sound [OF assms(1)] by meson
  moreover from this obtain k where "k \<in> set ks" "r = int k" "p = int (length (encs (take k rs)))"
    by (auto simp: ks(1) indexed_def)
  ultimately show ?thesis using ks(3) by (intro exI [of _ k] exI [of _ "r = t"]) auto
qed

section \<open>Appending\<close>

text \<open>
  The accounting step that \<open>Append\<close> and the recovery scan share: \<open>s'\<close> has counted one more record
  and has an entry for it or none.
\<close>

lemma acct_step:
  assumes inv: "acct_inv s rs" and r: "wf_record r" "Offset r = NextOffset s"
    and small: "bytesWritten s \<le> MaxUint32" and next_off: "NextOffset s < 2 ^ 63 - 1"
    and fields: "BaseOffset s' = BaseOffset s" "NextOffset s' = NextOffset s + 1"
      "bytesWritten s' = bytesWritten s + int (EncodedSize r)" "s_closed s' = s_closed s"
      "indexInterval s' = indexInterval s"
    and ix: "if Index_Entries (s_index s) = 0 \<or> indexInterval s \<le> bytesSinceLastIndex s + int (EncodedSize r)
      then Index_Append (s_index s) (uint32 (NextOffset s - BaseOffset s)) (uint32 (bytesWritten s)) = Inr (s_index s')
           \<and> bytesSinceLastIndex s' = 0
      else s_index s' = s_index s \<and> bytesSinceLastIndex s' = bytesSinceLastIndex s + int (EncodedSize r)"
  shows "acct_inv s' (rs @ [r])"
proof -
  have pos: "length (encs rs) < 2 ^ 32" using inv small by (simp add: acct_inv_def MaxUint32_def)
  then have u: "is_u32 (int (length rs))" "is_u32 (int (length (encs rs)))"
    using length_encs_ge [of rs] by (simp_all add: is_u32_def)
  have none: "Index_Entries (s_index s) = 0 \<longleftrightarrow> index_entries (s_index s) = []"
    by (metis length_0_conv length_index_entries)
  let ?add = "Index_Entries (s_index s) = 0 \<or> indexInterval s \<le> bytesSinceLastIndex s + int (EncodedSize r)"
  have "index_inv (s_index s') \<and> i_maxSize (s_index s') \<noteq> 0 \<and> sparse (rs @ [r]) (index_entries (s_index s')) \<and>
      idx_of (indexInterval s) (rs @ [r]) =
        (length rs + 1, bytesWritten s', index_entries (s_index s'), bytesSinceLastIndex s')"
  proof (cases ?add)
    case True
    have "uint32 (NextOffset s - BaseOffset s) = int (length rs)" "uint32 (bytesWritten s) = int (length (encs rs))"
      using inv u by (simp_all add: acct_inv_def wrap_u_def is_u32_def)
    then have ap: "Index_Append (s_index s) (int (length rs)) (int (length (encs rs))) = Inr (s_index s')"
      and z: "bytesSinceLastIndex s' = 0"
      using ix True by simp_all
    have i': "index_inv (s_index s')"
      "index_entries (s_index s') = index_entries (s_index s) @ [(int (length rs), int (length (encs rs)))]"
      using oi.append_ok [OF _ u ap] inv by (simp_all add: acct_inv_def)
    moreover have "idx_of (indexInterval s) (rs @ [r]) = (length rs + 1, bytesWritten s',
        index_entries (s_index s) @ [(int (length rs), int (length (encs rs)))], 0)"
      using inv True none fields by (auto simp: idx_of_def idx_step_def Let_def acct_inv_def)
    ultimately show ?thesis
      using inv z Index_Append_maxSize [OF ap] by (auto simp: acct_inv_def intro: sparse_add)
  next
    case False
    then have "index_entries (s_index s) \<noteq> []" using none by simp
    moreover from this have "rs \<noteq> []" using inv sparse_empty_iff by (auto simp: acct_inv_def)
    ultimately show ?thesis
      using inv ix False fields
      by (auto simp: acct_inv_def idx_of_def idx_step_def Let_def intro: sparse_extend)
  qed
  then show ?thesis
    using inv r next_off pos fields
    by (auto simp: acct_inv_def contiguous_append contiguous_Cons length_encs)
qed

text \<open>What is left of the fields when a record is appended.\<close>

definition same_conf :: "Segment \<Rightarrow> Segment \<Rightarrow> bool" where
  "same_conf s s' \<longleftrightarrow>
     BaseOffset s' = BaseOffset s \<and> s_maxBytes s' = s_maxBytes s \<and> indexInterval s' = indexInterval s \<and>
     CreatedAt s' = CreatedAt s \<and> s_closed s' = s_closed s \<and>
     i_maxSize (s_index s') = i_maxSize (s_index s)"

lemma Segment_Append_Inr:
  assumes ap: "Segment_Append s rec = (s', Inr off)" and inv: "seg_inv s"
    and rec: "typed_record rec" and next_off: "NextOffset s < 2 ^ 63 - 1"
  shows "off = NextOffset s" and "seg_inv s'" and "same_conf s s'"
    and "seg_recs s' = seg_recs s @ [rec\<lparr>Offset := NextOffset s\<rparr>]"
proof -
  let ?r = "rec\<lparr>Offset := NextOffset s\<rparr>"
  have small: "bytesWritten s \<le> MaxUint32" and size: "EncodedSize rec \<le> MaxRecordSize"
    and off: "off = NextOffset s"
    using ap by (auto simp: Segment_Append_def Record_Encode_def Let_def split: if_split_asm sum.split_asm)
  have acct: "acct_inv s (seg_recs s)" using inv by (simp add: seg_inv_def)
  have nonneg: "0 \<le> NextOffset s" using acct by (simp add: acct_inv_def)
  have wf: "wf_record ?r"
    using rec size next_off nonneg by (simp add: wf_record_def typed_record_def in_s_def)
  have next64: "int64 (NextOffset s + 1) = NextOffset s + 1"
    using next_off nonneg by (intro wrap_s_id) (simp_all add: in_s_def)
  have w: "writer s' = bufio_Write writerSize (writer s) (enc ?r)" and conf: "same_conf s s'"
    and f: "NextOffset s' = NextOffset s + 1" "bytesWritten s' = bytesWritten s + int (EncodedSize ?r)"
    and ix: "if Index_Entries (s_index s) = 0 \<or> indexInterval s \<le> bytesSinceLastIndex s + int (EncodedSize ?r)
      then Index_Append (s_index s) (uint32 (NextOffset s - BaseOffset s)) (uint32 (bytesWritten s)) = Inr (s_index s')
           \<and> bytesSinceLastIndex s' = 0
      else s_index s' = s_index s \<and> bytesSinceLastIndex s' = bytesSinceLastIndex s + int (EncodedSize ?r)"
    using ap Record_Encode_wf [OF wf] next64
    by (auto simp: Segment_Append_def Let_def same_conf_def dest: Index_Append_maxSize
        split: if_split_asm sum.split_asm)
  have wr: "written (writer s') = encs (seg_recs s @ [?r])" "at_end (wfile (writer s'))"
    using bufio_Write_written [of "writer s" writerSize "enc ?r"] inv w by (simp_all add: seg_inv_def)
  have acct': "acct_inv s' (seg_recs s @ [?r])"
    using conf by (intro acct_step [OF acct wf _ small next_off _ f _ _ ix]) (simp_all add: same_conf_def)
  show "off = NextOffset s" "same_conf s s'" by fact+
  show "seg_inv s'" by (rule seg_invI [OF acct' wr])
  show "seg_recs s' = seg_recs s @ [?r]" by (rule seg_recs_eq [OF acct' wr(1)])
qed

text \<open>A segment that is not full accepts every record within the size limit.\<close>

lemma Segment_Append_not_full:
  assumes "\<not> IsFull s" and "index_inv (s_index s)" and "s_maxBytes s \<le> MaxUint32 + 1"
    and "EncodedSize rec \<le> MaxRecordSize"
  shows "\<exists>s'. Segment_Append s rec = (s', Inr (NextOffset s))"
proof -
  have "bytesWritten s \<le> MaxUint32" "\<not> s_closed s" using assms(1,3) by (auto simp: IsFull_def)
  moreover obtain ix where
    "Index_Append (s_index s) (uint32 (NextOffset s - BaseOffset s)) (uint32 (bytesWritten s)) = Inr ix"
    using assms(1,2) by (auto simp: Index_Append_def IsFull_def Index_Size_def index_inv_def Let_def entrySize_def)
  ultimately show ?thesis
    using assms(4) by (simp add: Segment_Append_def Record_Encode_def Let_def)
qed

text \<open>An append that fails on a segment that is not full changes nothing: the record is too large.\<close>

lemma Segment_Append_Inl:
  assumes "Segment_Append s rec = (s', Inl e)" and "\<not> IsFull s" and "index_inv (s_index s)"
    and "s_maxBytes s \<le> MaxUint32 + 1"
  shows "s' = s" and "e = Wrapped ''segment: encode record'' ErrRecordTooLarge"
    and "MaxRecordSize < EncodedSize rec"
proof -
  show large: "MaxRecordSize < EncodedSize rec"
    using Segment_Append_not_full [OF assms(2-4), of rec] assms(1) by fastforce
  have "\<not> s_closed s" "\<not> MaxUint32 < bytesWritten s" using assms(2,4) by (auto simp: IsFull_def)
  then show "s' = s" and "e = Wrapped ''segment: encode record'' ErrRecordTooLarge"
    using assms(1) large by (auto simp: Segment_Append_def Record_Encode_def Let_def)
qed

section \<open>Flushing\<close>

definition flushed :: "Segment \<Rightarrow> bool" where
  "flushed s \<longleftrightarrow> wbuf (writer s) = []"

lemma FlushWriter_ok:
  assumes "seg_inv s"
  shows "\<exists>s'. FlushWriter s = Inr s' \<and> seg_inv s' \<and> seg_recs s' = seg_recs s \<and> flushed s' \<and>
              same_conf s s' \<and> NextOffset s' = NextOffset s \<and> s_index s' = s_index s \<and>
              bytesWritten s' = bytesWritten s"
proof -
  let ?s = "s\<lparr>writer := bufio_Flush (writer s)\<rparr>"
  have w: "written (writer ?s) = written (writer s)" "wbuf (writer ?s) = []" "at_end (wfile (writer ?s))"
    using bufio_Flush_written [of "writer s"] assms by (simp_all add: seg_inv_def written_def)
  have a: "acct_inv ?s (seg_recs s)" using assms by (simp add: seg_inv_def acct_inv_def)
  have "written (writer ?s) = encs (seg_recs s)" using w assms by (simp add: seg_inv_def)
  then show ?thesis
    using seg_invI [OF a] seg_recs_eq [OF a] w(2,3) assms
    by (intro exI [of _ ?s]) (simp add: FlushWriter_def flushed_def same_conf_def seg_inv_def acct_inv_def)
qed

lemma Segment_Flush_eq: "Segment_Flush s = FlushWriter s"
  by (simp add: Segment_Flush_def FlushWriter_def)

lemma readHandle_flushed: "seg_inv s \<Longrightarrow> flushed s \<Longrightarrow> readHandle s = encs (seg_recs s)"
  by (simp add: readHandle_def seg_inv_def acct_inv_def flushed_def written_def)

section \<open>Reading\<close>

lemma drop_encs: "drop (length (encs (take k rs))) (encs rs) = encs (drop k rs)"
  using encs_take_drop [of rs k] by (metis append_eq_conv_conj)

lemma scan_loop_encs:
  assumes "\<forall>r \<in> set rs. wf_record r" and "contiguous b rs" and "b \<le> t"
  shows "scan_loop (encs rs) t =
           (if t - b < int (length rs) then Inr (rs ! nat (t - b)) else Inl (not_found t))"
  using assms
proof (induction rs arbitrary: b)
  case Nil
  then show ?case by (simp add: scan_loop.simps [of "[]"] is_eof_def)
next
  case (Cons r rs)
  have d: "DecodeRecord (encs (r # rs)) = Inr (r, EncodedSize r, encs rs)"
    using Cons.prems by (simp add: DecodeRecord_enc)
  have off: "Offset r = b" "contiguous (b + 1) rs" using Cons.prems by (simp_all add: contiguous_Cons)
  show ?case
  proof (cases "t = b")
    case True
    then show ?thesis by (simp add: scan_loop.simps [of "encs (r # rs)"] d off del: encs_simps)
  next
    case False
    then have "nat (t - b) = Suc (nat (t - (b + 1)))" using Cons.prems by simp
    then show ?thesis
      using False Cons.IH [of "b + 1"] Cons.prems off
      by (auto simp: scan_loop.simps [of "encs (r # rs)"] d simp del: encs_simps)
  qed
qed

lemma scanFrom_record:
  assumes "seg_inv s" and "flushed s" and "k \<le> length (seg_recs s)" and "int k \<le> t"
  shows "scanFrom s (int (length (encs (take k (seg_recs s))))) (BaseOffset s + t) =
           (if t < int (length (seg_recs s)) then Inr (seg_recs s ! nat t)
            else Inl (not_found (BaseOffset s + t)))"
proof -
  let ?rs = "seg_recs s"
  have c: "contiguous (BaseOffset s + int k) (drop k ?rs)" and wf: "\<forall>r \<in> set (drop k ?rs). wf_record r"
    using assms(1,3) by (auto simp: seg_inv_def acct_inv_def intro: contiguous_drop dest: in_set_dropD)
  have "drop k ?rs ! nat (t - int k) = ?rs ! nat t" if "t < int (length ?rs)"
    using that assms(3,4) by (simp add: nat_diff_distrib)
  then show ?thesis
    using scan_loop_encs [OF wf c, of "BaseOffset s + t"] assms
    by (simp add: scanFrom_def readHandle_flushed drop_encs)
qed

text \<open>Reading an offset of the segment gives the record appended there, any other offset above the
  base is reported as not found.\<close>

lemma Segment_Read_eq:
  assumes inv: "seg_inv s" and fl: "flushed s" and base: "BaseOffset s \<le> off"
  shows "Segment_Read s off =
           (if off < NextOffset s then Inr (seg_recs s ! nat (off - BaseOffset s)) else Inl (not_found off))"
proof -
  let ?rs = "seg_recs s" and ?t = "off - BaseOffset s"
  have a: "acct_inv s ?rs" using inv by (simp add: seg_inv_def)
  have u: "0 \<le> uint32 ?t" "uint32 ?t \<le> ?t" using base by (simp_all add: wrap_u_def zmod_le_nonneg_dividend)
  obtain k f where l: "Index_Lookup (s_index s) (uint32 ?t) = Inr (int (length (encs (take k ?rs))), f)"
    and k: "k \<le> length ?rs" "int k \<le> uint32 ?t" "?rs \<noteq> [] \<longrightarrow> k < length ?rs"
    using a sparse_lookup [of "s_index s" ?rs "uint32 ?t"] u(1) by (auto simp: acct_inv_def)
  let ?p = "int (length (encs (take k ?rs)))"
  have kt: "int k \<le> ?t" using k(2) u(2) by linarith
  have next_off: "off < NextOffset s \<longleftrightarrow> ?t < int (length ?rs)" using a by (auto simp: acct_inv_def)
  have scan: "scanFrom s ?p off =
      (if off < NextOffset s then Inr (?rs ! nat ?t) else Inl (not_found off))"
    using scanFrom_record [OF inv fl k(1) kt] next_off by simp
  have at: "readAt s ?p off = scanFrom s ?p off"
  proof (cases "?rs = []")
    case True
    then show ?thesis using inv fl
      by (simp add: readAt_def scanFrom_def readHandle_flushed scan_loop.simps [of "[]"])
  next
    case False
    then have "drop k ?rs = ?rs ! k # drop (Suc k) ?rs" using k(3) by (simp add: Cons_nth_drop_Suc)
    moreover have "wf_record (?rs ! k)" using a False k(3) by (simp add: acct_inv_def)
    ultimately have "DecodeRecord (drop (nat ?p) (readHandle s)) =
        Inr (?rs ! k, EncodedSize (?rs ! k), encs (drop (Suc k) ?rs))"
      using inv fl by (simp add: readHandle_flushed drop_encs DecodeRecord_enc)
    moreover have "Offset (?rs ! k) = BaseOffset s + int k"
      using a False k(3) by (simp add: acct_inv_def contiguous_nth)
    ultimately show ?thesis using scan next_off False k(3) by (auto simp: readAt_def)
  qed
  have "\<not> s_closed s" using a by (simp add: acct_inv_def)
  then show ?thesis using base l at scan by (simp add: Segment_Read_def)
qed

subsection \<open>Reading a run of records\<close>

text \<open>
  The reference for \<open>ReadFrom\<close>: the longest prefix within the budget, but never less than one record.
\<close>

fun budget :: "int \<Rightarrow> int \<Rightarrow> Record list \<Rightarrow> Record list" where
  "budget maxBytes acc [] = []"
| "budget maxBytes acc (r # rs) =
     (if 0 < acc \<and> maxBytes < acc + int (EncodedSize r) then []
      else r # budget maxBytes (acc + int (EncodedSize r)) rs)"

lemma budget_prefix: "\<exists>k. budget mx acc rs = take k rs"
proof (induction rs arbitrary: acc)
  case (Cons r rs)
  then obtain k where "budget mx (acc + int (EncodedSize r)) rs = take k rs" by blast
  then show ?case by (cases "0 < acc \<and> mx < acc + int (EncodedSize r)") (auto intro: exI [of _ 0] exI [of _ "Suc k"])
qed simp

lemma budget_nonempty: "rs \<noteq> [] \<Longrightarrow> budget mx 0 rs \<noteq> []"
  by (cases rs) simp_all

lemma budget_sum:
  "0 < acc \<Longrightarrow> acc \<le> mx \<Longrightarrow> acc + int (length (encs (budget mx acc rs))) \<le> mx"
proof (induction rs arbitrary: acc)
  case (Cons r rs)
  show ?case
  proof (cases "mx < acc + int (EncodedSize r)")
    case False
    then show ?thesis using Cons.IH [of "acc + int (EncodedSize r)"] Cons.prems by simp
  qed (use Cons.prems in simp)
qed simp

lemma budget_stop: "0 < acc \<Longrightarrow> mx \<le> acc \<Longrightarrow> budget mx acc rs = []"
  using EncodedSize_ge [of "hd rs"] by (cases rs) auto

text \<open>More than the budget is only ever returned as a single record.\<close>

lemma budget_bound:
  "length (encs (budget mx 0 rs)) \<le> nat mx \<or> length (budget mx 0 rs) = 1" if "0 < mx"
proof (cases rs)
  case (Cons r rs')
  have pos: "0 < int (EncodedSize r)" using EncodedSize_ge [of r] by simp
  show ?thesis
  proof (cases "int (EncodedSize r) \<le> mx")
    case True
    then show ?thesis using budget_sum [OF pos True, of rs'] Cons by (simp add: nat_le_iff le_nat_iff)
  next
    case False
    then show ?thesis using budget_stop [OF pos, of mx rs'] Cons by simp
  qed
qed simp

lemma readFrom_loop_encs:
  assumes "\<forall>r \<in> set rs. wf_record r" and "mx + int MaxRecordSize < 2 ^ 31"
    and "0 \<le> acc" and "acc \<le> max mx (int MaxRecordSize)"
  shows "readFrom_loop off mx (encs rs) out acc =
           (out @ budget mx acc (filter (\<lambda>r. off \<le> Offset r) rs), None)"
  using assms
proof (induction rs arbitrary: out acc)
  case Nil
  then show ?case by (simp add: readFrom_loop.simps [of _ _ "[]"] is_eof_def)
next
  case (Cons r rs)
  have d: "DecodeRecord (encs (r # rs)) = Inr (r, EncodedSize r, encs rs)"
    using Cons.prems by (simp add: DecodeRecord_enc)
  let ?a = "acc + int (EncodedSize r)"
  have size: "EncodedSize r \<le> MaxRecordSize" using Cons.prems(1) by (simp add: wf_record_def)
  then have n: "int32 (int (EncodedSize r)) = int (EncodedSize r)"
    by (intro wrap_s_id) (simp_all add: in_s_def MaxRecordSize_def)
  have a: "int32 ?a = ?a"
    using size Cons.prems(2-4) by (intro wrap_s_id) (auto simp: in_s_def MaxRecordSize_def)
  show ?case
  proof (cases "off \<le> Offset r \<and> \<not> (0 < acc \<and> mx < ?a)")
    case True
    then have "?a \<le> max mx (int MaxRecordSize)" using size Cons.prems(3) by (cases "acc = 0") auto
    then show ?thesis
      using True Cons.IH [of ?a] Cons.prems n a
      by (simp add: readFrom_loop.simps [of _ _ "encs (r # rs)"] d del: encs_simps)
  next
    case False
    then show ?thesis
      using Cons.IH [of acc] Cons.prems n a
      by (auto simp: readFrom_loop.simps [of _ _ "encs (r # rs)"] d simp del: encs_simps)
  qed
qed

lemma contiguous_filter:
  "contiguous b rs \<Longrightarrow> filter (\<lambda>r. off \<le> Offset r) rs = drop (nat (off - b)) rs"
proof (induction rs arbitrary: b)
  case (Cons r rs)
  then have off: "Offset r = b" "contiguous (b + 1) rs" by (simp_all add: contiguous_Cons)
  show ?case
  proof (cases "off \<le> b")
    case True
    then show ?thesis using Cons.IH [OF off(2)] off(1) by simp
  next
    case False
    then have "nat (off - b) = Suc (nat (off - (b + 1)))" by simp
    then show ?thesis using Cons.IH [OF off(2)] off(1) False by simp
  qed
qed simp

lemma Segment_ReadFrom_eq:
  assumes inv: "seg_inv s" and fl: "flushed s" and base: "BaseOffset s \<le> off"
    and mx: "0 < mx" "mx + int MaxRecordSize < 2 ^ 31"
  shows "Segment_ReadFrom s off mx =
           (budget mx 0 (drop (nat (off - BaseOffset s)) (seg_recs s)), None)"
proof -
  let ?rs = "seg_recs s" and ?t = "off - BaseOffset s"
  have a: "acct_inv s ?rs" using inv by (simp add: seg_inv_def)
  have u: "0 \<le> uint32 ?t" "uint32 ?t \<le> ?t" using base by (simp_all add: wrap_u_def zmod_le_nonneg_dividend)
  obtain k f where l: "Index_Lookup (s_index s) (uint32 ?t) = Inr (int (length (encs (take k ?rs))), f)"
    and k: "k \<le> length ?rs" "int k \<le> uint32 ?t"
    using a sparse_lookup [of "s_index s" ?rs "uint32 ?t"] u(1) by (auto simp: acct_inv_def)
  have wf: "\<forall>r \<in> set (drop k ?rs). wf_record r" and c: "contiguous (BaseOffset s + int k) (drop k ?rs)"
    using a k(1) by (auto simp: acct_inv_def intro: contiguous_drop dest: in_set_dropD)
  have "nat (off - (BaseOffset s + int k)) + k = nat ?t" using k(2) u(2) by simp
  then have "filter (\<lambda>r. off \<le> Offset r) (drop k ?rs) = drop (nat ?t) ?rs"
    using contiguous_filter [OF c, of off] by simp
  then have "readFrom_loop off mx (encs (drop k ?rs)) [] 0 = (budget mx 0 (drop (nat ?t) ?rs), None)"
    using readFrom_loop_encs [OF wf mx(2), of 0 off "[]"] by (simp add: MaxRecordSize_def)
  moreover have "\<not> s_closed s" using a by (simp add: acct_inv_def)
  ultimately show ?thesis
    using base mx(1) l inv fl by (simp add: Segment_ReadFrom_def readHandle_flushed drop_encs)
qed

section \<open>Opening and closing\<close>

lemma withDefaults_pos:
  "0 < SegmentBytes (withDefaults c)" "8 \<le> IndexMaxBytes c \<or> IndexMaxBytes c \<le> 0 \<Longrightarrow> 8 \<le> IndexMaxBytes (withDefaults c)"
  by (auto simp: withDefaults_def)

lemma withDefaults_idem: "withDefaults (withDefaults c) = withDefaults c"
  by (simp add: withDefaults_def)

text \<open>A segment just created holds no record and has room for one.\<close>

lemma NewSegment_fresh:
  assumes "8 \<le> IndexMaxBytes (withDefaults cfg)" and "0 \<le> base" and "base < 2 ^ 63"
  shows "\<exists>s. NewSegment [] mtime [] base cfg now = Inr s \<and> seg_inv s \<and> seg_recs s = [] \<and> flushed s \<and>
             \<not> IsFull s \<and> BaseOffset s = base \<and> NextOffset s = base \<and> CreatedAt s = now \<and>
             s_maxBytes s = SegmentBytes (withDefaults cfg)"
proof -
  let ?m = "IndexMaxBytes (withDefaults cfg)"
  obtain ix where ix: "NewIndex [] ?m = Inr ix"
    using NewIndex_ok [of ?m "[]"] assms(1) by (auto simp: entrySize_def nat_le_iff le_nat_iff)
  have e: "index_entries ix = []" and i: "index_inv ix"
    using NewIndex_empty [OF ix] NewIndex_inv [OF ix] by simp_all
  have m: "entrySize \<le> i_maxSize ix" using NewIndex_Inr [OF ix] by simp
  have z: "i_size ix = 0"
  proof -
    have "Index_Entries ix = 0" using e by (metis length_index_entries list.size(3))
    then show ?thesis using i by (auto simp: Index_Entries_def index_inv_def entrySize_def)
  qed
  let ?s = "\<lparr>BaseOffset = base, NextOffset = base,
             writer = \<lparr>wfile = \<lparr>fdata = [], fpos = 0\<rparr>, wbuf = []\<rparr>, s_index = ix,
             s_maxBytes = SegmentBytes (withDefaults cfg),
             indexInterval = IndexIntervalBytes (withDefaults cfg), bytesWritten = 0,
             bytesSinceLastIndex = 0, CreatedAt = now, s_closed = False\<rparr>"
  have new: "NewSegment [] mtime [] base cfg now = Inr ?s" by (simp add: NewSegment_def ix Let_def)
  have a: "acct_inv ?s []" using assms(2,3) i e m by (simp add: acct_inv_def sparse_Nil entrySize_def idx_of_def)
  have "seg_inv ?s" "seg_recs ?s = []"
    using seg_invI [OF a] seg_recs_eq [OF a] by (simp_all add: written_def at_end_def)
  then show ?thesis using new m z withDefaults_pos(1) [of cfg]
    by (intro exI [of _ ?s]) (simp add: flushed_def IsFull_def Index_Size_def)
qed

lemma Segment_Close_file:
  assumes "seg_inv s"
  shows "fdata (wfile (writer (Segment_Close s))) = encs (seg_recs s)" and "s_closed (Segment_Close s)"
    and "i_file (s_index (Segment_Close s)) = take (i_size (s_index s)) (i_file (s_index s))"
  using assms bufio_Flush_written [of "writer s"] Index_Close_file [of "s_index s"]
  by (simp_all add: Segment_Close_def seg_inv_def acct_inv_def)

section \<open>The contract of an append-only log\<close>

text \<open>
  What the layers above rely on, of one segment and of the whole partition log alike: an append that
  returns an offset returned the next one and added the record there; a read within the log returns the
  record of that offset. The bound keeps the next offset within 64 bits.
\<close>

locale append_log =
  fixes invar :: "'l \<Rightarrow> bool" and start :: "'l \<Rightarrow> int" and recs :: "'l \<Rightarrow> Record list"
    and append :: "'l \<Rightarrow> Record \<Rightarrow> 'l \<times> int result" and read :: "'l \<Rightarrow> int \<Rightarrow> Record result"
  assumes append_ok: "invar l \<Longrightarrow> typed_record rec \<Longrightarrow> start l + int (length (recs l)) < 2 ^ 63 - 1 \<Longrightarrow>
      append l rec = (l', Inr off) \<Longrightarrow>
      off = start l + int (length (recs l)) \<and> invar l' \<and> start l' = start l \<and>
      recs l' = recs l @ [rec\<lparr>Offset := off\<rparr>]"
    and read_ok: "invar l \<Longrightarrow> start l \<le> off \<Longrightarrow> off < start l + int (length (recs l)) \<Longrightarrow>
      read l off = Inr (recs l ! nat (off - start l))"
begin

lemma read_your_write:
  assumes "invar l" and "typed_record rec" and "start l + int (length (recs l)) < 2 ^ 63 - 1"
    and "append l rec = (l', Inr off)"
  shows "read l' off = Inr (rec\<lparr>Offset := off\<rparr>)"
  using append_ok [OF assms] read_ok [of l' off] by simp

lemma append_keeps_reads:
  assumes "invar l" and "typed_record rec" and "start l + int (length (recs l)) < 2 ^ 63 - 1"
    and "append l rec = (l', Inr off)" and "start l \<le> k" and "k < start l + int (length (recs l))"
  shows "read l' k = read l k"
  using append_ok [OF assms(1-4)] read_ok [OF assms(1,5,6)] read_ok [of l' k] assms(5,6)
  by (simp add: nth_append nat_less_iff)

end

definition flush_read :: "Segment \<Rightarrow> int \<Rightarrow> Record result" where
  "flush_read s off = (case FlushWriter s of Inl e \<Rightarrow> Inl e | Inr s' \<Rightarrow> Segment_Read s' off)"

lemma flush_read_eq:
  assumes "seg_inv s" and "BaseOffset s \<le> off"
  shows "flush_read s off =
           (if off < NextOffset s then Inr (seg_recs s ! nat (off - BaseOffset s)) else Inl (not_found off))"
  using FlushWriter_ok [OF assms(1)] Segment_Read_eq assms(2)
  by (fastforce simp: flush_read_def same_conf_def)

interpretation sl: append_log seg_inv BaseOffset seg_recs Segment_Append flush_read
proof
  fix s rec s' off
  assume "seg_inv s" "typed_record rec" "BaseOffset s + int (length (seg_recs s)) < 2 ^ 63 - 1"
    "Segment_Append s rec = (s', Inr off)"
  moreover have "NextOffset s = BaseOffset s + int (length (seg_recs s))"
    using \<open>seg_inv s\<close> by (simp add: seg_inv_def acct_inv_def)
  ultimately show "off = BaseOffset s + int (length (seg_recs s)) \<and> seg_inv s' \<and>
      BaseOffset s' = BaseOffset s \<and> seg_recs s' = seg_recs s @ [rec\<lparr>Offset := off\<rparr>]"
    using Segment_Append_Inr [of s rec s' off] by (simp add: same_conf_def)
next
  fix s off
  assume "seg_inv s" "BaseOffset s \<le> off" "off < BaseOffset s + int (length (seg_recs s))"
  then show "flush_read s off = Inr (seg_recs s ! nat (off - BaseOffset s))"
    using flush_read_eq [of s off] by (simp add: seg_inv_def acct_inv_def)
qed

end
