(* ===== verification/Rebuild.thy ===== *)
theory Rebuild
  imports Segment
begin

text \<open>
  Recovery of a segment, \<open>rebuildSegment\<close> of \<^verbatim>\<open>internal/storage/log.go\<close>: the log file is scanned from
  the start, a new index is built from the records found, and the file is cut behind the last record
  that is kept. It serves crash recovery (\<open>stopOffset < 0\<close>) and truncation.

  The scan rebuilds exactly the accounting and the index that the original appends had built.
\<close>

section \<open>Operations\<close>

function rebuild_loop :: "int \<Rightarrow> bytes \<Rightarrow> Segment \<Rightarrow> Segment \<times> go_error option" where
  "rebuild_loop stopOffset br seg =
     (case DecodeRecord br of
        Inl _ \<Rightarrow> (seg, None)
      | Inr (rec, n, br') \<Rightarrow>
          if 0 \<le> stopOffset \<and> stopOffset \<le> Offset rec then (seg, None)
          else
            (let pos = bytesWritten seg;
                 seg = seg\<lparr>bytesWritten := bytesWritten seg + int n,
                           bytesSinceLastIndex := bytesSinceLastIndex seg + int n\<rparr>
             in if Index_Entries (s_index seg) = 0 \<or> indexInterval seg \<le> bytesSinceLastIndex seg
                then
                  (case Index_Append (s_index seg) (uint32 (Offset rec - BaseOffset seg)) (uint32 pos) of
                     Inl e \<Rightarrow> (seg, Some (Wrapped ''rebuild: append index'' e))
                   | Inr ix \<Rightarrow>
                       rebuild_loop stopOffset br'
                         (seg\<lparr>s_index := ix, bytesSinceLastIndex := 0,
                              NextOffset := int64 (Offset rec + 1)\<rparr>))
                else rebuild_loop stopOffset br' (seg\<lparr>NextOffset := int64 (Offset rec + 1)\<rparr>)))"
  by pat_completeness auto
termination
  by (relation "measure (\<lambda>(_, br, _). length br)") (auto dest: DecodeRecord_shrinks)

declare rebuild_loop.simps [simp del]

text \<open>The old index file is removed, so the new index is opened on an empty file.\<close>

definition rebuildSegment :: "Segment \<Rightarrow> int \<Rightarrow> Segment \<times> go_error option" where
  "rebuildSegment seg stopOffset =
     (if s_closed seg then (seg, Some ErrSegmentClosed)
      else
        (let seg = seg\<lparr>writer := bufio_Flush (writer seg)\<rparr>;
             indexMax = i_maxSize (s_index seg);
             seg = seg\<lparr>s_index := Index_Close (s_index seg)\<rparr>
         in case NewIndex [] (int indexMax) of
              Inl e \<Rightarrow> (seg, Some (Wrapped ''rebuild: recreate index'' e))
            | Inr freshIndex \<Rightarrow>
                (let seg = seg\<lparr>s_index := freshIndex, bytesWritten := 0, bytesSinceLastIndex := 0,
                               NextOffset := BaseOffset seg\<rparr>
                 in case rebuild_loop stopOffset (fdata (wfile (writer seg))) seg of
                      (seg, Some e) \<Rightarrow> (seg, Some e)
                    | (seg, None) \<Rightarrow>
                        (let n = nat (bytesWritten seg);
                             f = \<lparr>fdata = file_Truncate n (fdata (wfile (writer seg))), fpos = n\<rparr>
                         in (seg\<lparr>writer := (writer seg)\<lparr>wfile := f\<rparr>\<rparr>, None)))))"

section \<open>The index grows with the records\<close>

definition idx_entries :: "int \<Rightarrow> Record list \<Rightarrow> (int \<times> int) list" where
  "idx_entries iv rs = fst (snd (snd (idx_of iv rs)))"

lemma idx_entries_mono: "\<exists>more. idx_entries iv (rs @ rs') = idx_entries iv rs @ more"
proof (induction rs' rule: rev_induct)
  case (snoc r rs')
  have "idx_of iv (rs @ rs' @ [r]) = idx_step iv (idx_of iv (rs @ rs')) r" by (simp add: idx_of_def)
  then have "\<exists>m. idx_entries iv (rs @ rs' @ [r]) = idx_entries iv (rs @ rs') @ m"
    by (auto simp: idx_entries_def idx_step_def Let_def split: prod.split)
  then show ?case using snoc by auto
qed simp

lemma idx_entries_length: "length (idx_entries iv rs) \<le> length (idx_entries iv (rs @ rs'))"
  using idx_entries_mono [of iv rs rs'] by auto

lemma acct_entries: "acct_inv s rs \<Longrightarrow> index_entries (s_index s) = idx_entries (indexInterval s) rs"
  by (simp add: acct_inv_def idx_entries_def)

text \<open>The entry of the next record fits when the capacity covers all entries of the run.\<close>

lemma acct_room:
  assumes "acct_inv s rs" and "entrySize * length (idx_entries (indexInterval s) (rs @ [r])) \<le> i_maxSize (s_index s)"
    and "Index_Entries (s_index s) = 0 \<or> indexInterval s \<le> bytesSinceLastIndex s + int (EncodedSize r)"
  shows "\<exists>ix. Index_Append (s_index s) x y = Inr ix"
proof -
  have none: "Index_Entries (s_index s) = 0 \<longleftrightarrow> index_entries (s_index s) = []"
    by (metis length_0_conv length_index_entries)
  have "idx_of (indexInterval s) (rs @ [r]) = idx_step (indexInterval s) (idx_of (indexInterval s) rs) r"
    by (simp add: idx_of_def)
  then have "length (idx_entries (indexInterval s) (rs @ [r])) = Index_Entries (s_index s) + 1"
    using assms(1,3) none by (auto simp: acct_inv_def idx_entries_def idx_step_def Let_def)
  moreover have "Index_Entries (s_index s) * entrySize = i_size (s_index s)"
    using assms(1) by (auto simp: acct_inv_def index_inv_def Index_Entries_def entrySize_def)
  ultimately have "i_size (s_index s) + entrySize \<le> i_maxSize (s_index s)"
    using assms(2) by (simp add: algebra_simps)
  then show ?thesis using assms(1) by (auto simp: Index_Append_def acct_inv_def index_inv_def Let_def)
qed

section \<open>The scan\<close>

text \<open>The scan ends before \<open>br\<close>: nothing can be decoded there, or the stop offset is reached.\<close>

definition scan_stops :: "int \<Rightarrow> bytes \<Rightarrow> bool" where
  "scan_stops stopOffset br \<longleftrightarrow>
     (case DecodeRecord br of Inl _ \<Rightarrow> True | Inr (r, _, _) \<Rightarrow> 0 \<le> stopOffset \<and> stopOffset \<le> Offset r)"

definition keeps :: "int \<Rightarrow> Record list \<Rightarrow> bool" where
  "keeps stopOffset rs \<longleftrightarrow> stopOffset < 0 \<or> (\<forall>r \<in> set rs. Offset r < stopOffset)"

text \<open>A file that a segment of base \<open>b\<close> can hold.\<close>

definition segment_records :: "int \<Rightarrow> Record list \<Rightarrow> bool" where
  "segment_records b rs \<longleftrightarrow>
     0 \<le> b \<and> b + int (length rs) < 2 ^ 63 \<and> contiguous b rs \<and> (\<forall>r \<in> set rs. wf_record r) \<and>
     (rs \<noteq> [] \<longrightarrow> length (encs (butlast rs)) < 2 ^ 32)"

lemma acct_segment_records: "acct_inv s rs \<Longrightarrow> segment_records (BaseOffset s) rs"
  by (auto simp: acct_inv_def segment_records_def)

lemma segment_records_take:
  assumes "segment_records b rs"
  shows "segment_records b (take k rs)"
proof (cases "take k rs = []")
  case False
  then have k: "0 < k" "rs \<noteq> []" by auto
  define m where "m = length (take k rs) - 1"
  have m: "m \<le> k" "m \<le> length rs - 1" by (auto simp: m_def)
  have "butlast (take k rs) = take m (take k rs)" unfolding m_def by (rule butlast_conv_take)
  also have "\<dots> = take m (butlast rs)" using m unfolding butlast_conv_take by (simp add: min_absorb1)
  finally have "encs (butlast rs) = encs (butlast (take k rs)) @ encs (drop m (butlast rs))"
    using encs_take_drop [of "butlast rs" m] by (simp only:)
  then have "length (encs (butlast (take k rs))) \<le> length (encs (butlast rs))" by simp
  then have "length (encs (butlast (take k rs))) < 2 ^ 32"
    using assms k by (simp add: segment_records_def)
  then show ?thesis
    using assms by (auto simp: segment_records_def contiguous_take dest: in_set_takeD)
qed (use assms in \<open>auto simp: segment_records_def\<close>)

lemma rebuild_step:
  assumes inv: "acct_inv seg done" and d: "DecodeRecord br = Inr (r, EncodedSize r, br')"
    and rs: "segment_records (BaseOffset seg) (done @ [r])" and keep: "keeps stopOffset [r]"
    and room: "entrySize * length (idx_entries (indexInterval seg) (done @ [r])) \<le> i_maxSize (s_index seg)"
  shows "\<exists>seg'. rebuild_loop stopOffset br seg = rebuild_loop stopOffset br' seg' \<and>
           acct_inv seg' (done @ [r]) \<and> same_conf seg seg' \<and> writer seg' = writer seg"
proof -
  let ?add = "Index_Entries (s_index seg) = 0 \<or> indexInterval seg \<le> bytesSinceLastIndex seg + int (EncodedSize r)"
  have r: "wf_record r" "Offset r = NextOffset seg"
    using rs inv by (simp_all add: segment_records_def acct_inv_def contiguous_append contiguous_Cons)
  have small: "bytesWritten seg \<le> MaxUint32" "NextOffset seg < 2 ^ 63 - 1"
    using rs inv by (simp_all add: segment_records_def acct_inv_def MaxUint32_def)
  have next64: "int64 (Offset r + 1) = NextOffset seg + 1"
    using small(2) r(2) inv by (subst wrap_s_id) (simp_all add: in_s_def acct_inv_def)
  have go: "(0 \<le> stopOffset \<and> stopOffset \<le> Offset r) = False" using keep by (auto simp: keeps_def)
  show ?thesis
  proof (cases ?add)
    case True
    then obtain ix where ix: "Index_Append (s_index seg) (uint32 (NextOffset seg - BaseOffset seg)) (uint32 (bytesWritten seg)) = Inr ix"
      using acct_room [OF inv room] by blast
    let ?s = "seg\<lparr>bytesWritten := bytesWritten seg + int (EncodedSize r), s_index := ix,
      bytesSinceLastIndex := 0, NextOffset := NextOffset seg + 1\<rparr>"
    have "rebuild_loop stopOffset br seg = rebuild_loop stopOffset br' ?s"
      using True ix unfolding rebuild_loop.simps [of stopOffset br seg] d
      by (simp add: go) (simp add: r(2) next64 [unfolded r(2)])
    moreover have "acct_inv ?s (done @ [r])"
      using True ix by (intro acct_step [OF inv r small]) simp_all
    ultimately show ?thesis using Index_Append_maxSize [OF ix] by (auto simp: same_conf_def)
  next
    case False
    let ?s = "seg\<lparr>bytesWritten := bytesWritten seg + int (EncodedSize r),
      bytesSinceLastIndex := bytesSinceLastIndex seg + int (EncodedSize r), NextOffset := NextOffset seg + 1\<rparr>"
    have "rebuild_loop stopOffset br seg = rebuild_loop stopOffset br' ?s"
      using False unfolding rebuild_loop.simps [of stopOffset br seg] d by (simp add: go next64)
    moreover have "acct_inv ?s (done @ [r])"
      using False by (intro acct_step [OF inv r small]) simp_all
    ultimately show ?thesis by (auto simp: same_conf_def)
  qed
qed

lemma rebuild_loop_encs:
  assumes "acct_inv seg done" and "segment_records (BaseOffset seg) (done @ rs)" and "keeps stopOffset rs"
    and "scan_stops stopOffset tail"
    and "entrySize * length (idx_entries (indexInterval seg) (done @ rs)) \<le> i_maxSize (s_index seg)"
  shows "\<exists>seg'. rebuild_loop stopOffset (encs rs @ tail) seg = (seg', None) \<and>
           acct_inv seg' (done @ rs) \<and> same_conf seg seg' \<and> writer seg' = writer seg"
  using assms
proof (induction rs arbitrary: seg "done")
  case Nil
  then have "rebuild_loop stopOffset tail seg = (seg, None)"
    by (subst rebuild_loop.simps) (auto simp: scan_stops_def split: sum.splits)
  then show ?case using Nil by (simp add: same_conf_def)
next
  case (Cons r rs)
  have one: "segment_records (BaseOffset seg) (done @ [r])"
    using segment_records_take [OF Cons.prems(2), of "length done + 1"] by simp
  then have d: "DecodeRecord (encs (r # rs) @ tail) = Inr (r, EncodedSize r, encs rs @ tail)"
    by (simp add: segment_records_def DecodeRecord_enc)
  have room: "entrySize * length (idx_entries (indexInterval seg) (done @ [r])) \<le> i_maxSize (s_index seg)"
    using Cons.prems(5) idx_entries_length [of "indexInterval seg" "done @ [r]" rs] by (simp add: entrySize_def)
  obtain seg' where 1: "rebuild_loop stopOffset (encs (r # rs) @ tail) seg = rebuild_loop stopOffset (encs rs @ tail) seg'"
    "acct_inv seg' (done @ [r])" "same_conf seg seg'" "writer seg' = writer seg"
    using rebuild_step [OF Cons.prems(1) d one _ room] Cons.prems(3) by (auto simp: keeps_def)
  have "\<exists>seg''. rebuild_loop stopOffset (encs rs @ tail) seg' = (seg'', None) \<and>
      acct_inv seg'' ((done @ [r]) @ rs) \<and> same_conf seg' seg'' \<and> writer seg'' = writer seg'"
    using Cons.prems 1(2,3) by (intro Cons.IH) (auto simp: same_conf_def keeps_def)
  then show ?case using 1 by (auto simp: same_conf_def)
qed

text \<open>
  The whole operation: of a file that holds \<open>rs\<close> followed by bytes where the scan stops, exactly \<open>rs\<close>
  is kept, and the segment is as if \<open>rs\<close> had been appended to a fresh one.
\<close>

lemma rebuildSegment_ok:
  assumes "\<not> s_closed seg" and "at_end (wfile (writer seg))" and "written (writer seg) = encs rs @ tail"
    and rs: "segment_records (BaseOffset seg) rs" and stop: "keeps stopOffset rs" "scan_stops stopOffset tail"
    and cap: "i_maxSize (s_index seg) mod entrySize = 0" "i_maxSize (s_index seg) \<noteq> 0"
      "entrySize * length (idx_entries (indexInterval seg) rs) \<le> i_maxSize (s_index seg)"
  shows "\<exists>seg'. rebuildSegment seg stopOffset = (seg', None) \<and> seg_inv seg' \<and> seg_recs seg' = rs \<and>
           flushed seg' \<and> same_conf seg seg'"
proof -
  let ?w = "bufio_Flush (writer seg)" and ?M = "i_maxSize (s_index seg)"
  have w: "fdata (wfile ?w) = encs rs @ tail" "wbuf ?w = []"
    using bufio_Flush_written [OF assms(2)] assms(3) by simp_all
  have "entrySize \<le> ?M" using cap(1,2) by (simp add: entrySize_def dvd_imp_le mod_eq_0_iff_dvd)
  then obtain ix where ix: "NewIndex [] (int ?M) = Inr ix" using NewIndex_ok [of "int ?M" "[]"] by auto
  have i: "index_inv ix" "index_entries ix = []" "i_maxSize ix = ?M"
    using NewIndex_inv [OF ix] NewIndex_empty [OF ix] NewIndex_Inr [OF ix] cap(1) by simp_all
  let ?s = "seg\<lparr>writer := ?w, s_index := ix, bytesWritten := 0, bytesSinceLastIndex := 0,
    NextOffset := BaseOffset seg\<rparr>"
  have "acct_inv ?s []"
    using assms(1) i cap(2) rs by (simp add: acct_inv_def sparse_Nil idx_of_def segment_records_def)
  then obtain s' where s': "rebuild_loop stopOffset (encs rs @ tail) ?s = (s', None)" "acct_inv s' rs"
    "same_conf ?s s'" "writer s' = ?w"
    using rebuild_loop_encs [of ?s "[]" rs stopOffset tail] rs stop cap i by auto
  let ?n = "nat (bytesWritten s')"
  let ?s' = "s'\<lparr>writer := (writer s')\<lparr>wfile := \<lparr>fdata = file_Truncate ?n (fdata (wfile ?w)), fpos = ?n\<rparr>\<rparr>\<rparr>"
  have n: "?n = length (encs rs)" using s'(2) by (simp add: acct_inv_def)
  have "rebuildSegment seg stopOffset = (?s', None)"
    using assms(1) ix s'(1) w s'(4) by (simp add: rebuildSegment_def Let_def)
  moreover have acct: "acct_inv ?s' rs" using s'(2) by (simp add: acct_inv_def)
  moreover have wr: "written (writer ?s') = encs rs" "at_end (wfile (writer ?s'))" "wbuf (writer ?s') = []"
    using w n s'(4) by (simp_all add: written_def at_end_def file_Truncate_def)
  ultimately show ?thesis
    using seg_invI [OF acct wr(1,2)] seg_recs_eq [OF acct wr(1)] s'(3) i(3)
    by (intro exI [of _ ?s']) (simp add: flushed_def same_conf_def)
qed

end
