(* ===== verification/LogCorrect.thy ===== *)
theory LogCorrect
  imports PartitionLog
begin

text \<open>
  Correctness of the partition log: the invariant \<open>log_inv\<close>, and each operation's effect on the list
  \<open>log_recs\<close> of the records the log holds.
\<close>

section \<open>Invariant\<close>

definition recs_of :: "Segment list \<Rightarrow> Record list" where
  "recs_of ss = concat (map seg_recs ss)"

definition log_recs :: "Log \<Rightarrow> Record list" where
  "log_recs l = recs_of (l_segments l)"

text \<open>
  A sealed segment, seen with the counters that its records determine. A segment that was sealed when
  the log was opened has \<open>NextOffset\<close> still at its base.
\<close>

definition seg_end :: "Segment \<Rightarrow> int" where
  "seg_end s = BaseOffset s + int (length (seg_recs s))"

definition view :: "Segment \<Rightarrow> Segment" where
  "view s = s\<lparr>NextOffset := seg_end s,
              bytesSinceLastIndex := snd (snd (snd (idx_of (indexInterval s) (seg_recs s))))\<rparr>"

definition sealed :: "Segment \<Rightarrow> bool" where
  "sealed s \<longleftrightarrow>
     seg_inv (view s) \<and> flushed s \<and> seg_recs s \<noteq> [] \<and>
     (NextOffset s = BaseOffset s \<or> NextOffset s = seg_end s)"

text \<open>Sealed segments from base \<open>b\<close> on, each starting where the one before it ends.\<close>

fun sealed_run :: "int \<Rightarrow> Segment list \<Rightarrow> bool" where
  "sealed_run b [] \<longleftrightarrow> True"
| "sealed_run b (s # ss) \<longleftrightarrow> BaseOffset s = b \<and> sealed s \<and> sealed_run (seg_end s) ss"

definition segment_conf :: "Segment \<Rightarrow> bool" where
  "segment_conf s \<longleftrightarrow> 0 < s_maxBytes s \<and> s_maxBytes s \<le> MaxUint32 + 1"

definition config_ok :: "Config \<Rightarrow> bool" where
  "config_ok c \<longleftrightarrow> withDefaults c = c \<and> 8 \<le> IndexMaxBytes c \<and> SegmentBytes c \<le> MaxUint32 + 1"

definition segments_ok :: "Segment list \<Rightarrow> bool" where
  "segments_ok ss \<longleftrightarrow>
     ss \<noteq> [] \<and> (\<forall>s \<in> set ss. segment_conf s) \<and> sealed_run (BaseOffset (hd ss)) (butlast ss) \<and>
     BaseOffset (last ss) = BaseOffset (hd ss) + int (length (recs_of (butlast ss))) \<and> seg_inv (last ss)"

definition log_inv :: "Log \<Rightarrow> bool" where
  "log_inv l \<longleftrightarrow> \<not> l_closed l \<and> config_ok (l_config l) \<and> segments_ok (l_segments l)"

lemma recs_of_simps [simp]:
  "recs_of [] = []" "recs_of (s # ss) = seg_recs s @ recs_of ss" "recs_of (ss @ ts) = recs_of ss @ recs_of ts"
  by (simp_all add: recs_of_def)

lemma seg_recs_view [simp]: "seg_recs (view s) = seg_recs s"
  by (simp add: seg_recs_def view_def)

lemma sealed_run_append:
  "sealed_run b (ss @ ts) \<longleftrightarrow> sealed_run b ss \<and> sealed_run (b + int (length (recs_of ss))) ts"
  by (induction ss arbitrary: b) (auto simp: seg_end_def add.assoc)

lemma seg_inv_view: "seg_inv s \<Longrightarrow> view s = s"
  by (simp add: view_def seg_inv_def acct_inv_def seg_end_def)

lemma seg_inv_sealed: "seg_inv s \<Longrightarrow> flushed s \<Longrightarrow> seg_recs s \<noteq> [] \<Longrightarrow> sealed s"
  by (auto simp: sealed_def seg_inv_view seg_inv_def acct_inv_def seg_end_def)

lemma seg_inv_end: "seg_inv s \<Longrightarrow> NextOffset s = seg_end s"
  by (simp add: seg_inv_def acct_inv_def seg_end_def)

lemma segments_ok_snoc:
  "segments_ok (ss @ [a]) \<longleftrightarrow>
     (\<forall>s \<in> set ss. segment_conf s) \<and> segment_conf a \<and> sealed_run (BaseOffset a - int (length (recs_of ss))) ss \<and>
     seg_inv a"
proof (cases ss)
  case Nil
  then show ?thesis by (auto simp: segments_ok_def)
next
  case (Cons s ss')
  then show ?thesis by (auto simp: segments_ok_def)
qed

lemma segments_ok_snocD: "segments_ok xs \<Longrightarrow> \<exists>ss a. xs = ss @ [a] \<and> segments_ok (ss @ [a])"
  by (metis append_butlast_last_id segments_ok_def)

lemma LowestOffset_eq:
  assumes "segments_ok (ss @ [a])"
  shows "BaseOffset (hd (ss @ [a])) = BaseOffset a - int (length (recs_of ss))"
  using assms by (cases ss) (auto simp: segments_ok_def)

lemma log_invE:
  assumes "log_inv l"
  obtains ss a where "l_segments l = ss @ [a]" "segments_ok (ss @ [a])" "\<not> l_closed l" "config_ok (l_config l)"
  using assms segments_ok_snocD [of "l_segments l"] by (auto simp: log_inv_def)

text \<open>The log end offset is the lowest offset plus the number of records.\<close>

lemma HighestOffset_eq: "log_inv l \<Longrightarrow> HighestOffset l = LowestOffset l + int (length (log_recs l))"
proof (erule log_invE)
  fix ss a assume l: "l_segments l = ss @ [a]" and ok: "segments_ok (ss @ [a])"
  then have "NextOffset a = seg_end a" by (simp add: segments_ok_snoc seg_inv_end)
  then show ?thesis
    using LowestOffset_eq [OF ok] by (simp add: HighestOffset_def LowestOffset_def log_recs_def l seg_end_def)
qed

lemma sealed_contiguous: "sealed_run b ss \<Longrightarrow> contiguous b (recs_of ss)"
  by (induction ss arbitrary: b)
     (auto simp: contiguous_append sealed_def seg_inv_def acct_inv_def view_def seg_end_def seg_recs_def)

text \<open>The records have consecutive offsets from the lowest offset on.\<close>

lemma log_contiguous: "log_inv l \<Longrightarrow> contiguous (LowestOffset l) (log_recs l)"
proof (erule log_invE)
  fix ss a assume l: "l_segments l = ss @ [a]" and ok: "segments_ok (ss @ [a])"
  have "contiguous (BaseOffset a) (seg_recs a)"
    using ok by (simp add: segments_ok_snoc seg_inv_def acct_inv_def)
  then show ?thesis
    using LowestOffset_eq [OF ok] sealed_contiguous ok
    by (simp add: LowestOffset_def log_recs_def l contiguous_append segments_ok_snoc)
qed

section \<open>Replacing the active segment\<close>

lemma segments_ok_replace:
  assumes "segments_ok (ss @ [a])" and "seg_inv a'" and "BaseOffset a' = BaseOffset a"
    and "s_maxBytes a' = s_maxBytes a"
  shows "segments_ok (ss @ [a'])"
  using assms by (simp add: segments_ok_snoc segment_conf_def)

lemma LowestOffset_replace: "BaseOffset a' = BaseOffset a \<Longrightarrow> BaseOffset (hd (ss @ [a'])) = BaseOffset (hd (ss @ [a]))"
  by (cases ss) simp_all

text \<open>What an operation that only touches the active segment keeps.\<close>

definition same_log :: "Log \<Rightarrow> Log \<Rightarrow> bool" where
  "same_log l l' \<longleftrightarrow> l_config l' = l_config l \<and> LowestOffset l' = LowestOffset l"

lemma set_active_ok:
  assumes "log_inv l" and "seg_inv s" and "same_conf (active l) s"
  shows "log_inv (set_active l s)" and "same_log l (set_active l s)"
    and "log_recs (set_active l s) = recs_of (butlast (l_segments l)) @ seg_recs s"
proof -
  obtain ss a where l: "l_segments l = ss @ [a]" "segments_ok (ss @ [a])" "\<not> l_closed l" "config_ok (l_config l)"
    using assms(1) by (rule log_invE)
  then have "segments_ok (ss @ [s])"
    using assms(2,3) by (intro segments_ok_replace [OF l(2)]) (simp_all add: same_conf_def)
  then show "log_inv (set_active l s)" using l by (simp add: log_inv_def set_active_def)
  show "same_log l (set_active l s)"
    using l assms(3) LowestOffset_replace [of s a ss]
    by (simp add: same_log_def set_active_def LowestOffset_def same_conf_def)
  show "log_recs (set_active l s) = recs_of (butlast (l_segments l)) @ seg_recs s"
    by (simp add: log_recs_def set_active_def)
qed

lemma log_recs_active: "log_inv l \<Longrightarrow> log_recs l = recs_of (butlast (l_segments l)) @ seg_recs (active l)"
  by (erule log_invE) (simp add: log_recs_def)

lemma log_nonempty: "log_inv l \<Longrightarrow> l_segments l \<noteq> []"
  by (simp add: log_inv_def segments_ok_def)

lemma active_inv: "log_inv l \<Longrightarrow> seg_inv (active l)"
  by (erule log_invE) (simp add: segments_ok_snoc)

lemma flush_active:
  assumes "log_inv l"
  shows "\<exists>s. FlushWriter (active l) = Inr s \<and> flushed s \<and> seg_inv s \<and> seg_recs s = seg_recs (active l) \<and>
             same_conf (active l) s \<and> NextOffset s = NextOffset (active l) \<and>
             log_inv (set_active l s) \<and> same_log l (set_active l s) \<and> log_recs (set_active l s) = log_recs l"
  using FlushWriter_ok [OF active_inv [OF assms]] set_active_ok [OF assms] log_recs_active [OF assms] by fastforce

section \<open>Rotation\<close>

text \<open>A full segment holds a record, so a rotation seals a segment that is not empty.\<close>

lemma rotates_nonempty:
  assumes "log_inv l" and "shouldRotateLocked l now"
  shows "seg_recs (active l) \<noteq> []"
proof
  assume e: "seg_recs (active l) = []"
  let ?a = "active l"
  have inv: "acct_inv ?a []" using active_inv [OF assms(1)] e by (simp add: seg_inv_def)
  have "segment_conf ?a" using assms(1) by (auto simp: segments_ok_snoc elim!: log_invE)
  moreover have "Index_Size (s_index ?a) = 0"
  proof -
    have "Index_Entries (s_index ?a) = 0"
      using inv sparse_empty_iff by (metis acct_inv_def length_index_entries list.size(3))
    then show ?thesis using inv by (auto simp: Index_Entries_def Index_Size_def acct_inv_def index_inv_def entrySize_def)
  qed
  moreover have "entrySize \<le> i_maxSize (s_index ?a)"
    using inv by (intro index_inv_room) (simp_all add: acct_inv_def)
  ultimately have "\<not> IsFull ?a" using inv by (simp add: IsFull_def acct_inv_def segment_conf_def)
  then show False using assms(2) inv by (simp add: shouldRotateLocked_def acct_inv_def)
qed

lemma seal_ok:
  assumes "seg_inv s" and "flushed s" and "seg_recs s \<noteq> []"
  shows "\<exists>ix. Index_Seal (s_index s) = Inr ix \<and> seg_inv (s\<lparr>s_index := ix\<rparr>) \<and> seg_recs (s\<lparr>s_index := ix\<rparr>) = seg_recs s"
proof -
  have a: "acct_inv s (seg_recs s)" using assms(1) by (simp add: seg_inv_def)
  then obtain ix where ix: "Index_Seal (s_index s) = Inr ix" "index_inv ix" "index_entries ix = index_entries (s_index s)"
    using Index_Seal_ok [where i = "s_index s" and r = 0 and p = 0] by (auto simp: acct_inv_def)
  have "index_entries ix \<noteq> []" using a assms(3) ix(3) sparse_empty_iff by (auto simp: acct_inv_def)
  then have "0 < Index_Entries ix" by (metis length_greater_0_conv length_index_entries)
  then have "i_maxSize ix \<noteq> 0" using ix(2) by (auto simp: index_inv_def Index_Entries_def)
  then have a': "acct_inv (s\<lparr>s_index := ix\<rparr>) (seg_recs s)" using a ix by (simp add: acct_inv_def)
  have "written (writer (s\<lparr>s_index := ix\<rparr>)) = encs (seg_recs s)" "at_end (wfile (writer (s\<lparr>s_index := ix\<rparr>)))"
    using assms(1) by (simp_all add: seg_inv_def)
  then show ?thesis using seg_invI [OF a'] ix(1) by (simp add: seg_recs_def)
qed

lemma rotateLocked_ok:
  assumes inv: "log_inv l" and ne: "seg_recs (active l) \<noteq> []"
  shows "\<exists>l'. rotateLocked l now = (l', None) \<and> log_inv l' \<and> same_log l l' \<and> log_recs l' = log_recs l \<and>
              \<not> IsFull (active l') \<and> NextOffset (active l') = NextOffset (active l)"
proof -
  obtain ss a where l: "l_segments l = ss @ [a]" "segments_ok (ss @ [a])" "\<not> l_closed l" "config_ok (l_config l)"
    using inv by (rule log_invE)
  obtain s where s: "FlushWriter a = Inr s" "flushed s" "seg_inv s" "seg_recs s = seg_recs a"
    "same_conf a s" "NextOffset s = NextOffset a"
    using flush_active [OF inv] l(1) by auto
  obtain ix where ix: "Index_Seal (s_index s) = Inr ix" "seg_inv (s\<lparr>s_index := ix\<rparr>)"
    "seg_recs (s\<lparr>s_index := ix\<rparr>) = seg_recs s"
    using seal_ok [OF s(3,2)] s(4) ne l(1) by auto
  let ?o = "s\<lparr>s_index := ix\<rparr>"
  have nx: "NextOffset a = seg_end a" "0 \<le> NextOffset a" "NextOffset a < 2 ^ 63"
    using l(2) by (auto simp: segments_ok_snoc seg_inv_def acct_inv_def seg_end_def)
  obtain n where n: "NewSegment [] now [] (NextOffset a) (l_config l) now = Inr n" "seg_inv n" "seg_recs n = []"
    "\<not> IsFull n" "BaseOffset n = NextOffset a" "NextOffset n = NextOffset a" "s_maxBytes n = SegmentBytes (l_config l)"
    using NewSegment_fresh [of "l_config l" "NextOffset a" now now] nx l(4) by (auto simp: config_ok_def)
  have "sealed ?o" using ix(2,3) s(2,4) ne l(1) by (intro seg_inv_sealed) (simp_all add: flushed_def)
  moreover have "seg_end ?o = NextOffset a" "segment_conf ?o" "BaseOffset ?o = BaseOffset a"
    using s(4,5) ix(3) nx(1) l(2) by (simp_all add: seg_end_def same_conf_def segments_ok_snoc segment_conf_def)
  moreover have "segment_conf n"
    using n(7) l(4) withDefaults_pos(1) [of "l_config l"] by (simp add: segment_conf_def config_ok_def)
  ultimately have ok: "segments_ok ((ss @ [?o]) @ [n])"
    using l(2) n(2,5) ix(3) s(4) nx(1) unfolding segments_ok_snoc
    by (simp add: sealed_run_append seg_end_def algebra_simps)
  let ?l = "l\<lparr>l_segments := (ss @ [?o]) @ [n], activeCreatedAt := now, messagesSinceFlush := 0\<rparr>"
  have "rotateLocked l now = (?l, None)"
    using l(1) s(1,6) ix(1) n(1) by (simp add: rotateLocked_def Segment_Flush_eq set_active_def)
  moreover have "same_log l ?l"
    using LowestOffset_replace [of ?o a ss] s(5) l(1)
    by (cases ss) (simp_all add: same_log_def LowestOffset_def same_conf_def)
  ultimately show ?thesis
    using ok l n(3,4,6) ix(3) s(4) by (intro exI [of _ ?l]) (simp add: log_inv_def log_recs_def)
qed

lemma maybeRotateLocked_ok:
  assumes "log_inv l"
  shows "\<exists>l'. maybeRotateLocked l now = (l', None) \<and> log_inv l' \<and> same_log l l' \<and> log_recs l' = log_recs l \<and>
              \<not> IsFull (active l')"
proof (cases "shouldRotateLocked l now")
  case True
  then show ?thesis
    using rotateLocked_ok [OF assms rotates_nonempty [OF assms True], of now] log_nonempty [OF assms]
    by (auto simp: maybeRotateLocked_def)
next
  case False
  then show ?thesis using assms log_nonempty [OF assms]
    by (auto simp: maybeRotateLocked_def shouldRotateLocked_def same_log_def)
qed

section \<open>Appending\<close>

lemma counters_ok [simp]:
  "log_inv (l\<lparr>messagesSinceFlush := n\<rparr>) = log_inv l" "log_inv (l\<lparr>lastFlush := n\<rparr>) = log_inv l"
  "log_inv (l\<lparr>activeCreatedAt := n\<rparr>) = log_inv l"
  "log_recs (l\<lparr>messagesSinceFlush := n\<rparr>) = log_recs l" "log_recs (l\<lparr>lastFlush := n\<rparr>) = log_recs l"
  "log_recs (l\<lparr>activeCreatedAt := n\<rparr>) = log_recs l"
  "LowestOffset (l\<lparr>messagesSinceFlush := n\<rparr>) = LowestOffset l" "LowestOffset (l\<lparr>lastFlush := n\<rparr>) = LowestOffset l"
  "LowestOffset (l\<lparr>activeCreatedAt := n\<rparr>) = LowestOffset l"
  by (simp_all add: log_inv_def log_recs_def LowestOffset_def)

lemma autoFlush_ok:
  assumes "log_inv l"
  shows "log_inv (autoFlush l) \<and> same_log l (autoFlush l) \<and> log_recs (autoFlush l) = log_recs l"
proof -
  let ?l = "l\<lparr>messagesSinceFlush := messagesSinceFlush l + 1\<rparr>"
  have inv: "log_inv ?l" using assms by simp
  obtain s where "FlushWriter (active ?l) = Inr s" "log_inv (set_active ?l s)" "same_log ?l (set_active ?l s)"
    "log_recs (set_active ?l s) = log_recs ?l"
    using flush_active [OF inv] by blast
  then show ?thesis
    using assms by (simp add: autoFlush_def Segment_Flush_eq same_log_def Let_def)
qed

lemma append_one_ok:
  assumes "log_inv l" and "typed_record rec" and "HighestOffset l < 2 ^ 63 - 1"
    and "EncodedSize rec \<le> MaxRecordSize"
  shows "\<exists>l'. append_one l rec now = (l', Inr (HighestOffset l)) \<and> log_inv l' \<and> same_log l l' \<and>
              log_recs l' = log_recs l @ [rec\<lparr>Offset := HighestOffset l\<rparr>]"
proof -
  obtain l1 where l1: "maybeRotateLocked l now = (l1, None)" "log_inv l1" "same_log l l1"
    "log_recs l1 = log_recs l" "\<not> IsFull (active l1)"
    using maybeRotateLocked_ok [OF assms(1)] by blast
  let ?a = "active l1"
  have inv: "seg_inv ?a" and conf: "s_maxBytes ?a \<le> MaxUint32 + 1"
    using l1(2) by (auto simp: segments_ok_snoc segment_conf_def elim!: log_invE)
  have leo: "HighestOffset l1 = HighestOffset l"
    using HighestOffset_eq [OF l1(2)] HighestOffset_eq [OF assms(1)] l1(3,4) by (simp add: same_log_def)
  then have nx: "NextOffset ?a = HighestOffset l" using log_nonempty [OF l1(2)] by (simp add: HighestOffset_def)
  obtain s where s: "Segment_Append ?a rec = (s, Inr (HighestOffset l))"
    using Segment_Append_not_full [OF l1(5) _ conf assms(4)] inv nx by (auto simp: seg_inv_def acct_inv_def)
  note ap = Segment_Append_Inr [OF s inv assms(2)]
  have s': "seg_inv s" "same_conf ?a s" "seg_recs s = seg_recs ?a @ [rec\<lparr>Offset := HighestOffset l\<rparr>]"
    using ap nx assms(3) by simp_all
  note act = set_active_ok [OF l1(2) s'(1,2)]
  have "append_one l rec now = (autoFlush (set_active l1 s), Inr (HighestOffset l))"
    using l1(1) s by (simp add: append_one_def)
  then show ?thesis
    using autoFlush_ok [OF act(1)] act l1(3,4) s'(3) log_recs_active [OF l1(2)]
    by (simp add: same_log_def)
qed

text \<open>The only error of an append to an open log: the record is too large. The records are untouched.\<close>

definition too_large :: go_error where
  "too_large = Wrapped ''log: append'' (Wrapped ''segment: encode record'' ErrRecordTooLarge)"

lemma append_one_too_large:
  assumes "log_inv l" and "MaxRecordSize < EncodedSize rec"
  shows "\<exists>l'. append_one l rec now = (l', Inl too_large) \<and> log_inv l' \<and> same_log l l' \<and> log_recs l' = log_recs l"
proof -
  obtain l1 where l1: "maybeRotateLocked l now = (l1, None)" "log_inv l1" "same_log l l1"
    "log_recs l1 = log_recs l" "\<not> IsFull (active l1)"
    using maybeRotateLocked_ok [OF assms(1)] by blast
  have "s_maxBytes (active l1) \<le> MaxUint32 + 1"
    using l1(2) by (auto simp: segments_ok_snoc segment_conf_def elim!: log_invE)
  then have "Segment_Append (active l1) rec = (active l1, Inl (Wrapped ''segment: encode record'' ErrRecordTooLarge))"
    using l1(5) assms(2) by (auto simp: Segment_Append_def IsFull_def Record_Encode_def Let_def)
  moreover have "set_active l1 (active l1) = l1"
    using log_nonempty [OF l1(2)] by (simp add: set_active_def)
  ultimately show ?thesis using l1 by (simp add: append_one_def too_large_def)
qed

lemma Log_Append_ok:
  assumes "log_inv l" and "typed_record rec" and "HighestOffset l < 2 ^ 63 - 1"
    and "EncodedSize rec \<le> MaxRecordSize"
  shows "\<exists>l'. Log_Append l rec now = (l', Inr (HighestOffset l)) \<and> log_inv l' \<and> same_log l l' \<and>
              log_recs l' = log_recs l @ [rec\<lparr>Offset := HighestOffset l\<rparr>]"
  using append_one_ok [OF assms] assms(1) by (simp add: Log_Append_def log_inv_def)

lemma Log_Append_error:
  assumes "log_inv l" and "MaxRecordSize < EncodedSize rec"
  shows "\<exists>l'. Log_Append l rec now = (l', Inl too_large) \<and> log_inv l' \<and> same_log l l' \<and> log_recs l' = log_recs l"
  using append_one_too_large [OF assms] assms(1) by (simp add: Log_Append_def log_inv_def)

subsection \<open>Batches\<close>

text \<open>The records of a batch with the offsets they get.\<close>

fun number_from :: "int \<Rightarrow> Record list \<Rightarrow> Record list" where
  "number_from k [] = []"
| "number_from k (r # rs) = r\<lparr>Offset := k\<rparr> # number_from (k + 1) rs"

lemma length_number_from [simp]: "length (number_from k rs) = length rs"
  by (induction rs arbitrary: k) simp_all

lemma HighestOffset_append:
  assumes "log_inv l" and "log_inv l'" and "same_log l l'" and "log_recs l' = log_recs l @ rs"
  shows "HighestOffset l' = HighestOffset l + int (length rs)"
  using assms by (simp add: HighestOffset_eq same_log_def)

lemma batch_loop_ok:
  assumes "log_inv l" and "\<forall>r \<in> set recs. typed_record r \<and> EncodedSize r \<le> MaxRecordSize"
    and "HighestOffset l + int (length recs) < 2 ^ 63"
  shows "\<exists>l'. batch_loop first base l recs now =
             (l', (if first \<and> recs \<noteq> [] then HighestOffset l else base), None) \<and> log_inv l' \<and> same_log l l' \<and>
             log_recs l' = log_recs l @ number_from (HighestOffset l) recs"
  using assms
proof (induction recs arbitrary: first base l)
  case Nil
  then show ?case by (simp add: same_log_def)
next
  case (Cons r recs)
  obtain l1 where l1: "append_one l r now = (l1, Inr (HighestOffset l))" "log_inv l1" "same_log l l1"
    "log_recs l1 = log_recs l @ [r\<lparr>Offset := HighestOffset l\<rparr>]"
    using append_one_ok [OF Cons.prems(1), of r now] Cons.prems by auto
  have h: "HighestOffset l1 = HighestOffset l + 1"
    using HighestOffset_append [OF Cons.prems(1) l1(2,3,4)] by simp
  have "\<exists>l'. batch_loop False (if first then HighestOffset l else base) l1 recs now =
      (l', (if False \<and> recs \<noteq> [] then HighestOffset l1 else (if first then HighestOffset l else base)), None) \<and>
      log_inv l' \<and> same_log l1 l' \<and> log_recs l' = log_recs l1 @ number_from (HighestOffset l1) recs"
    using Cons.prems l1(2) h by (intro Cons.IH) simp_all
  then show ?case using l1 h by (auto simp: same_log_def)
qed

text \<open>
  A batch of records within the limit is appended as a whole, and the offset of its first record is
  returned.
\<close>

lemma AppendBatch_ok:
  assumes "log_inv l" and "recs \<noteq> []" and "\<forall>r \<in> set recs. typed_record r \<and> EncodedSize r \<le> MaxRecordSize"
    and "HighestOffset l + int (length recs) < 2 ^ 63"
  shows "\<exists>l'. AppendBatch l recs now = (l', HighestOffset l, None) \<and> log_inv l' \<and> same_log l l' \<and>
              log_recs l' = log_recs l @ number_from (HighestOffset l) recs"
  using batch_loop_ok [OF assms(1,3,4), of True 0 now] assms(1,2)
  by (simp add: AppendBatch_def log_inv_def)

section \<open>Reading one record\<close>

text \<open>Segment \<open>i\<close> of a log: its base, and that it can be read as the segment its records determine.\<close>

lemma sealed_run_nth:
  "sealed_run b ss \<Longrightarrow> i < length ss \<Longrightarrow>
   sealed (ss ! i) \<and> BaseOffset (ss ! i) = b + int (length (recs_of (take i ss)))"
proof (induction ss arbitrary: b i)
  case (Cons s ss)
  then show ?case by (cases i) (auto simp: seg_end_def)
qed simp

lemma segments_nth:
  assumes "segments_ok xs" and "i < length xs"
  shows "seg_inv (view (xs ! i))" and "BaseOffset (xs ! i) = BaseOffset (hd xs) + int (length (recs_of (take i xs)))"
    and "i + 1 < length xs \<Longrightarrow> flushed (xs ! i) \<and> seg_recs (xs ! i) \<noteq> []"
proof -
  obtain ss a where xs: "xs = ss @ [a]" "segments_ok (ss @ [a])" using segments_ok_snocD [OF assms(1)] by blast
  show "seg_inv (view (xs ! i))" and "BaseOffset (xs ! i) = BaseOffset (hd xs) + int (length (recs_of (take i xs)))"
    and "i + 1 < length xs \<Longrightarrow> flushed (xs ! i) \<and> seg_recs (xs ! i) \<noteq> []"
    using xs assms(2) LowestOffset_eq [OF xs(2)] sealed_run_nth [of "BaseOffset (hd xs)" ss i]
    by (cases "i < length ss"; auto simp: segments_ok_snoc nth_append sealed_def seg_inv_view less_Suc_eq)+
qed

lemma recs_of_take_Suc: "i < length xs \<Longrightarrow> recs_of (take (Suc i) xs) = recs_of (take i xs) @ seg_recs (xs ! i)"
  by (simp add: take_Suc_conv_app_nth)

lemma segments_base_mono:
  assumes "segments_ok xs" and "i < j" and "j < length xs"
  shows "BaseOffset (xs ! i) < BaseOffset (xs ! j)"
  using assms(2,3)
proof (induction j)
  case (Suc j)
  have "BaseOffset (xs ! j) < BaseOffset (xs ! Suc j)"
    using segments_nth [OF assms(1), of j] segments_nth(2) [OF assms(1), of "Suc j"] Suc.prems
    by (simp add: recs_of_take_Suc)
  then show ?case using Suc by (cases "i = j") auto
qed simp

text \<open>The segment found is the last one whose base is not above the offset.\<close>

lemma findSegmentLocked_ok:
  assumes "log_inv l" and "LowestOffset l \<le> off"
  shows "\<exists>i < length (l_segments l). findSegmentLocked l off = Some i \<and> BaseOffset (l_segments l ! i) \<le> off \<and>
           (i + 1 < length (l_segments l) \<longrightarrow> off < BaseOffset (l_segments l ! (i + 1)))"
proof -
  let ?xs = "l_segments l" and ?f = "\<lambda>i. off < BaseOffset (l_segments l ! i)"
  have ok: "segments_ok ?xs" using assms(1) by (simp add: log_inv_def)
  have ne: "?xs \<noteq> []" using log_nonempty [OF assms(1)] .
  have mono: "\<forall>a b. a \<le> b \<longrightarrow> b < length ?xs \<longrightarrow> ?f a \<longrightarrow> ?f b"
    using segments_base_mono [OF ok] by (metis order_le_less less_trans)
  note sp = sort_Search_spec [OF mono]
  let ?k = "sort_Search (length ?xs) ?f"
  have "\<not> ?f 0" using assms(2) ne by (simp add: LowestOffset_def hd_conv_nth)
  then have k: "?k \<noteq> 0" using sp(3) [of 0] ne by auto
  then have "findSegmentLocked l off = Some (?k - 1)"
    using assms(2) ne by (simp add: findSegmentLocked_def LowestOffset_def)
  moreover have "\<not> ?f (?k - 1)" using k by (intro sp(2)) simp
  moreover have "?f (?k - 1 + 1)" if "?k - 1 + 1 < length ?xs" using that k by (intro sp(3)) simp_all
  moreover have "?k - 1 < length ?xs" using sp(1) k by simp
  ultimately show ?thesis by (intro exI [of _ "?k - 1"]) auto
qed

lemma Segment_Read_view: "Segment_Read (view s) off = Segment_Read s off"
  by (simp add: Segment_Read_def view_def readAt_def scanFrom_def readHandle_def split: sum.split prod.split)

text \<open>Reading at segment \<open>i\<close> after the flush of the active one.\<close>

lemma flush_if_active_ok:
  assumes "log_inv l" and "i < length (l_segments l)"
  shows "\<exists>l'. flush_if_active l i = Inr l' \<and> log_inv l' \<and> same_log l l' \<and> log_recs l' = log_recs l \<and>
           map seg_recs (l_segments l') = map seg_recs (l_segments l) \<and>
           map BaseOffset (l_segments l') = map BaseOffset (l_segments l) \<and>
           map NextOffset (l_segments l') = map NextOffset (l_segments l) \<and> flushed (l_segments l' ! i)"
proof (cases "i + 1 = length (l_segments l)")
  case True
  obtain ss a where l: "l_segments l = ss @ [a]" using assms(1) by (rule log_invE)
  obtain s where "FlushWriter (active l) = Inr s" "flushed s" "seg_recs s = seg_recs (active l)"
    "same_conf (active l) s" "NextOffset s = NextOffset (active l)" "log_inv (set_active l s)"
    "same_log l (set_active l s)" "log_recs (set_active l s) = log_recs l"
    using flush_active [OF assms(1)] by blast
  then show ?thesis using True l
    by (intro exI [of _ "set_active l s"]) (auto simp: flush_if_active_def set_active_def same_conf_def)
next
  case False
  then show ?thesis
    using assms segments_nth(3) [of "l_segments l" i] by (simp add: flush_if_active_def log_inv_def same_log_def)
qed

lemma log_recs_nth:
  assumes "segments_ok xs" and "i < length xs" and "BaseOffset (xs ! i) \<le> off" and "off < seg_end (xs ! i)"
  shows "recs_of xs ! nat (off - BaseOffset (hd xs)) = seg_recs (xs ! i) ! nat (off - BaseOffset (xs ! i))"
    and "off - BaseOffset (hd xs) < int (length (recs_of xs))"
proof -
  let ?b = "length (recs_of (take i xs))" and ?k = "nat (off - BaseOffset (xs ! i))"
  have "recs_of xs = recs_of (take i xs @ [xs ! i] @ drop (Suc i) xs)"
    using assms(2) by (simp add: id_take_nth_drop [symmetric])
  then have split: "recs_of xs = recs_of (take i xs) @ seg_recs (xs ! i) @ recs_of (drop (Suc i) xs)" by simp
  have "nat (off - BaseOffset (hd xs)) = ?b + ?k" using segments_nth(2) [OF assms(1,2)] assms(3) by simp
  moreover have k: "?k < length (seg_recs (xs ! i))" using assms(3,4) by (simp add: seg_end_def)
  ultimately show "recs_of xs ! nat (off - BaseOffset (hd xs)) = seg_recs (xs ! i) ! ?k"
    by (simp add: split nth_append)
  show "off - BaseOffset (hd xs) < int (length (recs_of xs))"
    using k assms(3) segments_nth(2) [OF assms(1,2)] by (simp add: split)
qed

text \<open>
  Reading an offset of the log returns its record, whichever segment holds it and whether or not it is
  still buffered; an offset at or above the log end is not found.
\<close>

lemma Log_Read_ok:
  assumes inv: "log_inv l" and low: "LowestOffset l \<le> off"
  shows "\<exists>l'. Log_Read l off =
             (l', if off < HighestOffset l then Inr (log_recs l ! nat (off - LowestOffset l))
                  else Inl (Wrapped ''log: read'' (not_found off))) \<and>
           log_inv l' \<and> same_log l l' \<and> log_recs l' = log_recs l"
proof -
  obtain i where i: "i < length (l_segments l)" "findSegmentLocked l off = Some i"
    "BaseOffset (l_segments l ! i) \<le> off"
    "i + 1 < length (l_segments l) \<longrightarrow> off < BaseOffset (l_segments l ! (i + 1))"
    using findSegmentLocked_ok [OF inv low] by blast
  obtain l' where l': "flush_if_active l i = Inr l'" "log_inv l'" "same_log l l'" "log_recs l' = log_recs l"
    "map seg_recs (l_segments l') = map seg_recs (l_segments l)"
    "map BaseOffset (l_segments l') = map BaseOffset (l_segments l)" "flushed (l_segments l' ! i)"
    using flush_if_active_ok [OF inv i(1)] by blast
  let ?xs = "l_segments l'" and ?s = "l_segments l' ! i"
  have len: "length ?xs = length (l_segments l)" using l'(5) by (metis length_map)
  have b: "BaseOffset (?xs ! j) = BaseOffset (l_segments l ! j)" if "j < length ?xs" for j
    using l'(6) that len by (metis nth_map)
  have ok: "segments_ok ?xs" using l'(2) by (simp add: log_inv_def)
  have "seg_inv (view ?s)" using segments_nth(1) [OF ok] i(1) len by simp
  moreover have "flushed (view ?s)" "BaseOffset (view ?s) = BaseOffset ?s" "NextOffset (view ?s) = seg_end ?s"
    using l'(7) by (simp_all add: flushed_def view_def)
  ultimately have rd: "Segment_Read ?s off =
      (if off < seg_end ?s then Inr (seg_recs ?s ! nat (off - BaseOffset ?s)) else Inl (not_found off))"
    using Segment_Read_eq [of "view ?s" off] i(1,3) b len by (simp add: Segment_Read_view)
  have low': "LowestOffset l = BaseOffset (hd ?xs)"
    using l'(3) log_nonempty [OF l'(2)] by (simp add: same_log_def LowestOffset_def)
  have "off < HighestOffset l \<longleftrightarrow> off < seg_end ?s"
  proof (cases "i + 1 < length ?xs")
    case True
    then have "off < BaseOffset (?xs ! Suc i)" using i(4) b len by simp
    also have "\<dots> = seg_end ?s"
      using True segments_nth(2) [OF ok] by (simp add: recs_of_take_Suc seg_end_def)
    finally show ?thesis
      using HighestOffset_eq [OF inv] low' log_recs_nth(2) [OF ok _ _, of i off] i(1,3) b len l'(4)
      by (simp add: log_recs_def)
  next
    case False
    then have "?s = last ?xs" using i(1) len log_nonempty [OF l'(2)]
      by (metis Suc_eq_plus1 Suc_lessI diff_Suc_1 last_conv_nth)
    then show ?thesis
      using HighestOffset_eq [OF inv] HighestOffset_eq [OF l'(2)] l'(3,4) seg_inv_end [OF active_inv [OF l'(2)]]
        log_nonempty [OF l'(2)] by (simp add: HighestOffset_def same_log_def)
  qed
  moreover have "log_recs l ! nat (off - LowestOffset l) = seg_recs ?s ! nat (off - BaseOffset ?s)" if "off < seg_end ?s"
    using log_recs_nth(1) [OF ok _ _ that] i(1,3) b len l'(4) low' by (simp add: log_recs_def)
  ultimately show ?thesis
    using inv low log_nonempty [OF inv] i(2) l'(1,2,3,4) rd
    by (intro exI [of _ l']) (auto simp: Log_Read_def log_inv_def LowestOffset_def)
qed

section \<open>The log as an append-only log\<close>

interpretation ll: append_log log_inv LowestOffset log_recs "\<lambda>l rec. Log_Append l rec now"
    "\<lambda>l off. snd (Log_Read l off)" for now
proof
  fix l rec l' off
  assume l: "log_inv l" "typed_record rec" "LowestOffset l + int (length (log_recs l)) < 2 ^ 63 - 1"
    and ap: "Log_Append l rec now = (l', Inr off)"
  have "EncodedSize rec \<le> MaxRecordSize"
    using Log_Append_error [OF l(1), of rec now] ap by fastforce
  then show "off = LowestOffset l + int (length (log_recs l)) \<and> log_inv l' \<and> LowestOffset l' = LowestOffset l \<and>
      log_recs l' = log_recs l @ [rec\<lparr>Offset := off\<rparr>]"
    using Log_Append_ok [OF l(1,2), of now] l(3) ap HighestOffset_eq [OF l(1)] by (auto simp: same_log_def)
next
  fix l off
  assume "log_inv l" "LowestOffset l \<le> off" "off < LowestOffset l + int (length (log_recs l))"
  then show "snd (Log_Read l off) = Inr (log_recs l ! nat (off - LowestOffset l))"
    using Log_Read_ok [of l off] by (auto simp: HighestOffset_eq)
qed

section \<open>A new log\<close>

text \<open>In an empty directory a log without records is created.\<close>

lemma NewLog_empty:
  assumes "config_ok (withDefaults cfg)"
  shows "\<exists>l. NewLog [] cfg now = Inr l \<and> log_inv l \<and> log_recs l = [] \<and> LowestOffset l = 0 \<and> HighestOffset l = 0 \<and>
             l_config l = withDefaults cfg \<and> map CreatedAt (l_segments l) = [now]"
proof -
  let ?c = "withDefaults cfg"
  obtain n where n: "NewSegment [] 0 [] 0 ?c now = Inr n" "seg_inv n" "seg_recs n = []" "BaseOffset n = 0"
    "NextOffset n = 0" "CreatedAt n = now" "s_maxBytes n = SegmentBytes ?c"
    using NewSegment_fresh [of ?c 0 0 now] assms by (auto simp: config_ok_def)
  have c: "segment_conf n"
    using n(7) assms withDefaults_pos(1) [of cfg] by (simp add: segment_conf_def config_ok_def)
  have scan: "scanBaseOffsets [] = []" by (simp add: scanBaseOffsets_def List.map_filter_def)
  have op: "openSegment [] 0 ?c now = Inr n" using n(1) by (simp add: openSegment_def find_file_def)
  then show ?thesis
    using scan n c assms
    by (simp add: NewLog_def Let_def log_inv_def segments_ok_def log_recs_def LowestOffset_def HighestOffset_def)
qed

text \<open>A log for the examples.\<close>

definition demo_config :: Config where
  "demo_config = \<lparr>SegmentBytes = 100, IndexMaxBytes = 64, IndexIntervalBytes = 10, RetentionMs = 1000,
     RetentionBytes = 200, FlushMs = 0, FlushMessages = 2, SegmentMs = 0\<rparr>"

definition demo_log :: Log where
  "demo_log = projr (NewLog [] demo_config 1)"

lemma demo_config_ok: "config_ok (withDefaults demo_config)"
  by (simp add: config_ok_def demo_config_def withDefaults_def MaxUint32_def)

lemma demo_log_ok:
  "log_inv demo_log" "log_recs demo_log = []" "LowestOffset demo_log = 0" "HighestOffset demo_log = 0"
  "l_config demo_log = withDefaults demo_config" "map CreatedAt (l_segments demo_log) = [1]"
  using NewLog_empty [OF demo_config_ok, of 1] by (auto simp: demo_log_def)

text \<open>The log with one record.\<close>

definition demo_log1 :: Log where
  "demo_log1 = fst (Log_Append demo_log demo_record 2)"

lemma demo_log1_ok:
  "log_inv demo_log1" "log_recs demo_log1 = [demo_record]" "LowestOffset demo_log1 = 0" "HighestOffset demo_log1 = 1"
proof -
  obtain l where l: "Log_Append demo_log demo_record 2 = (l, Inr 0)" "log_inv l" "same_log demo_log l"
    "log_recs l = [demo_record\<lparr>Offset := 0\<rparr>]"
    using Log_Append_ok [OF demo_log_ok(1) demo_record_ok(1) _ demo_record_ok(2), of 2] demo_log_ok(2,4) by auto
  have e: "demo_log1 = l" using l(1) by (simp add: demo_log1_def)
  show "log_inv demo_log1" "log_recs demo_log1 = [demo_record]" "LowestOffset demo_log1 = 0"
    using e l demo_log_ok(3) by (simp_all add: same_log_def) (simp add: demo_record_def)
  then show "HighestOffset demo_log1 = 1" by (simp add: HighestOffset_eq)
qed

text \<open>Without a rotation an append leaves the number of segments.\<close>

lemma append_one_length:
  assumes "l_segments l \<noteq> []" and "\<not> shouldRotateLocked l now"
  shows "length (l_segments (fst (append_one l rec now))) = length (l_segments l)"
proof -
  have set: "length (l_segments (set_active l s)) = length (l_segments l)" for s
    using assms(1) by (simp add: set_active_def)
  have "length (l_segments (autoFlush l')) = length (l_segments l')" if "l_segments l' \<noteq> []" for l'
    using that by (simp add: autoFlush_def set_active_def Let_def split: sum.split)
  from this [of "set_active l s" for s] show ?thesis
    using assms set by (auto simp: append_one_def maybeRotateLocked_def set_active_def split: prod.split sum.split)
qed

lemma demo_log1_segments: "length (l_segments demo_log1) = 1"
proof -
  have e: "seg_recs (active demo_log) = []"
    using demo_log_ok(2) log_recs_active [OF demo_log_ok(1)] by simp
  then have "\<not> shouldRotateLocked demo_log 2" using rotates_nonempty [OF demo_log_ok(1)] by blast
  moreover have "length (l_segments demo_log) = 1" using arg_cong [OF demo_log_ok(6), of length] by simp
  moreover have "\<not> l_closed demo_log" using demo_log_ok(1) by (simp add: log_inv_def)
  ultimately show ?thesis
    using append_one_length [OF log_nonempty [OF demo_log_ok(1)], of 2 demo_record]
    by (simp add: demo_log1_def Log_Append_def)
qed

section \<open>Properties\<close>

text \<open>
  C6: Appending a record within the size limit to an open log always succeeds, whatever the state of
  the active segment (rotation included): the offset returned is the log end offset, the log then holds
  the old records followed by this one at that offset, and the invariant is kept. In particular no full
  index and no full segment is ever reported.
\<close>

theorem Log_Append_correct:
  assumes "log_inv l" and "typed_record rec" and "HighestOffset l < 2 ^ 63 - 1"
    and "EncodedSize rec \<le> MaxRecordSize"
  shows "\<exists>l'. Log_Append l rec now = (l', Inr (HighestOffset l)) \<and> log_inv l' \<and>
              log_recs l' = log_recs l @ [rec\<lparr>Offset := HighestOffset l\<rparr>] \<and>
              LowestOffset l' = LowestOffset l \<and> HighestOffset l' = HighestOffset l + 1"
proof -
  obtain l' where l': "Log_Append l rec now = (l', Inr (HighestOffset l))" "log_inv l'" "same_log l l'"
    "log_recs l' = log_recs l @ [rec\<lparr>Offset := HighestOffset l\<rparr>]"
    using Log_Append_ok [OF assms] by blast
  then show ?thesis using HighestOffset_append [OF assms(1) l'(2,3,4)] by (auto simp: same_log_def)
qed

theorem Log_Append_correct_witness:
  "\<exists>l'. Log_Append demo_log demo_record 2 = (l', Inr 0) \<and> log_inv l' \<and>
        log_recs l' = [demo_record] \<and> LowestOffset l' = 0 \<and> HighestOffset l' = 1"
  using Log_Append_correct [OF demo_log_ok(1) demo_record_ok(1) _ demo_record_ok(2), of 2] demo_log_ok
  by (simp add: demo_record_def)

text \<open>
  C7: A read at an offset between the lowest offset and the log end returns exactly the record that was
  appended there, from whichever segment and also while it is still in the write buffer; a read at or
  beyond the log end reports that the offset is not found. Reading does not change the records.
\<close>

theorem Log_Read_correct:
  assumes "log_inv l" and "LowestOffset l \<le> off"
  shows "\<exists>l'. Log_Read l off =
             (l', if off < HighestOffset l then Inr (log_recs l ! nat (off - LowestOffset l))
                  else Inl (Wrapped ''log: read'' (not_found off))) \<and>
           log_inv l' \<and> log_recs l' = log_recs l \<and> LowestOffset l' = LowestOffset l"
  using Log_Read_ok [OF assms] by (auto simp: same_log_def)

theorem Log_Read_correct_witness:
  "\<exists>l'. Log_Read demo_log1 0 = (l', Inr demo_record) \<and> log_inv l' \<and> log_recs l' = [demo_record]"
  using Log_Read_correct [OF demo_log1_ok(1), of 0] demo_log1_ok by auto

text \<open>
  A non-empty batch of records within the size limit is appended as a whole and in order with
  consecutive offsets, and the offset of its first record is returned.
\<close>

lemma AppendBatch_correct:
  assumes "log_inv l" and "recs \<noteq> []" and "\<forall>r \<in> set recs. typed_record r \<and> EncodedSize r \<le> MaxRecordSize"
    and "HighestOffset l + int (length recs) < 2 ^ 63"
  shows "\<exists>l'. AppendBatch l recs now = (l', HighestOffset l, None) \<and> log_inv l' \<and>
              log_recs l' = log_recs l @ number_from (HighestOffset l) recs \<and>
              HighestOffset l' = HighestOffset l + int (length recs)"
proof -
  obtain l' where l': "AppendBatch l recs now = (l', HighestOffset l, None)" "log_inv l'" "same_log l l'"
    "log_recs l' = log_recs l @ number_from (HighestOffset l) recs"
    using AppendBatch_ok [OF assms] by blast
  then show ?thesis using HighestOffset_append [OF assms(1) l'(2,3,4)] by auto
qed

lemma AppendBatch_correct_witness:
  "\<exists>l'. AppendBatch demo_log1 [demo_record, demo_record] 3 = (l', 1, None) \<and>
        log_recs l' = [demo_record, demo_record\<lparr>Offset := 1\<rparr>, demo_record\<lparr>Offset := 2\<rparr>] \<and> HighestOffset l' = 3"
  using AppendBatch_correct [OF demo_log1_ok(1), of "[demo_record, demo_record]" 3] demo_record_ok demo_log1_ok
  by auto

end
