(* ===== verification/LogRead.thy ===== *)
theory LogRead
  imports LogCorrect
begin

text \<open>
  Reading runs of records across segments, \<open>Log.ReadFrom\<close> of \<^verbatim>\<open>internal/storage/log.go\<close>: the loop over
  the segments is reduced to a recursion on the lists of records of the segments, and the properties of
  what a caller gets are derived from it.
\<close>

section \<open>The loop over the segments as a recursion on their records\<close>

fun gather :: "int \<Rightarrow> int \<Rightarrow> int \<Rightarrow> Segment list \<Rightarrow> Record list" where
  "gather off mx acc [] = []"
| "gather off mx acc (s # ss) =
     (if ss \<noteq> [] \<and> BaseOffset (hd ss) \<le> off then gather off mx acc ss
      else
        (let recs = budget (mx - acc) 0 (drop (nat (off - BaseOffset s)) (seg_recs s));
             acc' = acc + int (length (encs recs))
         in recs @ (if mx \<le> acc' \<or> NextOffset s \<le> off then [] else gather (NextOffset s) mx acc' ss)))"

lemma Segment_ReadFrom_view: "Segment_ReadFrom (view s) off mx = Segment_ReadFrom s off mx"
  by (simp add: Segment_ReadFrom_def view_def readHandle_def split: sum.split prod.split)

lemma accumulate:
  assumes "0 \<le> acc" and "acc + int (length (encs recs)) < 2 ^ 31"
  shows "foldl (\<lambda>a r. int32 (a + int32 (int (EncodedSize r)))) acc recs = acc + int (length (encs recs))"
  using assms
proof (induction recs arbitrary: acc)
  case (Cons r recs)
  then have "int32 (int (EncodedSize r)) = int (EncodedSize r)"
    "int32 (acc + int (EncodedSize r)) = acc + int (EncodedSize r)"
    by (auto intro!: wrap_s_id simp: in_s_def)
  then show ?case using Cons.IH [of "acc + int (EncodedSize r)"] Cons.prems by simp
qed simp

lemma budget_size:
  assumes "0 < mx" and "\<forall>r \<in> set rs. wf_record r"
  shows "int (length (encs (budget mx 0 rs))) \<le> max mx (int MaxRecordSize)"
proof -
  obtain k where k: "budget mx 0 rs = take k rs" using budget_prefix by blast
  show ?thesis
  proof (cases "length (budget mx 0 rs) = 1")
    case True
    then obtain r where r: "budget mx 0 rs = [r]" by (metis One_nat_def length_0_conv length_Suc_conv)
    then have "r \<in> set (take k rs)" using k by simp
    then have "r \<in> set rs" by (rule in_set_takeD)
    then show ?thesis using assms(2) r by (auto simp: wf_record_def)
  next
    case False
    then show ?thesis using budget_bound [OF assms(1), of rs] assms(1) by linarith
  qed
qed

text \<open>The part of one segment.\<close>

lemma segment_part:
  assumes "segments_ok xs" and "i < length xs" and "flushed (xs ! i)" and "BaseOffset (xs ! i) \<le> off"
    and "0 \<le> acc" and "acc < mx" and "mx + int MaxRecordSize < 2 ^ 31"
  defines "recs \<equiv> budget (mx - acc) 0 (drop (nat (off - BaseOffset (xs ! i))) (seg_recs (xs ! i)))"
  shows "Segment_ReadFrom (xs ! i) off (int32 (mx - acc)) = (recs, None)"
    and "foldl (\<lambda>a r. int32 (a + int32 (int (EncodedSize r)))) acc recs = acc + int (length (encs recs))"
proof -
  let ?s = "xs ! i"
  have inv: "seg_inv (view ?s)" by (rule segments_nth(1) [OF assms(1,2)])
  have fl: "flushed (view ?s)" "BaseOffset (view ?s) = BaseOffset ?s"
    using assms(3) by (simp_all add: flushed_def view_def)
  have m: "int32 (mx - acc) = mx - acc"
    using assms(5-7) by (intro wrap_s_id) (simp_all add: in_s_def)
  show "Segment_ReadFrom ?s off (int32 (mx - acc)) = (recs, None)"
    using Segment_ReadFrom_eq [OF inv fl(1), of off "mx - acc"] assms(4-7) fl(2)
    by (simp add: m recs_def Segment_ReadFrom_view)
  have wf: "\<forall>r \<in> set (seg_recs ?s). wf_record r" using inv by (simp add: seg_inv_def acct_inv_def)
  have "int (length (encs recs)) \<le> max (mx - acc) (int MaxRecordSize)"
    unfolding recs_def using assms(6) wf by (intro budget_size) (auto dest: in_set_dropD)
  then show "foldl (\<lambda>a r. int32 (a + int32 (int (EncodedSize r)))) acc recs = acc + int (length (encs recs))"
    using assms(5-7) by (intro accumulate) (auto simp: MaxRecordSize_def)
qed

lemma base_nonneg: "segments_ok xs \<Longrightarrow> i < length xs \<Longrightarrow> 0 \<le> BaseOffset (xs ! i)"
  using segments_nth(1) [of xs i] by (simp add: seg_inv_def acct_inv_def view_def)

lemma sealed_next:
  assumes "segments_ok xs" and "i + 1 < length xs" and "BaseOffset (xs ! i) < NextOffset (xs ! i)"
  shows "NextOffset (xs ! i) = BaseOffset (xs ! (i + 1))"
proof -
  obtain ss a where xs: "xs = ss @ [a]" "segments_ok (ss @ [a])" using segments_ok_snocD [OF assms(1)] by blast
  then have "sealed (xs ! i)"
    using assms(2) sealed_run_nth [of _ ss i] by (auto simp: segments_ok_snoc nth_append)
  then have "NextOffset (xs ! i) = seg_end (xs ! i)" using assms(3) by (auto simp: sealed_def)
  then show ?thesis
    using segments_nth(2) [OF assms(1)] assms(2) by (simp add: seg_end_def recs_of_take_Suc)
qed

lemma readSegments_done: "length (l_segments l) \<le> i \<Longrightarrow> readSegments l i off mx out acc = (l, out, None)"
  by (simp add: readSegments.simps [of l i])

lemma readSegments_skip:
  assumes "i + 1 < length (l_segments l)" and "0 \<le> BaseOffset (l_segments l ! (i + 1))"
    and "BaseOffset (l_segments l ! (i + 1)) \<le> off"
  shows "readSegments l i off mx out acc = readSegments l (i + 1) off mx out acc"
  using assms by (simp add: readSegments.simps [of l i])

lemma readSegments_read:
  assumes "i < length (l_segments l)" and "BaseOffset (l_segments l ! i) \<le> off"
    and "i + 1 < length (l_segments l) \<longrightarrow> off < BaseOffset (l_segments l ! (i + 1))"
    and "flush_if_active l i = Inr l'"
    and "Segment_ReadFrom (l_segments l' ! i) off (int32 (mx - acc)) = (recs, None)"
    and "foldl (\<lambda>a r. int32 (a + int32 (int (EncodedSize r)))) acc recs = acc'"
  shows "readSegments l i off mx out acc =
           (if mx \<le> acc' \<or> NextOffset (l_segments l ! i) \<le> off then (l', out @ recs, None)
            else readSegments l' (i + 1) (NextOffset (l_segments l ! i)) mx (out @ recs) acc')"
  using assms
  by (cases "i + 1 < length (l_segments l)") (simp_all add: readSegments.simps [of l i] Let_def)

lemma readSegments_gather:
  assumes inv: "log_inv l" and mx: "mx + int MaxRecordSize < 2 ^ 31"
  shows "i < length (l_segments l) \<Longrightarrow> BaseOffset (l_segments l ! i) \<le> off \<Longrightarrow> 0 \<le> acc \<Longrightarrow> acc < mx \<Longrightarrow>
    \<exists>l'. readSegments l i off mx out acc = (l', out @ gather off mx acc (drop i (l_segments l)), None) \<and>
         log_inv l' \<and> same_log l l' \<and> log_recs l' = log_recs l"
proof (induction "length (l_segments l) - i" arbitrary: i off acc out)
  case (Suc k)
  let ?xs = "l_segments l" and ?s = "l_segments l ! i"
  have ok: "segments_ok ?xs" using inv by (simp add: log_inv_def)
  have dr: "drop i ?xs = ?s # drop (i + 1) ?xs" using Suc.prems(1) by (simp add: Cons_nth_drop_Suc)
  have hd: "hd (drop (i + 1) ?xs) = ?xs ! (i + 1)" if "i + 1 < length ?xs" using that by (simp add: hd_drop_conv_nth)
  consider (skip) "i + 1 < length ?xs" "BaseOffset (?xs ! (i + 1)) \<le> off"
    | (read) "i + 1 < length ?xs" "off < BaseOffset (?xs ! (i + 1))" | (last) "i + 1 = length ?xs"
    using Suc.prems(1) by linarith
  then show ?case
  proof cases
    case skip
    then show ?thesis
      using Suc.hyps(1) [of "i + 1" off acc out] Suc.hyps(2) Suc.prems base_nonneg [OF ok skip(1)] hd
      by (simp add: readSegments_skip dr)
  next
    case read
    have fl: "flush_if_active l i = Inr l" "flushed ?s"
      using read(1) segments_nth(3) [OF ok Suc.prems(1)] by (simp_all add: flush_if_active_def)
    note part = segment_part [OF ok Suc.prems(1) fl(2) Suc.prems(2,3,4) mx]
    note step = readSegments_read [OF Suc.prems(1,2) _ fl(1) part]
    let ?r = "budget (mx - acc) 0 (drop (nat (off - BaseOffset ?s)) (seg_recs ?s))"
    show ?thesis
    proof (cases "mx \<le> acc + int (length (encs ?r)) \<or> NextOffset ?s \<le> off")
      case True
      then show ?thesis using step read hd inv by (simp add: dr Let_def same_log_def)
    next
      case False
      then have "NextOffset ?s = BaseOffset (?xs ! (i + 1))"
        using Suc.prems(2) by (intro sealed_next [OF ok read(1)]) simp
      then show ?thesis
        using False step read hd Suc.hyps(2) Suc.prems(3)
          Suc.hyps(1) [of "i + 1" "NextOffset ?s" "acc + int (length (encs ?r))" "out @ ?r"]
        by (simp add: dr Let_def)
    qed
  next
    case last
    obtain l' where l': "flush_if_active l i = Inr l'" "log_inv l'" "same_log l l'" "log_recs l' = log_recs l"
      "map seg_recs (l_segments l') = map seg_recs ?xs" "map BaseOffset (l_segments l') = map BaseOffset ?xs"
      "flushed (l_segments l' ! i)"
      using flush_if_active_ok [OF inv Suc.prems(1)] by blast
    have len: "length (l_segments l') = length ?xs" using l'(5) by (metis length_map)
    have s': "BaseOffset (l_segments l' ! i) = BaseOffset ?s" "seg_recs (l_segments l' ! i) = seg_recs ?s"
      using l'(5,6) Suc.prems(1) len by (metis nth_map)+
    have ok': "segments_ok (l_segments l')" using l'(2) by (simp add: log_inv_def)
    note part = segment_part [OF ok' _ l'(7) _ Suc.prems(3,4) mx, of off, unfolded len s', OF Suc.prems(1,2)]
    have "drop (i + 1) ?xs = []" using last by simp
    then show ?thesis
      using readSegments_read [OF Suc.prems(1,2) _ l'(1) part] last len l'(2,3,4)
      by (auto simp: dr Let_def readSegments_done)
  qed
qed simp

lemma Log_ReadFrom_gather:
  assumes "log_inv l" and "LowestOffset l \<le> off" and "0 < mx" and "mx + int MaxRecordSize < 2 ^ 31"
  shows "\<exists>l'. Log_ReadFrom l off mx = (l', gather off mx 0 (l_segments l), None) \<and>
              log_inv l' \<and> same_log l l' \<and> log_recs l' = log_recs l"
  using readSegments_gather [OF assms(1,4), of 0 off 0 "[]"] assms log_nonempty [OF assms(1)]
  by (simp add: Log_ReadFrom_def log_inv_def LowestOffset_def hd_conv_nth)

section \<open>What is read\<close>

lemma segments_ok_Cons:
  assumes "segments_ok (s # ss)" and "ss \<noteq> []"
  shows "segments_ok ss" and "sealed s" and "BaseOffset (hd ss) = seg_end s"
proof -
  obtain ts a where ss: "ss = ts @ [a]" using assms(2) by (metis append_butlast_last_id)
  have ok: "segments_ok ((s # ts) @ [a])" using assms(1) ss by simp
  then have run: "sealed s" "sealed_run (seg_end s) ts" "BaseOffset a - int (length (recs_of ts)) = seg_end s"
    unfolding segments_ok_snoc by (auto simp: seg_end_def algebra_simps)
  then show "segments_ok ss" "sealed s"
    using ok unfolding ss segments_ok_snoc by simp_all
  with run(3) show "BaseOffset (hd ss) = seg_end s"
    using LowestOffset_eq [of ts a] ss by simp
qed

lemma segment_contiguous:
  assumes "segments_ok (s # ss)"
  shows "contiguous (BaseOffset s) (seg_recs s)"
  using segments_nth(1) [OF assms, of 0] by (simp add: seg_inv_def acct_inv_def view_def seg_recs_def)

lemma contiguous_sorted: "contiguous b rs \<Longrightarrow> sorted_wrt (<) (map Offset rs)"
  by (auto simp: contiguous_nth sorted_wrt_iff_nth_less)

lemma contiguous_set: "contiguous b rs \<Longrightarrow> r \<in> set rs \<Longrightarrow> b \<le> Offset r \<and> Offset r < b + int (length rs)"
  by (auto simp: in_set_conv_nth contiguous_nth)

lemma gather_tail:
  assumes "segments_ok (s # ss)" and "BaseOffset s \<le> off" and "off < NextOffset s"
  shows "ss = [] \<or> segments_ok ss \<and> BaseOffset (hd ss) = NextOffset s \<and> NextOffset s = seg_end s"
  using segments_ok_Cons [OF assms(1)] assms(2,3) by (auto simp: sealed_def)

text \<open>What is read belongs to the log, starts at the offset asked for or later and is in order.\<close>

lemma gather_sound:
  "segments_ok ss \<Longrightarrow> BaseOffset (hd ss) \<le> off \<Longrightarrow>
   (\<forall>r \<in> set (gather off mx acc ss). r \<in> set (recs_of ss) \<and> off \<le> Offset r) \<and>
   sorted_wrt (<) (map Offset (gather off mx acc ss))"
proof (induction off mx acc ss rule: gather.induct)
  case (2 off mx acc s ss)
  let ?d = "drop (nat (off - BaseOffset s)) (seg_recs s)"
  define recs where "recs = budget (mx - acc) 0 ?d"
  define acc' where "acc' = acc + int (length (encs recs))"
  have c: "contiguous (BaseOffset s) (seg_recs s)" by (rule segment_contiguous [OF 2(3)])
  obtain k where k: "recs = take k ?d" using budget_prefix unfolding recs_def by blast
  have part: "r \<in> set (seg_recs s) \<and> off \<le> Offset r \<and> Offset r < seg_end s" if "r \<in> set recs" for r
  proof -
    have "r \<in> set ?d" using that k by (metis in_set_takeD)
    moreover from this have "r \<in> set (seg_recs s)" by (rule in_set_dropD)
    moreover have "off \<le> Offset r" if "r \<in> set ?d"
      using that unfolding contiguous_filter [OF c, of off, symmetric] by simp
    ultimately show ?thesis using contiguous_set [OF c] by (simp add: seg_end_def)
  qed
  have sorted: "sorted_wrt (<) (map Offset recs)"
    using contiguous_sorted [OF c] unfolding k by (simp add: sorted_wrt_take sorted_wrt_drop flip: take_map drop_map)
  show ?case
  proof (cases "ss \<noteq> [] \<and> BaseOffset (hd ss) \<le> off")
    case True
    then show ?thesis using 2(1) segments_ok_Cons [OF 2(3)] by auto
  next
    case False
    show ?thesis
    proof (cases "mx \<le> acc' \<or> NextOffset s \<le> off")
      case True
      then have "gather off mx acc (s # ss) = recs" using False by (auto simp: recs_def acc'_def Let_def)
      then show ?thesis using part sorted by auto
    next
      case more: False
      then have g: "gather off mx acc (s # ss) = recs @ gather (NextOffset s) mx acc' ss"
        using False by (auto simp: recs_def acc'_def Let_def)
      show ?thesis
      proof (cases "ss = []")
        case True
        then show ?thesis using g part sorted by simp
      next
        case ne: False
        have t: "segments_ok ss" "BaseOffset (hd ss) = NextOffset s" "NextOffset s = seg_end s"
          using gather_tail [OF 2(3)] 2(4) more ne by simp_all
        have IH: "(\<forall>r \<in> set (gather (NextOffset s) mx acc' ss). r \<in> set (recs_of ss) \<and> NextOffset s \<le> Offset r) \<and>
            sorted_wrt (<) (map Offset (gather (NextOffset s) mx acc' ss))"
          using 2(2) [OF False recs_def acc'_def more t(1)] t(2) by simp
        then show ?thesis
          using part sorted t(3) more unfolding g by (fastforce simp: sorted_wrt_append)
      qed
    qed
  qed
qed simp

text \<open>A read below the log end returns at least the record asked for, however small the budget.\<close>

lemma gather_progress:
  "segments_ok ss \<Longrightarrow> BaseOffset (hd ss) \<le> off \<Longrightarrow> off < seg_end (last ss) \<Longrightarrow>
   gather off mx acc ss \<noteq> [] \<and> Offset (hd (gather off mx acc ss)) = off"
proof (induction off mx acc ss rule: gather.induct)
  case (2 off mx acc s ss)
  show ?case
  proof (cases "ss \<noteq> [] \<and> BaseOffset (hd ss) \<le> off")
    case True
    then show ?thesis using 2(1,5) segments_ok_Cons [OF 2(3)] by auto
  next
    case False
    let ?k = "nat (off - BaseOffset s)"
    have c: "contiguous (BaseOffset s) (seg_recs s)" by (rule segment_contiguous [OF 2(3)])
    have "off < seg_end s" using False 2(5) segments_ok_Cons(3) [OF 2(3)] by (cases "ss = []") auto
    then have k: "?k < length (seg_recs s)" using 2(4) by (simp add: seg_end_def)
    then have d: "drop ?k (seg_recs s) = seg_recs s ! ?k # drop (Suc ?k) (seg_recs s)"
      by (simp add: Cons_nth_drop_Suc)
    have "Offset (seg_recs s ! ?k) = off" using contiguous_nth [OF c k] 2(4) by simp
    then show ?thesis using False by (auto simp: d Let_def)
  qed
qed (simp add: segments_ok_def)

text \<open>Within the active segment the result is exactly the prefix within the budget.\<close>

lemma gather_active:
  "segments_ok ss \<Longrightarrow> BaseOffset (last ss) \<le> off \<Longrightarrow>
   gather off mx acc ss = budget (mx - acc) 0 (drop (nat (off - BaseOffset (last ss))) (seg_recs (last ss)))"
proof (induction ss)
  case (Cons s ss)
  show ?case
  proof (cases "ss = []")
    case False
    have "BaseOffset (hd ss) \<le> BaseOffset (last ss)"
    proof -
      obtain ts a where "ss = ts @ [a]" using False by (metis append_butlast_last_id)
      then show ?thesis using segments_ok_Cons(1) [OF Cons.prems(1) False] LowestOffset_eq [of ts a] by simp
    qed
    then show ?thesis using False Cons segments_ok_Cons [OF Cons.prems(1) False] by simp
  qed (simp add: Let_def)
qed (simp add: segments_ok_def)

section \<open>Properties\<close>





text \<open>
  Across segments the run may have a gap: when a segment stops at a record that does not fit the
  budget, the scan goes on behind the segment (one that was filled since the log was opened), and the
  next segment returns its first record whatever its size. Here the record \<open>b\<close> is left out between \<open>a\<close> and \<open>c\<close>.
\<close>

lemma ReadFrom_leaves_gap:
  assumes inv: "log_inv l" and segs: "l_segments l = [s, t]" and s: "seg_recs s = [a, b]" and t: "seg_recs t = [c]"
    and run: "BaseOffset s < NextOffset s"
    and mx: "int (length (encs [a])) < mx" "mx < int (length (encs [a, b]))" and small: "mx + int MaxRecordSize < 2 ^ 31"
  shows "\<exists>l'. Log_ReadFrom l (BaseOffset s) mx = (l', [a, c], None) \<and> log_recs l = [a, b, c]"
proof -
  have ok: "segments_ok [s, t]" using inv segs by (simp add: log_inv_def)
  have next1: "BaseOffset t = BaseOffset s + 2" using ok s by (simp add: segments_ok_def)
  have next2: "NextOffset s = BaseOffset s + 2"
    using ok s run by (auto simp: segments_ok_def sealed_def seg_end_def)
  have pos: "0 < EncodedSize a" by (simp add: EncodedSize_def split: option.split)
  have "gather (BaseOffset s) mx 0 [s, t] = [a, c]"
    using mx pos by (simp add: s t next1 next2 encs_def Let_def)
  moreover have "\<exists>l'. Log_ReadFrom l (BaseOffset s) mx = (l', gather (BaseOffset s) mx 0 [s, t], None)"
    using Log_ReadFrom_gather [OF inv, of "BaseOffset s" mx] small mx segs by (auto simp: LowestOffset_def)
  ultimately show ?thesis by (simp add: log_recs_def segs s t)
qed

end
