(* ===== verification/LogMaint.thy ===== *)
theory LogMaint
  imports LogRead
begin

text \<open>
  The operations that remove records or bring a log back, \<^verbatim>\<open>internal/storage/log.go\<close>: truncation at an
  offset, retention by age and by size, periodic flushing, and recovery when a log is opened.
\<close>

section \<open>Truncation\<close>

lemma filter_less_take:
  assumes "sorted_wrt (<) (map f xs)"
  shows "\<exists>k \<le> length xs. filter (\<lambda>x. \<not> c \<le> f x) xs = take k xs \<and> (\<forall>i < k. f (xs ! i) < c) \<and>
           (k < length xs \<longrightarrow> c \<le> (f (xs ! k) :: int))"
  using assms
proof (induction xs)
  case (Cons x xs)
  show ?case
  proof (cases "c \<le> f x")
    case True
    then have "filter (\<lambda>x. \<not> c \<le> f x) xs = []" using Cons.prems by (auto simp: filter_empty_conv)
    then show ?thesis using True by (intro exI [of _ 0]) simp
  next
    case False
    obtain k where "k \<le> length xs" "filter (\<lambda>x. \<not> c \<le> f x) xs = take k xs" "\<forall>i < k. f (xs ! i) < c"
      "k < length xs \<longrightarrow> c \<le> f (xs ! k)"
      using Cons by auto
    then show ?thesis using False by (intro exI [of _ "Suc k"]) (auto simp: less_Suc_eq_0_disj)
  qed
qed simp

lemma contiguous_filter_less:
  "contiguous b rs \<Longrightarrow> filter (\<lambda>r. Offset r < off) rs = take (nat (off - b)) rs"
proof (induction rs arbitrary: b)
  case (Cons r rs)
  then have off: "Offset r = b" "contiguous (b + 1) rs" by (simp_all add: contiguous_Cons)
  show ?case
  proof (cases "off \<le> b")
    case True
    then show ?thesis using Cons.IH [OF off(2)] off(1) by simp
  next
    case False
    then have "nat (off - b) = Suc (nat (off - (b + 1)))" by simp
    then show ?thesis using Cons.IH [OF off(2)] off(1) False by simp
  qed
qed simp

lemma segments_sorted: "segments_ok xs \<Longrightarrow> sorted_wrt (<) (map BaseOffset xs)"
  by (simp add: sorted_wrt_iff_nth_less segments_base_mono)

lemma segments_ok_cut:
  assumes "segments_ok xs" and "j < length xs" and "seg_inv s" and "same_conf (xs ! j) s"
  shows "segments_ok (take j xs @ [s])" and "BaseOffset (hd (take j xs @ [s])) = BaseOffset (hd xs)"
proof -
  obtain ss a where xs: "xs = ss @ [a]" "segments_ok (ss @ [a])" using segments_ok_snocD [OF assms(1)] by blast
  have b: "BaseOffset s = BaseOffset (hd xs) + int (length (recs_of (take j xs)))"
    using segments_nth(2) [OF assms(1,2)] assms(4) by (simp add: same_conf_def)
  have "take j xs = take j ss" using xs(1) assms(2) by simp
  moreover have "sealed_run (BaseOffset (hd xs)) (take j ss)"
    using xs LowestOffset_eq [OF xs(2)] sealed_run_append [of _ "take j ss" "drop j ss"]
    by (simp add: segments_ok_snoc)
  moreover have "segment_conf s" "\<forall>x \<in> set (take j xs). segment_conf x"
    using assms(1,2,4) by (auto simp: segments_ok_def same_conf_def segment_conf_def dest: in_set_takeD)
  ultimately show ok: "segments_ok (take j xs @ [s])"
    using assms(3) b by (simp add: segments_ok_snoc)
  show "BaseOffset (hd (take j xs @ [s])) = BaseOffset (hd xs)" using LowestOffset_eq [OF ok] b by simp
qed

text \<open>Rebuilding a segment at an offset above its base keeps the records below the offset.\<close>

lemma rebuild_at:
  assumes "seg_inv (view s)" and "BaseOffset s < off"
  shows "\<exists>s'. rebuildSegment s off = (s', None) \<and> seg_inv s' \<and>
              seg_recs s' = take (nat (off - BaseOffset s)) (seg_recs s) \<and> same_conf s s'"
proof -
  let ?rs = "seg_recs s" and ?m = "nat (off - BaseOffset s)"
  have a: "acct_inv (view s) ?rs" and w: "at_end (wfile (writer s))" "written (writer s) = encs ?rs"
    using assms(1) by (simp_all add: seg_inv_def view_def seg_recs_def)
  have base: "BaseOffset (view s) = BaseOffset s" "s_index (view s) = s_index s" "indexInterval (view s) = indexInterval s"
    "s_closed (view s) = s_closed s" by (simp_all add: view_def)
  have rs: "segment_records (BaseOffset s) ?rs" using acct_segment_records [OF a] base by simp
  have c: "contiguous (BaseOffset s) ?rs" using rs by (simp add: segment_records_def)
  have keep: "keeps off (take ?m ?rs)"
    using contiguous_filter_less [OF c, of off] by (auto simp: keeps_def simp flip: contiguous_filter_less [OF c])
  have stop: "scan_stops off (encs (drop ?m ?rs))"
  proof (cases "?m < length ?rs")
    case True
    then have "drop ?m ?rs = ?rs ! ?m # drop (Suc ?m) ?rs" by (simp add: Cons_nth_drop_Suc)
    moreover have "wf_record (?rs ! ?m)" "Offset (?rs ! ?m) = off"
      using True rs contiguous_nth [OF c True] assms(2) by (simp_all add: segment_records_def)
    moreover have "0 \<le> off" using rs assms(2) by (simp add: segment_records_def)
    ultimately show ?thesis by (simp add: scan_stops_def DecodeRecord_enc)
  qed (simp add: scan_stops_def)
  have cap: "entrySize * length (idx_entries (indexInterval s) (take ?m ?rs)) \<le> i_maxSize (s_index s)"
  proof -
    have "length (idx_entries (indexInterval s) (take ?m ?rs)) \<le> Index_Entries (s_index s)"
      using idx_entries_length [of "indexInterval s" "take ?m ?rs" "drop ?m ?rs"] acct_entries [OF a] base
      by (metis append_take_drop_id length_index_entries)
    moreover have "entrySize * Index_Entries (s_index s) \<le> i_maxSize (s_index s)"
      using a base by (auto simp: acct_inv_def index_inv_def Index_Entries_def entrySize_def)
    ultimately show ?thesis by (meson le_trans mult_le_mono2)
  qed
  have ix: "i_maxSize (s_index s) mod entrySize = 0" "i_maxSize (s_index s) \<noteq> 0" "\<not> s_closed s"
    using a unfolding acct_inv_def index_inv_def base by blast+
  have wr: "written (writer s) = encs (take ?m ?rs) @ encs (drop ?m ?rs)"
    using w(2) encs_take_drop [of ?rs ?m] by simp
  show ?thesis
    using rebuildSegment_ok [OF ix(3) w(1) wr segment_records_take [OF rs] keep stop ix(1,2) cap] by blast
qed

text \<open>
  After \<open>Truncate(offset)\<close> exactly the records below the offset are left, and the log end is the
  smaller of the offset and the old log end.
\<close>

lemma Log_Truncate_ok:
  assumes inv: "log_inv l" and off: "0 \<le> off" "off < 2 ^ 63"
  shows "\<exists>l'. Log_Truncate l off now = (l', None) \<and> log_inv l' \<and>
              log_recs l' = filter (\<lambda>r. Offset r < off) (log_recs l) \<and>
              LowestOffset l' = min off (LowestOffset l) \<and> HighestOffset l' = min off (HighestOffset l)"
proof -
  let ?xs = "l_segments l"
  have ok: "segments_ok ?xs" and cl: "\<not> l_closed l" and cfg: "config_ok (l_config l)"
    using inv by (simp_all add: log_inv_def)
  have ne: "?xs \<noteq> []" by (rule log_nonempty [OF inv])
  have low: "LowestOffset l = BaseOffset (hd ?xs)" using ne by (simp add: LowestOffset_def)
  have recs: "filter (\<lambda>r. Offset r < off) (log_recs l) = take (nat (off - LowestOffset l)) (log_recs l)"
    by (rule contiguous_filter_less [OF log_contiguous [OF inv]])
  obtain k where k: "k \<le> length ?xs" "filter (\<lambda>s. \<not> off \<le> BaseOffset s) ?xs = take k ?xs"
    "\<forall>i < k. BaseOffset (?xs ! i) < off" "k < length ?xs \<longrightarrow> off \<le> BaseOffset (?xs ! k)"
    using filter_less_take [OF segments_sorted [OF ok]] by blast
  show ?thesis
  proof (cases k)
    case 0
    then have le: "off \<le> LowestOffset l" using k(4) ne low by (simp add: hd_conv_nth)
    obtain n where n: "NewSegment [] now [] off (l_config l) now = Inr n" "seg_inv n" "seg_recs n = []"
      "BaseOffset n = off" "NextOffset n = off" "s_maxBytes n = SegmentBytes (l_config l)"
      using NewSegment_fresh [of "l_config l" off now now] off cfg by (auto simp: config_ok_def)
    let ?l = "l\<lparr>l_segments := [n], activeCreatedAt := now, messagesSinceFlush := 0\<rparr>"
    have "segment_conf n"
      using n(6) cfg withDefaults_pos(1) [of "l_config l"] by (simp add: segment_conf_def config_ok_def)
    then have "log_inv ?l" using n(2) cl cfg by (simp add: log_inv_def segments_ok_def)
    moreover have "Log_Truncate l off now = (?l, None)" using cl ne k(2) 0 n(1) by (simp add: Log_Truncate_def)
    ultimately show ?thesis
      using le n(3,4,5) recs HighestOffset_eq [OF inv]
      by (intro exI [of _ ?l]) (simp add: log_recs_def LowestOffset_def HighestOffset_def)
  next
    case (Suc j)
    let ?s = "?xs ! j" and ?m = "nat (off - BaseOffset (?xs ! j))"
    have j: "j < length ?xs" "BaseOffset ?s < off" using Suc k(1,3) by auto
    obtain s' where s': "rebuildSegment ?s off = (s', None)" "seg_inv s'" "seg_recs s' = take ?m (seg_recs ?s)"
      "same_conf ?s s'"
      using rebuild_at [OF segments_nth(1) [OF ok j(1)] j(2)] by blast
    have kept: "take k ?xs = take j ?xs @ [?s]" using Suc j(1) by (simp add: take_Suc_conv_app_nth)
    note cut = segments_ok_cut [OF ok j(1) s'(2,4)]
    let ?l = "l\<lparr>l_segments := take j ?xs @ [s'], activeCreatedAt := now, messagesSinceFlush := 0\<rparr>"
    have tr: "Log_Truncate l off now = (?l, None)"
      using cl ne k(2) kept s'(1) by (simp add: Log_Truncate_def set_active_def)
    have inv': "log_inv ?l" using cut(1) cl cfg by (simp add: log_inv_def)
    have low': "LowestOffset ?l = LowestOffset l" using cut(2) low by (simp add: LowestOffset_def)
    have base: "BaseOffset ?s = LowestOffset l + int (length (recs_of (take j ?xs)))"
      using segments_nth(2) [OF ok j(1)] low by simp
    have m: "?m \<le> length (seg_recs ?s) \<or> drop (Suc j) ?xs = []"
    proof (cases "Suc j < length ?xs")
      case True
      then have "off \<le> BaseOffset (?xs ! Suc j)" using k(4) Suc by simp
      then show ?thesis
        using segments_nth(2) [OF ok True] base low recs_of_take_Suc [OF j(1)] by (simp add: nat_le_iff)
    qed simp
    have "log_recs l = recs_of (take j ?xs @ [?s] @ drop (Suc j) ?xs)"
      using j(1) by (simp add: log_recs_def id_take_nth_drop [symmetric])
    then have split: "log_recs l = recs_of (take j ?xs) @ seg_recs ?s @ recs_of (drop (Suc j) ?xs)" by simp
    have "nat (off - LowestOffset l) = length (recs_of (take j ?xs)) + ?m" using base j(2) by simp
    then have "take (nat (off - LowestOffset l)) (log_recs l) = recs_of (take j ?xs) @ take ?m (seg_recs ?s)"
      using m unfolding split by auto
    moreover have "log_recs ?l = recs_of (take j ?xs) @ take ?m (seg_recs ?s)"
      using s'(3) by (simp add: log_recs_def)
    ultimately have r': "log_recs ?l = take (nat (off - LowestOffset l)) (log_recs l)" by simp
    have "HighestOffset ?l = min off (HighestOffset l)"
      using HighestOffset_eq [OF inv'] HighestOffset_eq [OF inv] low' r' base j(2) by (simp add: min_def) linarith
    then show ?thesis using tr inv' low' r' recs base j(2) by (intro exI [of _ ?l]) (simp add: min_def)
  qed
qed

section \<open>Retention\<close>

text \<open>Dropping the oldest segments leaves a log; the active segment is never dropped.\<close>

lemma segments_ok_drop:
  assumes "segments_ok xs" and "k < length xs"
  shows "segments_ok (drop k xs)" and "last (drop k xs) = last xs"
    and "BaseOffset (hd (drop k xs)) = BaseOffset (hd xs) + int (length (recs_of (take k xs)))"
    and "recs_of (drop k xs) = drop (length (recs_of (take k xs))) (recs_of xs)"
proof -
  show "segments_ok (drop k xs)" using assms
  proof (induction k arbitrary: xs)
    case (Suc k)
    then obtain s ss where xs: "xs = s # ss" "k < length ss" by (cases xs) auto
    then have "ss \<noteq> []" by auto
    then show ?case using xs Suc segments_ok_Cons(1) [of s ss] by simp
  qed simp
  show "last (drop k xs) = last xs" using assms(2) by simp
  show "BaseOffset (hd (drop k xs)) = BaseOffset (hd xs) + int (length (recs_of (take k xs)))"
    using segments_nth(2) [OF assms] assms(2) by (simp add: hd_drop_conv_nth)
  have "recs_of xs = recs_of (take k xs) @ recs_of (drop k xs)" by (metis append_take_drop_id recs_of_simps(3))
  then show "recs_of (drop k xs) = drop (length (recs_of (take k xs))) (recs_of xs)" by simp
qed

text \<open>What retention keeps: a suffix of the records, with the log end where it was.\<close>

definition suffix_log :: "Log \<Rightarrow> Log \<Rightarrow> bool" where
  "suffix_log l l' \<longleftrightarrow>
     log_inv l' \<and> HighestOffset l' = HighestOffset l \<and>
     (\<exists>k. log_recs l' = drop k (log_recs l) \<and> LowestOffset l' = LowestOffset l + int k)"

lemma suffix_log_refl: "log_inv l \<Longrightarrow> suffix_log l l"
  by (auto simp: suffix_log_def intro: exI [of _ 0])

lemma suffix_log_trans: "suffix_log l l' \<Longrightarrow> suffix_log l' l'' \<Longrightarrow> suffix_log l l''"
proof -
  assume a: "suffix_log l l'" and b: "suffix_log l' l''"
  obtain i where i: "log_recs l' = drop i (log_recs l)" "LowestOffset l' = LowestOffset l + int i"
    using a by (auto simp: suffix_log_def)
  obtain j where j: "log_recs l'' = drop j (log_recs l')" "LowestOffset l'' = LowestOffset l' + int j"
    using b by (auto simp: suffix_log_def)
  have "log_recs l'' = drop (j + i) (log_recs l) \<and> LowestOffset l'' = LowestOffset l + int (j + i)"
    using i j by simp
  then show "suffix_log l l''" using a b unfolding suffix_log_def by (simp only:) blast
qed

lemma drop_segments_suffix:
  assumes "log_inv l" and "k < length (l_segments l)"
  shows "suffix_log l (l\<lparr>l_segments := drop k (l_segments l)\<rparr>)"
proof -
  have ok: "segments_ok (l_segments l)" using assms(1) by (simp add: log_inv_def)
  note d = segments_ok_drop [OF ok assms(2)]
  have "log_inv (l\<lparr>l_segments := drop k (l_segments l)\<rparr>)" using d(1) assms(1) by (simp add: log_inv_def)
  moreover have "drop k (l_segments l) \<noteq> []" "l_segments l \<noteq> []" using assms(2) by auto
  ultimately show ?thesis using d(2-4) unfolding suffix_log_def
    by (intro conjI exI [of _ "length (recs_of (take k (l_segments l)))"])
       (simp_all add: HighestOffset_def LowestOffset_def log_recs_def)
qed

text \<open>Segments are created in order, so the expired ones are the oldest ones.\<close>

definition created_in_order :: "Log \<Rightarrow> bool" where
  "created_in_order l \<longleftrightarrow>
     sorted (map CreatedAt (l_segments l)) \<and> (\<forall>s \<in> set (l_segments l). 0 < CreatedAt s)"

lemma filter_expired_drop:
  assumes "sorted (map CreatedAt ss)" and "\<forall>s \<in> set ss. 0 < CreatedAt s"
  shows "\<exists>k \<le> length ss. filter (\<lambda>s. \<not> expired cfg now s) ss = drop k ss"
  using assms
proof (induction ss)
  case (Cons s ss)
  show ?case
  proof (cases "expired cfg now s")
    case True
    obtain k where "k \<le> length ss" "filter (\<lambda>s. \<not> expired cfg now s) ss = drop k ss" using Cons by auto
    then show ?thesis using True by (intro exI [of _ "Suc k"]) simp
  next
    case False
    then have "\<not> expired cfg now t" if "t \<in> set ss" for t
      using Cons.prems that by (auto simp: expired_def)
    then have "filter (\<lambda>s. \<not> expired cfg now s) ss = ss" by (simp add: filter_id_conv)
    then show ?thesis using False by (intro exI [of _ 0]) simp
  qed
qed simp

lemma retain_bytes_drop:
  assumes "xs \<noteq> []"
  shows "\<exists>k < length xs. retain_bytes limit (sum_list (map Segment_Size xs)) xs = drop k xs \<and>
           (sum_list (map Segment_Size (drop k xs)) \<le> limit \<or> length (drop k xs) = 1)"
  using assms
proof (induction xs)
  case (Cons s ss)
  show ?case
  proof (cases "ss = [] \<or> sum_list (map Segment_Size (s # ss)) \<le> limit")
    case True
    then show ?thesis by (intro exI [of _ 0]) (cases ss, auto)
  next
    case False
    then obtain t ts where ts: "ss = t # ts" by (cases ss) auto
    then have "retain_bytes limit (sum_list (map Segment_Size (s # ss))) (s # ss)
        = retain_bytes limit (sum_list (map Segment_Size ss)) ss"
      using False by simp
    moreover obtain k where "k < length ss" "retain_bytes limit (sum_list (map Segment_Size ss)) ss = drop k ss"
      "sum_list (map Segment_Size (drop k ss)) \<le> limit \<or> length (drop k ss) = 1"
      using Cons.IH ts by auto
    ultimately show ?thesis by (intro exI [of _ "Suc k"]) simp
  qed
qed simp

lemma runRetention_ok:
  assumes inv: "log_inv l" and order: "created_in_order l"
  shows "suffix_log l (runRetention l now)"
    and "0 < RetentionBytes (l_config l) \<Longrightarrow>
         totalSizeLocked (runRetention l now) \<le> RetentionBytes (l_config l) \<or> NumSegments (runRetention l now) = 1"
proof -
  let ?xs = "l_segments l" and ?cfg = "l_config l"
  let ?kept = "filter (\<lambda>s. \<not> expired ?cfg now s) (butlast ?xs) @ [last ?xs]"
  let ?l = "l\<lparr>l_segments := ?kept\<rparr>"
  have ne: "?xs \<noteq> []" by (rule log_nonempty [OF inv])
  have srt: "sorted (map CreatedAt (butlast ?xs))"
    using order unfolding created_in_order_def butlast_conv_take by (simp add: sorted_wrt_take flip: take_map)
  have "\<forall>s \<in> set (butlast ?xs). 0 < CreatedAt s" using order by (auto simp: created_in_order_def dest: in_set_butlastD)
  then obtain k where k: "k \<le> length (butlast ?xs)" "filter (\<lambda>s. \<not> expired ?cfg now s) (butlast ?xs) = drop k (butlast ?xs)"
    using filter_expired_drop [OF srt] by blast
  have "drop k ?xs = drop k (butlast ?xs @ [last ?xs])" using ne by simp
  then have kept: "?kept = drop k ?xs" using k by simp
  have k': "k < length ?xs"
    using k(1) ne unfolding length_butlast by (metis diff_Suc_1 le_imp_less_Suc length_Suc_conv list.exhaust)
  have s1: "suffix_log l ?l" using drop_segments_suffix [OF inv k'] kept by simp
  have inv1: "log_inv ?l" using s1 by (simp add: suffix_log_def)
  obtain j where j: "j < length ?kept" "retain_bytes (RetentionBytes ?cfg) (totalSizeLocked ?l) ?kept = drop j ?kept"
    "sum_list (map Segment_Size (drop j ?kept)) \<le> RetentionBytes ?cfg \<or> length (drop j ?kept) = 1"
    using retain_bytes_drop [of ?kept "RetentionBytes ?cfg"] by (auto simp: totalSizeLocked_def)
  have s2: "suffix_log ?l (?l\<lparr>l_segments := drop j ?kept\<rparr>)"
    using drop_segments_suffix [OF inv1, of j] j(1) by simp
  have run: "runRetention l now =
      (if length ?xs \<le> 1 then l else if 0 < RetentionBytes ?cfg then ?l\<lparr>l_segments := drop j ?kept\<rparr> else ?l)"
    using inv j(2) by (simp add: runRetention_def log_inv_def Let_def)
  show "suffix_log l (runRetention l now)"
    using run s1 suffix_log_trans [OF s1 s2] suffix_log_refl [OF inv] by simp
  show "totalSizeLocked (runRetention l now) \<le> RetentionBytes ?cfg \<or> NumSegments (runRetention l now) = 1"
    if "0 < RetentionBytes ?cfg"
  proof (cases "length ?xs \<le> 1")
    case True
    then show ?thesis using run ne by (cases ?xs) (simp_all add: NumSegments_def)
  next
    case False
    then show ?thesis using run that j(3) by (simp add: NumSegments_def totalSizeLocked_def)
  qed
qed

lemma runFlush_ok:
  assumes "log_inv l"
  shows "log_inv (runFlush l now) \<and> log_recs (runFlush l now) = log_recs l \<and>
         LowestOffset (runFlush l now) = LowestOffset l"
proof -
  obtain s where "FlushWriter (active l) = Inr s" "log_inv (set_active l s)" "same_log l (set_active l s)"
    "log_recs (set_active l s) = log_recs l"
    using flush_active [OF assms] by blast
  then show ?thesis using assms by (simp add: runFlush_def Segment_Flush_eq same_log_def)
qed

section \<open>Properties\<close>





end
