(* ===== verification/LogRecover.thy ===== *)
theory LogRecover
  imports LogMaint LogRead
begin

text \<open>
  Restart of a partition log: what \<open>NewLog\<close> of \<^verbatim>\<open>internal/storage/log.go\<close> makes of the directory that a
  running log leaves behind when it is closed or when the process dies.

  \<open>log_step\<close> is one operation of a running log; \<open>log_conf\<close> is what all of them keep of the
  configuration, in addition to \<open>log_inv\<close>. \<open>dir_of\<close> is the directory with the files of a list of
  segments. A crash loses the write buffer and may cut the file of the active segment anywhere; the
  files of sealed segments have been synced.
\<close>

section \<open>Configuration of the segments\<close>

definition idx_max :: "Config \<Rightarrow> nat" where
  "idx_max c = nat (IndexMaxBytes c) - nat (IndexMaxBytes c) mod entrySize"

definition made_for :: "Config \<Rightarrow> Segment \<Rightarrow> bool" where
  "made_for c s \<longleftrightarrow> indexInterval s = IndexIntervalBytes c \<and> i_maxSize (s_index s) \<le> idx_max c"

text \<open>Behind its entries the index file of a sealed segment has at most zero entries.\<close>

definition zero_tail :: "Index \<Rightarrow> bool" where
  "zero_tail i \<longleftrightarrow> (\<exists>z. drop (i_size i) (i_file i) = replicate z 0 \<and> z mod entrySize = 0)"

definition log_conf :: "Log \<Rightarrow> bool" where
  "log_conf l \<longleftrightarrow>
     (\<forall>s \<in> set (l_segments l). made_for (l_config l) s) \<and>
     (\<forall>s \<in> set (butlast (l_segments l)). zero_tail (s_index s))"

lemma made_for_same: "made_for c s \<Longrightarrow> same_conf s s' \<Longrightarrow> made_for c s'"
  by (simp add: made_for_def same_conf_def)

lemma set_active_conf:
  assumes "log_conf l" and "l_segments l \<noteq> []" and "made_for (l_config l) s"
  shows "log_conf (set_active l s)"
  using assms by (auto simp: log_conf_def set_active_def dest: in_set_butlastD)

lemma log_conf_counters [simp]:
  "log_conf (l\<lparr>messagesSinceFlush := n\<rparr>) = log_conf l" "log_conf (l\<lparr>lastFlush := n\<rparr>) = log_conf l"
  "log_conf (l\<lparr>activeCreatedAt := n\<rparr>) = log_conf l"
  by (simp_all add: log_conf_def)

lemma log_conf_active: "log_conf l \<Longrightarrow> l_segments l \<noteq> [] \<Longrightarrow> made_for (l_config l) (active l)"
  by (simp add: log_conf_def)

lemma Segment_Append_conf: "same_conf s (fst (Segment_Append s rec))"
  by (auto simp: Segment_Append_def same_conf_def Let_def dest: Index_Append_maxSize split: sum.split)

lemma FlushWriter_conf: "FlushWriter s = Inr s' \<Longrightarrow> same_conf s s'"
  by (auto simp: FlushWriter_def same_conf_def split: if_split_asm)

lemma NewSegment_conf:
  "NewSegment data mt idx base c now = Inr s \<Longrightarrow> withDefaults c = c \<Longrightarrow> made_for c s"
  by (auto simp: NewSegment_def made_for_def idx_max_def Let_def dest: NewIndex_Inr split: sum.split_asm)

lemma Index_Seal_conf:
  assumes "index_inv i"
  shows "\<exists>ix. Index_Seal i = Inr ix \<and> i_maxSize ix \<le> i_maxSize i \<and> zero_tail ix"
proof -
  have "drop (i_size i) (file_Truncate (i_size i) (i_file i)) = replicate 0 0" by simp
  then have z: "zero_tail (i\<lparr>i_file := file_Truncate (i_size i) (i_file i), i_mmap := m, i_maxSize := k\<rparr>)" for m k
    unfolding zero_tail_def by (intro exI [where x = 0]) simp
  show ?thesis
    using assms z [where m = None and k = 0] z [where m = "Some (i_size i)" and k = "i_size i"]
    by (cases "i_size i = 0") (simp_all add: Index_Seal_def unmapLocked_def index_inv_def Let_def)
qed

lemma rotateLocked_conf:
  assumes "log_conf l" and "l_segments l \<noteq> []" and "withDefaults (l_config l) = l_config l"
    and "index_inv (s_index (active l))"
  shows "log_conf (fst (rotateLocked l now))"
proof (cases "FlushWriter (active l)")
  case (Inr s)
  have s: "made_for (l_config l) s" "s_index s = s_index (active l)"
    using made_for_same [OF log_conf_active FlushWriter_conf] assms Inr
    by (auto simp: FlushWriter_def split: if_split_asm)
  obtain ix where ix: "Index_Seal (s_index s) = Inr ix" "i_maxSize ix \<le> i_maxSize (s_index s)" "zero_tail ix"
    using Index_Seal_conf assms(4) s(2) by metis
  let ?l = "set_active l (s\<lparr>s_index := ix\<rparr>)"
  have m: "made_for (l_config l) (s\<lparr>s_index := ix\<rparr>)" using s ix(2) by (simp add: made_for_def)
  have l: "log_conf ?l" using set_active_conf [OF assms(1,2) m] .
  then show ?thesis
    using Inr ix(1,3) NewSegment_conf [OF _ assms(3)] assms(1)
    by (auto simp: rotateLocked_def Segment_Flush_eq log_conf_def set_active_def butlast_append Let_def split: sum.split dest: in_set_butlastD)
qed (simp add: rotateLocked_def Segment_Flush_eq assms(1))

lemma autoFlush_conf:
  assumes "log_conf l" and "l_segments l \<noteq> []"
  shows "log_conf (autoFlush l)"
proof -
  let ?l = "l\<lparr>messagesSinceFlush := messagesSinceFlush l + 1\<rparr>"
  have "log_conf (set_active ?l s)" if "FlushWriter (active l) = Inr s" for s
    using assms log_conf_active made_for_same FlushWriter_conf [OF that] by (intro set_active_conf) auto
  then show ?thesis
    using assms by (auto simp: autoFlush_def Segment_Flush_eq Let_def split: sum.split)
qed

lemma append_one_conf:
  assumes inv: "log_inv l" and conf: "log_conf l"
  shows "log_conf (fst (append_one l rec now))"
proof -
  obtain l1 where l1: "maybeRotateLocked l now = (l1, None)" "log_inv l1"
    using maybeRotateLocked_ok [OF inv] by blast
  have "log_conf (fst (rotateLocked l now))"
    using inv active_inv [OF inv] by (intro rotateLocked_conf [OF conf])
      (auto simp: log_inv_def config_ok_def segments_ok_def seg_inv_def acct_inv_def)
  then have c1: "log_conf l1"
    using l1(1) conf by (auto simp: maybeRotateLocked_def split: if_split_asm)
  obtain s r where s: "Segment_Append (active l1) rec = (s, r)" by force
  have "made_for (l_config l1) s"
    using made_for_same [OF log_conf_active [OF c1 log_nonempty [OF l1(2)]]] Segment_Append_conf [of "active l1" rec] s
    by simp
  then have "log_conf (set_active l1 s)" by (rule set_active_conf [OF c1 log_nonempty [OF l1(2)]])
  then show ?thesis using l1(1) s
    by (auto simp: append_one_def set_active_def intro!: autoFlush_conf split: sum.split)
qed

section \<open>A running log\<close>

definition runs :: "Log \<Rightarrow> bool" where
  "runs l \<longleftrightarrow> log_inv l \<and> log_conf l"

lemma append_one_runs:
  assumes "runs l" and "typed_record rec" and "HighestOffset l < 2 ^ 63 - 1"
  shows "runs (fst (append_one l rec now))" and "HighestOffset (fst (append_one l rec now)) \<le> HighestOffset l + 1"
proof -
  have inv: "log_inv l" and conf: "log_conf (fst (append_one l rec now))"
    using assms(1) append_one_conf by (simp_all add: runs_def)
  show "runs (fst (append_one l rec now))" and "HighestOffset (fst (append_one l rec now)) \<le> HighestOffset l + 1"
    using conf append_one_ok [OF inv assms(2,3), of now] append_one_too_large [OF inv, of rec now]
      HighestOffset_append [OF inv] HighestOffset_eq [OF inv]
    by (cases "EncodedSize rec \<le> MaxRecordSize"; fastforce simp: runs_def HighestOffset_eq same_log_def)+
qed

lemma batch_loop_runs:
  assumes "runs l" and "\<forall>r \<in> set recs. typed_record r" and "HighestOffset l + int (length recs) < 2 ^ 63"
  shows "runs (fst (batch_loop first base l recs now))"
  using assms
proof (induction recs arbitrary: first base l)
  case (Cons r recs)
  obtain l' res where ap: "append_one l r now = (l', res)" by force
  have "runs l'" "HighestOffset l' \<le> HighestOffset l + 1"
    using append_one_runs [OF Cons.prems(1), of r now] Cons.prems(2,3) ap by auto
  then show ?case using ap Cons by (cases res) auto
qed simp

lemma flush_if_active_runs:
  assumes "runs l" and "i < length (l_segments l)" and "flush_if_active l i = Inr l'"
  shows "runs l'"
proof -
  have ne: "l_segments l \<noteq> []" using assms(2) by auto
  have "log_conf l'"
    using assms(1,3) set_active_conf [OF _ ne] made_for_same [OF log_conf_active [OF _ ne] FlushWriter_conf]
    by (auto simp: flush_if_active_def runs_def split: if_split_asm sum.split_asm)
  then show ?thesis using flush_if_active_ok [of l i] assms by (auto simp: runs_def)
qed

lemma readSegments_runs: "runs l \<Longrightarrow> runs (fst (readSegments l i off mx out acc))"
proof (induction l i off mx out acc rule: readSegments.induct)
  case (1 l i off mx out acc)
  show ?case
  proof (cases "length (l_segments l) \<le> i")
    case True
    then show ?thesis using "1.prems" by (simp add: readSegments.simps [of l i])
  next
    case False
    then have "runs l'" if "flush_if_active l i = Inr l'" for l'
      using flush_if_active_runs [OF "1.prems" _ that] by simp
    with "1.IH" show ?thesis using False "1.prems"
      by (subst readSegments.simps) (auto simp: Let_def split: sum.split prod.split option.split)
  qed
qed

lemma log_conf_sub:
  assumes "log_conf l" and "set xs \<subseteq> set (l_segments l)" and "set (butlast xs) \<subseteq> set (butlast (l_segments l))"
  shows "log_conf (l\<lparr>l_segments := xs\<rparr>)"
  using assms by (auto simp: log_conf_def)

lemma butlast_filter: "set (butlast (filter P xs)) \<subseteq> set (butlast xs)"
proof (cases xs rule: rev_cases)
  case (snoc ys y)
  then show ?thesis by (auto dest: in_set_butlastD)
qed simp

lemma butlast_drop: "set (butlast (drop k xs)) \<subseteq> set (butlast xs)"
  by (metis drop_butlast set_drop_subset)

lemma Log_Truncate_runs:
  assumes "runs l" and "0 \<le> off" and "off < 2 ^ 63"
  shows "runs (fst (Log_Truncate l off now))"
proof -
  let ?xs = "filter (\<lambda>s. \<not> off \<le> BaseOffset s) (l_segments l)"
  let ?l = "l\<lparr>l_segments := ?xs\<rparr>"
  have inv: "log_inv l" and conf: "log_conf l" using assms(1) by (simp_all add: runs_def)
  have cl: "\<not> l_closed l" and ne: "l_segments l \<noteq> []" and ok: "segments_ok (l_segments l)"
    and cfg: "withDefaults (l_config l) = l_config l"
    using inv log_nonempty [OF inv] by (simp_all add: log_inv_def config_ok_def)
  have inv': "log_inv (fst (Log_Truncate l off now))" using Log_Truncate_ok [OF inv assms(2,3), of now] by auto
  have conf': "log_conf ?l" using conf butlast_filter [of _ "l_segments l"] by (auto simp: log_conf_def)
  have "log_conf (fst (Log_Truncate l off now))"
  proof (cases "?xs = []")
    case True
    then show ?thesis
      using cl ne conf' NewSegment_conf [OF _ cfg] by (auto simp: Log_Truncate_def log_conf_def Let_def split: sum.split)
  next
    case False
    then have "last ?xs \<in> set ?xs" by (rule last_in_set)
    then have b: "BaseOffset (last ?xs) < off" "last ?xs \<in> set (l_segments l)" by auto
    then have "seg_inv (view (last ?xs))" using segments_nth(1) [OF ok] by (metis in_set_conv_nth)
    then obtain s where s: "rebuildSegment (last ?xs) off = (s, None)" "same_conf (last ?xs) s"
      using rebuild_at b(1) by blast
    have "made_for (l_config ?l) s"
      using made_for_same [OF _ s(2)] log_conf_active [OF conf'] False by simp
    then have "log_conf (set_active ?l s)" using set_active_conf [OF conf'] False by simp
    then show ?thesis using cl ne False s(1) by (simp add: Log_Truncate_def)
  qed
  then show ?thesis using inv' by (simp add: runs_def)
qed

lemma retentionTick_runs:
  assumes "runs l" and "created_in_order l"
  shows "runs (retentionTick l now)"
proof -
  have inv: "log_inv l" and conf: "log_conf l" using assms(1) by (simp_all add: runs_def)
  let ?r = "runRetention l now"
  have inv': "log_inv ?r" using runRetention_ok(1) [OF inv assms(2)] by (simp add: suffix_log_def)
  have sub: "set (butlast (retain_bytes m n xs)) \<subseteq> set (butlast xs) \<and> set (retain_bytes m n xs) \<subseteq> set xs" for m n xs
    by (induction m n xs rule: retain_bytes.induct) auto
  let ?kept = "filter (\<lambda>s. \<not> expired (l_config l) now s) (butlast (l_segments l)) @ [active l]"
  have k: "log_conf (l\<lparr>l_segments := ?kept\<rparr>)"
    using log_nonempty [OF inv] by (intro log_conf_sub [OF conf]) (auto dest: in_set_butlastD)
  have "log_conf (l\<lparr>l_segments := retain_bytes m n ?kept\<rparr>)" for m n
    using log_conf_sub [OF k, of "retain_bytes m n ?kept"] sub [of m n ?kept] by simp
  then have "log_conf ?r" using conf k by (simp add: runRetention_def Let_def)
  moreover have "log_conf (runFlush ?r now)"
  proof -
    have "log_conf (set_active ?r s)" if "FlushWriter (active ?r) = Inr s" for s
      using \<open>log_conf ?r\<close> log_nonempty [OF inv'] log_conf_active made_for_same FlushWriter_conf [OF that]
      by (intro set_active_conf) auto
    then show ?thesis using \<open>log_conf ?r\<close> by (auto simp: runFlush_def Segment_Flush_eq split: sum.split)
  qed
  ultimately show ?thesis using runFlush_ok [OF inv'] by (simp add: retentionTick_def runs_def)
qed

section \<open>The directory of a log\<close>

definition seg_files :: "(int \<Rightarrow> int) \<Rightarrow> Segment \<Rightarrow> dirent list" where
  "seg_files mtime s =
     [\<lparr>de_name = sprintf_020d (BaseOffset s) @ ''.index'', de_isdir = False, de_data = i_file (s_index s),
       de_mtime = mtime (BaseOffset s)\<rparr>,
      \<lparr>de_name = sprintf_020d (BaseOffset s) @ ''.log'', de_isdir = False, de_data = fdata (wfile (writer s)),
       de_mtime = mtime (BaseOffset s)\<rparr>]"

definition dir_of :: "(int \<Rightarrow> int) \<Rightarrow> Segment list \<Rightarrow> dirent list" where
  "dir_of mtime ss = concat (map (seg_files mtime) ss)"

definition base_ok :: "Segment \<Rightarrow> bool" where
  "base_ok s \<longleftrightarrow> 0 \<le> BaseOffset s \<and> BaseOffset s < 2 ^ 63"

lemma base_ok_s64: "base_ok s \<Longrightarrow> 0 \<le> BaseOffset s \<and> in_s 64 (BaseOffset s)"
  by (simp add: base_ok_def in_s_def)

lemma base_of_files:
  assumes "base_ok s"
  shows "List.map_filter base_of_name (seg_files mtime s) = [BaseOffset s]"
proof -
  let ?n = "sprintf_020d (BaseOffset s)"
  have n: "length ?n = 20" "ParseInt ?n = Some (BaseOffset s)"
    using base_ok_s64 [OF assms] length_sprintf_020d ParseInt_sprintf_020d by auto
  have "\<not> HasSuffix (?n @ ''.index'') ''.log''" "HasSuffix (?n @ ''.log'') ''.log''"
    using n(1) by (simp_all add: HasSuffix_def)
  then show ?thesis
    using n base_ok_s64 [OF assms] by (simp add: seg_files_def base_of_name_def List.map_filter_simps Let_def)
qed

lemma scan_dir_of:
  assumes "\<forall>s \<in> set ss. base_ok s" and "sorted_wrt (<) (map BaseOffset ss)"
  shows "scanBaseOffsets (dir_of mtime ss) = map BaseOffset ss"
proof -
  have "List.map_filter base_of_name (dir_of mtime ss) = map BaseOffset ss"
    using assms(1) base_of_files
    by (induction ss) (simp_all add: dir_of_def List.map_filter_def)
  then show ?thesis
    using assms(2) by (simp add: scanBaseOffsets_def sorted_sort_id strict_sorted_imp_sorted)
qed

lemma sprintf_020d_inj: "base_ok s \<Longrightarrow> base_ok t \<Longrightarrow> sprintf_020d (BaseOffset s) = sprintf_020d (BaseOffset t) \<Longrightarrow>
    BaseOffset s = BaseOffset t"
  by (metis base_ok_s64 ParseInt_sprintf_020d option.inject)

lemma find_dir_of:
  assumes "\<forall>s \<in> set ss. base_ok s" and "distinct (map BaseOffset ss)" and "s \<in> set ss"
  shows "find_file (dir_of mtime ss) (sprintf_020d (BaseOffset s) @ ''.log'') =
           (fdata (wfile (writer s)), mtime (BaseOffset s)) \<and>
         find_file (dir_of mtime ss) (sprintf_020d (BaseOffset s) @ ''.index'') =
           (i_file (s_index s), mtime (BaseOffset s))"
  using assms
proof (induction ss)
  case (Cons t ss)
  let ?s = "sprintf_020d (BaseOffset s)" and ?t = "sprintf_020d (BaseOffset t)"
  have b: "base_ok s" "base_ok t" using Cons.prems by auto
  have len: "length ?s = 20" "length ?t = 20" using b base_ok_s64 length_sprintf_020d by auto
  have ext: "?s @ ''.log'' \<noteq> ?t @ ''.index''" "?s @ ''.index'' \<noteq> ?t @ ''.log''" using len by auto
  have dir: "dir_of mtime (t # ss) = seg_files mtime t @ dir_of mtime ss" by (simp add: dir_of_def)
  show ?case
  proof (cases "s = t")
    case True
    then show ?thesis using ext by (auto simp: dir find_file_def seg_files_def)
  next
    case False
    then have "s \<in> set ss" using Cons.prems(3) by simp
    moreover from this have "BaseOffset s \<noteq> BaseOffset t" using Cons.prems(2) by (simp, metis image_eqI)
    then have "?s \<noteq> ?t" using sprintf_020d_inj [OF b] by blast
    ultimately show ?thesis using Cons ext by (simp add: dir find_file_def seg_files_def eq_commute [of ?t])
  qed
qed simp

section \<open>Reopening\<close>

subsection \<open>A sealed segment\<close>

text \<open>What a segment leaves in its two files: all its records, and its index entries before zeros.\<close>

definition leaves :: "Segment \<Rightarrow> Segment \<Rightarrow> bool" where
  "leaves s x \<longleftrightarrow>
     BaseOffset x = BaseOffset s \<and> fdata (wfile (writer x)) = encs (seg_recs s) \<and>
     (\<exists>z. i_file (s_index x) = take (i_size (s_index s)) (i_file (s_index s)) @ replicate z 0 \<and> z mod entrySize = 0)"

definition reopened :: "Config \<Rightarrow> Segment \<Rightarrow> Segment \<Rightarrow> bool" where
  "reopened c s s' \<longleftrightarrow>
     sealed s' \<and> seg_recs s' = seg_recs s \<and> BaseOffset s' = BaseOffset s \<and> segment_conf s' \<and>
     made_for c s' \<and> zero_tail (s_index s')"

lemma sparse_last: "sparse rs es \<Longrightarrow> 1 < length es \<Longrightarrow> last es \<noteq> (0, 0)"
proof -
  assume "sparse rs es" and len: "1 < length es"
  then obtain ks where ks: "es = indexed rs ks" "sorted_wrt (<) ks" unfolding sparse_def' by blast
  then have l: "1 < length ks" using len by (simp add: indexed_def)
  then have "ks ! 0 < ks ! (length ks - 1)" using ks(2) by (simp add: sorted_wrt_nth_less)
  then have "last ks \<noteq> 0" using l by (cases ks rule: rev_cases) auto
  then show ?thesis using l ks(1) by (cases ks rule: rev_cases) (auto simp: indexed_def)
qed

lemma config_ok_idx_max: "config_ok c \<Longrightarrow> entrySize \<le> nat (IndexMaxBytes c)"
  by (simp add: config_ok_def entrySize_def le_nat_iff)

lemma NewSegment_ok:
  assumes "config_ok c" and "NewIndex idx (IndexMaxBytes c) = Inr ix"
  shows "NewSegment data mt idx base c now = Inr \<lparr>BaseOffset = base, NextOffset = base,
           writer = \<lparr>wfile = \<lparr>fdata = data, fpos = length data\<rparr>, wbuf = []\<rparr>, s_index = ix,
           s_maxBytes = SegmentBytes c, indexInterval = IndexIntervalBytes c, bytesWritten = int (length data),
           bytesSinceLastIndex = 0, CreatedAt = (if 0 < length data then mt else now), s_closed = False\<rparr>"
  using assms by (simp add: NewSegment_def config_ok_def Let_def)

lemma reopen_index:
  assumes inv: "index_inv i" and sp: "sparse rs (index_entries i)" and ne: "rs \<noteq> []"
    and c: "config_ok c" "i_maxSize i \<le> idx_max c"
    and content: "content = take (i_size i) (i_file i) @ replicate z 0" "z mod entrySize = 0"
  shows "\<exists>ix. NewIndex content (IndexMaxBytes c) = Inr ix \<and> index_inv ix \<and> i_maxSize ix = idx_max c \<and>
           i_maxSize ix \<noteq> 0 \<and> index_entries ix = index_entries i \<and> zero_tail ix"
proof -
  obtain ix where ix: "NewIndex content (IndexMaxBytes c) = Inr ix"
    using NewIndex_ok [OF config_ok_idx_max [OF c(1)]] by blast
  note f = NewIndex_Inr [OF ix, folded idx_max_def]
  have sz: "i_size i \<le> i_maxSize i" "i_size i \<le> length (i_file i)" "i_size i mod entrySize = 0"
    using inv by (auto simp: index_inv_def)
  have max: "i_maxSize ix = idx_max c" using f(1) by simp
  have es: "index_entries ix = index_entries i"
    using NewIndex_recovers [OF inv refl _ _ content ix] sparse_last [OF sp] sparse_empty_iff [OF sp] ne sz c(2) max
    by auto
  have ixi: "index_inv ix" by (rule NewIndex_inv [OF ix])
  have "Index_Entries ix = Index_Entries i" using es by (metis length_index_entries)
  then have size: "i_size ix = i_size i"
    using ixi inv by (auto simp: index_inv_def Index_Entries_def entrySize_def)
  have "i_file ix = take (i_size i) (i_file i) @ replicate (idx_max c - i_size i) 0"
    using f(1) sz c(2) by (simp add: content file_Truncate_zeros)
  then have "drop (i_size ix) (i_file ix) = replicate (idx_max c - i_size i) 0" using size sz(2) by simp
  moreover have "(idx_max c - i_size i) mod entrySize = 0"
    using f(2) sz(3) by (simp add: mod_eq_0_iff_dvd)
  ultimately have "zero_tail ix" by (auto simp: zero_tail_def)
  then show ?thesis using ix ixi max es f(3) by (auto simp: entrySize_def)
qed

lemma reopen_sealed:
  assumes s: "sealed s" and c: "config_ok c" and m: "made_for c s" and left: "leaves s x"
  shows "\<exists>s'. NewSegment (fdata (wfile (writer x))) mt (i_file (s_index x)) (BaseOffset x) c now = Inr s' \<and> reopened c s s'"
proof -
  let ?rs = "seg_recs s"
  have a: "acct_inv (view s) ?rs" and ne: "?rs \<noteq> []" using s by (simp_all add: sealed_def seg_inv_def)
  have v: "indexInterval (view s) = IndexIntervalBytes c" "s_index (view s) = s_index s"
    using m by (simp_all add: view_def made_for_def)
  have i: "index_inv (s_index s)" "sparse ?rs (index_entries (s_index s))" and wf: "\<forall>r \<in> set ?rs. wf_record r"
    using a unfolding acct_inv_def v by blast+
  obtain z where z: "i_file (s_index x) = take (i_size (s_index s)) (i_file (s_index s)) @ replicate z 0" "z mod entrySize = 0"
    using left by (auto simp: leaves_def)
  obtain ix where ix: "NewIndex (i_file (s_index x)) (IndexMaxBytes c) = Inr ix" "index_inv ix" "i_maxSize ix = idx_max c"
    "i_maxSize ix \<noteq> 0" "index_entries ix = index_entries (s_index s)" "zero_tail ix"
    using reopen_index [OF i ne c _ z] m by (auto simp: made_for_def)
  note new = NewSegment_ok [OF c ix(1), of "encs ?rs" mt "BaseOffset s" now]
  obtain s' where s': "NewSegment (encs ?rs) mt (i_file (s_index x)) (BaseOffset s) c now = Inr s'"
    "writer s' = \<lparr>wfile = \<lparr>fdata = encs ?rs, fpos = length (encs ?rs)\<rparr>, wbuf = []\<rparr>" "s_index s' = ix"
    "BaseOffset s' = BaseOffset s" "NextOffset s' = BaseOffset s" "s_maxBytes s' = SegmentBytes c"
    "indexInterval s' = IndexIntervalBytes c" "bytesWritten s' = int (length (encs ?rs))" "\<not> s_closed s'"
    using new by simp
  have recs: "seg_recs s' = ?rs" unfolding seg_recs_def [of s'] s'(2) written_def by (simp add: decode_all_encs [OF wf])
  have ids: "idx_of (indexInterval (view s)) ?rs =
      (length ?rs, bytesWritten (view s), index_entries (s_index (view s)), bytesSinceLastIndex (view s))"
    and a1: "bytesWritten (view s) = int (length (encs ?rs))" "0 \<le> BaseOffset (view s)"
      "NextOffset (view s) = BaseOffset (view s) + int (length ?rs)" "NextOffset (view s) < 2 ^ 63"
    and a2: "contiguous (BaseOffset (view s)) ?rs" "length (encs (butlast ?rs)) < 2 ^ 32"
    using a ne unfolding acct_inv_def by blast+
  then obtain d where d: "idx_of (IndexIntervalBytes c) ?rs =
      (length ?rs, int (length (encs ?rs)), index_entries (s_index s), d)"
    unfolding v a1(1) by blast
  have "acct_inv (view s') ?rs"
    using a1 a2 wf i(2) ix unfolding acct_inv_def by (simp add: view_def recs seg_end_def s' d)
  then have "seg_inv (view s')" by (rule seg_invI) (simp_all add: view_def s' written_def at_end_def)
  then have "sealed s'" using recs ne by (simp add: sealed_def flushed_def s')
  moreover have "segment_conf s'" using c withDefaults_pos(1) [of c] by (simp add: s' segment_conf_def config_ok_def)
  ultimately have "reopened c s s'"
    using recs ix(3,6) by (simp add: reopened_def made_for_def s')
  moreover have "fdata (wfile (writer x)) = encs ?rs" "BaseOffset x = BaseOffset s"
    using left by (simp_all add: leaves_def)
  ultimately show ?thesis using s'(1) by auto
qed

lemma sealed_run_reopened:
  "sealed_run b ss \<Longrightarrow> list_all2 (reopened c) ss ss' \<Longrightarrow>
   sealed_run b ss' \<and> recs_of ss' = recs_of ss \<and> map BaseOffset ss' = map BaseOffset ss"
proof (induction ss arbitrary: b ss')
  case (Cons s ss)
  then obtain s' ts where "ss' = s' # ts" "reopened c s s'" "list_all2 (reopened c) ss ts"
    by (auto simp: list_all2_Cons1)
  then show ?case using Cons by (auto simp: reopened_def seg_end_def)
qed simp

subsection \<open>The active segment\<close>

text \<open>A prefix of the file of a run of records ends with at most one torn record.\<close>

lemma torn_prefix:
  assumes "\<forall>r \<in> set rs. wf_record r"
  shows "\<exists>k junk e. take n (encs rs) = encs (take k rs) @ junk \<and> DecodeRecord junk = Inl e \<and> k \<le> length rs \<and>
           (\<forall>j \<le> length rs. length (encs (take j rs)) \<le> n \<longrightarrow> j \<le> k)"
  using assms
proof (induction rs arbitrary: n)
  case Nil
  show ?case by (intro exI [where x = 0] exI [where x = "[]"]) simp
next
  case (Cons r rs)
  have wf: "wf_record r" "\<forall>r \<in> set rs. wf_record r" using Cons.prems by simp_all
  show ?case
  proof (cases "EncodedSize r \<le> n")
    case True
    obtain k junk e where k: "take (n - EncodedSize r) (encs rs) = encs (take k rs) @ junk" "DecodeRecord junk = Inl e"
      "k \<le> length rs" "\<forall>j \<le> length rs. length (encs (take j rs)) \<le> n - EncodedSize r \<longrightarrow> j \<le> k"
      using Cons.IH [OF wf(2), of "n - EncodedSize r"] by blast
    have "j \<le> Suc k" if "j \<le> length (r # rs)" "length (encs (take j (r # rs))) \<le> n" for j
      using that k(4) by (cases j) auto
    moreover have "take n (encs (r # rs)) = encs (take (Suc k) (r # rs)) @ junk" using True k(1) by simp
    ultimately show ?thesis using k(2,3)
      by (intro exI [where x = "Suc k"] exI [where x = junk] exI [where x = e]) (simp del: take_Suc_Cons encs_simps)
  next
    case False
    have "\<exists>e. DecodeRecord (take n (enc r)) = Inl e"
      using DecodeRecord_torn [OF wf(1), of n] False by (cases "n = 0") auto
    then obtain e where e: "DecodeRecord (take n (enc r)) = Inl e" ..
    have "j = 0" if "length (encs (take j (r # rs))) \<le> n" for j
      using that False by (cases j) auto
    then show ?thesis using False e
      by (intro exI [where x = 0] exI [where x = "take n (enc r)"] exI [where x = e]) auto
  qed
qed

lemma reopen_active:
  assumes a: "seg_inv a" and c: "config_ok c" and m: "made_for c a"
    and left: "fdata (wfile (writer x)) = encs (take k (seg_recs a)) @ junk" "DecodeRecord junk = Inl e"
      "BaseOffset x = BaseOffset a"
  shows "\<exists>s s'. NewSegment (fdata (wfile (writer x))) mt (i_file (s_index x)) (BaseOffset x) c now = Inr s \<and>
           BaseOffset s = BaseOffset a \<and>
           rebuildSegment s (-1) = (s', None) \<and> seg_inv s' \<and> seg_recs s' = take k (seg_recs a) \<and>
           BaseOffset s' = BaseOffset a \<and> segment_conf s' \<and> made_for c s'"
proof -
  let ?rs = "take k (seg_recs a)" and ?d = "fdata (wfile (writer x))"
  have acct: "acct_inv a (seg_recs a)" using a by (simp add: seg_inv_def)
  obtain ix where ix: "NewIndex (i_file (s_index x)) (IndexMaxBytes c) = Inr ix"
    using NewIndex_ok [OF config_ok_idx_max [OF c]] by blast
  note f = NewIndex_Inr [OF ix, folded idx_max_def]
  have max: "i_maxSize ix = idx_max c" using f(1) by simp
  note new = NewSegment_ok [OF c ix, of ?d mt "BaseOffset a" now]
  obtain s where s: "NewSegment ?d mt (i_file (s_index x)) (BaseOffset a) c now = Inr s"
    "writer s = \<lparr>wfile = \<lparr>fdata = ?d, fpos = length ?d\<rparr>, wbuf = []\<rparr>" "s_index s = ix"
    "BaseOffset s = BaseOffset a" "s_maxBytes s = SegmentBytes c" "indexInterval s = IndexIntervalBytes c" "\<not> s_closed s"
    using new by simp
  have rs: "segment_records (BaseOffset s) ?rs"
    using segment_records_take [OF acct_segment_records [OF acct]] s(4) by simp
  have w: "at_end (wfile (writer s))" "written (writer s) = encs ?rs @ junk"
    using left(1) by (simp_all add: s(2) at_end_def written_def)
  have scan: "keeps (-1) ?rs" "scan_stops (-1) junk" using left(2) by (simp_all add: keeps_def scan_stops_def)
  have "length (idx_entries (indexInterval a) ?rs) \<le> Index_Entries (s_index a)"
    using idx_entries_length [of "indexInterval a" ?rs "drop k (seg_recs a)"] acct_entries [OF acct]
    by (metis append_take_drop_id length_index_entries)
  moreover have "entrySize * Index_Entries (s_index a) \<le> i_maxSize (s_index a)"
    using acct by (auto simp: acct_inv_def index_inv_def Index_Entries_def entrySize_def)
  ultimately have cap: "entrySize * length (idx_entries (indexInterval s) ?rs) \<le> i_maxSize (s_index s)"
    using m s(3,6) max by (auto simp: made_for_def intro: order_trans [OF mult_le_mono2])
  obtain s' where s': "rebuildSegment s (-1) = (s', None)" "seg_inv s'" "seg_recs s' = ?rs" "same_conf s s'"
    using rebuildSegment_ok [OF s(7) w rs scan _ _ cap] f(2,3) s(3) max by (auto simp: entrySize_def)
  have "segment_conf s'" "made_for c s'" "BaseOffset s' = BaseOffset a"
    using s'(4) s max c withDefaults_pos(1) [of c] by (simp_all add: same_conf_def segment_conf_def made_for_def config_ok_def)
  then show ?thesis using s s' left(3) by auto
qed

subsection \<open>The log\<close>

definition open_files :: "(int \<Rightarrow> int) \<Rightarrow> Config \<Rightarrow> int \<Rightarrow> Segment \<Rightarrow> Segment result" where
  "open_files mtime c now x =
     NewSegment (fdata (wfile (writer x))) (mtime (BaseOffset x)) (i_file (s_index x)) (BaseOffset x) c now"

lemma open_dir_of:
  assumes "\<forall>x \<in> set xs. base_ok x" and "distinct (map BaseOffset xs)" and "x \<in> set xs"
  shows "openSegment (dir_of mtime xs) (BaseOffset x) c now = open_files mtime c now x"
  using find_dir_of [OF assms, of mtime] by (simp add: openSegment_def open_files_def)

lemma openSegments_all2:
  "list_all2 (\<lambda>b s. openSegment dir b c now = Inr s) bs ss \<Longrightarrow> openSegments dir bs c now = Inr ss"
  by (induction rule: list_all2_induct) simp_all

lemma reopen_all:
  assumes "list_all2 leaves ss xs" and "\<forall>s \<in> set ss. sealed s \<and> made_for c s" and "config_ok c"
  shows "\<exists>ss'. list_all2 (\<lambda>x s'. open_files mtime c now x = Inr s') xs ss' \<and> list_all2 (reopened c) ss ss'"
  using assms(1,2)
proof (induction rule: list_all2_induct)
  case (Cons s ss x xs)
  obtain ss' where "list_all2 (\<lambda>x s'. open_files mtime c now x = Inr s') xs ss'" "list_all2 (reopened c) ss ss'"
    using Cons.IH Cons.prems by auto
  moreover obtain s' where "open_files mtime c now x = Inr s'" "reopened c s s'"
    using reopen_sealed [OF _ assms(3) _ Cons.hyps(1)] Cons.prems unfolding open_files_def by (meson list.set_intros(1))
  ultimately show ?case by (intro exI [where x = "s' # ss'"]) simp
qed simp

lemma sealed_base: "sealed s \<Longrightarrow> base_ok s"
proof -
  assume "sealed s"
  then have "acct_inv (view s) (seg_recs s)" by (simp add: sealed_def seg_inv_def)
  then have "0 \<le> BaseOffset (view s)" "BaseOffset (view s) + int (length (seg_recs s)) < 2 ^ 63"
    unfolding acct_inv_def by linarith+
  then show ?thesis by (simp add: base_ok_def view_def)
qed

lemma sealed_run_set: "sealed_run b ss \<Longrightarrow> s \<in> set ss \<Longrightarrow> sealed s"
  by (induction ss arbitrary: b) auto

lemma NewLog_dir_of:
  assumes "ys \<noteq> []" and "\<forall>y \<in> set ys. base_ok y" and "sorted_wrt (<) (map BaseOffset ys)"
    and "withDefaults c = c" and "list_all2 (\<lambda>y s. open_files mtime c now y = Inr s) ys (ss @ [s])"
    and "map BaseOffset (ss @ [s]) = map BaseOffset ys" and "rebuildSegment s (-1) = (s', None)"
  shows "NewLog (dir_of mtime ys) c now =
    Inr \<lparr>l_config = c, l_segments = ss @ [s'], activeCreatedAt = now, messagesSinceFlush = 0, lastFlush = now, l_closed = False\<rparr>"
proof -
  have d: "distinct (map BaseOffset ys)" using assms(3) by (simp add: strict_sorted_iff)
  have "list_all2 (\<lambda>b s. openSegment (dir_of mtime ys) b c now = Inr s) (map BaseOffset ys) (ss @ [s])"
    using assms(5) open_dir_of [OF assms(2) d] by (auto simp: list_all2_conv_all_nth)
  then have "openSegments (dir_of mtime ys) (map BaseOffset ys) c now = Inr (ss @ [s])" by (rule openSegments_all2)
  moreover have "sorted (map BaseOffset (ss @ [s]))" using assms(3,6) by (simp add: strict_sorted_iff)
  then have "sort_key BaseOffset (ss @ [s]) = ss @ [s]" by (rule sort_key_id_if_sorted)
  ultimately show ?thesis
    using scan_dir_of [OF assms(2,3)] assms(1,4,7) by (simp add: NewLog_def set_active_def Let_def)
qed

lemma NewLog_reopens:
  assumes "runs l" and l: "l_segments l = ss @ [a]" and left: "list_all2 leaves ss xs"
    and x: "BaseOffset x = BaseOffset a" "fdata (wfile (writer x)) = encs (take k (seg_recs a)) @ junk" "DecodeRecord junk = Inl e"
  shows "\<exists>l'. NewLog (dir_of mtime (xs @ [x])) (l_config l) now = Inr l' \<and> runs l' \<and>
           LowestOffset l' = LowestOffset l \<and> log_recs l' = recs_of ss @ take k (seg_recs a)"
proof -
  let ?c = "l_config l" and ?ys = "xs @ [x]"
  have c: "config_ok ?c" "withDefaults ?c = ?c" and ok: "segments_ok (ss @ [a])"
    using assms(1) l by (simp_all add: runs_def log_inv_def config_ok_def)
  have m: "\<forall>s \<in> set (ss @ [a]). made_for ?c s" using assms(1) l by (simp add: runs_def log_conf_def)
  have run: "sealed_run (BaseOffset a - int (length (recs_of ss))) ss" and a: "seg_inv a"
    using ok by (simp_all add: segments_ok_snoc)
  have "map BaseOffset xs = map BaseOffset ss"
    using left by (auto simp: list_all2_conv_all_nth leaves_def intro: nth_equalityI)
  then have bases: "map BaseOffset ?ys = map BaseOffset (ss @ [a])" using x(1) by simp
  have "base_ok a" using a by (simp add: seg_inv_def acct_inv_def base_ok_def)
  then have "\<forall>b \<in> set (map BaseOffset ?ys). 0 \<le> b \<and> b < 2 ^ 63"
    unfolding bases using sealed_base sealed_run_set [OF run] by (auto simp: base_ok_def)
  then have base: "\<forall>y \<in> set ?ys. base_ok y" by (simp add: base_ok_def)
  have sorted: "sorted_wrt (<) (map BaseOffset ?ys)" unfolding bases by (rule segments_sorted [OF ok])
  obtain ss' where ss': "list_all2 (\<lambda>x s'. open_files mtime ?c now x = Inr s') xs ss'" "list_all2 (reopened ?c) ss ss'"
    using reopen_all [OF left _ c(1), of mtime now] m sealed_run_set [OF run] by auto
  obtain s s' where s: "open_files mtime ?c now x = Inr s" "BaseOffset s = BaseOffset a" "rebuildSegment s (-1) = (s', None)"
    "seg_inv s'" "seg_recs s' = take k (seg_recs a)" "BaseOffset s' = BaseOffset a" "segment_conf s'" "made_for ?c s'"
    using reopen_active [OF a c(1) _ x(2,3,1), of "mtime (BaseOffset x)" now] m unfolding open_files_def by auto
  note run' = sealed_run_reopened [OF run ss'(2)]
  let ?l = "\<lparr>l_config = ?c, l_segments = ss' @ [s'], activeCreatedAt = now, messagesSinceFlush = 0, lastFlush = now, l_closed = False\<rparr>"
  have new: "NewLog (dir_of mtime ?ys) ?c now = Inr ?l"
    using ss'(1) s(1) run' s(2) bases by (intro NewLog_dir_of [OF _ base sorted c(2) _ _ s(3)]) (auto intro: list_all2_appendI)
  have re: "\<forall>t \<in> set ss'. reopened ?c t t"
    using ss'(2) by (auto simp: list_all2_conv_all_nth reopened_def in_set_conv_nth)
  then have ok': "segments_ok (ss' @ [s'])"
    using run' s(4,6,7) by (auto simp: segments_ok_snoc reopened_def)
  have "log_inv ?l" using ok' c(1) by (simp add: log_inv_def)
  moreover have "log_conf ?l" using re s(8) by (auto simp: log_conf_def reopened_def)
  moreover have "LowestOffset ?l = LowestOffset l"
    using LowestOffset_eq [OF ok] LowestOffset_eq [OF ok'] run' s(6) by (simp add: LowestOffset_def l)
  ultimately show ?thesis using new run' s(5) by (simp add: runs_def log_recs_def)
qed

section \<open>Crash and close\<close>

text \<open>
  The directory after a crash: the sealed segments as they were synced, and the first \<open>n\<close> bytes of what
  had been written to the active segment.
\<close>

definition survive :: "nat \<Rightarrow> Segment \<Rightarrow> Segment" where
  "survive n a = a\<lparr>writer := \<lparr>wfile = \<lparr>fdata = take n (written (writer a)), fpos = 0\<rparr>, wbuf = []\<rparr>\<rparr>"

definition crash_dir :: "(int \<Rightarrow> int) \<Rightarrow> nat \<Rightarrow> Log \<Rightarrow> dirent list" where
  "crash_dir mtime n l = dir_of mtime (butlast (l_segments l) @ [survive n (active l)])"

lemma crash_recovers:
  assumes "runs l"
  shows "\<exists>l' k. NewLog (crash_dir mtime n l) (l_config l) now = Inr l' \<and> runs l' \<and> LowestOffset l' = LowestOffset l \<and>
    log_recs l' = recs_of (butlast (l_segments l)) @ take k (seg_recs (active l)) \<and> k \<le> length (seg_recs (active l)) \<and>
    (\<forall>j \<le> length (seg_recs (active l)). length (encs (take j (seg_recs (active l)))) \<le> n \<longrightarrow> j \<le> k)"
proof -
  obtain ss a where l: "l_segments l = ss @ [a]" "segments_ok (ss @ [a])"
    using assms unfolding runs_def by (blast elim: log_invE)
  have a: "seg_inv a" "written (writer a) = encs (seg_recs a)" "\<forall>r \<in> set (seg_recs a). wf_record r"
    using l(2) by (auto simp: segments_ok_snoc seg_inv_def acct_inv_def)
  obtain k junk e where k: "take n (encs (seg_recs a)) = encs (take k (seg_recs a)) @ junk" "DecodeRecord junk = Inl e"
    "k \<le> length (seg_recs a)" "\<forall>j \<le> length (seg_recs a). length (encs (take j (seg_recs a))) \<le> n \<longrightarrow> j \<le> k"
    using torn_prefix [OF a(3)] by blast
  have "leaves s s" if "s \<in> set ss" for s
  proof -
    have "zero_tail (s_index s)" "sealed s"
      using that assms l sealed_run_set by (auto simp: runs_def log_conf_def segments_ok_snoc)
    moreover have "seg_inv (view s)" "flushed s" using \<open>sealed s\<close> by (simp_all add: sealed_def)
    then have "fdata (wfile (writer s)) = encs (seg_recs s)"
      using readHandle_flushed by (simp add: seg_inv_def flushed_def written_def view_def seg_recs_def)
    ultimately show ?thesis unfolding leaves_def zero_tail_def by (metis append_take_drop_id)
  qed
  then have "list_all2 leaves ss ss" by (simp add: list_all2_same)
  from NewLog_reopens [OF assms l(1) this, of "survive n a" k junk e] k a(2) show ?thesis
    by (simp add: crash_dir_def l(1) survive_def) blast
qed

text \<open>\<open>Close\<close> flushes the active segment and cuts the index files to their entries.\<close>

lemma Segment_Close_leaves:
  assumes "seg_inv (view s)"
  shows "leaves s (Segment_Close s)"
proof -
  have "fdata (wfile (writer (Segment_Close (view s)))) = encs (seg_recs s)"
    "i_file (s_index (Segment_Close (view s))) = take (i_size (s_index s)) (i_file (s_index s))"
    using Segment_Close_file [OF assms] by simp_all (simp add: view_def)
  moreover have "writer (Segment_Close (view s)) = writer (Segment_Close s)"
    "s_index (Segment_Close (view s)) = s_index (Segment_Close s)" "BaseOffset (Segment_Close s) = BaseOffset s"
    by (simp_all add: Segment_Close_def view_def)
  ultimately show ?thesis unfolding leaves_def by (intro conjI exI [where x = 0]) simp_all
qed

lemma close_reopens:
  assumes "runs l"
  shows "\<exists>l'. NewLog (dir_of mtime (snd (Log_Close l))) (l_config l) now = Inr l' \<and> runs l' \<and>
           LowestOffset l' = LowestOffset l \<and> log_recs l' = log_recs l"
proof -
  obtain ss a where l: "l_segments l = ss @ [a]" "segments_ok (ss @ [a])" "\<not> l_closed l"
    using assms unfolding runs_def by (blast elim: log_invE)
  have sealed: "seg_inv (view s)" if "s \<in> set ss" for s
    using that l(2) sealed_run_set by (auto simp: segments_ok_snoc sealed_def)
  have a: "seg_inv (view a)" using l(2) by (simp add: segments_ok_snoc seg_inv_view)
  have "list_all2 leaves ss (map Segment_Close ss)"
    using Segment_Close_leaves [OF sealed] by (simp add: list_all2_conv_all_nth)
  moreover have "BaseOffset (Segment_Close a) = BaseOffset a"
    "fdata (wfile (writer (Segment_Close a))) = encs (take (length (seg_recs a)) (seg_recs a)) @ []"
    using Segment_Close_leaves [OF a] by (simp_all add: leaves_def)
  moreover have "\<exists>e. DecodeRecord [] = Inl e" by simp
  then obtain e where "DecodeRecord [] = Inl e" ..
  ultimately have "\<exists>l'. NewLog (dir_of mtime (map Segment_Close ss @ [Segment_Close a])) (l_config l) now = Inr l' \<and> runs l' \<and>
      LowestOffset l' = LowestOffset l \<and> log_recs l' = recs_of ss @ take (length (seg_recs a)) (seg_recs a)"
    by (intro NewLog_reopens [OF assms l(1)])
  then show ?thesis by (simp add: Log_Close_def closeSegments_def l log_recs_def)
qed

section \<open>The life of a log\<close>

text \<open>
  A log is created in an empty directory; then the operations of the broker are applied to it, and it is
  opened again after a close or after a crash.
\<close>

inductive log_life :: "Config \<Rightarrow> Log \<Rightarrow> bool" for cfg where
  create: "NewLog [] cfg now = Inr l \<Longrightarrow> log_life cfg l"
| append: "log_life cfg l \<Longrightarrow> \<forall>r \<in> set recs. typed_record r \<Longrightarrow>
    HighestOffset l + int (length recs) < 2 ^ 63 \<Longrightarrow> log_life cfg (fst (AppendBatch l recs now))"
| append_one: "log_life cfg l \<Longrightarrow> typed_record rec \<Longrightarrow> HighestOffset l < 2 ^ 63 - 1 \<Longrightarrow>
    log_life cfg (fst (Log_Append l rec now))"
| read: "log_life cfg l \<Longrightarrow> log_life cfg (fst (Log_Read l off))"
| read_from: "log_life cfg l \<Longrightarrow> log_life cfg (fst (Log_ReadFrom l off maxBytes))"
| truncate: "log_life cfg l \<Longrightarrow> 0 \<le> off \<Longrightarrow> off < 2 ^ 63 \<Longrightarrow> log_life cfg (fst (Log_Truncate l off now))"
| tick: "log_life cfg l \<Longrightarrow> created_in_order l \<Longrightarrow> log_life cfg (retentionTick l now)"
| restart: "log_life cfg l \<Longrightarrow> NewLog (dir_of mtime (snd (Log_Close l))) (l_config l) now = Inr l' \<Longrightarrow> log_life cfg l'"
| crash: "log_life cfg l \<Longrightarrow> NewLog (crash_dir mtime n l) (l_config l) now = Inr l' \<Longrightarrow> log_life cfg l'"

lemma Log_Read_runs:
  assumes "runs l"
  shows "runs (fst (Log_Read l off))"
proof (cases "LowestOffset l \<le> off")
  case True
  have inv: "log_inv l" using assms by (simp add: runs_def)
  obtain i where i: "i < length (l_segments l)" "findSegmentLocked l off = Some i"
    using findSegmentLocked_ok [OF inv True] by blast
  then show ?thesis
    using assms flush_if_active_runs [OF assms i(1)] by (auto simp: Log_Read_def split: sum.split)
next
  case False
  then show ?thesis using assms by (simp add: Log_Read_def LowestOffset_def split: if_split_asm)
qed

lemma log_life_runs:
  assumes "config_ok (withDefaults cfg)" and "log_life cfg l"
  shows "runs l"
  using assms(2)
proof (induction rule: log_life.induct)
  case (create now l)
  have "log_conf l"
    using create NewSegment_conf [of _ _ _ _ "withDefaults cfg"] withDefaults_idem [of cfg]
    by (auto simp: NewLog_def openSegment_def scanBaseOffsets_def List.map_filter_simps log_conf_def Let_def
        split: sum.split_asm prod.split_asm)
  then show ?case using NewLog_empty [OF assms(1), of now] create by (auto simp: runs_def)
next
  case (append l recs now)
  then show ?case using batch_loop_runs [of l recs] by (simp add: AppendBatch_def)
next
  case (append_one l rec now)
  then show ?case using append_one_runs(1) [of l rec now] by (simp add: Log_Append_def)
next
  case (read_from l off maxBytes)
  then show ?case by (simp add: Log_ReadFrom_def readSegments_runs)
next
  case (restart l mtime now l')
  then show ?case using close_reopens [of l mtime now] by auto
next
  case (crash l mtime n now l')
  then show ?case using crash_recovers [of l mtime n now] by auto
qed (simp_all add: Log_Read_runs Log_Truncate_runs retentionTick_runs)

lemma demo_life: "log_life demo_config demo_log1"
proof -
  have "NewLog [] demo_config 1 = Inr demo_log"
    using NewLog_empty [OF demo_config_ok, of 1] by (auto simp: demo_log_def)
  then have "log_life demo_config demo_log" by (rule log_life.create)
  then show ?thesis
    using log_life.append_one [of demo_config demo_log demo_record 2] demo_record_ok(1) demo_log_ok(4)
    by (simp add: demo_log1_def)
qed

lemma demo_log1_single: "butlast (l_segments demo_log1) = []" "seg_recs (active demo_log1) = [demo_record]"
proof -
  show "butlast (l_segments demo_log1) = []" using demo_log1_segments by (simp flip: length_0_conv)
  then show "seg_recs (active demo_log1) = [demo_record]"
    using log_recs_active [OF demo_log1_ok(1)] demo_log1_ok(2) by simp
qed

section \<open>Properties\<close>

text \<open>
  C26: Crash safety. Take a log after any history of appends, reads, truncations, retention, restarts and
  earlier crashes, and let the process die when \<open>n\<close> bytes of the active file have reached the disk. Opening
  the directory succeeds; the log then holds a prefix of the old records from the same lowest offset, with
  all records of sealed segments and every record of the active segment that had reached the disk as a
  whole; a torn record is cut off and the next offset is right behind the last record kept.
\<close>

theorem Log_crash_recovery:
  assumes "config_ok (withDefaults cfg)" and "log_life cfg l"
  shows "\<exists>l' m. NewLog (crash_dir mtime n l) (l_config l) now = Inr l' \<and> log_inv l' \<and>
    log_recs l' = take m (log_recs l) \<and> LowestOffset l' = LowestOffset l \<and>
    HighestOffset l' = LowestOffset l + int (length (log_recs l')) \<and>
    (\<forall>j \<le> length (seg_recs (active l)). length (encs (take j (seg_recs (active l)))) \<le> n \<longrightarrow>
       length (recs_of (butlast (l_segments l))) + j \<le> m)"
proof -
  have l: "runs l" by (rule log_life_runs [OF assms])
  then obtain l' k where k: "NewLog (crash_dir mtime n l) (l_config l) now = Inr l'" "runs l'"
    "LowestOffset l' = LowestOffset l"
    "log_recs l' = recs_of (butlast (l_segments l)) @ take k (seg_recs (active l))"
    "\<forall>j \<le> length (seg_recs (active l)). length (encs (take j (seg_recs (active l)))) \<le> n \<longrightarrow> j \<le> k"
    using crash_recovers [OF l] by blast
  have "log_recs l = recs_of (butlast (l_segments l)) @ seg_recs (active l)"
    using l by (simp add: runs_def log_recs_active)
  then have "log_recs l' = take (length (recs_of (butlast (l_segments l))) + k) (log_recs l)" using k(4) by simp
  then show ?thesis
    using k HighestOffset_eq [of l'] unfolding runs_def
    by (intro exI [where x = l'] exI [where x = "length (recs_of (butlast (l_segments l))) + k"]) simp
qed

theorem Log_crash_recovery_witness:
  "\<exists>l'. NewLog (crash_dir (\<lambda>_. 5) MaxRecordSize demo_log1) (l_config demo_log1) 9 = Inr l' \<and> log_recs l' = [demo_record]"
proof -
  obtain l' m where l': "NewLog (crash_dir (\<lambda>_. 5) MaxRecordSize demo_log1) (l_config demo_log1) 9 = Inr l'"
    "log_recs l' = take m [demo_record]"
    "\<forall>j \<le> length [demo_record]. length (encs (take j [demo_record])) \<le> MaxRecordSize \<longrightarrow> j \<le> m"
    using Log_crash_recovery [OF demo_config_ok demo_life, of "\<lambda>_. 5" MaxRecordSize 9]
    unfolding demo_log1_single demo_log1_ok(2) by auto
  have "1 \<le> m" using l'(3) [rule_format, of 1] demo_record_ok(2) by simp
  then show ?thesis using l'(1,2) by simp
qed

text \<open>
  C27: A clean restart loses nothing: after any history, closing a log and opening its directory again gives
  a log with exactly the same records and offsets.
\<close>

theorem Log_restart_roundtrip:
  assumes "config_ok (withDefaults cfg)" and "log_life cfg l"
  shows "\<exists>l'. NewLog (dir_of mtime (snd (Log_Close l))) (l_config l) now = Inr l' \<and> log_inv l' \<and>
    log_recs l' = log_recs l \<and> LowestOffset l' = LowestOffset l \<and> HighestOffset l' = HighestOffset l"
proof -
  have l: "runs l" by (rule log_life_runs [OF assms])
  then obtain l' where l': "NewLog (dir_of mtime (snd (Log_Close l))) (l_config l) now = Inr l'" "runs l'"
    "LowestOffset l' = LowestOffset l" "log_recs l' = log_recs l"
    using close_reopens [OF l] by blast
  then show ?thesis using l HighestOffset_eq [of l'] HighestOffset_eq [of l] by (auto simp: runs_def)
qed

theorem Log_restart_roundtrip_witness:
  "\<exists>l'. NewLog (dir_of (\<lambda>_. 5) (snd (Log_Close demo_log1))) (l_config demo_log1) 9 = Inr l' \<and> log_recs l' = [demo_record]"
  using Log_restart_roundtrip [OF demo_config_ok demo_life, of "\<lambda>_. 5" 9] demo_log1_ok(2) by auto

end
