(* ===== verification/Codec.thy ===== *)
theory Codec
  imports GoLib
begin

text \<open>
  The primitive wire types, \<^verbatim>\<open>internal/protocol/codec.go\<close>: fixed-width big-endian integers, booleans,
  strings, byte sequences and array headers.

  A \<open>Put\<close> function gives the bytes it appends to its writer, a decoder is a reader of the remaining
  stream. A nil slice is the empty one, except in the nullable variants, where nil is \<^term>\<open>None\<close>. The
  rules \<open>codec_intros\<close> state for each type that what is written is read back; the message types build
  their proofs from them.
\<close>

named_theorems codec_intros \<open>introduction rules for decodes\<close>
named_theorems reads_intros \<open>introduction rules for reads\<close>

section \<open>Encoders\<close>

definition PutInt8 :: "int \<Rightarrow> bytes result" where
  "PutInt8 v = Inr (be_put 1 v)"

definition PutInt16 :: "int \<Rightarrow> bytes result" where
  "PutInt16 v = Inr (be_put 2 v)"

definition PutInt32 :: "int \<Rightarrow> bytes result" where
  "PutInt32 v = Inr (be_put 4 v)"

definition PutInt64 :: "int \<Rightarrow> bytes result" where
  "PutInt64 v = Inr (be_put 8 v)"

definition PutBool :: "bool \<Rightarrow> bytes result" where
  "PutBool v = PutInt8 (if v then 1 else 0)"

definition MaxInt16 :: int where
  "MaxInt16 = 32767"

definition MaxInt32 :: int where
  "MaxInt32 = 2147483647"

definition PutString :: "string \<Rightarrow> bytes result" where
  "PutString v =
     (let n = int (length v)
      in if MaxInt16 < n then Inl (ErrorNew ''protocol: string length exceeds int16 range'')
         else if n = 0 then PutInt16 n
         else seqW [PutInt16 n, Inr (bytes_of v)])"

definition PutNullableString :: "string option \<Rightarrow> bytes result" where
  "PutNullableString v = (case v of None \<Rightarrow> PutInt16 (-1) | Some s \<Rightarrow> PutString s)"

definition PutBytes :: "bytes \<Rightarrow> bytes result" where
  "PutBytes v =
     (let n = int (length v)
      in if MaxInt32 < n then Inl (ErrorNew ''protocol: bytes length exceeds int32 range'')
         else if n = 0 then PutInt32 n
         else seqW [PutInt32 n, Inr v])"

definition PutNullableBytes :: "bytes option \<Rightarrow> bytes result" where
  "PutNullableBytes v = (case v of None \<Rightarrow> PutInt32 (-1) | Some b \<Rightarrow> PutBytes b)"

definition PutArrayHeader :: "int \<Rightarrow> bytes result" where
  "PutArrayHeader len =
     (if MaxInt32 < len then Inl (ErrorNew ''protocol: array length exceeds int32 range'')
      else PutInt32 (int32 len))"

section \<open>Decoders\<close>

text \<open>\<open>binary.Read\<close> of a signed integer of \<open>n\<close> bytes.\<close>

definition read_int :: "nat \<Rightarrow> int reader" where
  "read_int n = bindR (ReadFull n) (\<lambda>buf. returnR (wrap_s (8 * n) (be_get buf)))"

definition Int8 :: "int reader" where
  "Int8 = read_int 1"

definition Int16 :: "int reader" where
  "Int16 = read_int 2"

definition Int32 :: "int reader" where
  "Int32 = read_int 4"

definition Int64 :: "int reader" where
  "Int64 = read_int 8"

definition Bool :: "bool reader" where
  "Bool = bindR Int8 (\<lambda>v. returnR (v \<noteq> 0))"

definition MaxStringLength :: int where
  "MaxStringLength = 10 * 1024 * 1024"

definition MaxBytesLength :: int where
  "MaxBytesLength = 100 * 1024 * 1024"

definition MaxArrayElements :: int where
  "MaxArrayElements = MaxInt32"

definition String :: "string reader" where
  "String =
     bindR Int16 (\<lambda>len.
       if len < 0 then returnR []
       else if len = 0 then returnR []
       else if MaxStringLength < len
       then failR (ErrorNew ''protocol: string length exceeds maximum allowed limit'')
       else bindR (ReadFull (nat len)) (\<lambda>buf. returnR (string_of buf)))"

definition NullableString :: "string option reader" where
  "NullableString =
     bindR Int16 (\<lambda>len.
       if len < 0 then returnR None
       else if len = 0 then returnR (Some [])
       else if MaxStringLength < len
       then failR (ErrorNew ''protocol: string length exceeds maximum allowed limit'')
       else bindR (ReadFull (nat len)) (\<lambda>buf. returnR (Some (string_of buf))))"

definition Bytes :: "bytes reader" where
  "Bytes =
     bindR Int32 (\<lambda>len.
       if len < 0 then returnR []
       else if len = 0 then returnR []
       else if MaxBytesLength < len
       then failR (ErrorNew ''protocol: bytes length exceeds maximum allowed limit'')
       else ReadFull (nat len))"

definition NullableBytes :: "bytes option reader" where
  "NullableBytes =
     bindR Int32 (\<lambda>len.
       if len < 0 then returnR None
       else if len = 0 then returnR (Some [])
       else if MaxBytesLength < len
       then failR (ErrorNew ''protocol: bytes length exceeds maximum allowed limit'')
       else bindR (ReadFull (nat len)) (\<lambda>buf. returnR (Some buf)))"

definition ArrayHeader :: "int reader" where
  "ArrayHeader =
     bindR Int32 (\<lambda>v.
       if MaxArrayElements < v
       then failR (ErrorNew ''protocol: array element count exceeds maximum allowed limit'')
       else returnR v)"

definition ReadArrayHeader :: "int reader" where
  "ReadArrayHeader =
     bindR ArrayHeader (\<lambda>count.
       if 100000 < count
       then failR (ErrorNew ''protocol: array element count exceeds safety limit'')
       else returnR count)"

text \<open>
  The shape all messages use for an array: its header, then a loop over the elements. A negative count
  is a nil array.
\<close>

definition PutArray :: "('a \<Rightarrow> bytes result) \<Rightarrow> 'a list \<Rightarrow> bytes result" where
  "PutArray put xs = seqW (PutArrayHeader (int (length xs)) # map put xs)"

definition GetArray :: "int reader \<Rightarrow> 'a reader \<Rightarrow> 'a list reader" where
  "GetArray header get =
     bindR header (\<lambda>count. if count < 0 then returnR [] else repeatR (nat count) get)"

section \<open>Round trips\<close>

lemma read_int_put:
  assumes "0 < n" and "in_s (8 * n) v"
  shows "decodes (Inr (be_put n v)) (read_int n) v"
  using be_signed_roundtrip [OF assms]
  by (intro decodesI [where bs = "be_put n v"]) (simp_all add: read_int_def bindR_def ReadFull_append returnR_def)

lemma decodes_ints [codec_intros]:
  "in_s 8 v \<Longrightarrow> decodes (PutInt8 v) Int8 v" "in_s 16 v \<Longrightarrow> decodes (PutInt16 v) Int16 v"
  "in_s 32 v \<Longrightarrow> decodes (PutInt32 v) Int32 v" "in_s 64 v \<Longrightarrow> decodes (PutInt64 v) Int64 v"
  using read_int_put [of 1 v] read_int_put [of 2 v] read_int_put [of 4 v] read_int_put [of 8 v]
  by (simp_all add: PutInt8_def PutInt16_def PutInt32_def PutInt64_def Int8_def Int16_def Int32_def Int64_def)

lemma decodes_bool [codec_intros]: "decodes (PutBool b) Bool b"
  unfolding PutBool_def Bool_def
  by (rule decodes_map [OF decodes_ints(1), of "if b then 1 else 0"]) (simp_all add: in_s_def)

lemma decodes_string [codec_intros]:
  assumes "int (length s) \<le> MaxInt16"
  shows "decodes (PutString s) String s"
proof (cases "s = []")
  case True
  then show ?thesis unfolding PutString_def String_def
    by (auto simp: MaxInt16_def in_s_def intro: decodes_map [OF decodes_ints(2)])
next
  case False
  let ?n = "int (length s)"
  have "decodes (PutInt16 ?n) Int16 ?n" using assms by (intro decodes_ints) (simp add: in_s_def MaxInt16_def)
  moreover have "decodes (seqW [Inr (bytes_of s)]) (bindR (ReadFull (length s)) (\<lambda>buf. returnR (string_of buf))) s"
    by (intro decodes_last decodes_map [OF decodes_raw]) simp_all
  ultimately show ?thesis unfolding PutString_def String_def
    using assms False by (auto simp: MaxInt16_def MaxStringLength_def simp del: seqW.simps intro!: decodes_bind)
qed

lemma decodes_bytes [codec_intros]:
  assumes "int (length b) \<le> MaxBytesLength"
  shows "decodes (PutBytes b) Bytes b"
proof (cases "b = []")
  case True
  then show ?thesis unfolding PutBytes_def Bytes_def
    by (auto simp: MaxInt32_def in_s_def intro: decodes_map [OF decodes_ints(3)])
next
  case False
  let ?n = "int (length b)"
  have "decodes (PutInt32 ?n) Int32 ?n" using assms by (intro decodes_ints) (simp add: in_s_def MaxBytesLength_def)
  moreover have "decodes (seqW [Inr b]) (ReadFull (length b)) b" by (intro decodes_last decodes_raw) simp
  ultimately show ?thesis unfolding PutBytes_def Bytes_def
    using assms False by (auto simp: MaxInt32_def MaxBytesLength_def simp del: seqW.simps intro!: decodes_bind)
qed

lemma decodes_nullable_string [codec_intros]:
  assumes "\<And>x. s = Some x \<Longrightarrow> int (length x) \<le> MaxInt16"
  shows "decodes (PutNullableString s) NullableString s"
proof (cases s)
  case None
  then show ?thesis unfolding PutNullableString_def NullableString_def
    by (auto simp: in_s_def intro: decodes_map [OF decodes_ints(2)])
next
  case (Some x)
  let ?n = "int (length x)"
  have n: "decodes (PutInt16 ?n) Int16 ?n" using assms Some by (intro decodes_ints) (simp add: in_s_def MaxInt16_def)
  have b: "decodes (seqW [Inr (bytes_of x)]) (bindR (ReadFull (length x)) (\<lambda>buf. returnR (Some (string_of buf)))) (Some x)"
    by (intro decodes_last decodes_map [OF decodes_raw]) simp_all
  show ?thesis
  proof (cases "x = []")
    case True
    then show ?thesis using Some n unfolding PutNullableString_def PutString_def NullableString_def
      by (auto simp: MaxInt16_def intro: decodes_map)
  next
    case False
    then show ?thesis using Some n b assms [OF Some] unfolding PutNullableString_def PutString_def NullableString_def
      by (auto simp: MaxInt16_def MaxStringLength_def simp del: seqW.simps intro!: decodes_bind)
  qed
qed

lemma decodes_nullable_bytes [codec_intros]:
  assumes "\<And>x. b = Some x \<Longrightarrow> int (length x) \<le> MaxBytesLength"
  shows "decodes (PutNullableBytes b) NullableBytes b"
proof (cases b)
  case None
  then show ?thesis unfolding PutNullableBytes_def NullableBytes_def
    by (auto simp: in_s_def intro: decodes_map [OF decodes_ints(3)])
next
  case (Some x)
  let ?n = "int (length x)"
  have n: "decodes (PutInt32 ?n) Int32 ?n"
    using assms Some by (intro decodes_ints) (simp add: in_s_def MaxBytesLength_def)
  have b: "decodes (seqW [Inr x]) (bindR (ReadFull (length x)) (\<lambda>buf. returnR (Some buf))) (Some x)"
    by (intro decodes_last decodes_map [OF decodes_raw]) simp_all
  show ?thesis
  proof (cases "x = []")
    case True
    then show ?thesis using Some n unfolding PutNullableBytes_def PutBytes_def NullableBytes_def
      by (auto simp: MaxInt32_def intro: decodes_map)
  next
    case False
    then show ?thesis using Some n b assms [OF Some] unfolding PutNullableBytes_def PutBytes_def NullableBytes_def
      by (auto simp: MaxInt32_def MaxBytesLength_def simp del: seqW.simps intro!: decodes_bind)
  qed
qed

lemma decodes_array_header:
  "-1 \<le> n \<Longrightarrow> n \<le> MaxInt32 \<Longrightarrow> decodes (PutArrayHeader n) ArrayHeader n"
  "-1 \<le> n \<Longrightarrow> n \<le> 100000 \<Longrightarrow> decodes (PutArrayHeader n) ReadArrayHeader n"
proof -
  have a: "decodes (PutArrayHeader n) ArrayHeader n" if "-1 \<le> n" "n \<le> MaxInt32" for n
  proof -
    have "int32 n = n" using that by (intro wrap_s_id) (simp_all add: in_s_def MaxInt32_def)
    then show ?thesis using that unfolding PutArrayHeader_def ArrayHeader_def
      by (auto simp: in_s_def MaxInt32_def MaxArrayElements_def intro: decodes_map [OF decodes_ints(3)])
  qed
  show "-1 \<le> n \<Longrightarrow> n \<le> MaxInt32 \<Longrightarrow> decodes (PutArrayHeader n) ArrayHeader n" by (rule a)
  show "-1 \<le> n \<Longrightarrow> n \<le> 100000 \<Longrightarrow> decodes (PutArrayHeader n) ReadArrayHeader n"
    unfolding ReadArrayHeader_def by (rule decodes_map [OF a]) (simp_all add: MaxInt32_def)
qed

lemma decodes_array:
  assumes "decodes (PutArrayHeader (int (length xs))) header (int (length xs))"
    and "\<And>x. x \<in> set xs \<Longrightarrow> decodes (put x) get x"
  shows "decodes (PutArray put xs) (GetArray header get) xs"
proof -
  have "decodes (seqW (map put xs)) (repeatR (length xs) get) xs" by (rule decodes_repeat) (rule assms(2))
  then show ?thesis unfolding PutArray_def GetArray_def by (intro decodes_bind [OF assms(1)]) simp
qed

lemma decodes_arrays [codec_intros]:
  "int (length xs) \<le> MaxInt32 \<Longrightarrow> (\<And>x. x \<in> set xs \<Longrightarrow> decodes (put x) get x) \<Longrightarrow>
   decodes (PutArray put xs) (GetArray ArrayHeader get) xs"
  "int (length xs) \<le> 100000 \<Longrightarrow> (\<And>x. x \<in> set xs \<Longrightarrow> decodes (put x) get x) \<Longrightarrow>
   decodes (PutArray put xs) (GetArray ReadArrayHeader get) xs"
  by (intro decodes_array decodes_array_header; simp)+

declare decodes_bind [codec_intros] decodes_return [codec_intros]

lemma PutString_length:
  assumes "int (length s) \<le> MaxInt16"
  obtains b where "PutString s = Inr b" and "length b = 2 + length s"
  using assms by (cases "s = []") (auto simp: PutString_def PutInt16_def)

lemma PutBytes_length:
  assumes "int (length s) \<le> MaxInt32"
  obtains b where "PutBytes s = Inr b" and "length b = 4 + length s"
  using assms by (cases "s = []") (auto simp: PutBytes_def PutInt32_def)

section \<open>What the decoders return\<close>

lemma reads_read_int: "0 < n \<Longrightarrow> reads (read_int n) (in_s (8 * n))"
  unfolding read_int_def by (rule reads_bind [OF reads_raw [where P = "\<lambda>_. True"]]) (auto intro!: reads_return in_s_wrap_s)

lemma reads_ints [reads_intros]:
  "reads Int8 (in_s 8)" "reads Int16 (in_s 16)" "reads Int32 (in_s 32)" "reads Int64 (in_s 64)"
  using reads_read_int [of 1] reads_read_int [of 2] reads_read_int [of 4] reads_read_int [of 8]
  by (simp_all add: Int8_def Int16_def Int32_def Int64_def)

lemma reads_string [reads_intros]: "reads String (\<lambda>s. int (length s) \<le> MaxInt16)"
  unfolding String_def
proof (rule reads_bind [OF reads_ints(2)])
  fix len assume len: "in_s 16 len"
  have "reads (bindR (ReadFull (nat len)) (\<lambda>buf. returnR (string_of buf))) (\<lambda>s. int (length s) \<le> MaxInt16)"
    using len
    by (intro reads_bind [OF reads_raw [where P = "\<lambda>p. length p = nat len"]] reads_return)
       (auto simp: string_of_def in_s_def MaxInt16_def)
  then show "reads (if len < 0 then returnR [] else if len = 0 then returnR []
      else if MaxStringLength < len then failR (ErrorNew ''protocol: string length exceeds maximum allowed limit'')
      else bindR (ReadFull (nat len)) (\<lambda>buf. returnR (string_of buf))) (\<lambda>s. int (length s) \<le> MaxInt16)"
    by (auto intro!: reads_if reads_return reads_fail simp: MaxInt16_def)
qed

lemma reads_bytes [reads_intros]: "reads Bytes (\<lambda>b. int (length b) \<le> MaxBytesLength)"
  unfolding Bytes_def
  by (rule reads_bind [OF reads_ints(3)])
     (auto intro!: reads_if reads_return reads_fail reads_raw simp: MaxBytesLength_def)

lemma reads_array_header: "reads ArrayHeader (\<lambda>n. n \<le> MaxInt32)" "reads ReadArrayHeader (\<lambda>n. n \<le> 100000)"
  unfolding ReadArrayHeader_def ArrayHeader_def MaxArrayElements_def
  by (rule reads_bind [where P = "\<lambda>_. True"] reads_if reads_return reads_fail reads_mono [OF reads_ints(3)] | simp)+

lemma reads_array:
  assumes "reads header (\<lambda>n. n \<le> limit)" and "reads get P" and "0 \<le> limit"
  shows "reads (GetArray header get) (\<lambda>xs. int (length xs) \<le> limit \<and> (\<forall>x \<in> set xs. P x))"
  unfolding GetArray_def
proof (rule reads_bind [OF assms(1)])
  fix count :: int assume c: "count \<le> limit"
  have "reads (repeatR (nat count) get) (\<lambda>xs. int (length xs) \<le> limit \<and> (\<forall>x \<in> set xs. P x))"
    by (rule reads_mono [OF reads_repeat [OF assms(2)]]) (use c assms(3) in auto)
  then show "reads (if count < 0 then returnR [] else repeatR (nat count) get)
      (\<lambda>xs. int (length xs) \<le> limit \<and> (\<forall>x \<in> set xs. P x))"
    using assms(3) by (auto intro: reads_return)
qed

lemma reads_arrays [reads_intros]:
  "reads get P \<Longrightarrow> reads (GetArray ArrayHeader get) (\<lambda>xs. int (length xs) \<le> MaxInt32 \<and> (\<forall>x \<in> set xs. P x))"
  "reads get P \<Longrightarrow> reads (GetArray ReadArrayHeader get) (\<lambda>xs. int (length xs) \<le> 100000 \<and> (\<forall>x \<in> set xs. P x))"
  by (rule reads_array [OF reads_array_header(1)], assumption, simp add: MaxInt32_def)
     (rule reads_array [OF reads_array_header(2)], assumption, simp)

end
