(* ===== verification/Assignor.thy ===== *)
theory Assignor
  imports Codec "HOL-Library.List_Lexorder" "HOL-Library.Char_ord"
begin

text \<open>
  Partition assignment of consumer groups, \<^verbatim>\<open>internal/coordinator/assignor.go\<close>: the two strategies, the
  lookup of a strategy by name, and the binary form of one member's assignment.

  The locale \<open>assignor\<close> is the contract of the Go interface \<open>Assignor\<close>: what a group leader relies on is
  that every partition of every topic has exactly one owner. Both strategies are interpretations of it.
\<close>

section \<open>Assignments on the wire\<close>

record PartitionAssignment =
  pa_Topic :: string
  pa_Partitions :: "int list"

record MemberAssignment =
  ma_Topics :: "PartitionAssignment list"

definition PartitionAssignment_Encode :: "PartitionAssignment \<Rightarrow> bytes result" where
  "PartitionAssignment_Encode t = seqW [PutString (pa_Topic t), PutArray PutInt32 (pa_Partitions t)]"

definition EncodeAssignment :: "MemberAssignment \<Rightarrow> bytes result" where
  "EncodeAssignment ma = PutArray PartitionAssignment_Encode (ma_Topics ma)"

text \<open>A negative count of partitions makes \<open>make([]int32, pCount)\<close> panic.\<close>

definition PartitionAssignment_Decode :: "PartitionAssignment reader" where
  "PartitionAssignment_Decode =
     bindR String (\<lambda>tName. bindR ArrayHeader (\<lambda>pCount.
       if pCount < 0 then failR (Panic ''makeslice: len out of range'')
       else bindR (repeatR (nat pCount) Int32) (\<lambda>partitions.
              returnR \<lparr>pa_Topic = tName, pa_Partitions = partitions\<rparr>)))"

definition DecodeAssignment :: "bytes \<Rightarrow> MemberAssignment result" where
  "DecodeAssignment data =
     (if data = [] then Inr \<lparr>ma_Topics = []\<rparr>
      else
        (case bindR ArrayHeader (\<lambda>tCount.
                if tCount < 0 then returnR \<lparr>ma_Topics = []\<rparr>
                else bindR (repeatR (nat tCount) PartitionAssignment_Decode) (\<lambda>topics.
                       returnR \<lparr>ma_Topics = topics\<rparr>)) data of
           Inl e \<Rightarrow> Inl e
         | Inr (ma, _) \<Rightarrow> Inr ma))"

definition wf_PartitionAssignment :: "PartitionAssignment \<Rightarrow> bool" where
  "wf_PartitionAssignment t \<longleftrightarrow>
     int (length (pa_Topic t)) \<le> MaxInt16 \<and> int (length (pa_Partitions t)) \<le> MaxInt32 \<and>
     (\<forall>p \<in> set (pa_Partitions t). in_s 32 p)"

definition wf_MemberAssignment :: "MemberAssignment \<Rightarrow> bool" where
  "wf_MemberAssignment ma \<longleftrightarrow>
     int (length (ma_Topics ma)) \<le> MaxInt32 \<and> (\<forall>t \<in> set (ma_Topics ma). wf_PartitionAssignment t)"

section \<open>Strategies\<close>

text \<open>
  The Go map from topics to partition counts is a list of pairs with distinct topics, in the arbitrary
  order of the iteration; both strategies sort it. \<open>memberAssignmentsMap\<close> is a function whose missing
  entries are empty, which is how the code reads them.
\<close>

type_synonym topic_counts = "(string \<times> int) list"
type_synonym assignments_map = "string \<Rightarrow> string \<Rightarrow> int list"

definition partitions_of :: "topic_counts \<Rightarrow> string \<Rightarrow> int" where
  "partitions_of tp t = (case map_of tp t of None \<Rightarrow> 0 | Some n \<Rightarrow> n)"

definition add_part :: "string \<Rightarrow> string \<Rightarrow> int \<Rightarrow> assignments_map \<Rightarrow> assignments_map" where
  "add_part m t p acc = acc(m := (acc m)(t := acc m t @ [p]))"

definition member_result :: "assignments_map \<Rightarrow> string list \<Rightarrow> string \<Rightarrow> MemberAssignment" where
  "member_result acc sortedTopics m =
     \<lparr>ma_Topics = map (\<lambda>t. \<lparr>pa_Topic = t, pa_Partitions = acc m t\<rparr>)
                      (filter (\<lambda>t. acc m t \<noteq> []) sortedTopics)\<rparr>"

definition collect_result ::
    "assignments_map \<Rightarrow> string list \<Rightarrow> string list \<Rightarrow> (string \<rightharpoonup> MemberAssignment)" where
  "collect_result acc sortedTopics sortedMembers =
     fold (\<lambda>m result. result(m \<mapsto> member_result acc sortedTopics m)) sortedMembers Map.empty"

subsection \<open>Range\<close>

definition range_share :: "int \<Rightarrow> int \<Rightarrow> int \<Rightarrow> int list" where
  "range_share numPartitions numMembers i =
     (let per = numPartitions div numMembers; extra = numPartitions mod numMembers;
          start = per * i + min i extra;
          len = (if i < extra then per + 1 else per)
      in map int32 [start..start + len - 1])"

definition range_topic :: "topic_counts \<Rightarrow> string list \<Rightarrow> string \<Rightarrow> assignments_map \<Rightarrow> assignments_map" where
  "range_topic tp sortedMembers topic acc =
     (let numPartitions = partitions_of tp topic
      in if numPartitions \<le> 0 then acc
         else fold (\<lambda>(i, member) acc.
                 fold (add_part member topic)
                   (range_share numPartitions (int (length sortedMembers)) (int i)) acc)
               (enumerate 0 sortedMembers) acc)"

definition RangeAssignor_Assign :: "string list \<Rightarrow> topic_counts \<Rightarrow> (string \<rightharpoonup> MemberAssignment)" where
  "RangeAssignor_Assign members tp =
     (if members = [] then Map.empty
      else
        (let sortedMembers = sort members; sortedTopics = sort (map fst tp);
             acc = fold (range_topic tp sortedMembers) sortedTopics (\<lambda>_ _. [])
         in collect_result acc sortedTopics sortedMembers))"

subsection \<open>Round robin\<close>

definition all_tps :: "topic_counts \<Rightarrow> string list \<Rightarrow> (string \<times> int) list" where
  "all_tps tp sortedTopics = concat (map (\<lambda>t. map (Pair t) [0..partitions_of tp t - 1]) sortedTopics)"

definition RoundRobinAssignor_Assign :: "string list \<Rightarrow> topic_counts \<Rightarrow> (string \<rightharpoonup> MemberAssignment)" where
  "RoundRobinAssignor_Assign members tp =
     (if members = [] then Map.empty
      else
        (let sortedMembers = sort members; sortedTopics = sort (map fst tp);
             acc = fold (\<lambda>(i, t, p). add_part (sortedMembers ! (i mod length sortedMembers)) t p)
                     (enumerate 0 (all_tps tp sortedTopics)) (\<lambda>_ _. [])
         in collect_result acc sortedTopics sortedMembers))"

subsection \<open>Lookup by name\<close>

datatype Assignor = RangeAssignor | RoundRobinAssignor

fun Assignor_Name :: "Assignor \<Rightarrow> string" where
  "Assignor_Name RangeAssignor = ''range''"
| "Assignor_Name RoundRobinAssignor = ''roundrobin''"

fun Assign :: "Assignor \<Rightarrow> string list \<Rightarrow> topic_counts \<Rightarrow> (string \<rightharpoonup> MemberAssignment)" where
  "Assign RangeAssignor = RangeAssignor_Assign"
| "Assign RoundRobinAssignor = RoundRobinAssignor_Assign"

definition GetAssignor :: "string \<Rightarrow> Assignor result" where
  "GetAssignor name =
     (if name = ''roundrobin'' then Inr RoundRobinAssignor
      else if name = ''range'' \<or> name = '''' then Inr RangeAssignor
      else Inl (ErrorNew (''unknown assignor strategy: '' @ name)))"

section \<open>What a strategy builds\<close>

text \<open>Both strategies hand out a list of triples: a member, a topic and a partition.\<close>

type_synonym grant = "string \<times> string \<times> int"

definition grants_to :: "string \<Rightarrow> string \<Rightarrow> grant list \<Rightarrow> int list" where
  "grants_to m t gs = map (snd \<circ> snd) (filter (\<lambda>(m', t', _). m' = m \<and> t' = t) gs)"

lemma add_part_apply: "add_part m' t' p acc m t = (if m' = m \<and> t' = t then acc m t @ [p] else acc m t)"
  by (auto simp: add_part_def)

lemma fold_add_part:
  "fold (\<lambda>(m, t, p). add_part m t p) gs acc m t = acc m t @ grants_to m t gs"
  by (induction gs arbitrary: acc) (auto simp: grants_to_def add_part_apply split: if_splits)

lemma set_grants_to: "p \<in> set (grants_to m t gs) \<longleftrightarrow> (m, t, p) \<in> set gs"
  by (force simp: grants_to_def)

definition range_grants :: "topic_counts \<Rightarrow> string list \<Rightarrow> string \<Rightarrow> grant list" where
  "range_grants tp ms t =
     (if partitions_of tp t \<le> 0 then []
      else concat (map (\<lambda>(i, m). map (\<lambda>p. (m, t, p)) (range_share (partitions_of tp t) (int (length ms)) (int i)))
                       (enumerate 0 ms)))"

lemma fold_concat_fold: "fold f (concat xss) acc = fold (\<lambda>xs. fold f xs) xss acc"
  by (induction xss arbitrary: acc) simp_all

lemma range_topic_grants: "range_topic tp ms t = fold (\<lambda>(m, t, p). add_part m t p) (range_grants tp ms t)"
  by (rule ext)
     (simp add: range_topic_def range_grants_def Let_def fold_concat_fold fold_map comp_def case_prod_unfold)

definition rr_grants :: "topic_counts \<Rightarrow> string list \<Rightarrow> string list \<Rightarrow> grant list" where
  "rr_grants tp ms ts = map (\<lambda>(i, t, p). (ms ! (i mod length ms), t, p)) (enumerate 0 (all_tps tp ts))"

text \<open>An assignment that is built from the grants \<open>gs\<close>.\<close>

definition assigned_by :: "grant list \<Rightarrow> string list \<Rightarrow> string list \<Rightarrow> (string \<rightharpoonup> MemberAssignment)" where
  "assigned_by gs ts ms = collect_result (\<lambda>m t. grants_to m t gs) ts ms"

lemma RangeAssignor_grants:
  "ms \<noteq> [] \<Longrightarrow> RangeAssignor_Assign ms tp =
     assigned_by (concat (map (range_grants tp (sort ms)) (sort (map fst tp)))) (sort (map fst tp)) (sort ms)"
proof -
  have "fold (range_topic tp (sort ms)) ts (\<lambda>_ _. []) =
      (\<lambda>m t. grants_to m t (concat (map (range_grants tp (sort ms)) ts)))" for ts
  proof -
    have "fold (range_topic tp (sort ms)) ts acc =
        fold (\<lambda>(m, t, p). add_part m t p) (concat (map (range_grants tp (sort ms)) ts)) acc" for acc
      by (simp add: range_topic_grants [abs_def] fold_concat_fold fold_map comp_def)
    then show ?thesis by (intro ext) (simp add: fold_add_part)
  qed
  then show "ms \<noteq> [] \<Longrightarrow> ?thesis"
    by (simp add: RangeAssignor_Assign_def assigned_by_def Let_def)
qed

lemma RoundRobinAssignor_grants:
  "ms \<noteq> [] \<Longrightarrow> RoundRobinAssignor_Assign ms tp =
     assigned_by (rr_grants tp (sort ms) (sort (map fst tp))) (sort (map fst tp)) (sort ms)"
proof -
  let ?gs = "rr_grants tp (sort ms) (sort (map fst tp))"
  have "fold (\<lambda>(i, t, p). add_part (sort ms ! (i mod length ms)) t p)
      (enumerate 0 (all_tps tp (sort (map fst tp)))) (\<lambda>_ _. []) = (\<lambda>m t. grants_to m t ?gs)"
    using fold_add_part [of ?gs "\<lambda>_ _. []"]
    by (intro ext) (simp add: rr_grants_def fold_map comp_def case_prod_unfold)
  then show "ms \<noteq> [] \<Longrightarrow> ?thesis"
    by (simp add: RoundRobinAssignor_Assign_def assigned_by_def Let_def)
qed

lemma collect_result_lookup:
  "collect_result acc ts ms m = (if m \<in> set ms then Some (member_result acc ts m) else None)"
proof -
  have "fold (\<lambda>m r. r(m \<mapsto> member_result acc ts m)) ms r m =
      (if m \<in> set ms then Some (member_result acc ts m) else r m)" for r
    by (induction ms arbitrary: r) auto
  then show ?thesis by (simp add: collect_result_def)
qed

text \<open>The partitions of a topic that an assignment gives to a member.\<close>

definition parts :: "(string \<rightharpoonup> MemberAssignment) \<Rightarrow> string \<Rightarrow> string \<Rightarrow> int list" where
  "parts asg m t =
     (case asg m of None \<Rightarrow> []
      | Some ma \<Rightarrow> concat (map pa_Partitions (filter (\<lambda>pa. pa_Topic pa = t) (ma_Topics ma))))"

lemma concat_filter_distinct:
  "distinct ts \<Longrightarrow> concat (map f (filter (\<lambda>x. f x \<noteq> [] \<and> x = t) ts)) = (if t \<in> set ts then f t else [])"
  by (induction ts) auto

lemma parts_assigned_by:
  assumes "distinct ts"
  shows "parts (assigned_by gs ts ms) m t = (if m \<in> set ms \<and> t \<in> set ts then grants_to m t gs else [])"
  using concat_filter_distinct [OF assms, of "\<lambda>t. grants_to m t gs" t]
  by (simp add: parts_def assigned_by_def collect_result_lookup member_result_def filter_map comp_def)

section \<open>The contract\<close>

text \<open>The maps of partition counts that occur: a topic occurs once, and counts are 32-bit values.\<close>

definition counts :: "topic_counts \<Rightarrow> bool" where
  "counts tp \<longleftrightarrow> distinct (map fst tp) \<and> (\<forall>(t, n) \<in> set tp. n < 2 ^ 31)"

locale assignor =
  fixes assign :: "string list \<Rightarrow> topic_counts \<Rightarrow> (string \<rightharpoonup> MemberAssignment)"
  assumes sound: "distinct ms \<Longrightarrow> ms \<noteq> [] \<Longrightarrow> counts tp \<Longrightarrow> p \<in> set (parts (assign ms tp) m t) \<Longrightarrow>
      m \<in> set ms \<and> 0 \<le> p \<and> p < partitions_of tp t"
    and complete: "distinct ms \<Longrightarrow> ms \<noteq> [] \<Longrightarrow> counts tp \<Longrightarrow> 0 \<le> p \<Longrightarrow> p < partitions_of tp t \<Longrightarrow>
      \<exists>m. p \<in> set (parts (assign ms tp) m t)"
    and exclusive: "distinct ms \<Longrightarrow> ms \<noteq> [] \<Longrightarrow> counts tp \<Longrightarrow> p \<in> set (parts (assign ms tp) m t) \<Longrightarrow>
      p \<in> set (parts (assign ms tp) m' t) \<Longrightarrow> m = m'"
    and no_repeats: "distinct ms \<Longrightarrow> ms \<noteq> [] \<Longrightarrow> counts tp \<Longrightarrow> distinct (parts (assign ms tp) m t)"
begin

lemma owner_unique:
  assumes "distinct ms" "ms \<noteq> []" "counts tp" "0 \<le> p" "p < partitions_of tp t"
  shows "\<exists>!m. p \<in> set (parts (assign ms tp) m t)"
  using complete [OF assms] exclusive [OF assms(1-3)] by blast

text \<open>Together the members have every partition of a topic once.\<close>

lemma shares_add_up:
  assumes "distinct ms" "ms \<noteq> []" "counts tp" "0 \<le> partitions_of tp t"
  shows "(\<Sum>m \<in> set ms. length (parts (assign ms tp) m t)) = nat (partitions_of tp t)"
proof -
  let ?P = "\<lambda>m. set (parts (assign ms tp) m t)"
  have "(\<Sum>m \<in> set ms. length (parts (assign ms tp) m t)) = (\<Sum>m \<in> set ms. card (?P m))"
    using no_repeats [OF assms(1-3)] by (intro sum.cong) (simp_all add: distinct_card)
  also have "\<dots> = card (\<Union>m \<in> set ms. ?P m)"
    using exclusive [OF assms(1-3)] by (intro card_UN_disjoint [symmetric]) auto
  also have "(\<Union>m \<in> set ms. ?P m) = {0..<partitions_of tp t}"
  proof (intro equalityI subsetI)
    fix p assume "p \<in> (\<Union>m \<in> set ms. ?P m)"
    then show "p \<in> {0..<partitions_of tp t}" using sound [OF assms(1-3)] by fastforce
  next
    fix p assume "p \<in> {0..<partitions_of tp t}"
    then obtain m where "p \<in> ?P m" using complete [OF assms(1-3), of p t] by auto
    then show "p \<in> (\<Union>m \<in> set ms. ?P m)" using sound [OF assms(1-3)] by blast
  qed
  finally show ?thesis by simp
qed

end

section \<open>Range\<close>

text \<open>Member \<open>i\<close> of \<open>k\<close> has the partitions from \<open>bound n k i\<close> up to the next bound.\<close>

definition bound :: "int \<Rightarrow> int \<Rightarrow> int \<Rightarrow> int" where
  "bound n k i = n div k * i + min i (n mod k)"

lemma bound_ends: "0 < k \<Longrightarrow> 0 \<le> n \<Longrightarrow> bound n k 0 = 0 \<and> bound n k k = n"
  using pos_mod_bound [of k n] div_mult_mod_eq [of n k] by (simp add: bound_def)

lemma bound_Suc: "bound n k (i + 1) = bound n k i + (if i < n mod k then n div k + 1 else n div k)"
  by (simp add: bound_def distrib_left min_def)

lemma bound_mono:
  assumes "0 < k" and "0 \<le> n" and "i \<le> j"
  shows "bound n k i \<le> bound n k j"
  unfolding bound_def
proof (rule add_mono)
  show "n div k * i \<le> n div k * j"
    using assms by (intro mult_left_mono) (simp_all add: pos_imp_zdiv_nonneg_iff)
  show "min i (n mod k) \<le> min j (n mod k)" using assms(3) by (rule min.mono) (rule order_refl)
qed

lemma set_range_share:
  assumes "0 < k" and "0 \<le> n" and "n < 2 ^ 31" and "0 \<le> i" and "i < k"
  shows "range_share n k i = [bound n k i..bound n k (i + 1) - 1]"
proof -
  have "bound n k 0 \<le> bound n k i" "bound n k (i + 1) \<le> bound n k k"
    using assms by (auto intro!: bound_mono)
  then have "0 \<le> bound n k i" "bound n k (i + 1) \<le> n" using bound_ends [OF assms(1,2)] by simp_all
  then have "map int32 [bound n k i..bound n k (i + 1) - 1] = [bound n k i..bound n k (i + 1) - 1]"
    using assms(3) by (intro map_idI wrap_s_id) (auto simp: in_s_def)
  moreover have "range_share n k i = map int32 [bound n k i..bound n k (i + 1) - 1]"
    unfolding bound_Suc by (simp add: range_share_def Let_def bound_def)
  ultimately show ?thesis by simp
qed

lemma bound_complete:
  assumes "0 < k" and "0 \<le> n" and "0 \<le> p" and "p < n"
  shows "\<exists>i. 0 \<le> i \<and> i < k \<and> bound n k i \<le> p \<and> p < bound n k (i + 1)"
proof -
  have "p < bound n k (int j) \<Longrightarrow> \<exists>i. 0 \<le> i \<and> i < int j \<and> bound n k i \<le> p \<and> p < bound n k (i + 1)" for j
  proof (induction j)
    case 0
    then show ?case using bound_ends [OF assms(1,2)] assms(3) by simp
  next
    case (Suc j)
    show ?case
    proof (cases "p < bound n k (int j)")
      case True
      from Suc.IH [OF this] obtain i where "0 \<le> i" "i < int j" "bound n k i \<le> p" "p < bound n k (i + 1)" by blast
      then show ?thesis by (intro exI [where x = i]) simp
    next
      case False
      then show ?thesis using Suc.prems by (intro exI [where x = "int j"]) (simp add: add.commute)
    qed
  qed
  from this [of "nat k"] show ?thesis using bound_ends [OF assms(1,2)] assms by simp
qed

lemma bound_exclusive:
  assumes "0 < k" and "0 \<le> n" and "bound n k i \<le> p" "p < bound n k (i + 1)" "bound n k j \<le> p" "p < bound n k (j + 1)"
  shows "i = j"
proof (rule ccontr)
  assume "i \<noteq> j"
  then consider "i + 1 \<le> j" | "j + 1 \<le> i" by linarith
  then show False
    using bound_mono [OF assms(1,2), of "i + 1" j] bound_mono [OF assms(1,2), of "j + 1" i] assms(3-)
    by cases simp_all
qed

lemma grants_to_Nil [simp]: "grants_to m t [] = []"
  by (simp add: grants_to_def)

lemma grants_to_concat: "grants_to m t (concat gss) = concat (map (grants_to m t) gss)"
  by (induction gss) (simp_all add: grants_to_def)

lemma grants_to_map: "grants_to m t (map (\<lambda>p. (m', t', p)) ps) = (if m' = m \<and> t' = t then ps else [])"
  by (simp add: grants_to_def comp_def filter_map)

lemma concat_enumerate_distinct:
  "distinct ms \<Longrightarrow> j < length ms \<Longrightarrow>
     concat (map (\<lambda>(i, m). if m = ms ! j then f i else []) (enumerate n ms)) = f (n + j)"
proof (induction ms arbitrary: n j)
  case (Cons m ms)
  show ?case
  proof (cases j)
    case 0
    have "concat (map (\<lambda>(i, m'). if m' = m then f i else []) (enumerate (Suc n) ms)) = []"
      using Cons.prems(1) by (auto simp: in_set_enumerate_eq)
    then show ?thesis using 0 by simp
  next
    case (Suc j')
    then show ?thesis using Cons.prems Cons.IH [of j' "Suc n"] by (auto simp: nth_mem)
  qed
qed simp

lemma grants_to_range:
  assumes "distinct ms" and "j < length ms" and "0 < partitions_of tp t"
  shows "grants_to (ms ! j) t (range_grants tp ms t') =
    (if t' = t then range_share (partitions_of tp t) (int (length ms)) (int j) else [])"
proof -
  have eq: "(\<lambda>(i, m). grants_to (ms ! j) t (map (\<lambda>p. (m, t', p)) (g i))) =
      (\<lambda>(i, m). if m = ms ! j then if t' = t then g i else [] else [])" for g
    by (auto simp: grants_to_map fun_eq_iff)
  have "concat (map (\<lambda>(i, m). grants_to (ms ! j) t (map (\<lambda>p. (m, t', p)) (g i))) (enumerate 0 ms)) =
      (if t' = t then g j else [])" for g
    unfolding eq
    using concat_enumerate_distinct [OF assms(1,2), of "\<lambda>i. if t' = t then g i else []" 0]
    by (simp only: add_0)
  then show ?thesis
  proof (cases "t' = t")
    case False
    then have "grants_to (ms ! j) t (map (\<lambda>p. (m, t', p)) ps) = []" for m ps by (simp add: grants_to_map)
    then show ?thesis using False by (simp add: range_grants_def grants_to_concat comp_def case_prod_unfold)
  qed (use assms(3) in \<open>simp add: range_grants_def grants_to_concat comp_def case_prod_unfold\<close>)
qed

text \<open>The partitions of the member at position \<open>j\<close> of the sorted members.\<close>

lemma counts_partitions:
  assumes "counts tp"
  shows "partitions_of tp t < 2 ^ 31" and "0 < partitions_of tp t \<Longrightarrow> t \<in> set (map fst tp)"
  using assms by (auto simp: counts_def partitions_of_def split: option.splits dest: map_of_SomeD intro: rev_image_eqI)

lemma parts_range:
  assumes "distinct ms" and "ms \<noteq> []" and "counts tp" and "j < length ms"
  shows "parts (RangeAssignor_Assign ms tp) (sort ms ! j) t =
    (if 0 < partitions_of tp t
     then [bound (partitions_of tp t) (int (length ms)) (int j)..
           bound (partitions_of tp t) (int (length ms)) (int j + 1) - 1]
     else [])"
proof (cases "0 < partitions_of tp t")
  case True
  let ?ts = "sort (map fst tp)" and ?n = "partitions_of tp t"
  have d: "distinct ?ts" "distinct (sort ms)" using assms by (simp_all add: counts_def)
  have "sort ms ! j \<in> set (sort ms)" using assms(4) by (metis length_sort nth_mem)
  then have "parts (RangeAssignor_Assign ms tp) (sort ms ! j) t =
      concat (map (\<lambda>t'. if t' = t then range_share ?n (int (length ms)) (int j) else []) ?ts)"
    using parts_assigned_by [OF d(1)] grants_to_range [OF d(2) _ True, unfolded length_sort] counts_partitions(2) [OF assms(3) True] assms(2,4)
    by (simp add: RangeAssignor_grants grants_to_concat comp_def)
  also have "\<dots> = range_share ?n (int (length ms)) (int j)"
  proof -
    have "distinct xs \<Longrightarrow> t \<in> set xs \<Longrightarrow> concat (map (\<lambda>t'. if t' = t then ys else []) xs) = ys" for xs and ys :: "int list"
      by (induction xs) auto
    then show ?thesis using d(1) counts_partitions(2) [OF assms(3) True] by simp
  qed
  finally show ?thesis using True set_range_share counts_partitions(1) [OF assms(3)] assms(4) by simp
next
  case False
  then have "grants_to m t (range_grants tp (sort ms) t') = []" for m t'
    by (auto simp: range_grants_def grants_to_concat comp_def grants_to_map case_prod_unfold)
  then show ?thesis
    using False assms(2,3) by (simp add: RangeAssignor_grants parts_assigned_by counts_def grants_to_concat comp_def)
qed

lemma parts_range_outside:
  assumes "ms \<noteq> []" and "counts tp" and "m \<notin> set ms"
  shows "parts (RangeAssignor_Assign ms tp) m t = []"
  using assms by (simp add: RangeAssignor_grants parts_assigned_by counts_def)

lemma member_position:
  assumes "m \<in> set ms"
  obtains j where "j < length ms" and "sort ms ! j = m"
  using assms by (metis in_set_conv_nth length_sort set_sort)

lemma parts_range_iff:
  assumes "distinct ms" and "ms \<noteq> []" and "counts tp"
  shows "p \<in> set (parts (RangeAssignor_Assign ms tp) m t) \<longleftrightarrow>
    0 < partitions_of tp t \<and> (\<exists>j < length ms. m = sort ms ! j \<and>
      bound (partitions_of tp t) (int (length ms)) (int j) \<le> p \<and>
      p < bound (partitions_of tp t) (int (length ms)) (int j + 1))"
    (is "?L \<longleftrightarrow> ?R")
proof
  assume l: ?L
  then have "m \<in> set ms" using parts_range_outside [OF assms(2,3), of m t] by (cases "m \<in> set ms") auto
  then obtain j where "j < length ms" "sort ms ! j = m" by (rule member_position)
  then show ?R using l parts_range [OF assms] by (auto split: if_splits)
next
  assume ?R
  then show ?L using parts_range [OF assms] by auto
qed

interpretation range_asg: assignor RangeAssignor_Assign
proof
  fix ms :: "string list" and tp :: topic_counts and p m t
  assume a: "distinct ms" "ms \<noteq> []" "counts tp"
  let ?n = "partitions_of tp t" and ?k = "int (length ms)"
  have k: "0 < ?k" using a(2) by simp
  {
    assume p: "p \<in> set (parts (RangeAssignor_Assign ms tp) m t)"
    then obtain j where j: "0 < ?n" "j < length ms" "m = sort ms ! j" "bound ?n ?k (int j) \<le> p" "p < bound ?n ?k (int j + 1)"
      using parts_range_iff [OF a] by blast
    have "m \<in> set ms" using j(2,3) by (metis length_sort nth_mem set_sort)
    moreover have "0 \<le> p" using bound_mono [OF k, of ?n 0 "int j"] bound_ends [OF k, of ?n] j(1,4) by simp
    moreover have "p < ?n" using bound_mono [OF k, of ?n "int j + 1" ?k] bound_ends [OF k, of ?n] j by simp
    ultimately show "m \<in> set ms \<and> 0 \<le> p \<and> p < ?n" by simp
    fix m' assume "p \<in> set (parts (RangeAssignor_Assign ms tp) m' t)"
    then obtain j' where "m' = sort ms ! j'" "bound ?n ?k (int j') \<le> p" "p < bound ?n ?k (int j' + 1)"
      using parts_range_iff [OF a] by blast
    then show "m = m'" using bound_exclusive [OF k, of ?n "int j" p "int j'"] j by simp
  next
    assume "0 \<le> p" "p < ?n"
    then obtain i where i: "0 \<le> i" "i < ?k" "bound ?n ?k i \<le> p" "p < bound ?n ?k (i + 1)"
      using bound_complete [OF k, of ?n p] by auto
    then have "p \<in> set (parts (RangeAssignor_Assign ms tp) (sort ms ! nat i) t)"
      unfolding parts_range_iff [OF a] using \<open>0 \<le> p\<close> \<open>p < ?n\<close>
      by (intro conjI exI [where x = "nat i"]) simp_all
    then show "\<exists>m. p \<in> set (parts (RangeAssignor_Assign ms tp) m t)" ..
  }
  show "distinct (parts (RangeAssignor_Assign ms tp) m t)"
  proof (cases "m \<in> set ms")
    case True
    then obtain j where "j < length ms" "sort ms ! j = m" by (rule member_position)
    then show ?thesis using parts_range [OF a, of j t] by auto
  qed (simp add: parts_range_outside [OF a(2,3)])
qed

section \<open>Round robin\<close>

lemma set_all_tps: "(t, p) \<in> set (all_tps tp ts) \<longleftrightarrow> t \<in> set ts \<and> 0 \<le> p \<and> p < partitions_of tp t"
  by (auto simp: all_tps_def intro!: bexI [where x = t])

lemma distinct_all_tps:
  assumes "distinct ts"
  shows "distinct (all_tps tp ts)"
  using assms
proof (induction ts)
  case (Cons t ts)
  then have "(t, p) \<notin> set (all_tps tp ts)" for p by (simp add: set_all_tps)
  then show ?case using Cons by (auto simp: all_tps_def distinct_map inj_on_def)
qed (simp add: all_tps_def)

lemma set_rr_grants:
  "(m, t, p) \<in> set (rr_grants tp ms ts) \<longleftrightarrow>
     (\<exists>i < length (all_tps tp ts). all_tps tp ts ! i = (t, p) \<and> m = ms ! (i mod length ms))"
  by (force simp: rr_grants_def in_set_enumerate_eq)

lemma distinct_rr_grants:
  assumes "distinct ts"
  shows "distinct (grants_to m t (rr_grants tp ms ts))"
proof -
  have "map snd (rr_grants tp ms ts) = map snd (enumerate 0 (all_tps tp ts))"
    by (simp add: rr_grants_def comp_def case_prod_unfold)
  then have "distinct (map snd (rr_grants tp ms ts))" using distinct_all_tps [OF assms] by simp
  then have "distinct (rr_grants tp ms ts)" by (simp add: distinct_map)
  then show ?thesis unfolding grants_to_def by (auto simp: distinct_map inj_on_def)
qed

lemma parts_rr:
  assumes "ms \<noteq> []" and "counts tp"
  shows "parts (RoundRobinAssignor_Assign ms tp) m t =
    (if m \<in> set ms \<and> t \<in> set (map fst tp)
     then grants_to m t (rr_grants tp (sort ms) (sort (map fst tp))) else [])"
  using assms by (simp add: RoundRobinAssignor_grants parts_assigned_by counts_def)

lemma parts_rr_iff:
  assumes "ms \<noteq> []" and "counts tp"
  shows "p \<in> set (parts (RoundRobinAssignor_Assign ms tp) m t) \<longleftrightarrow>
    (\<exists>i < length (all_tps tp (sort (map fst tp))).
       all_tps tp (sort (map fst tp)) ! i = (t, p) \<and> m = sort ms ! (i mod length ms))"
    (is "?L \<longleftrightarrow> ?R")
proof
  assume ?L
  then show ?R using parts_rr [OF assms, of m t] by (auto simp: set_grants_to set_rr_grants split: if_splits)
next
  assume ?R
  then obtain i where i: "i < length (all_tps tp (sort (map fst tp)))"
    "all_tps tp (sort (map fst tp)) ! i = (t, p)" "m = sort ms ! (i mod length ms)" by blast
  then have "(t, p) \<in> set (all_tps tp (sort (map fst tp)))" by (metis nth_mem)
  moreover have "m \<in> set ms" using i(3) assms(1) by (metis length_greater_0_conv length_sort mod_less_divisor nth_mem set_sort)
  ultimately show ?L using i parts_rr [OF assms, of m t] by (auto simp: set_grants_to set_rr_grants set_all_tps)
qed

interpretation rr_asg: assignor RoundRobinAssignor_Assign
proof
  fix ms :: "string list" and tp :: topic_counts and p m t
  assume a: "distinct ms" "ms \<noteq> []" "counts tp"
  let ?all = "all_tps tp (sort (map fst tp))"
  note iff = parts_rr_iff [OF a(2,3)]
  {
    assume p: "p \<in> set (parts (RoundRobinAssignor_Assign ms tp) m t)"
    then obtain i where i: "i < length ?all" "?all ! i = (t, p)" "m = sort ms ! (i mod length ms)"
      using iff by blast
    have "(t, p) \<in> set ?all" using i(1,2) by (metis nth_mem)
    moreover have "m \<in> set ms" using p parts_rr [OF a(2,3), of m t] by (cases "m \<in> set ms") auto
    ultimately show "m \<in> set ms \<and> 0 \<le> p \<and> p < partitions_of tp t" by (simp add: set_all_tps)
    fix m' assume "p \<in> set (parts (RoundRobinAssignor_Assign ms tp) m' t)"
    then obtain i' where "i' < length ?all" "?all ! i' = (t, p)" "m' = sort ms ! (i' mod length ms)"
      using iff by blast
    moreover have "distinct ?all" using a(3) by (intro distinct_all_tps) (simp add: counts_def)
    ultimately show "m = m'" using i by (metis nth_eq_iff_index_eq)
  next
    assume "0 \<le> p" "p < partitions_of tp t"
    then have "(t, p) \<in> set ?all" using counts_partitions(2) [OF a(3), of t] by (simp add: set_all_tps)
    then show "\<exists>m. p \<in> set (parts (RoundRobinAssignor_Assign ms tp) m t)"
      unfolding iff by (auto simp: in_set_conv_nth)
  }
  have "distinct (sort (map fst tp))" using a(3) by (simp add: counts_def)
  then show "distinct (parts (RoundRobinAssignor_Assign ms tp) m t)"
    using parts_rr [OF a(2,3), of m t] distinct_rr_grants by simp
qed

section \<open>Balance\<close>

text \<open>The number of partitions a member has in all topics.\<close>

definition load :: "(string \<rightharpoonup> MemberAssignment) \<Rightarrow> string \<Rightarrow> nat" where
  "load asg m = (case asg m of None \<Rightarrow> 0 | Some ma \<Rightarrow> sum_list (map (length \<circ> pa_Partitions) (ma_Topics ma)))"

lemma range_balanced:
  assumes "distinct ms" and "ms \<noteq> []" and "counts tp" and "m \<in> set ms" and "0 \<le> partitions_of tp t"
  shows "int (length (parts (RangeAssignor_Assign ms tp) m t)) - partitions_of tp t div int (length ms) \<in> {0, 1}"
proof -
  obtain j where "j < length ms" "sort ms ! j = m" using assms(4) by (rule member_position)
  moreover have "0 \<le> partitions_of tp t div int (length ms)"
    using assms(2,5) by (simp add: pos_imp_zdiv_nonneg_iff)
  ultimately show ?thesis using parts_range [OF assms(1-3), of j t] assms(5) by (auto simp: bound_Suc)
qed

lemma sum_filter_nonempty:
  "sum_list (map (\<lambda>t. length (f t)) (filter (\<lambda>t. f t \<noteq> []) ts)) = sum_list (map (\<lambda>t. length (f t)) ts)"
  by (induction ts) auto

lemma sum_grants_to:
  assumes "distinct ts" and "\<forall>(m, t, p) \<in> set gs. t \<in> set ts"
  shows "sum_list (map (\<lambda>t. length (grants_to m t gs)) ts) = length (filter (\<lambda>g. fst g = m) gs)"
  using assms(2)
proof (induction gs)
  case (Cons g gs)
  obtain m' t' p where g: "g = (m', t', p)" by (cases g) auto
  have "(\<lambda>t. length (grants_to m t (g # gs))) =
      (\<lambda>t. length (grants_to m t gs) + (if m' = m \<and> t' = t then 1 else 0))"
    by (auto simp: g grants_to_def)
  moreover have "sum_list (map (\<lambda>t. if m' = m \<and> t' = t then 1 else 0) ts) = (if m' = m then 1 else 0 :: nat)"
    using Cons.prems assms(1) g
    by (auto simp: sum_list_distinct_conv_sum_set)
  ultimately show ?case using Cons by (simp add: g sum_list_addf)
qed simp

lemma load_assigned_by:
  assumes "distinct ts" and "\<forall>(m, t, p) \<in> set gs. t \<in> set ts" and "m \<in> set ms"
  shows "load (assigned_by gs ts ms) m = length (filter (\<lambda>g. fst g = m) gs)"
  using sum_grants_to [OF assms(1,2), of m] sum_filter_nonempty [of "\<lambda>t. grants_to m t gs" ts] assms(3)
  by (simp add: load_def assigned_by_def collect_result_lookup member_result_def comp_def)

lemma count_residues:
  assumes "j < k"
  shows "length (filter (\<lambda>i. i mod k = j) [0..<n]) = n div k + (if j < n mod k then 1 else 0)"
proof (induction n)
  case (Suc n)
  have "n mod k < k" using assms by simp
  then show ?case using Suc assms by (auto simp: div_Suc mod_Suc)
qed simp

lemma rr_balanced:
  assumes "distinct ms" and "ms \<noteq> []" and "counts tp" and "m \<in> set ms"
  shows "load (RoundRobinAssignor_Assign ms tp) m - length (all_tps tp (sort (map fst tp))) div length ms \<in> {0, 1} \<and>
         length (all_tps tp (sort (map fst tp))) div length ms \<le> load (RoundRobinAssignor_Assign ms tp) m"
proof -
  let ?ts = "sort (map fst tp)" and ?all = "all_tps tp (sort (map fst tp))"
  have d: "distinct ?ts" "distinct (sort ms)" using assms by (simp_all add: counts_def)
  obtain j where j: "j < length ms" "sort ms ! j = m" using assms(4) by (rule member_position)
  have "\<forall>(m, t, p) \<in> set (rr_grants tp (sort ms) ?ts). t \<in> set ?ts"
    using set_all_tps [of _ _ tp ?ts] by (auto simp: rr_grants_def in_set_enumerate_eq) (metis nth_mem)
  then have "load (RoundRobinAssignor_Assign ms tp) m = length (filter (\<lambda>g. fst g = m) (rr_grants tp (sort ms) ?ts))"
    unfolding RoundRobinAssignor_grants [OF assms(2)] using d assms(4) by (intro load_assigned_by) simp_all
  also have "\<dots> = length (filter (\<lambda>i. sort ms ! (i mod length ms) = m) (map fst (enumerate 0 ?all)))"
    by (simp add: rr_grants_def filter_map comp_def case_prod_unfold del: map_fst_enumerate)
  also have "\<dots> = length (filter (\<lambda>i. i mod length ms = j) [0..<length ?all])"
    using j d(2) assms(2) by (auto simp: nth_eq_iff_index_eq intro!: arg_cong [where f = length] filter_cong)
  finally show ?thesis using count_residues [OF j(1), of "length ?all"] by auto
qed

section \<open>Round trip of an assignment\<close>

lemma decodes_PartitionAssignment:
  assumes "wf_PartitionAssignment t"
  shows "decodes (PartitionAssignment_Encode t) PartitionAssignment_Decode t"
proof -
  note wf = assms [unfolded wf_PartitionAssignment_def]
  have "decodes (seqW (map PutInt32 (pa_Partitions t))) (repeatR (length (pa_Partitions t)) Int32) (pa_Partitions t)"
    using wf by (intro decodes_repeat decodes_ints) auto
  then have "decodes (seqW (map PutInt32 (pa_Partitions t)))
      (bindR (repeatR (length (pa_Partitions t)) Int32) (\<lambda>ps. returnR \<lparr>pa_Topic = pa_Topic t, pa_Partitions = ps\<rparr>)) t"
    by (rule decodes_map) (rule arg_cong [where f = returnR], simp)
  moreover have "decodes (PutArrayHeader (int (length (pa_Partitions t)))) ArrayHeader (int (length (pa_Partitions t)))"
    using wf by (intro decodes_array_header) simp_all
  ultimately have "decodes (seqW [PutArray PutInt32 (pa_Partitions t)])
      (bindR ArrayHeader (\<lambda>pCount.
         if pCount < 0 then failR (Panic ''makeslice: len out of range'')
         else bindR (repeatR (nat pCount) Int32) (\<lambda>ps. returnR \<lparr>pa_Topic = pa_Topic t, pa_Partitions = ps\<rparr>))) t"
    unfolding PutArray_def
    by (intro decodes_last decodes_bind [where a = "int (length (pa_Partitions t))"]) simp_all
  then show ?thesis
    unfolding PartitionAssignment_Encode_def PartitionAssignment_Decode_def
    using wf by (intro decodes_bind [where a = "pa_Topic t"] decodes_string) simp_all
qed

lemma Assignment_roundtrip:
  assumes "wf_MemberAssignment ma"
  shows "\<exists>bs. EncodeAssignment ma = Inr bs \<and> DecodeAssignment bs = Inr ma"
proof -
  note wf = assms [unfolded wf_MemberAssignment_def]
  let ?n = "length (ma_Topics ma)"
  let ?m = "bindR ArrayHeader (\<lambda>tCount.
      if tCount < 0 then returnR \<lparr>ma_Topics = []\<rparr>
      else bindR (repeatR (nat tCount) PartitionAssignment_Decode) (\<lambda>topics. returnR \<lparr>ma_Topics = topics\<rparr>))"
  have "decodes (seqW (map PartitionAssignment_Encode (ma_Topics ma))) (repeatR ?n PartitionAssignment_Decode) (ma_Topics ma)"
    using wf by (intro decodes_repeat decodes_PartitionAssignment) auto
  then have "decodes (seqW (map PartitionAssignment_Encode (ma_Topics ma)))
      (bindR (repeatR ?n PartitionAssignment_Decode) (\<lambda>topics. returnR \<lparr>ma_Topics = topics\<rparr>)) ma"
    by (rule decodes_map) (rule arg_cong [where f = returnR], simp)
  moreover have "decodes (PutArrayHeader (int ?n)) ArrayHeader (int ?n)"
    using wf by (intro decodes_array_header) simp_all
  ultimately have "decodes (EncodeAssignment ma) ?m ma"
    unfolding EncodeAssignment_def PutArray_def by (intro decodes_bind [where a = "int ?n"]) simp_all
  then obtain bs where enc: "EncodeAssignment ma = Inr bs" and "\<forall>rest. ?m (bs @ rest) = Inr (ma, rest)"
    unfolding decodes_def by blast
  from this(2) have dec: "?m bs = Inr (ma, [])" by (drule_tac x = "[]" in spec) simp
  have "?m [] = Inl EOF" by (simp add: bindR_def ArrayHeader_def Int32_def read_int_def ReadFull_def)
  then have "bs \<noteq> []" using dec by auto
  then show ?thesis using enc dec by (simp add: DecodeAssignment_def)
qed

section \<open>Properties\<close>

text \<open>
  C23: Whatever strategy the group leader looks up, its assignment gives every partition of every topic to
  exactly one of the members, gives out no partition that does not exist, and lists no partition twice; so
  the shares of the members add up to the topic.
\<close>

theorem Assign_exactly_once:
  assumes "GetAssignor name = Inr a" and "distinct ms" and "ms \<noteq> []" and "counts tp"
  shows "(\<forall>t p. 0 \<le> p \<longrightarrow> p < partitions_of tp t \<longrightarrow> (\<exists>!m. p \<in> set (parts (Assign a ms tp) m t))) \<and>
         (\<forall>m t. \<forall>p \<in> set (parts (Assign a ms tp) m t). m \<in> set ms \<and> 0 \<le> p \<and> p < partitions_of tp t) \<and>
         (\<forall>t. 0 \<le> partitions_of tp t \<longrightarrow>
            (\<Sum>m \<in> set ms. length (parts (Assign a ms tp) m t)) = nat (partitions_of tp t))"
proof (cases a)
  case RangeAssignor
  then show ?thesis
    using range_asg.owner_unique range_asg.sound range_asg.shares_add_up assms(2-4) by simp
next
  case RoundRobinAssignor
  then show ?thesis
    using rr_asg.owner_unique rr_asg.sound rr_asg.shares_add_up assms(2-4) by simp
qed

definition demo_counts :: topic_counts where
  "demo_counts = [(''orders'', 5), (''audit'', 2)]"

lemma demo_counts_ok: "counts demo_counts" "partitions_of demo_counts ''orders'' = 5"
  by (simp_all add: counts_def demo_counts_def partitions_of_def)

theorem Assign_exactly_once_witness:
  "(\<exists>!m. 3 \<in> set (parts (Assign RoundRobinAssignor [''b'', ''a''] demo_counts) m ''orders'')) \<and>
   (\<Sum>m \<in> {''b'', ''a''}. length (parts (Assign RoundRobinAssignor [''b'', ''a''] demo_counts) m ''orders'')) = 5"
proof -
  have "GetAssignor ''roundrobin'' = Inr RoundRobinAssignor" "distinct [''b'', ''a'']" "[''b'', ''a''] \<noteq> []"
    by (simp_all add: GetAssignor_def)
  note once = Assign_exactly_once [OF this demo_counts_ok(1)]
  show ?thesis
  proof
    show "\<exists>!m. 3 \<in> set (parts (Assign RoundRobinAssignor [''b'', ''a''] demo_counts) m ''orders'')"
      by (rule once [THEN conjunct1, rule_format]) (simp, simp add: demo_counts_ok(2))
    have "(\<Sum>m \<in> set [''b'', ''a'']. length (parts (Assign RoundRobinAssignor [''b'', ''a''] demo_counts) m ''orders''))
        = nat (partitions_of demo_counts ''orders'')"
      by (rule once [THEN conjunct2, THEN conjunct2, rule_format]) (simp add: demo_counts_ok(2))
    then show "(\<Sum>m \<in> {''b'', ''a''}. length (parts (Assign RoundRobinAssignor [''b'', ''a''] demo_counts) m ''orders'')) = 5"
      by (simp only: list.set demo_counts_ok(2) nat_numeral)
  qed
qed

text \<open>
  C24: The assignments are balanced. With the range strategy the shares of a topic differ by at most one
  between members; with round robin the total numbers of partitions of the members do.
\<close>

theorem Assign_balanced:
  assumes "distinct ms" and "ms \<noteq> []" and "counts tp" and "m \<in> set ms" and "0 \<le> partitions_of tp t"
  shows "int (length (parts (RangeAssignor_Assign ms tp) m t)) - partitions_of tp t div int (length ms) \<in> {0, 1} \<and>
         load (RoundRobinAssignor_Assign ms tp) m - length (all_tps tp (sort (map fst tp))) div length ms \<in> {0, 1} \<and>
         length (all_tps tp (sort (map fst tp))) div length ms \<le> load (RoundRobinAssignor_Assign ms tp) m"
  using range_balanced [OF assms] rr_balanced [OF assms(1-4)] by blast

theorem Assign_balanced_witness:
  "int (length (parts (RangeAssignor_Assign [''b'', ''a''] demo_counts) ''a'' ''orders'')) - 2 \<in> {0, 1}"
  using Assign_balanced [of "[''b'', ''a'']" demo_counts "''a''" "''orders''"] demo_counts_ok by simp

text \<open>
  A member decodes from its SyncGroup response the assignment that the group leader encoded for it.
\<close>

lemma EncodeAssignment_roundtrip:
  assumes "wf_MemberAssignment ma"
  shows "\<exists>bs. EncodeAssignment ma = Inr bs \<and> DecodeAssignment bs = Inr ma"
  using assms by (rule Assignment_roundtrip)

lemma EncodeAssignment_roundtrip_witness:
  "\<exists>bs. EncodeAssignment \<lparr>ma_Topics = [\<lparr>pa_Topic = ''t'', pa_Partitions = [0, 2]\<rparr>]\<rparr> = Inr bs \<and>
        DecodeAssignment bs = Inr \<lparr>ma_Topics = [\<lparr>pa_Topic = ''t'', pa_Partitions = [0, 2]\<rparr>]\<rparr>"
  by (rule EncodeAssignment_roundtrip)
     (simp add: wf_MemberAssignment_def wf_PartitionAssignment_def MaxInt16_def MaxInt32_def in_s_def)

text \<open>
  The decoder of assignments fails on a negative count of partitions with a run-time panic instead of
  returning an error or an empty list, unlike for a negative count of topics.
\<close>

lemma DecodeAssignment_panics:
  "DecodeAssignment (be_put 4 1 @ be_put 2 0 @ be_put 4 (-1)) = Inl (Panic ''makeslice: len out of range'') \<and>
   DecodeAssignment (be_put 4 (-1)) = Inr \<lparr>ma_Topics = []\<rparr>"
proof -
  have "Int32 (be_put 4 x @ bs) = Inr (x, bs)" if "in_s 32 x" for x bs
    using decodes_ints(3) [OF that] by (simp add: decodes_def PutInt32_def)
  note int32 = this
  have "Int16 (be_put 2 x @ bs) = Inr (x, bs)" if "in_s 16 x" for x bs
    using decodes_ints(2) [OF that] by (simp add: decodes_def PutInt16_def)
  note int16 = this
  have ne: "be_put 4 x @ bs \<noteq> []" "be_put 4 x \<noteq> []" for x bs
    by (metis append_is_Nil_conv length_be_put list.size(3) zero_neq_numeral)+
  have bounds: "in_s 32 1" "in_s 32 (- 1)" "in_s 16 0" by (simp_all add: in_s_def)
  show ?thesis
    using ne int32 [OF bounds(1)] int32 [OF bounds(2), of "[]"] int16 [OF bounds(3)]
    by (simp add: DecodeAssignment_def PartitionAssignment_Decode_def bindR_def ArrayHeader_def String_def
        returnR_def failR_def MaxArrayElements_def MaxInt32_def)
qed

end
