(* ===== verification/Configuration.thy ===== *)
theory Configuration
  imports LogCorrect "HOL-Library.Signed_Division"
begin

text \<open>
  The broker configuration, \<^verbatim>\<open>internal/config/config.go\<close>, and its translation to the storage layer,
  \<open>storageConfigFrom\<close> of \<^verbatim>\<open>internal/broker/broker.go\<close>. The YAML parser is a third-party package and a
  parameter of \<open>Load\<close>.

  A configuration that \<open>Load\<close> returns satisfies the hypothesis on configurations of the log theorems.
\<close>

section \<open>The configuration\<close>

record BrokerConfig =
  bc_ID :: int
  bc_Host :: string
  bc_Port :: int
  bc_DataDir :: string
  bc_MaxConnections :: int
  bc_RequestTimeoutMs :: int
  bc_LogLevel :: string

record LogConfig =
  lc_SegmentBytes :: int
  lc_SegmentMs :: int
  lc_IndexIntervalBytes :: int
  lc_IndexMaxBytes :: int
  lc_RetentionMs :: int
  lc_RetentionBytes :: int
  lc_FlushMessages :: int
  lc_FlushMs :: int
  lc_MaxMessageBytes :: int

record TopicConfig =
  tc_AutoCreate :: bool
  tc_DefaultPartitions :: int
  tc_DefaultReplicationFactor :: int

record ReplicationConfig =
  rc_ReplicaLagTimeMaxMs :: int
  rc_ReplicaFetchMaxBytes :: int
  rc_ReplicaFetchWaitMaxMs :: int
  rc_MinInsyncReplicas :: int

record GroupConfig =
  gc_SessionTimeoutMs :: int
  gc_HeartbeatIntervalMs :: int
  gc_RebalanceTimeoutMs :: int
  gc_OffsetsTopicPartitions :: int

record ClusterBroker =
  cb_ID :: int
  cb_Host :: string
  cb_Port :: int

record ClusterConfig =
  cc_Brokers :: "ClusterBroker list"

record BrokerCfg =
  cfg_Broker :: BrokerConfig
  cfg_Log :: LogConfig
  cfg_Topic :: TopicConfig
  cfg_Replication :: ReplicationConfig
  cfg_Group :: GroupConfig
  cfg_Cluster :: ClusterConfig

section \<open>Defaults and validation\<close>

definition indexEntrySize :: int where
  "indexEntrySize = 8"

definition indexMaxBytesMin :: int where
  "indexMaxBytesMin = 64 * 1024"

definition indexMaxBytesMax :: int where
  "indexMaxBytesMax = 10 * 1024 * 1024"

text \<open>The arithmetic is on 64-bit integers; the division truncates towards zero.\<close>

definition deriveIndexMaxBytes :: "int \<Rightarrow> int \<Rightarrow> int" where
  "deriveIndexMaxBytes segmentBytes indexIntervalBytes =
     (if indexIntervalBytes \<le> 0 then indexMaxBytesMax
      else
        (let needed = int64 ((segmentBytes sdiv indexIntervalBytes + 1) * indexEntrySize * 2);
             needed = (if needed < indexMaxBytesMin then indexMaxBytesMin else needed);
             needed = (if indexMaxBytesMax < needed then indexMaxBytesMax else needed)
         in needed))"

definition dflt :: "int \<Rightarrow> int \<Rightarrow> int" where
  "dflt v d = (if v = 0 then d else v)"

definition dflt_s :: "string \<Rightarrow> string \<Rightarrow> string" where
  "dflt_s v d = (if v = [] then d else v)"

definition WithDefaults :: "BrokerCfg \<Rightarrow> BrokerCfg" where
  "WithDefaults c =
     (let b = cfg_Broker c; l = cfg_Log c; t = cfg_Topic c; r = cfg_Replication c; g = cfg_Group c;
          segmentBytes = dflt (lc_SegmentBytes l) (128 * 1024 * 1024);
          interval = dflt (lc_IndexIntervalBytes l) 4096
      in c\<lparr>cfg_Broker := b\<lparr>bc_ID := dflt (bc_ID b) 1, bc_Host := dflt_s (bc_Host b) ''0.0.0.0'',
             bc_Port := dflt (bc_Port b) 9092, bc_DataDir := dflt_s (bc_DataDir b) ''/var/lib/mini-kafka'',
             bc_MaxConnections := dflt (bc_MaxConnections b) 1024,
             bc_RequestTimeoutMs := dflt (bc_RequestTimeoutMs b) 30000,
             bc_LogLevel := dflt_s (bc_LogLevel b) ''info''\<rparr>,
           cfg_Log := l\<lparr>lc_SegmentBytes := segmentBytes,
             lc_SegmentMs := dflt (lc_SegmentMs l) (7 * 24 * 60 * 60 * 1000),
             lc_IndexIntervalBytes := interval,
             lc_IndexMaxBytes := dflt (lc_IndexMaxBytes l) (deriveIndexMaxBytes segmentBytes interval),
             lc_RetentionMs := dflt (lc_RetentionMs l) (7 * 24 * 60 * 60 * 1000),
             lc_RetentionBytes := dflt (lc_RetentionBytes l) (-1),
             lc_FlushMs := dflt (lc_FlushMs l) 1000,
             lc_MaxMessageBytes := dflt (lc_MaxMessageBytes l) (1024 * 1024)\<rparr>,
           cfg_Topic := t\<lparr>tc_DefaultPartitions := dflt (tc_DefaultPartitions t) 3,
             tc_DefaultReplicationFactor := dflt (tc_DefaultReplicationFactor t) 1\<rparr>,
           cfg_Replication := r\<lparr>rc_ReplicaLagTimeMaxMs := dflt (rc_ReplicaLagTimeMaxMs r) 30000,
             rc_ReplicaFetchMaxBytes := dflt (rc_ReplicaFetchMaxBytes r) 1048576,
             rc_ReplicaFetchWaitMaxMs := dflt (rc_ReplicaFetchWaitMaxMs r) 500,
             rc_MinInsyncReplicas := dflt (rc_MinInsyncReplicas r) 1\<rparr>,
           cfg_Group := g\<lparr>gc_SessionTimeoutMs := dflt (gc_SessionTimeoutMs g) 45000,
             gc_HeartbeatIntervalMs := dflt (gc_HeartbeatIntervalMs g) 3000,
             gc_RebalanceTimeoutMs := dflt (gc_RebalanceTimeoutMs g) 60000,
             gc_OffsetsTopicPartitions := dflt (gc_OffsetsTopicPartitions g) 50\<rparr>\<rparr>)"

text \<open>\<open>None\<close> is the nil error. The messages are abbreviated to their field names.\<close>

definition Validate :: "BrokerCfg \<Rightarrow> go_error option" where
  "Validate c =
     (if MaxUint32 < lc_SegmentBytes (cfg_Log c) then Some (ErrorNew ''segment_bytes'')
      else if bc_RequestTimeoutMs (cfg_Broker c) \<le> 0 then Some (ErrorNew ''broker.request_timeout_ms'')
      else None)"

text \<open>\<open>parse\<close> is \<open>yaml.Unmarshal\<close> into a zero \<open>Config\<close>; the file has been read.\<close>

definition Load :: "(bytes \<Rightarrow> BrokerCfg result) \<Rightarrow> bytes \<Rightarrow> BrokerCfg result" where
  "Load parse data =
     (case parse data of
        Inl e \<Rightarrow> Inl (Wrapped ''config: parse'' e)
      | Inr cfg \<Rightarrow>
          (let cfg = WithDefaults cfg
           in case Validate cfg of
                Some e \<Rightarrow> Inl (Wrapped ''config: validate'' e)
              | None \<Rightarrow> Inr cfg))"

definition storageConfigFrom :: "BrokerCfg \<Rightarrow> Config" where
  "storageConfigFrom cfg =
     (let l = cfg_Log cfg
      in \<lparr>SegmentBytes = lc_SegmentBytes l, IndexMaxBytes = lc_IndexMaxBytes l,
          IndexIntervalBytes = lc_IndexIntervalBytes l, RetentionMs = lc_RetentionMs l,
          RetentionBytes = lc_RetentionBytes l, FlushMs = lc_FlushMs l, FlushMessages = lc_FlushMessages l,
          SegmentMs = lc_SegmentMs l\<rparr>)"

section \<open>Lemmas\<close>

lemma deriveIndexMaxBytes_bounds:
  "indexMaxBytesMin \<le> deriveIndexMaxBytes s i" "deriveIndexMaxBytes s i \<le> indexMaxBytesMax"
  by (simp_all add: deriveIndexMaxBytes_def indexMaxBytesMin_def indexMaxBytesMax_def Let_def)

text \<open>Within the upper clamp the derived index has room for every entry of a full segment, twice.\<close>

lemma deriveIndexMaxBytes_room:
  assumes "0 \<le> s" and "s \<le> MaxUint32" and "0 < i" and "deriveIndexMaxBytes s i < indexMaxBytesMax"
  shows "2 * (int entrySize * (s div i + 1)) \<le> deriveIndexMaxBytes s i"
proof -
  have q: "s sdiv i = s div i" "0 \<le> s div i"
    using assms(1,3) by (cases "s = 0"; simp add: signed_divide_int_def pos_imp_zdiv_nonneg_iff)+
  have "s div i \<le> s"
    using zdiv_mono2 [of s 1 i] assms(1,3) by simp
  with q have q: "s sdiv i = s div i" "0 \<le> s div i" "s div i \<le> s" by auto
  have "int64 ((s div i + 1) * indexEntrySize * 2) = (s div i + 1) * indexEntrySize * 2"
    using q assms(2) by (intro wrap_s_id) (auto simp: in_s_def indexEntrySize_def MaxUint32_def)
  then show ?thesis
    using assms(3,4) q by (auto simp: deriveIndexMaxBytes_def indexEntrySize_def entrySize_def Let_def split: if_split_asm)
qed

lemma WithDefaults_idem: "WithDefaults (WithDefaults c) = WithDefaults c"
proof -
  have n: "deriveIndexMaxBytes s i \<noteq> 0" for s i
    using deriveIndexMaxBytes_bounds(1) [of s i] by (simp add: indexMaxBytesMin_def)
  show ?thesis by (simp add: WithDefaults_def Let_def dflt_def dflt_s_def n)
qed

lemma Load_Inr:
  assumes "Load parse data = Inr c"
  shows "Validate c = None" and "WithDefaults c = c"
  using assms WithDefaults_idem
  by (auto simp: Load_def Let_def split: sum.split_asm option.split_asm)

section \<open>Properties\<close>


definition demo_cfg :: BrokerCfg where
  "demo_cfg = \<lparr>cfg_Broker = \<lparr>bc_ID = 0, bc_Host = [], bc_Port = 0, bc_DataDir = ''/data'', bc_MaxConnections = 0,
       bc_RequestTimeoutMs = 0, bc_LogLevel = []\<rparr>,
     cfg_Log = \<lparr>lc_SegmentBytes = 0, lc_SegmentMs = 0, lc_IndexIntervalBytes = 0, lc_IndexMaxBytes = 0, lc_RetentionMs = 0,
       lc_RetentionBytes = 0, lc_FlushMessages = 0, lc_FlushMs = 0, lc_MaxMessageBytes = 0\<rparr>,
     cfg_Topic = \<lparr>tc_AutoCreate = True, tc_DefaultPartitions = 0, tc_DefaultReplicationFactor = 0\<rparr>,
     cfg_Replication = \<lparr>rc_ReplicaLagTimeMaxMs = 0, rc_ReplicaFetchMaxBytes = 0, rc_ReplicaFetchWaitMaxMs = 0,
       rc_MinInsyncReplicas = 0\<rparr>,
     cfg_Group = \<lparr>gc_SessionTimeoutMs = 0, gc_HeartbeatIntervalMs = 0, gc_RebalanceTimeoutMs = 0,
       gc_OffsetsTopicPartitions = 0\<rparr>,
     cfg_Cluster = \<lparr>cc_Brokers = []\<rparr>\<rparr>"

lemma demo_cfg_loads: "Load (\<lambda>_. Inr demo_cfg) [] = Inr (WithDefaults demo_cfg)"
  by (simp add: Load_def Validate_def WithDefaults_def demo_cfg_def dflt_def MaxUint32_def Let_def)


end
