(* ===== verification/Requests.thy ===== *)
theory Requests
  imports Codec
begin

text \<open>
  The request bodies, \<^verbatim>\<open>internal/protocol/requests.go\<close>: for each message its record, \<open>Encode\<close>,
  \<open>Decode\<close> and the messages that can be sent (\<open>wf\<close>: the integers have their widths, strings and byte
  sequences their limits, and arrays at most the 100000 elements that a decoder of requests accepts).
  Every message type is an interpretation of the locale \<open>codec\<close>.
\<close>

section \<open>ProduceRequest\<close>

record ProduceRequestPartition =
  prp_PartitionID :: int
  prp_RecordSet :: bytes

definition ProduceRequestPartition_Encode :: "ProduceRequestPartition \<Rightarrow> bytes result" where
  "ProduceRequestPartition_Encode r =
     seqW [PutInt32 (prp_PartitionID r),
           PutBytes (prp_RecordSet r)]"

definition ProduceRequestPartition_Decode :: "ProduceRequestPartition reader" where
  "ProduceRequestPartition_Decode =
     bindR Int32 (\<lambda>vPartitionID.
     bindR Bytes (\<lambda>vRecordSet.
     returnR \<lparr>prp_PartitionID = vPartitionID, prp_RecordSet = vRecordSet\<rparr>))"

definition wf_ProduceRequestPartition :: "ProduceRequestPartition \<Rightarrow> bool" where
  "wf_ProduceRequestPartition r \<longleftrightarrow>
     in_s 32 (prp_PartitionID r) \<and>
     int (length (prp_RecordSet r)) \<le> MaxBytesLength"

lemma decodes_ProduceRequestPartition [codec_intros]:
  "wf_ProduceRequestPartition r \<Longrightarrow> decodes (ProduceRequestPartition_Encode r) ProduceRequestPartition_Decode r"
  unfolding ProduceRequestPartition_Encode_def ProduceRequestPartition_Decode_def wf_ProduceRequestPartition_def
  by (rule codec_intros | simp)+

lemma reads_ProduceRequestPartition [reads_intros]: "reads ProduceRequestPartition_Decode wf_ProduceRequestPartition"
  unfolding ProduceRequestPartition_Decode_def
  by ((rule reads_bind, (rule reads_intros)+)+, rule reads_return, simp add: wf_ProduceRequestPartition_def)

record ProduceRequestTopic =
  prt_Name :: string
  prt_Partitions :: "ProduceRequestPartition list"

definition ProduceRequestTopic_Encode :: "ProduceRequestTopic \<Rightarrow> bytes result" where
  "ProduceRequestTopic_Encode r =
     seqW [PutString (prt_Name r),
           PutArray ProduceRequestPartition_Encode (prt_Partitions r)]"

definition ProduceRequestTopic_Decode :: "ProduceRequestTopic reader" where
  "ProduceRequestTopic_Decode =
     bindR String (\<lambda>vName.
     bindR (GetArray ReadArrayHeader ProduceRequestPartition_Decode) (\<lambda>vPartitions.
     returnR \<lparr>prt_Name = vName, prt_Partitions = vPartitions\<rparr>))"

definition wf_ProduceRequestTopic :: "ProduceRequestTopic \<Rightarrow> bool" where
  "wf_ProduceRequestTopic r \<longleftrightarrow>
     int (length (prt_Name r)) \<le> MaxInt16 \<and>
     int (length (prt_Partitions r)) \<le> 100000 \<and> (\<forall>y \<in> set (prt_Partitions r). wf_ProduceRequestPartition y)"

lemma decodes_ProduceRequestTopic [codec_intros]:
  "wf_ProduceRequestTopic r \<Longrightarrow> decodes (ProduceRequestTopic_Encode r) ProduceRequestTopic_Decode r"
  unfolding ProduceRequestTopic_Encode_def ProduceRequestTopic_Decode_def wf_ProduceRequestTopic_def
  by (rule codec_intros | simp)+

lemma reads_ProduceRequestTopic [reads_intros]: "reads ProduceRequestTopic_Decode wf_ProduceRequestTopic"
  unfolding ProduceRequestTopic_Decode_def
  by ((rule reads_bind, (rule reads_intros)+)+, rule reads_return, simp add: wf_ProduceRequestTopic_def)

record ProduceRequest =
  pr_Acks :: int
  pr_TimeoutMs :: int
  pr_Topics :: "ProduceRequestTopic list"

definition ProduceRequest_Encode :: "ProduceRequest \<Rightarrow> bytes result" where
  "ProduceRequest_Encode r =
     seqW [PutInt16 (pr_Acks r),
           PutInt32 (pr_TimeoutMs r),
           PutArray ProduceRequestTopic_Encode (pr_Topics r)]"

definition ProduceRequest_Decode :: "ProduceRequest reader" where
  "ProduceRequest_Decode =
     bindR Int16 (\<lambda>vAcks.
     bindR Int32 (\<lambda>vTimeoutMs.
     bindR (GetArray ReadArrayHeader ProduceRequestTopic_Decode) (\<lambda>vTopics.
     returnR \<lparr>pr_Acks = vAcks, pr_TimeoutMs = vTimeoutMs, pr_Topics = vTopics\<rparr>)))"

definition wf_ProduceRequest :: "ProduceRequest \<Rightarrow> bool" where
  "wf_ProduceRequest r \<longleftrightarrow>
     in_s 16 (pr_Acks r) \<and>
     in_s 32 (pr_TimeoutMs r) \<and>
     int (length (pr_Topics r)) \<le> 100000 \<and> (\<forall>y \<in> set (pr_Topics r). wf_ProduceRequestTopic y)"

lemma decodes_ProduceRequest [codec_intros]:
  "wf_ProduceRequest r \<Longrightarrow> decodes (ProduceRequest_Encode r) ProduceRequest_Decode r"
  unfolding ProduceRequest_Encode_def ProduceRequest_Decode_def wf_ProduceRequest_def
  by (rule codec_intros | simp)+

lemma reads_ProduceRequest [reads_intros]: "reads ProduceRequest_Decode wf_ProduceRequest"
  unfolding ProduceRequest_Decode_def
  by ((rule reads_bind, (rule reads_intros)+)+, rule reads_return, simp add: wf_ProduceRequest_def)

interpretation produce_request: strict_codec ProduceRequest_Encode ProduceRequest_Decode wf_ProduceRequest
  by unfold_locales (rule decodes_ProduceRequest reads_ProduceRequest; assumption?)+

section \<open>FetchRequest\<close>

record FetchRequestPartition =
  frp_PartitionID :: int
  frp_FetchOffset :: int
  frp_MaxBytes :: int

definition FetchRequestPartition_Encode :: "FetchRequestPartition \<Rightarrow> bytes result" where
  "FetchRequestPartition_Encode r =
     seqW [PutInt32 (frp_PartitionID r),
           PutInt64 (frp_FetchOffset r),
           PutInt32 (frp_MaxBytes r)]"

definition FetchRequestPartition_Decode :: "FetchRequestPartition reader" where
  "FetchRequestPartition_Decode =
     bindR Int32 (\<lambda>vPartitionID.
     bindR Int64 (\<lambda>vFetchOffset.
     bindR Int32 (\<lambda>vMaxBytes.
     returnR \<lparr>frp_PartitionID = vPartitionID, frp_FetchOffset = vFetchOffset, frp_MaxBytes = vMaxBytes\<rparr>)))"

definition wf_FetchRequestPartition :: "FetchRequestPartition \<Rightarrow> bool" where
  "wf_FetchRequestPartition r \<longleftrightarrow>
     in_s 32 (frp_PartitionID r) \<and>
     in_s 64 (frp_FetchOffset r) \<and>
     in_s 32 (frp_MaxBytes r)"

lemma decodes_FetchRequestPartition [codec_intros]:
  "wf_FetchRequestPartition r \<Longrightarrow> decodes (FetchRequestPartition_Encode r) FetchRequestPartition_Decode r"
  unfolding FetchRequestPartition_Encode_def FetchRequestPartition_Decode_def wf_FetchRequestPartition_def
  by (rule codec_intros | simp)+

lemma reads_FetchRequestPartition [reads_intros]: "reads FetchRequestPartition_Decode wf_FetchRequestPartition"
  unfolding FetchRequestPartition_Decode_def
  by ((rule reads_bind, (rule reads_intros)+)+, rule reads_return, simp add: wf_FetchRequestPartition_def)

record FetchRequestTopic =
  frt_Name :: string
  frt_Partitions :: "FetchRequestPartition list"

definition FetchRequestTopic_Encode :: "FetchRequestTopic \<Rightarrow> bytes result" where
  "FetchRequestTopic_Encode r =
     seqW [PutString (frt_Name r),
           PutArray FetchRequestPartition_Encode (frt_Partitions r)]"

definition FetchRequestTopic_Decode :: "FetchRequestTopic reader" where
  "FetchRequestTopic_Decode =
     bindR String (\<lambda>vName.
     bindR (GetArray ReadArrayHeader FetchRequestPartition_Decode) (\<lambda>vPartitions.
     returnR \<lparr>frt_Name = vName, frt_Partitions = vPartitions\<rparr>))"

definition wf_FetchRequestTopic :: "FetchRequestTopic \<Rightarrow> bool" where
  "wf_FetchRequestTopic r \<longleftrightarrow>
     int (length (frt_Name r)) \<le> MaxInt16 \<and>
     int (length (frt_Partitions r)) \<le> 100000 \<and> (\<forall>y \<in> set (frt_Partitions r). wf_FetchRequestPartition y)"

lemma decodes_FetchRequestTopic [codec_intros]:
  "wf_FetchRequestTopic r \<Longrightarrow> decodes (FetchRequestTopic_Encode r) FetchRequestTopic_Decode r"
  unfolding FetchRequestTopic_Encode_def FetchRequestTopic_Decode_def wf_FetchRequestTopic_def
  by (rule codec_intros | simp)+

lemma reads_FetchRequestTopic [reads_intros]: "reads FetchRequestTopic_Decode wf_FetchRequestTopic"
  unfolding FetchRequestTopic_Decode_def
  by ((rule reads_bind, (rule reads_intros)+)+, rule reads_return, simp add: wf_FetchRequestTopic_def)

record FetchRequest =
  fr_MaxWaitMs :: int
  fr_MinBytes :: int
  fr_MaxBytes :: int
  fr_Topics :: "FetchRequestTopic list"

definition FetchRequest_Encode :: "FetchRequest \<Rightarrow> bytes result" where
  "FetchRequest_Encode r =
     seqW [PutInt32 (fr_MaxWaitMs r),
           PutInt32 (fr_MinBytes r),
           PutInt32 (fr_MaxBytes r),
           PutArray FetchRequestTopic_Encode (fr_Topics r)]"

definition FetchRequest_Decode :: "FetchRequest reader" where
  "FetchRequest_Decode =
     bindR Int32 (\<lambda>vMaxWaitMs.
     bindR Int32 (\<lambda>vMinBytes.
     bindR Int32 (\<lambda>vMaxBytes.
     bindR (GetArray ReadArrayHeader FetchRequestTopic_Decode) (\<lambda>vTopics.
     returnR \<lparr>fr_MaxWaitMs = vMaxWaitMs, fr_MinBytes = vMinBytes, fr_MaxBytes = vMaxBytes, fr_Topics = vTopics\<rparr>))))"

definition wf_FetchRequest :: "FetchRequest \<Rightarrow> bool" where
  "wf_FetchRequest r \<longleftrightarrow>
     in_s 32 (fr_MaxWaitMs r) \<and>
     in_s 32 (fr_MinBytes r) \<and>
     in_s 32 (fr_MaxBytes r) \<and>
     int (length (fr_Topics r)) \<le> 100000 \<and> (\<forall>y \<in> set (fr_Topics r). wf_FetchRequestTopic y)"

lemma decodes_FetchRequest [codec_intros]:
  "wf_FetchRequest r \<Longrightarrow> decodes (FetchRequest_Encode r) FetchRequest_Decode r"
  unfolding FetchRequest_Encode_def FetchRequest_Decode_def wf_FetchRequest_def
  by (rule codec_intros | simp)+

lemma reads_FetchRequest [reads_intros]: "reads FetchRequest_Decode wf_FetchRequest"
  unfolding FetchRequest_Decode_def
  by ((rule reads_bind, (rule reads_intros)+)+, rule reads_return, simp add: wf_FetchRequest_def)

interpretation fetch_request: strict_codec FetchRequest_Encode FetchRequest_Decode wf_FetchRequest
  by unfold_locales (rule decodes_FetchRequest reads_FetchRequest; assumption?)+

section \<open>CreateTopicsRequest\<close>

record CreateTopicsRequestTopic =
  ctrt_Name :: string
  ctrt_NumPartitions :: int
  ctrt_ReplicationFactor :: int

definition CreateTopicsRequestTopic_Encode :: "CreateTopicsRequestTopic \<Rightarrow> bytes result" where
  "CreateTopicsRequestTopic_Encode r =
     seqW [PutString (ctrt_Name r),
           PutInt32 (ctrt_NumPartitions r),
           PutInt16 (ctrt_ReplicationFactor r)]"

definition CreateTopicsRequestTopic_Decode :: "CreateTopicsRequestTopic reader" where
  "CreateTopicsRequestTopic_Decode =
     bindR String (\<lambda>vName.
     bindR Int32 (\<lambda>vNumPartitions.
     bindR Int16 (\<lambda>vReplicationFactor.
     returnR \<lparr>ctrt_Name = vName, ctrt_NumPartitions = vNumPartitions, ctrt_ReplicationFactor = vReplicationFactor\<rparr>)))"

definition wf_CreateTopicsRequestTopic :: "CreateTopicsRequestTopic \<Rightarrow> bool" where
  "wf_CreateTopicsRequestTopic r \<longleftrightarrow>
     int (length (ctrt_Name r)) \<le> MaxInt16 \<and>
     in_s 32 (ctrt_NumPartitions r) \<and>
     in_s 16 (ctrt_ReplicationFactor r)"

lemma decodes_CreateTopicsRequestTopic [codec_intros]:
  "wf_CreateTopicsRequestTopic r \<Longrightarrow> decodes (CreateTopicsRequestTopic_Encode r) CreateTopicsRequestTopic_Decode r"
  unfolding CreateTopicsRequestTopic_Encode_def CreateTopicsRequestTopic_Decode_def wf_CreateTopicsRequestTopic_def
  by (rule codec_intros | simp)+

lemma reads_CreateTopicsRequestTopic [reads_intros]: "reads CreateTopicsRequestTopic_Decode wf_CreateTopicsRequestTopic"
  unfolding CreateTopicsRequestTopic_Decode_def
  by ((rule reads_bind, (rule reads_intros)+)+, rule reads_return, simp add: wf_CreateTopicsRequestTopic_def)

record CreateTopicsRequest =
  ctr_Topics :: "CreateTopicsRequestTopic list"

definition CreateTopicsRequest_Encode :: "CreateTopicsRequest \<Rightarrow> bytes result" where
  "CreateTopicsRequest_Encode r =
     seqW [PutArray CreateTopicsRequestTopic_Encode (ctr_Topics r)]"

definition CreateTopicsRequest_Decode :: "CreateTopicsRequest reader" where
  "CreateTopicsRequest_Decode =
     bindR (GetArray ReadArrayHeader CreateTopicsRequestTopic_Decode) (\<lambda>vTopics.
     returnR \<lparr>ctr_Topics = vTopics\<rparr>)"

definition wf_CreateTopicsRequest :: "CreateTopicsRequest \<Rightarrow> bool" where
  "wf_CreateTopicsRequest r \<longleftrightarrow>
     int (length (ctr_Topics r)) \<le> 100000 \<and> (\<forall>y \<in> set (ctr_Topics r). wf_CreateTopicsRequestTopic y)"

lemma decodes_CreateTopicsRequest [codec_intros]:
  "wf_CreateTopicsRequest r \<Longrightarrow> decodes (CreateTopicsRequest_Encode r) CreateTopicsRequest_Decode r"
  unfolding CreateTopicsRequest_Encode_def CreateTopicsRequest_Decode_def wf_CreateTopicsRequest_def
  by (rule codec_intros | simp)+

lemma reads_CreateTopicsRequest [reads_intros]: "reads CreateTopicsRequest_Decode wf_CreateTopicsRequest"
  unfolding CreateTopicsRequest_Decode_def
  by ((rule reads_bind, (rule reads_intros)+)+, rule reads_return, simp add: wf_CreateTopicsRequest_def)

interpretation create_topics_request: strict_codec CreateTopicsRequest_Encode CreateTopicsRequest_Decode wf_CreateTopicsRequest
  by unfold_locales (rule decodes_CreateTopicsRequest reads_CreateTopicsRequest; assumption?)+

section \<open>JoinGroupRequest\<close>

record JoinGroupProtocol =
  jgp_Name :: string
  jgp_Metadata :: bytes

definition JoinGroupProtocol_Encode :: "JoinGroupProtocol \<Rightarrow> bytes result" where
  "JoinGroupProtocol_Encode r =
     seqW [PutString (jgp_Name r),
           PutBytes (jgp_Metadata r)]"

definition JoinGroupProtocol_Decode :: "JoinGroupProtocol reader" where
  "JoinGroupProtocol_Decode =
     bindR String (\<lambda>vName.
     bindR Bytes (\<lambda>vMetadata.
     returnR \<lparr>jgp_Name = vName, jgp_Metadata = vMetadata\<rparr>))"

definition wf_JoinGroupProtocol :: "JoinGroupProtocol \<Rightarrow> bool" where
  "wf_JoinGroupProtocol r \<longleftrightarrow>
     int (length (jgp_Name r)) \<le> MaxInt16 \<and>
     int (length (jgp_Metadata r)) \<le> MaxBytesLength"

lemma decodes_JoinGroupProtocol [codec_intros]:
  "wf_JoinGroupProtocol r \<Longrightarrow> decodes (JoinGroupProtocol_Encode r) JoinGroupProtocol_Decode r"
  unfolding JoinGroupProtocol_Encode_def JoinGroupProtocol_Decode_def wf_JoinGroupProtocol_def
  by (rule codec_intros | simp)+

lemma reads_JoinGroupProtocol [reads_intros]: "reads JoinGroupProtocol_Decode wf_JoinGroupProtocol"
  unfolding JoinGroupProtocol_Decode_def
  by ((rule reads_bind, (rule reads_intros)+)+, rule reads_return, simp add: wf_JoinGroupProtocol_def)

record JoinGroupRequest =
  jgr_GroupID :: string
  jgr_SessionTimeoutMs :: int
  jgr_MemberID :: string
  jgr_ProtocolType :: string
  jgr_Protocols :: "JoinGroupProtocol list"

definition JoinGroupRequest_Encode :: "JoinGroupRequest \<Rightarrow> bytes result" where
  "JoinGroupRequest_Encode r =
     seqW [PutString (jgr_GroupID r),
           PutInt32 (jgr_SessionTimeoutMs r),
           PutString (jgr_MemberID r),
           PutString (jgr_ProtocolType r),
           PutArray JoinGroupProtocol_Encode (jgr_Protocols r)]"

definition JoinGroupRequest_Decode :: "JoinGroupRequest reader" where
  "JoinGroupRequest_Decode =
     bindR String (\<lambda>vGroupID.
     bindR Int32 (\<lambda>vSessionTimeoutMs.
     bindR String (\<lambda>vMemberID.
     bindR String (\<lambda>vProtocolType.
     bindR (GetArray ReadArrayHeader JoinGroupProtocol_Decode) (\<lambda>vProtocols.
     returnR \<lparr>jgr_GroupID = vGroupID, jgr_SessionTimeoutMs = vSessionTimeoutMs, jgr_MemberID = vMemberID, jgr_ProtocolType = vProtocolType, jgr_Protocols = vProtocols\<rparr>)))))"

definition wf_JoinGroupRequest :: "JoinGroupRequest \<Rightarrow> bool" where
  "wf_JoinGroupRequest r \<longleftrightarrow>
     int (length (jgr_GroupID r)) \<le> MaxInt16 \<and>
     in_s 32 (jgr_SessionTimeoutMs r) \<and>
     int (length (jgr_MemberID r)) \<le> MaxInt16 \<and>
     int (length (jgr_ProtocolType r)) \<le> MaxInt16 \<and>
     int (length (jgr_Protocols r)) \<le> 100000 \<and> (\<forall>y \<in> set (jgr_Protocols r). wf_JoinGroupProtocol y)"

lemma decodes_JoinGroupRequest [codec_intros]:
  "wf_JoinGroupRequest r \<Longrightarrow> decodes (JoinGroupRequest_Encode r) JoinGroupRequest_Decode r"
  unfolding JoinGroupRequest_Encode_def JoinGroupRequest_Decode_def wf_JoinGroupRequest_def
  by (rule codec_intros | simp)+

lemma reads_JoinGroupRequest [reads_intros]: "reads JoinGroupRequest_Decode wf_JoinGroupRequest"
  unfolding JoinGroupRequest_Decode_def
  by ((rule reads_bind, (rule reads_intros)+)+, rule reads_return, simp add: wf_JoinGroupRequest_def)

interpretation join_group_request: strict_codec JoinGroupRequest_Encode JoinGroupRequest_Decode wf_JoinGroupRequest
  by unfold_locales (rule decodes_JoinGroupRequest reads_JoinGroupRequest; assumption?)+

section \<open>SyncGroupRequest\<close>

record SyncGroupAssignment =
  sga_MemberID :: string
  sga_Assignment :: bytes

definition SyncGroupAssignment_Encode :: "SyncGroupAssignment \<Rightarrow> bytes result" where
  "SyncGroupAssignment_Encode r =
     seqW [PutString (sga_MemberID r),
           PutBytes (sga_Assignment r)]"

definition SyncGroupAssignment_Decode :: "SyncGroupAssignment reader" where
  "SyncGroupAssignment_Decode =
     bindR String (\<lambda>vMemberID.
     bindR Bytes (\<lambda>vAssignment.
     returnR \<lparr>sga_MemberID = vMemberID, sga_Assignment = vAssignment\<rparr>))"

definition wf_SyncGroupAssignment :: "SyncGroupAssignment \<Rightarrow> bool" where
  "wf_SyncGroupAssignment r \<longleftrightarrow>
     int (length (sga_MemberID r)) \<le> MaxInt16 \<and>
     int (length (sga_Assignment r)) \<le> MaxBytesLength"

lemma decodes_SyncGroupAssignment [codec_intros]:
  "wf_SyncGroupAssignment r \<Longrightarrow> decodes (SyncGroupAssignment_Encode r) SyncGroupAssignment_Decode r"
  unfolding SyncGroupAssignment_Encode_def SyncGroupAssignment_Decode_def wf_SyncGroupAssignment_def
  by (rule codec_intros | simp)+

lemma reads_SyncGroupAssignment [reads_intros]: "reads SyncGroupAssignment_Decode wf_SyncGroupAssignment"
  unfolding SyncGroupAssignment_Decode_def
  by ((rule reads_bind, (rule reads_intros)+)+, rule reads_return, simp add: wf_SyncGroupAssignment_def)

record SyncGroupRequest =
  sgr_GroupID :: string
  sgr_GenerationID :: int
  sgr_MemberID :: string
  sgr_Assignments :: "SyncGroupAssignment list"

definition SyncGroupRequest_Encode :: "SyncGroupRequest \<Rightarrow> bytes result" where
  "SyncGroupRequest_Encode r =
     seqW [PutString (sgr_GroupID r),
           PutInt32 (sgr_GenerationID r),
           PutString (sgr_MemberID r),
           PutArray SyncGroupAssignment_Encode (sgr_Assignments r)]"

definition SyncGroupRequest_Decode :: "SyncGroupRequest reader" where
  "SyncGroupRequest_Decode =
     bindR String (\<lambda>vGroupID.
     bindR Int32 (\<lambda>vGenerationID.
     bindR String (\<lambda>vMemberID.
     bindR (GetArray ReadArrayHeader SyncGroupAssignment_Decode) (\<lambda>vAssignments.
     returnR \<lparr>sgr_GroupID = vGroupID, sgr_GenerationID = vGenerationID, sgr_MemberID = vMemberID, sgr_Assignments = vAssignments\<rparr>))))"

definition wf_SyncGroupRequest :: "SyncGroupRequest \<Rightarrow> bool" where
  "wf_SyncGroupRequest r \<longleftrightarrow>
     int (length (sgr_GroupID r)) \<le> MaxInt16 \<and>
     in_s 32 (sgr_GenerationID r) \<and>
     int (length (sgr_MemberID r)) \<le> MaxInt16 \<and>
     int (length (sgr_Assignments r)) \<le> 100000 \<and> (\<forall>y \<in> set (sgr_Assignments r). wf_SyncGroupAssignment y)"

lemma decodes_SyncGroupRequest [codec_intros]:
  "wf_SyncGroupRequest r \<Longrightarrow> decodes (SyncGroupRequest_Encode r) SyncGroupRequest_Decode r"
  unfolding SyncGroupRequest_Encode_def SyncGroupRequest_Decode_def wf_SyncGroupRequest_def
  by (rule codec_intros | simp)+

lemma reads_SyncGroupRequest [reads_intros]: "reads SyncGroupRequest_Decode wf_SyncGroupRequest"
  unfolding SyncGroupRequest_Decode_def
  by ((rule reads_bind, (rule reads_intros)+)+, rule reads_return, simp add: wf_SyncGroupRequest_def)

interpretation sync_group_request: strict_codec SyncGroupRequest_Encode SyncGroupRequest_Decode wf_SyncGroupRequest
  by unfold_locales (rule decodes_SyncGroupRequest reads_SyncGroupRequest; assumption?)+

section \<open>HeartbeatRequest\<close>

record HeartbeatRequest =
  hbr_GroupID :: string
  hbr_GenerationID :: int
  hbr_MemberID :: string

definition HeartbeatRequest_Encode :: "HeartbeatRequest \<Rightarrow> bytes result" where
  "HeartbeatRequest_Encode r =
     seqW [PutString (hbr_GroupID r),
           PutInt32 (hbr_GenerationID r),
           PutString (hbr_MemberID r)]"

definition HeartbeatRequest_Decode :: "HeartbeatRequest reader" where
  "HeartbeatRequest_Decode =
     bindR String (\<lambda>vGroupID.
     bindR Int32 (\<lambda>vGenerationID.
     bindR String (\<lambda>vMemberID.
     returnR \<lparr>hbr_GroupID = vGroupID, hbr_GenerationID = vGenerationID, hbr_MemberID = vMemberID\<rparr>)))"

definition wf_HeartbeatRequest :: "HeartbeatRequest \<Rightarrow> bool" where
  "wf_HeartbeatRequest r \<longleftrightarrow>
     int (length (hbr_GroupID r)) \<le> MaxInt16 \<and>
     in_s 32 (hbr_GenerationID r) \<and>
     int (length (hbr_MemberID r)) \<le> MaxInt16"

lemma decodes_HeartbeatRequest [codec_intros]:
  "wf_HeartbeatRequest r \<Longrightarrow> decodes (HeartbeatRequest_Encode r) HeartbeatRequest_Decode r"
  unfolding HeartbeatRequest_Encode_def HeartbeatRequest_Decode_def wf_HeartbeatRequest_def
  by (rule codec_intros | simp)+

lemma reads_HeartbeatRequest [reads_intros]: "reads HeartbeatRequest_Decode wf_HeartbeatRequest"
  unfolding HeartbeatRequest_Decode_def
  by ((rule reads_bind, (rule reads_intros)+)+, rule reads_return, simp add: wf_HeartbeatRequest_def)

interpretation heartbeat_request: strict_codec HeartbeatRequest_Encode HeartbeatRequest_Decode wf_HeartbeatRequest
  by unfold_locales (rule decodes_HeartbeatRequest reads_HeartbeatRequest; assumption?)+

section \<open>LeaveGroupRequest\<close>

record LeaveGroupRequest =
  lgr_GroupID :: string
  lgr_MemberID :: string

definition LeaveGroupRequest_Encode :: "LeaveGroupRequest \<Rightarrow> bytes result" where
  "LeaveGroupRequest_Encode r =
     seqW [PutString (lgr_GroupID r),
           PutString (lgr_MemberID r)]"

definition LeaveGroupRequest_Decode :: "LeaveGroupRequest reader" where
  "LeaveGroupRequest_Decode =
     bindR String (\<lambda>vGroupID.
     bindR String (\<lambda>vMemberID.
     returnR \<lparr>lgr_GroupID = vGroupID, lgr_MemberID = vMemberID\<rparr>))"

definition wf_LeaveGroupRequest :: "LeaveGroupRequest \<Rightarrow> bool" where
  "wf_LeaveGroupRequest r \<longleftrightarrow>
     int (length (lgr_GroupID r)) \<le> MaxInt16 \<and>
     int (length (lgr_MemberID r)) \<le> MaxInt16"

lemma decodes_LeaveGroupRequest [codec_intros]:
  "wf_LeaveGroupRequest r \<Longrightarrow> decodes (LeaveGroupRequest_Encode r) LeaveGroupRequest_Decode r"
  unfolding LeaveGroupRequest_Encode_def LeaveGroupRequest_Decode_def wf_LeaveGroupRequest_def
  by (rule codec_intros | simp)+

lemma reads_LeaveGroupRequest [reads_intros]: "reads LeaveGroupRequest_Decode wf_LeaveGroupRequest"
  unfolding LeaveGroupRequest_Decode_def
  by ((rule reads_bind, (rule reads_intros)+)+, rule reads_return, simp add: wf_LeaveGroupRequest_def)

interpretation leave_group_request: strict_codec LeaveGroupRequest_Encode LeaveGroupRequest_Decode wf_LeaveGroupRequest
  by unfold_locales (rule decodes_LeaveGroupRequest reads_LeaveGroupRequest; assumption?)+

section \<open>OffsetCommitRequest\<close>

record OffsetCommitRequestPartition =
  ocrp_PartitionID :: int
  ocrp_Offset :: int
  ocrp_Metadata :: string

definition OffsetCommitRequestPartition_Encode :: "OffsetCommitRequestPartition \<Rightarrow> bytes result" where
  "OffsetCommitRequestPartition_Encode r =
     seqW [PutInt32 (ocrp_PartitionID r),
           PutInt64 (ocrp_Offset r),
           PutString (ocrp_Metadata r)]"

definition OffsetCommitRequestPartition_Decode :: "OffsetCommitRequestPartition reader" where
  "OffsetCommitRequestPartition_Decode =
     bindR Int32 (\<lambda>vPartitionID.
     bindR Int64 (\<lambda>vOffset.
     bindR String (\<lambda>vMetadata.
     returnR \<lparr>ocrp_PartitionID = vPartitionID, ocrp_Offset = vOffset, ocrp_Metadata = vMetadata\<rparr>)))"

definition wf_OffsetCommitRequestPartition :: "OffsetCommitRequestPartition \<Rightarrow> bool" where
  "wf_OffsetCommitRequestPartition r \<longleftrightarrow>
     in_s 32 (ocrp_PartitionID r) \<and>
     in_s 64 (ocrp_Offset r) \<and>
     int (length (ocrp_Metadata r)) \<le> MaxInt16"

lemma decodes_OffsetCommitRequestPartition [codec_intros]:
  "wf_OffsetCommitRequestPartition r \<Longrightarrow> decodes (OffsetCommitRequestPartition_Encode r) OffsetCommitRequestPartition_Decode r"
  unfolding OffsetCommitRequestPartition_Encode_def OffsetCommitRequestPartition_Decode_def wf_OffsetCommitRequestPartition_def
  by (rule codec_intros | simp)+

lemma reads_OffsetCommitRequestPartition [reads_intros]: "reads OffsetCommitRequestPartition_Decode wf_OffsetCommitRequestPartition"
  unfolding OffsetCommitRequestPartition_Decode_def
  by ((rule reads_bind, (rule reads_intros)+)+, rule reads_return, simp add: wf_OffsetCommitRequestPartition_def)

record OffsetCommitRequestTopic =
  ocrt_Name :: string
  ocrt_Partitions :: "OffsetCommitRequestPartition list"

definition OffsetCommitRequestTopic_Encode :: "OffsetCommitRequestTopic \<Rightarrow> bytes result" where
  "OffsetCommitRequestTopic_Encode r =
     seqW [PutString (ocrt_Name r),
           PutArray OffsetCommitRequestPartition_Encode (ocrt_Partitions r)]"

definition OffsetCommitRequestTopic_Decode :: "OffsetCommitRequestTopic reader" where
  "OffsetCommitRequestTopic_Decode =
     bindR String (\<lambda>vName.
     bindR (GetArray ReadArrayHeader OffsetCommitRequestPartition_Decode) (\<lambda>vPartitions.
     returnR \<lparr>ocrt_Name = vName, ocrt_Partitions = vPartitions\<rparr>))"

definition wf_OffsetCommitRequestTopic :: "OffsetCommitRequestTopic \<Rightarrow> bool" where
  "wf_OffsetCommitRequestTopic r \<longleftrightarrow>
     int (length (ocrt_Name r)) \<le> MaxInt16 \<and>
     int (length (ocrt_Partitions r)) \<le> 100000 \<and> (\<forall>y \<in> set (ocrt_Partitions r). wf_OffsetCommitRequestPartition y)"

lemma decodes_OffsetCommitRequestTopic [codec_intros]:
  "wf_OffsetCommitRequestTopic r \<Longrightarrow> decodes (OffsetCommitRequestTopic_Encode r) OffsetCommitRequestTopic_Decode r"
  unfolding OffsetCommitRequestTopic_Encode_def OffsetCommitRequestTopic_Decode_def wf_OffsetCommitRequestTopic_def
  by (rule codec_intros | simp)+

lemma reads_OffsetCommitRequestTopic [reads_intros]: "reads OffsetCommitRequestTopic_Decode wf_OffsetCommitRequestTopic"
  unfolding OffsetCommitRequestTopic_Decode_def
  by ((rule reads_bind, (rule reads_intros)+)+, rule reads_return, simp add: wf_OffsetCommitRequestTopic_def)

record OffsetCommitRequest =
  ocr_GroupID :: string
  ocr_GenerationID :: int
  ocr_MemberID :: string
  ocr_Topics :: "OffsetCommitRequestTopic list"

definition OffsetCommitRequest_Encode :: "OffsetCommitRequest \<Rightarrow> bytes result" where
  "OffsetCommitRequest_Encode r =
     seqW [PutString (ocr_GroupID r),
           PutInt32 (ocr_GenerationID r),
           PutString (ocr_MemberID r),
           PutArray OffsetCommitRequestTopic_Encode (ocr_Topics r)]"

definition OffsetCommitRequest_Decode :: "OffsetCommitRequest reader" where
  "OffsetCommitRequest_Decode =
     bindR String (\<lambda>vGroupID.
     bindR Int32 (\<lambda>vGenerationID.
     bindR String (\<lambda>vMemberID.
     bindR (GetArray ReadArrayHeader OffsetCommitRequestTopic_Decode) (\<lambda>vTopics.
     returnR \<lparr>ocr_GroupID = vGroupID, ocr_GenerationID = vGenerationID, ocr_MemberID = vMemberID, ocr_Topics = vTopics\<rparr>))))"

definition wf_OffsetCommitRequest :: "OffsetCommitRequest \<Rightarrow> bool" where
  "wf_OffsetCommitRequest r \<longleftrightarrow>
     int (length (ocr_GroupID r)) \<le> MaxInt16 \<and>
     in_s 32 (ocr_GenerationID r) \<and>
     int (length (ocr_MemberID r)) \<le> MaxInt16 \<and>
     int (length (ocr_Topics r)) \<le> 100000 \<and> (\<forall>y \<in> set (ocr_Topics r). wf_OffsetCommitRequestTopic y)"

lemma decodes_OffsetCommitRequest [codec_intros]:
  "wf_OffsetCommitRequest r \<Longrightarrow> decodes (OffsetCommitRequest_Encode r) OffsetCommitRequest_Decode r"
  unfolding OffsetCommitRequest_Encode_def OffsetCommitRequest_Decode_def wf_OffsetCommitRequest_def
  by (rule codec_intros | simp)+

lemma reads_OffsetCommitRequest [reads_intros]: "reads OffsetCommitRequest_Decode wf_OffsetCommitRequest"
  unfolding OffsetCommitRequest_Decode_def
  by ((rule reads_bind, (rule reads_intros)+)+, rule reads_return, simp add: wf_OffsetCommitRequest_def)

interpretation offset_commit_request: strict_codec OffsetCommitRequest_Encode OffsetCommitRequest_Decode wf_OffsetCommitRequest
  by unfold_locales (rule decodes_OffsetCommitRequest reads_OffsetCommitRequest; assumption?)+

section \<open>OffsetFetchRequest\<close>

record OffsetFetchRequestTopic =
  ofrt_Name :: string
  ofrt_Partitions :: "int list"

definition OffsetFetchRequestTopic_Encode :: "OffsetFetchRequestTopic \<Rightarrow> bytes result" where
  "OffsetFetchRequestTopic_Encode r =
     seqW [PutString (ofrt_Name r),
           PutArray PutInt32 (ofrt_Partitions r)]"

definition OffsetFetchRequestTopic_Decode :: "OffsetFetchRequestTopic reader" where
  "OffsetFetchRequestTopic_Decode =
     bindR String (\<lambda>vName.
     bindR (GetArray ReadArrayHeader Int32) (\<lambda>vPartitions.
     returnR \<lparr>ofrt_Name = vName, ofrt_Partitions = vPartitions\<rparr>))"

definition wf_OffsetFetchRequestTopic :: "OffsetFetchRequestTopic \<Rightarrow> bool" where
  "wf_OffsetFetchRequestTopic r \<longleftrightarrow>
     int (length (ofrt_Name r)) \<le> MaxInt16 \<and>
     int (length (ofrt_Partitions r)) \<le> 100000 \<and> (\<forall>y \<in> set (ofrt_Partitions r). in_s 32 y)"

lemma decodes_OffsetFetchRequestTopic [codec_intros]:
  "wf_OffsetFetchRequestTopic r \<Longrightarrow> decodes (OffsetFetchRequestTopic_Encode r) OffsetFetchRequestTopic_Decode r"
  unfolding OffsetFetchRequestTopic_Encode_def OffsetFetchRequestTopic_Decode_def wf_OffsetFetchRequestTopic_def
  by (rule codec_intros | simp)+

lemma reads_OffsetFetchRequestTopic [reads_intros]: "reads OffsetFetchRequestTopic_Decode wf_OffsetFetchRequestTopic"
  unfolding OffsetFetchRequestTopic_Decode_def
  by ((rule reads_bind, (rule reads_intros)+)+, rule reads_return, simp add: wf_OffsetFetchRequestTopic_def)

record OffsetFetchRequest =
  ofr_GroupID :: string
  ofr_Topics :: "OffsetFetchRequestTopic list"

definition OffsetFetchRequest_Encode :: "OffsetFetchRequest \<Rightarrow> bytes result" where
  "OffsetFetchRequest_Encode r =
     seqW [PutString (ofr_GroupID r),
           PutArray OffsetFetchRequestTopic_Encode (ofr_Topics r)]"

definition OffsetFetchRequest_Decode :: "OffsetFetchRequest reader" where
  "OffsetFetchRequest_Decode =
     bindR String (\<lambda>vGroupID.
     bindR (GetArray ReadArrayHeader OffsetFetchRequestTopic_Decode) (\<lambda>vTopics.
     returnR \<lparr>ofr_GroupID = vGroupID, ofr_Topics = vTopics\<rparr>))"

definition wf_OffsetFetchRequest :: "OffsetFetchRequest \<Rightarrow> bool" where
  "wf_OffsetFetchRequest r \<longleftrightarrow>
     int (length (ofr_GroupID r)) \<le> MaxInt16 \<and>
     int (length (ofr_Topics r)) \<le> 100000 \<and> (\<forall>y \<in> set (ofr_Topics r). wf_OffsetFetchRequestTopic y)"

lemma decodes_OffsetFetchRequest [codec_intros]:
  "wf_OffsetFetchRequest r \<Longrightarrow> decodes (OffsetFetchRequest_Encode r) OffsetFetchRequest_Decode r"
  unfolding OffsetFetchRequest_Encode_def OffsetFetchRequest_Decode_def wf_OffsetFetchRequest_def
  by (rule codec_intros | simp)+

lemma reads_OffsetFetchRequest [reads_intros]: "reads OffsetFetchRequest_Decode wf_OffsetFetchRequest"
  unfolding OffsetFetchRequest_Decode_def
  by ((rule reads_bind, (rule reads_intros)+)+, rule reads_return, simp add: wf_OffsetFetchRequest_def)

interpretation offset_fetch_request: strict_codec OffsetFetchRequest_Encode OffsetFetchRequest_Decode wf_OffsetFetchRequest
  by unfold_locales (rule decodes_OffsetFetchRequest reads_OffsetFetchRequest; assumption?)+

section \<open>ListOffsetsRequest\<close>

record ListOffsetsRequestPartition =
  lorp_PartitionID :: int
  lorp_Timestamp :: int

definition ListOffsetsRequestPartition_Encode :: "ListOffsetsRequestPartition \<Rightarrow> bytes result" where
  "ListOffsetsRequestPartition_Encode r =
     seqW [PutInt32 (lorp_PartitionID r),
           PutInt64 (lorp_Timestamp r)]"

definition ListOffsetsRequestPartition_Decode :: "ListOffsetsRequestPartition reader" where
  "ListOffsetsRequestPartition_Decode =
     bindR Int32 (\<lambda>vPartitionID.
     bindR Int64 (\<lambda>vTimestamp.
     returnR \<lparr>lorp_PartitionID = vPartitionID, lorp_Timestamp = vTimestamp\<rparr>))"

definition wf_ListOffsetsRequestPartition :: "ListOffsetsRequestPartition \<Rightarrow> bool" where
  "wf_ListOffsetsRequestPartition r \<longleftrightarrow>
     in_s 32 (lorp_PartitionID r) \<and>
     in_s 64 (lorp_Timestamp r)"

lemma decodes_ListOffsetsRequestPartition [codec_intros]:
  "wf_ListOffsetsRequestPartition r \<Longrightarrow> decodes (ListOffsetsRequestPartition_Encode r) ListOffsetsRequestPartition_Decode r"
  unfolding ListOffsetsRequestPartition_Encode_def ListOffsetsRequestPartition_Decode_def wf_ListOffsetsRequestPartition_def
  by (rule codec_intros | simp)+

lemma reads_ListOffsetsRequestPartition [reads_intros]: "reads ListOffsetsRequestPartition_Decode wf_ListOffsetsRequestPartition"
  unfolding ListOffsetsRequestPartition_Decode_def
  by ((rule reads_bind, (rule reads_intros)+)+, rule reads_return, simp add: wf_ListOffsetsRequestPartition_def)

record ListOffsetsRequestTopic =
  lort_Name :: string
  lort_Partitions :: "ListOffsetsRequestPartition list"

definition ListOffsetsRequestTopic_Encode :: "ListOffsetsRequestTopic \<Rightarrow> bytes result" where
  "ListOffsetsRequestTopic_Encode r =
     seqW [PutString (lort_Name r),
           PutArray ListOffsetsRequestPartition_Encode (lort_Partitions r)]"

definition ListOffsetsRequestTopic_Decode :: "ListOffsetsRequestTopic reader" where
  "ListOffsetsRequestTopic_Decode =
     bindR String (\<lambda>vName.
     bindR (GetArray ReadArrayHeader ListOffsetsRequestPartition_Decode) (\<lambda>vPartitions.
     returnR \<lparr>lort_Name = vName, lort_Partitions = vPartitions\<rparr>))"

definition wf_ListOffsetsRequestTopic :: "ListOffsetsRequestTopic \<Rightarrow> bool" where
  "wf_ListOffsetsRequestTopic r \<longleftrightarrow>
     int (length (lort_Name r)) \<le> MaxInt16 \<and>
     int (length (lort_Partitions r)) \<le> 100000 \<and> (\<forall>y \<in> set (lort_Partitions r). wf_ListOffsetsRequestPartition y)"

lemma decodes_ListOffsetsRequestTopic [codec_intros]:
  "wf_ListOffsetsRequestTopic r \<Longrightarrow> decodes (ListOffsetsRequestTopic_Encode r) ListOffsetsRequestTopic_Decode r"
  unfolding ListOffsetsRequestTopic_Encode_def ListOffsetsRequestTopic_Decode_def wf_ListOffsetsRequestTopic_def
  by (rule codec_intros | simp)+

lemma reads_ListOffsetsRequestTopic [reads_intros]: "reads ListOffsetsRequestTopic_Decode wf_ListOffsetsRequestTopic"
  unfolding ListOffsetsRequestTopic_Decode_def
  by ((rule reads_bind, (rule reads_intros)+)+, rule reads_return, simp add: wf_ListOffsetsRequestTopic_def)

record ListOffsetsRequest =
  lor_Topics :: "ListOffsetsRequestTopic list"

definition ListOffsetsRequest_Encode :: "ListOffsetsRequest \<Rightarrow> bytes result" where
  "ListOffsetsRequest_Encode r =
     seqW [PutArray ListOffsetsRequestTopic_Encode (lor_Topics r)]"

definition ListOffsetsRequest_Decode :: "ListOffsetsRequest reader" where
  "ListOffsetsRequest_Decode =
     bindR (GetArray ReadArrayHeader ListOffsetsRequestTopic_Decode) (\<lambda>vTopics.
     returnR \<lparr>lor_Topics = vTopics\<rparr>)"

definition wf_ListOffsetsRequest :: "ListOffsetsRequest \<Rightarrow> bool" where
  "wf_ListOffsetsRequest r \<longleftrightarrow>
     int (length (lor_Topics r)) \<le> 100000 \<and> (\<forall>y \<in> set (lor_Topics r). wf_ListOffsetsRequestTopic y)"

lemma decodes_ListOffsetsRequest [codec_intros]:
  "wf_ListOffsetsRequest r \<Longrightarrow> decodes (ListOffsetsRequest_Encode r) ListOffsetsRequest_Decode r"
  unfolding ListOffsetsRequest_Encode_def ListOffsetsRequest_Decode_def wf_ListOffsetsRequest_def
  by (rule codec_intros | simp)+

lemma reads_ListOffsetsRequest [reads_intros]: "reads ListOffsetsRequest_Decode wf_ListOffsetsRequest"
  unfolding ListOffsetsRequest_Decode_def
  by ((rule reads_bind, (rule reads_intros)+)+, rule reads_return, simp add: wf_ListOffsetsRequest_def)

interpretation list_offsets_request: strict_codec ListOffsetsRequest_Encode ListOffsetsRequest_Decode wf_ListOffsetsRequest
  by unfold_locales (rule decodes_ListOffsetsRequest reads_ListOffsetsRequest; assumption?)+

section \<open>ApiVersionsRequest\<close>

definition ApiVersionsRequest_Encode :: "unit \<Rightarrow> bytes result" where
  "ApiVersionsRequest_Encode r = Inr []"

definition ApiVersionsRequest_Decode :: "unit reader" where
  "ApiVersionsRequest_Decode = returnR ()"

interpretation api_versions_request: codec ApiVersionsRequest_Encode ApiVersionsRequest_Decode "\<lambda>_. True"
  by unfold_locales (simp add: decodes_def ApiVersionsRequest_Encode_def ApiVersionsRequest_Decode_def returnR_def)

section \<open>MetadataRequest\<close>

text \<open>A nil list of topics asks for all topics and is told apart from the empty list.\<close>

record MetadataRequest =
  mr_Topics :: "string list option"

definition MetadataRequest_Encode :: "MetadataRequest \<Rightarrow> bytes result" where
  "MetadataRequest_Encode r =
     (case mr_Topics r of None \<Rightarrow> PutArrayHeader (-1) | Some topics \<Rightarrow> PutArray PutString topics)"

definition MetadataRequest_Decode :: "MetadataRequest reader" where
  "MetadataRequest_Decode =
     bindR ReadArrayHeader (\<lambda>count.
       if count < 0 then returnR \<lparr>mr_Topics = None\<rparr>
       else bindR (repeatR (nat count) String) (\<lambda>topics. returnR \<lparr>mr_Topics = Some topics\<rparr>))"

definition wf_MetadataRequest :: "MetadataRequest \<Rightarrow> bool" where
  "wf_MetadataRequest r \<longleftrightarrow>
     (case mr_Topics r of None \<Rightarrow> True
      | Some topics \<Rightarrow> int (length topics) \<le> 100000 \<and> (\<forall>t \<in> set topics. int (length t) \<le> MaxInt16))"

lemma decodes_MetadataRequest [codec_intros]:
  assumes "wf_MetadataRequest r"
  shows "decodes (MetadataRequest_Encode r) MetadataRequest_Decode r"
proof (cases "mr_Topics r")
  case None
  then have "r = \<lparr>mr_Topics = None\<rparr>" by simp
  then show ?thesis unfolding MetadataRequest_Encode_def MetadataRequest_Decode_def
    by simp (rule decodes_map [OF decodes_array_header(2)], simp_all)
next
  case (Some topics)
  then have r: "r = \<lparr>mr_Topics = Some topics\<rparr>" by simp
  then have limits: "int (length topics) \<le> 100000" "\<And>t. t \<in> set topics \<Longrightarrow> int (length t) \<le> MaxInt16"
    using assms by (auto simp: wf_MetadataRequest_def)
  have "decodes (seqW (map PutString topics)) (repeatR (length topics) String) topics"
    using limits(2) by (intro decodes_repeat decodes_string)
  then have "decodes (seqW (map PutString topics))
      (bindR (repeatR (length topics) String) (\<lambda>ts. returnR \<lparr>mr_Topics = Some ts\<rparr>)) r"
    by (rule decodes_map) (simp add: r)
  moreover have "decodes (PutArrayHeader (int (length topics))) ReadArrayHeader (int (length topics))"
    using limits(1) by (intro decodes_array_header) simp_all
  ultimately show ?thesis
    unfolding MetadataRequest_Encode_def MetadataRequest_Decode_def Some option.case PutArray_def
    by (intro decodes_bind [where a = "int (length topics)"]) simp_all
qed

lemma reads_MetadataRequest [reads_intros]: "reads MetadataRequest_Decode wf_MetadataRequest"
  unfolding MetadataRequest_Decode_def
proof (rule reads_bind [OF reads_array_header(2)], rule reads_if)
  fix count :: int assume "count \<le> 100000"
  then show "reads (bindR (repeatR (nat count) String) (\<lambda>topics. returnR \<lparr>mr_Topics = Some topics\<rparr>)) wf_MetadataRequest"
    by (intro reads_bind [OF reads_repeat [OF reads_string]] reads_return) (simp add: wf_MetadataRequest_def)
qed (simp add: reads_return wf_MetadataRequest_def)

interpretation metadata_request: strict_codec MetadataRequest_Encode MetadataRequest_Decode wf_MetadataRequest
  by unfold_locales (rule decodes_MetadataRequest reads_MetadataRequest; assumption?)+

end
