(* ===== verification/Responses.thy ===== *)
theory Responses
  imports Codec
begin

text \<open>
  The response bodies, \<^verbatim>\<open>internal/protocol/responses.go\<close>, in the same form as the requests. A decoder of
  responses accepts arrays of any length an array header can carry.
\<close>

section \<open>ProduceResponse\<close>

record ProduceResponsePartition =
  psp_PartitionID :: int
  psp_ErrorCode :: int
  psp_BaseOffset :: int
  psp_LogAppendTime :: int

definition ProduceResponsePartition_Encode :: "ProduceResponsePartition \<Rightarrow> bytes result" where
  "ProduceResponsePartition_Encode r =
     seqW [PutInt32 (psp_PartitionID r),
           PutInt16 (psp_ErrorCode r),
           PutInt64 (psp_BaseOffset r),
           PutInt64 (psp_LogAppendTime r)]"

definition ProduceResponsePartition_Decode :: "ProduceResponsePartition reader" where
  "ProduceResponsePartition_Decode =
     bindR Int32 (\<lambda>vPartitionID.
     bindR Int16 (\<lambda>vErrorCode.
     bindR Int64 (\<lambda>vBaseOffset.
     bindR Int64 (\<lambda>vLogAppendTime.
     returnR \<lparr>psp_PartitionID = vPartitionID, psp_ErrorCode = vErrorCode, psp_BaseOffset = vBaseOffset, psp_LogAppendTime = vLogAppendTime\<rparr>))))"

definition wf_ProduceResponsePartition :: "ProduceResponsePartition \<Rightarrow> bool" where
  "wf_ProduceResponsePartition r \<longleftrightarrow>
     in_s 32 (psp_PartitionID r) \<and>
     in_s 16 (psp_ErrorCode r) \<and>
     in_s 64 (psp_BaseOffset r) \<and>
     in_s 64 (psp_LogAppendTime r)"

lemma decodes_ProduceResponsePartition [codec_intros]:
  "wf_ProduceResponsePartition r \<Longrightarrow> decodes (ProduceResponsePartition_Encode r) ProduceResponsePartition_Decode r"
  unfolding ProduceResponsePartition_Encode_def ProduceResponsePartition_Decode_def wf_ProduceResponsePartition_def
  by (rule codec_intros | simp)+

lemma reads_ProduceResponsePartition [reads_intros]: "reads ProduceResponsePartition_Decode wf_ProduceResponsePartition"
  unfolding ProduceResponsePartition_Decode_def
  by ((rule reads_bind, (rule reads_intros)+)+, rule reads_return, simp add: wf_ProduceResponsePartition_def)

record ProduceResponseTopic =
  pst_Name :: string
  pst_Partitions :: "ProduceResponsePartition list"

definition ProduceResponseTopic_Encode :: "ProduceResponseTopic \<Rightarrow> bytes result" where
  "ProduceResponseTopic_Encode r =
     seqW [PutString (pst_Name r),
           PutArray ProduceResponsePartition_Encode (pst_Partitions r)]"

definition ProduceResponseTopic_Decode :: "ProduceResponseTopic reader" where
  "ProduceResponseTopic_Decode =
     bindR String (\<lambda>vName.
     bindR (GetArray ArrayHeader ProduceResponsePartition_Decode) (\<lambda>vPartitions.
     returnR \<lparr>pst_Name = vName, pst_Partitions = vPartitions\<rparr>))"

definition wf_ProduceResponseTopic :: "ProduceResponseTopic \<Rightarrow> bool" where
  "wf_ProduceResponseTopic r \<longleftrightarrow>
     int (length (pst_Name r)) \<le> MaxInt16 \<and>
     int (length (pst_Partitions r)) \<le> MaxInt32 \<and> (\<forall>y \<in> set (pst_Partitions r). wf_ProduceResponsePartition y)"

lemma decodes_ProduceResponseTopic [codec_intros]:
  "wf_ProduceResponseTopic r \<Longrightarrow> decodes (ProduceResponseTopic_Encode r) ProduceResponseTopic_Decode r"
  unfolding ProduceResponseTopic_Encode_def ProduceResponseTopic_Decode_def wf_ProduceResponseTopic_def
  by (rule codec_intros | simp)+

lemma reads_ProduceResponseTopic [reads_intros]: "reads ProduceResponseTopic_Decode wf_ProduceResponseTopic"
  unfolding ProduceResponseTopic_Decode_def
  by ((rule reads_bind, (rule reads_intros)+)+, rule reads_return, simp add: wf_ProduceResponseTopic_def)

record ProduceResponse =
  ps_Topics :: "ProduceResponseTopic list"

definition ProduceResponse_Encode :: "ProduceResponse \<Rightarrow> bytes result" where
  "ProduceResponse_Encode r =
     seqW [PutArray ProduceResponseTopic_Encode (ps_Topics r)]"

definition ProduceResponse_Decode :: "ProduceResponse reader" where
  "ProduceResponse_Decode =
     bindR (GetArray ArrayHeader ProduceResponseTopic_Decode) (\<lambda>vTopics.
     returnR \<lparr>ps_Topics = vTopics\<rparr>)"

definition wf_ProduceResponse :: "ProduceResponse \<Rightarrow> bool" where
  "wf_ProduceResponse r \<longleftrightarrow>
     int (length (ps_Topics r)) \<le> MaxInt32 \<and> (\<forall>y \<in> set (ps_Topics r). wf_ProduceResponseTopic y)"

lemma decodes_ProduceResponse [codec_intros]:
  "wf_ProduceResponse r \<Longrightarrow> decodes (ProduceResponse_Encode r) ProduceResponse_Decode r"
  unfolding ProduceResponse_Encode_def ProduceResponse_Decode_def wf_ProduceResponse_def
  by (rule codec_intros | simp)+

lemma reads_ProduceResponse [reads_intros]: "reads ProduceResponse_Decode wf_ProduceResponse"
  unfolding ProduceResponse_Decode_def
  by ((rule reads_bind, (rule reads_intros)+)+, rule reads_return, simp add: wf_ProduceResponse_def)

interpretation produce_response: strict_codec ProduceResponse_Encode ProduceResponse_Decode wf_ProduceResponse
  by unfold_locales (rule decodes_ProduceResponse reads_ProduceResponse; assumption?)+

section \<open>FetchResponse\<close>

record FetchResponsePartition =
  fsp_PartitionID :: int
  fsp_ErrorCode :: int
  fsp_HighWatermark :: int
  fsp_LogStartOffset :: int
  fsp_RecordSet :: bytes

definition FetchResponsePartition_Encode :: "FetchResponsePartition \<Rightarrow> bytes result" where
  "FetchResponsePartition_Encode r =
     seqW [PutInt32 (fsp_PartitionID r),
           PutInt16 (fsp_ErrorCode r),
           PutInt64 (fsp_HighWatermark r),
           PutInt64 (fsp_LogStartOffset r),
           PutBytes (fsp_RecordSet r)]"

definition FetchResponsePartition_Decode :: "FetchResponsePartition reader" where
  "FetchResponsePartition_Decode =
     bindR Int32 (\<lambda>vPartitionID.
     bindR Int16 (\<lambda>vErrorCode.
     bindR Int64 (\<lambda>vHighWatermark.
     bindR Int64 (\<lambda>vLogStartOffset.
     bindR Bytes (\<lambda>vRecordSet.
     returnR \<lparr>fsp_PartitionID = vPartitionID, fsp_ErrorCode = vErrorCode, fsp_HighWatermark = vHighWatermark, fsp_LogStartOffset = vLogStartOffset, fsp_RecordSet = vRecordSet\<rparr>)))))"

definition wf_FetchResponsePartition :: "FetchResponsePartition \<Rightarrow> bool" where
  "wf_FetchResponsePartition r \<longleftrightarrow>
     in_s 32 (fsp_PartitionID r) \<and>
     in_s 16 (fsp_ErrorCode r) \<and>
     in_s 64 (fsp_HighWatermark r) \<and>
     in_s 64 (fsp_LogStartOffset r) \<and>
     int (length (fsp_RecordSet r)) \<le> MaxBytesLength"

lemma decodes_FetchResponsePartition [codec_intros]:
  "wf_FetchResponsePartition r \<Longrightarrow> decodes (FetchResponsePartition_Encode r) FetchResponsePartition_Decode r"
  unfolding FetchResponsePartition_Encode_def FetchResponsePartition_Decode_def wf_FetchResponsePartition_def
  by (rule codec_intros | simp)+

lemma reads_FetchResponsePartition [reads_intros]: "reads FetchResponsePartition_Decode wf_FetchResponsePartition"
  unfolding FetchResponsePartition_Decode_def
  by ((rule reads_bind, (rule reads_intros)+)+, rule reads_return, simp add: wf_FetchResponsePartition_def)

record FetchResponseTopic =
  fst_Name :: string
  fst_Partitions :: "FetchResponsePartition list"

definition FetchResponseTopic_Encode :: "FetchResponseTopic \<Rightarrow> bytes result" where
  "FetchResponseTopic_Encode r =
     seqW [PutString (fst_Name r),
           PutArray FetchResponsePartition_Encode (fst_Partitions r)]"

definition FetchResponseTopic_Decode :: "FetchResponseTopic reader" where
  "FetchResponseTopic_Decode =
     bindR String (\<lambda>vName.
     bindR (GetArray ArrayHeader FetchResponsePartition_Decode) (\<lambda>vPartitions.
     returnR \<lparr>fst_Name = vName, fst_Partitions = vPartitions\<rparr>))"

definition wf_FetchResponseTopic :: "FetchResponseTopic \<Rightarrow> bool" where
  "wf_FetchResponseTopic r \<longleftrightarrow>
     int (length (fst_Name r)) \<le> MaxInt16 \<and>
     int (length (fst_Partitions r)) \<le> MaxInt32 \<and> (\<forall>y \<in> set (fst_Partitions r). wf_FetchResponsePartition y)"

lemma decodes_FetchResponseTopic [codec_intros]:
  "wf_FetchResponseTopic r \<Longrightarrow> decodes (FetchResponseTopic_Encode r) FetchResponseTopic_Decode r"
  unfolding FetchResponseTopic_Encode_def FetchResponseTopic_Decode_def wf_FetchResponseTopic_def
  by (rule codec_intros | simp)+

lemma reads_FetchResponseTopic [reads_intros]: "reads FetchResponseTopic_Decode wf_FetchResponseTopic"
  unfolding FetchResponseTopic_Decode_def
  by ((rule reads_bind, (rule reads_intros)+)+, rule reads_return, simp add: wf_FetchResponseTopic_def)

record FetchResponse =
  fs_Topics :: "FetchResponseTopic list"

definition FetchResponse_Encode :: "FetchResponse \<Rightarrow> bytes result" where
  "FetchResponse_Encode r =
     seqW [PutArray FetchResponseTopic_Encode (fs_Topics r)]"

definition FetchResponse_Decode :: "FetchResponse reader" where
  "FetchResponse_Decode =
     bindR (GetArray ArrayHeader FetchResponseTopic_Decode) (\<lambda>vTopics.
     returnR \<lparr>fs_Topics = vTopics\<rparr>)"

definition wf_FetchResponse :: "FetchResponse \<Rightarrow> bool" where
  "wf_FetchResponse r \<longleftrightarrow>
     int (length (fs_Topics r)) \<le> MaxInt32 \<and> (\<forall>y \<in> set (fs_Topics r). wf_FetchResponseTopic y)"

lemma decodes_FetchResponse [codec_intros]:
  "wf_FetchResponse r \<Longrightarrow> decodes (FetchResponse_Encode r) FetchResponse_Decode r"
  unfolding FetchResponse_Encode_def FetchResponse_Decode_def wf_FetchResponse_def
  by (rule codec_intros | simp)+

lemma reads_FetchResponse [reads_intros]: "reads FetchResponse_Decode wf_FetchResponse"
  unfolding FetchResponse_Decode_def
  by ((rule reads_bind, (rule reads_intros)+)+, rule reads_return, simp add: wf_FetchResponse_def)

interpretation fetch_response: strict_codec FetchResponse_Encode FetchResponse_Decode wf_FetchResponse
  by unfold_locales (rule decodes_FetchResponse reads_FetchResponse; assumption?)+

section \<open>ApiVersionsResponse\<close>

record ApiVersion =
  av_ApiKey :: int
  av_MinVersion :: int
  av_MaxVersion :: int

definition ApiVersion_Encode :: "ApiVersion \<Rightarrow> bytes result" where
  "ApiVersion_Encode r =
     seqW [PutInt16 (av_ApiKey r),
           PutInt16 (av_MinVersion r),
           PutInt16 (av_MaxVersion r)]"

definition ApiVersion_Decode :: "ApiVersion reader" where
  "ApiVersion_Decode =
     bindR Int16 (\<lambda>vApiKey.
     bindR Int16 (\<lambda>vMinVersion.
     bindR Int16 (\<lambda>vMaxVersion.
     returnR \<lparr>av_ApiKey = vApiKey, av_MinVersion = vMinVersion, av_MaxVersion = vMaxVersion\<rparr>)))"

definition wf_ApiVersion :: "ApiVersion \<Rightarrow> bool" where
  "wf_ApiVersion r \<longleftrightarrow>
     in_s 16 (av_ApiKey r) \<and>
     in_s 16 (av_MinVersion r) \<and>
     in_s 16 (av_MaxVersion r)"

lemma decodes_ApiVersion [codec_intros]:
  "wf_ApiVersion r \<Longrightarrow> decodes (ApiVersion_Encode r) ApiVersion_Decode r"
  unfolding ApiVersion_Encode_def ApiVersion_Decode_def wf_ApiVersion_def
  by (rule codec_intros | simp)+

lemma reads_ApiVersion [reads_intros]: "reads ApiVersion_Decode wf_ApiVersion"
  unfolding ApiVersion_Decode_def
  by ((rule reads_bind, (rule reads_intros)+)+, rule reads_return, simp add: wf_ApiVersion_def)

record ApiVersionsResponse =
  avs_ApiKeys :: "ApiVersion list"

definition ApiVersionsResponse_Encode :: "ApiVersionsResponse \<Rightarrow> bytes result" where
  "ApiVersionsResponse_Encode r =
     seqW [PutArray ApiVersion_Encode (avs_ApiKeys r)]"

definition ApiVersionsResponse_Decode :: "ApiVersionsResponse reader" where
  "ApiVersionsResponse_Decode =
     bindR (GetArray ArrayHeader ApiVersion_Decode) (\<lambda>vApiKeys.
     returnR \<lparr>avs_ApiKeys = vApiKeys\<rparr>)"

definition wf_ApiVersionsResponse :: "ApiVersionsResponse \<Rightarrow> bool" where
  "wf_ApiVersionsResponse r \<longleftrightarrow>
     int (length (avs_ApiKeys r)) \<le> MaxInt32 \<and> (\<forall>y \<in> set (avs_ApiKeys r). wf_ApiVersion y)"

lemma decodes_ApiVersionsResponse [codec_intros]:
  "wf_ApiVersionsResponse r \<Longrightarrow> decodes (ApiVersionsResponse_Encode r) ApiVersionsResponse_Decode r"
  unfolding ApiVersionsResponse_Encode_def ApiVersionsResponse_Decode_def wf_ApiVersionsResponse_def
  by (rule codec_intros | simp)+

lemma reads_ApiVersionsResponse [reads_intros]: "reads ApiVersionsResponse_Decode wf_ApiVersionsResponse"
  unfolding ApiVersionsResponse_Decode_def
  by ((rule reads_bind, (rule reads_intros)+)+, rule reads_return, simp add: wf_ApiVersionsResponse_def)

interpretation api_versions_response: strict_codec ApiVersionsResponse_Encode ApiVersionsResponse_Decode wf_ApiVersionsResponse
  by unfold_locales (rule decodes_ApiVersionsResponse reads_ApiVersionsResponse; assumption?)+

section \<open>MetadataResponse\<close>

record BrokerMetadata =
  bm_NodeID :: int
  bm_Host :: string
  bm_Port :: int

definition BrokerMetadata_Encode :: "BrokerMetadata \<Rightarrow> bytes result" where
  "BrokerMetadata_Encode r =
     seqW [PutInt32 (bm_NodeID r),
           PutString (bm_Host r),
           PutInt32 (bm_Port r)]"

definition BrokerMetadata_Decode :: "BrokerMetadata reader" where
  "BrokerMetadata_Decode =
     bindR Int32 (\<lambda>vNodeID.
     bindR String (\<lambda>vHost.
     bindR Int32 (\<lambda>vPort.
     returnR \<lparr>bm_NodeID = vNodeID, bm_Host = vHost, bm_Port = vPort\<rparr>)))"

definition wf_BrokerMetadata :: "BrokerMetadata \<Rightarrow> bool" where
  "wf_BrokerMetadata r \<longleftrightarrow>
     in_s 32 (bm_NodeID r) \<and>
     int (length (bm_Host r)) \<le> MaxInt16 \<and>
     in_s 32 (bm_Port r)"

lemma decodes_BrokerMetadata [codec_intros]:
  "wf_BrokerMetadata r \<Longrightarrow> decodes (BrokerMetadata_Encode r) BrokerMetadata_Decode r"
  unfolding BrokerMetadata_Encode_def BrokerMetadata_Decode_def wf_BrokerMetadata_def
  by (rule codec_intros | simp)+

lemma reads_BrokerMetadata [reads_intros]: "reads BrokerMetadata_Decode wf_BrokerMetadata"
  unfolding BrokerMetadata_Decode_def
  by ((rule reads_bind, (rule reads_intros)+)+, rule reads_return, simp add: wf_BrokerMetadata_def)

record PartitionMetadata =
  pm_PartitionID :: int
  pm_Leader :: int
  pm_Replicas :: "int list"
  pm_ISR :: "int list"

definition PartitionMetadata_Encode :: "PartitionMetadata \<Rightarrow> bytes result" where
  "PartitionMetadata_Encode r =
     seqW [PutInt32 (pm_PartitionID r),
           PutInt32 (pm_Leader r),
           PutArray PutInt32 (pm_Replicas r),
           PutArray PutInt32 (pm_ISR r)]"

definition PartitionMetadata_Decode :: "PartitionMetadata reader" where
  "PartitionMetadata_Decode =
     bindR Int32 (\<lambda>vPartitionID.
     bindR Int32 (\<lambda>vLeader.
     bindR (GetArray ArrayHeader Int32) (\<lambda>vReplicas.
     bindR (GetArray ArrayHeader Int32) (\<lambda>vISR.
     returnR \<lparr>pm_PartitionID = vPartitionID, pm_Leader = vLeader, pm_Replicas = vReplicas, pm_ISR = vISR\<rparr>))))"

definition wf_PartitionMetadata :: "PartitionMetadata \<Rightarrow> bool" where
  "wf_PartitionMetadata r \<longleftrightarrow>
     in_s 32 (pm_PartitionID r) \<and>
     in_s 32 (pm_Leader r) \<and>
     int (length (pm_Replicas r)) \<le> MaxInt32 \<and> (\<forall>y \<in> set (pm_Replicas r). in_s 32 y) \<and>
     int (length (pm_ISR r)) \<le> MaxInt32 \<and> (\<forall>y \<in> set (pm_ISR r). in_s 32 y)"

lemma decodes_PartitionMetadata [codec_intros]:
  "wf_PartitionMetadata r \<Longrightarrow> decodes (PartitionMetadata_Encode r) PartitionMetadata_Decode r"
  unfolding PartitionMetadata_Encode_def PartitionMetadata_Decode_def wf_PartitionMetadata_def
  by (rule codec_intros | simp)+

lemma reads_PartitionMetadata [reads_intros]: "reads PartitionMetadata_Decode wf_PartitionMetadata"
  unfolding PartitionMetadata_Decode_def
  by ((rule reads_bind, (rule reads_intros)+)+, rule reads_return, simp add: wf_PartitionMetadata_def)

record TopicMetadata =
  tm_Name :: string
  tm_ErrorCode :: int
  tm_Partitions :: "PartitionMetadata list"

definition TopicMetadata_Encode :: "TopicMetadata \<Rightarrow> bytes result" where
  "TopicMetadata_Encode r =
     seqW [PutString (tm_Name r),
           PutInt16 (tm_ErrorCode r),
           PutArray PartitionMetadata_Encode (tm_Partitions r)]"

definition TopicMetadata_Decode :: "TopicMetadata reader" where
  "TopicMetadata_Decode =
     bindR String (\<lambda>vName.
     bindR Int16 (\<lambda>vErrorCode.
     bindR (GetArray ArrayHeader PartitionMetadata_Decode) (\<lambda>vPartitions.
     returnR \<lparr>tm_Name = vName, tm_ErrorCode = vErrorCode, tm_Partitions = vPartitions\<rparr>)))"

definition wf_TopicMetadata :: "TopicMetadata \<Rightarrow> bool" where
  "wf_TopicMetadata r \<longleftrightarrow>
     int (length (tm_Name r)) \<le> MaxInt16 \<and>
     in_s 16 (tm_ErrorCode r) \<and>
     int (length (tm_Partitions r)) \<le> MaxInt32 \<and> (\<forall>y \<in> set (tm_Partitions r). wf_PartitionMetadata y)"

lemma decodes_TopicMetadata [codec_intros]:
  "wf_TopicMetadata r \<Longrightarrow> decodes (TopicMetadata_Encode r) TopicMetadata_Decode r"
  unfolding TopicMetadata_Encode_def TopicMetadata_Decode_def wf_TopicMetadata_def
  by (rule codec_intros | simp)+

lemma reads_TopicMetadata [reads_intros]: "reads TopicMetadata_Decode wf_TopicMetadata"
  unfolding TopicMetadata_Decode_def
  by ((rule reads_bind, (rule reads_intros)+)+, rule reads_return, simp add: wf_TopicMetadata_def)

record MetadataResponse =
  ms_Brokers :: "BrokerMetadata list"
  ms_Topics :: "TopicMetadata list"

definition MetadataResponse_Encode :: "MetadataResponse \<Rightarrow> bytes result" where
  "MetadataResponse_Encode r =
     seqW [PutArray BrokerMetadata_Encode (ms_Brokers r),
           PutArray TopicMetadata_Encode (ms_Topics r)]"

definition MetadataResponse_Decode :: "MetadataResponse reader" where
  "MetadataResponse_Decode =
     bindR (GetArray ArrayHeader BrokerMetadata_Decode) (\<lambda>vBrokers.
     bindR (GetArray ArrayHeader TopicMetadata_Decode) (\<lambda>vTopics.
     returnR \<lparr>ms_Brokers = vBrokers, ms_Topics = vTopics\<rparr>))"

definition wf_MetadataResponse :: "MetadataResponse \<Rightarrow> bool" where
  "wf_MetadataResponse r \<longleftrightarrow>
     int (length (ms_Brokers r)) \<le> MaxInt32 \<and> (\<forall>y \<in> set (ms_Brokers r). wf_BrokerMetadata y) \<and>
     int (length (ms_Topics r)) \<le> MaxInt32 \<and> (\<forall>y \<in> set (ms_Topics r). wf_TopicMetadata y)"

lemma decodes_MetadataResponse [codec_intros]:
  "wf_MetadataResponse r \<Longrightarrow> decodes (MetadataResponse_Encode r) MetadataResponse_Decode r"
  unfolding MetadataResponse_Encode_def MetadataResponse_Decode_def wf_MetadataResponse_def
  by (rule codec_intros | simp)+

lemma reads_MetadataResponse [reads_intros]: "reads MetadataResponse_Decode wf_MetadataResponse"
  unfolding MetadataResponse_Decode_def
  by ((rule reads_bind, (rule reads_intros)+)+, rule reads_return, simp add: wf_MetadataResponse_def)

interpretation metadata_response: strict_codec MetadataResponse_Encode MetadataResponse_Decode wf_MetadataResponse
  by unfold_locales (rule decodes_MetadataResponse reads_MetadataResponse; assumption?)+

section \<open>CreateTopicsResponse\<close>

record CreateTopicResponseTopic =
  ctst_Name :: string
  ctst_ErrorCode :: int

definition CreateTopicResponseTopic_Encode :: "CreateTopicResponseTopic \<Rightarrow> bytes result" where
  "CreateTopicResponseTopic_Encode r =
     seqW [PutString (ctst_Name r),
           PutInt16 (ctst_ErrorCode r)]"

definition CreateTopicResponseTopic_Decode :: "CreateTopicResponseTopic reader" where
  "CreateTopicResponseTopic_Decode =
     bindR String (\<lambda>vName.
     bindR Int16 (\<lambda>vErrorCode.
     returnR \<lparr>ctst_Name = vName, ctst_ErrorCode = vErrorCode\<rparr>))"

definition wf_CreateTopicResponseTopic :: "CreateTopicResponseTopic \<Rightarrow> bool" where
  "wf_CreateTopicResponseTopic r \<longleftrightarrow>
     int (length (ctst_Name r)) \<le> MaxInt16 \<and>
     in_s 16 (ctst_ErrorCode r)"

lemma decodes_CreateTopicResponseTopic [codec_intros]:
  "wf_CreateTopicResponseTopic r \<Longrightarrow> decodes (CreateTopicResponseTopic_Encode r) CreateTopicResponseTopic_Decode r"
  unfolding CreateTopicResponseTopic_Encode_def CreateTopicResponseTopic_Decode_def wf_CreateTopicResponseTopic_def
  by (rule codec_intros | simp)+

lemma reads_CreateTopicResponseTopic [reads_intros]: "reads CreateTopicResponseTopic_Decode wf_CreateTopicResponseTopic"
  unfolding CreateTopicResponseTopic_Decode_def
  by ((rule reads_bind, (rule reads_intros)+)+, rule reads_return, simp add: wf_CreateTopicResponseTopic_def)

record CreateTopicsResponse =
  cts_Topics :: "CreateTopicResponseTopic list"

definition CreateTopicsResponse_Encode :: "CreateTopicsResponse \<Rightarrow> bytes result" where
  "CreateTopicsResponse_Encode r =
     seqW [PutArray CreateTopicResponseTopic_Encode (cts_Topics r)]"

definition CreateTopicsResponse_Decode :: "CreateTopicsResponse reader" where
  "CreateTopicsResponse_Decode =
     bindR (GetArray ArrayHeader CreateTopicResponseTopic_Decode) (\<lambda>vTopics.
     returnR \<lparr>cts_Topics = vTopics\<rparr>)"

definition wf_CreateTopicsResponse :: "CreateTopicsResponse \<Rightarrow> bool" where
  "wf_CreateTopicsResponse r \<longleftrightarrow>
     int (length (cts_Topics r)) \<le> MaxInt32 \<and> (\<forall>y \<in> set (cts_Topics r). wf_CreateTopicResponseTopic y)"

lemma decodes_CreateTopicsResponse [codec_intros]:
  "wf_CreateTopicsResponse r \<Longrightarrow> decodes (CreateTopicsResponse_Encode r) CreateTopicsResponse_Decode r"
  unfolding CreateTopicsResponse_Encode_def CreateTopicsResponse_Decode_def wf_CreateTopicsResponse_def
  by (rule codec_intros | simp)+

lemma reads_CreateTopicsResponse [reads_intros]: "reads CreateTopicsResponse_Decode wf_CreateTopicsResponse"
  unfolding CreateTopicsResponse_Decode_def
  by ((rule reads_bind, (rule reads_intros)+)+, rule reads_return, simp add: wf_CreateTopicsResponse_def)

interpretation create_topics_response: strict_codec CreateTopicsResponse_Encode CreateTopicsResponse_Decode wf_CreateTopicsResponse
  by unfold_locales (rule decodes_CreateTopicsResponse reads_CreateTopicsResponse; assumption?)+

section \<open>JoinGroupResponse\<close>

record JoinGroupMember =
  jgm_MemberID :: string
  jgm_Metadata :: bytes

definition JoinGroupMember_Encode :: "JoinGroupMember \<Rightarrow> bytes result" where
  "JoinGroupMember_Encode r =
     seqW [PutString (jgm_MemberID r),
           PutBytes (jgm_Metadata r)]"

definition JoinGroupMember_Decode :: "JoinGroupMember reader" where
  "JoinGroupMember_Decode =
     bindR String (\<lambda>vMemberID.
     bindR Bytes (\<lambda>vMetadata.
     returnR \<lparr>jgm_MemberID = vMemberID, jgm_Metadata = vMetadata\<rparr>))"

definition wf_JoinGroupMember :: "JoinGroupMember \<Rightarrow> bool" where
  "wf_JoinGroupMember r \<longleftrightarrow>
     int (length (jgm_MemberID r)) \<le> MaxInt16 \<and>
     int (length (jgm_Metadata r)) \<le> MaxBytesLength"

lemma decodes_JoinGroupMember [codec_intros]:
  "wf_JoinGroupMember r \<Longrightarrow> decodes (JoinGroupMember_Encode r) JoinGroupMember_Decode r"
  unfolding JoinGroupMember_Encode_def JoinGroupMember_Decode_def wf_JoinGroupMember_def
  by (rule codec_intros | simp)+

lemma reads_JoinGroupMember [reads_intros]: "reads JoinGroupMember_Decode wf_JoinGroupMember"
  unfolding JoinGroupMember_Decode_def
  by ((rule reads_bind, (rule reads_intros)+)+, rule reads_return, simp add: wf_JoinGroupMember_def)

record JoinGroupResponse =
  jgs_ErrorCode :: int
  jgs_GenerationID :: int
  jgs_ProtocolName :: string
  jgs_LeaderID :: string
  jgs_MemberID :: string
  jgs_Members :: "JoinGroupMember list"

definition JoinGroupResponse_Encode :: "JoinGroupResponse \<Rightarrow> bytes result" where
  "JoinGroupResponse_Encode r =
     seqW [PutInt16 (jgs_ErrorCode r),
           PutInt32 (jgs_GenerationID r),
           PutString (jgs_ProtocolName r),
           PutString (jgs_LeaderID r),
           PutString (jgs_MemberID r),
           PutArray JoinGroupMember_Encode (jgs_Members r)]"

definition JoinGroupResponse_Decode :: "JoinGroupResponse reader" where
  "JoinGroupResponse_Decode =
     bindR Int16 (\<lambda>vErrorCode.
     bindR Int32 (\<lambda>vGenerationID.
     bindR String (\<lambda>vProtocolName.
     bindR String (\<lambda>vLeaderID.
     bindR String (\<lambda>vMemberID.
     bindR (GetArray ArrayHeader JoinGroupMember_Decode) (\<lambda>vMembers.
     returnR \<lparr>jgs_ErrorCode = vErrorCode, jgs_GenerationID = vGenerationID, jgs_ProtocolName = vProtocolName, jgs_LeaderID = vLeaderID, jgs_MemberID = vMemberID, jgs_Members = vMembers\<rparr>))))))"

definition wf_JoinGroupResponse :: "JoinGroupResponse \<Rightarrow> bool" where
  "wf_JoinGroupResponse r \<longleftrightarrow>
     in_s 16 (jgs_ErrorCode r) \<and>
     in_s 32 (jgs_GenerationID r) \<and>
     int (length (jgs_ProtocolName r)) \<le> MaxInt16 \<and>
     int (length (jgs_LeaderID r)) \<le> MaxInt16 \<and>
     int (length (jgs_MemberID r)) \<le> MaxInt16 \<and>
     int (length (jgs_Members r)) \<le> MaxInt32 \<and> (\<forall>y \<in> set (jgs_Members r). wf_JoinGroupMember y)"

lemma decodes_JoinGroupResponse [codec_intros]:
  "wf_JoinGroupResponse r \<Longrightarrow> decodes (JoinGroupResponse_Encode r) JoinGroupResponse_Decode r"
  unfolding JoinGroupResponse_Encode_def JoinGroupResponse_Decode_def wf_JoinGroupResponse_def
  by (rule codec_intros | simp)+

lemma reads_JoinGroupResponse [reads_intros]: "reads JoinGroupResponse_Decode wf_JoinGroupResponse"
  unfolding JoinGroupResponse_Decode_def
  by ((rule reads_bind, (rule reads_intros)+)+, rule reads_return, simp add: wf_JoinGroupResponse_def)

interpretation join_group_response: strict_codec JoinGroupResponse_Encode JoinGroupResponse_Decode wf_JoinGroupResponse
  by unfold_locales (rule decodes_JoinGroupResponse reads_JoinGroupResponse; assumption?)+

section \<open>SyncGroupResponse\<close>

record SyncGroupResponse =
  sgs_ErrorCode :: int
  sgs_Assignment :: bytes

definition SyncGroupResponse_Encode :: "SyncGroupResponse \<Rightarrow> bytes result" where
  "SyncGroupResponse_Encode r =
     seqW [PutInt16 (sgs_ErrorCode r),
           PutBytes (sgs_Assignment r)]"

definition SyncGroupResponse_Decode :: "SyncGroupResponse reader" where
  "SyncGroupResponse_Decode =
     bindR Int16 (\<lambda>vErrorCode.
     bindR Bytes (\<lambda>vAssignment.
     returnR \<lparr>sgs_ErrorCode = vErrorCode, sgs_Assignment = vAssignment\<rparr>))"

definition wf_SyncGroupResponse :: "SyncGroupResponse \<Rightarrow> bool" where
  "wf_SyncGroupResponse r \<longleftrightarrow>
     in_s 16 (sgs_ErrorCode r) \<and>
     int (length (sgs_Assignment r)) \<le> MaxBytesLength"

lemma decodes_SyncGroupResponse [codec_intros]:
  "wf_SyncGroupResponse r \<Longrightarrow> decodes (SyncGroupResponse_Encode r) SyncGroupResponse_Decode r"
  unfolding SyncGroupResponse_Encode_def SyncGroupResponse_Decode_def wf_SyncGroupResponse_def
  by (rule codec_intros | simp)+

lemma reads_SyncGroupResponse [reads_intros]: "reads SyncGroupResponse_Decode wf_SyncGroupResponse"
  unfolding SyncGroupResponse_Decode_def
  by ((rule reads_bind, (rule reads_intros)+)+, rule reads_return, simp add: wf_SyncGroupResponse_def)

interpretation sync_group_response: strict_codec SyncGroupResponse_Encode SyncGroupResponse_Decode wf_SyncGroupResponse
  by unfold_locales (rule decodes_SyncGroupResponse reads_SyncGroupResponse; assumption?)+

section \<open>HeartbeatResponse\<close>

record HeartbeatResponse =
  hbs_ErrorCode :: int

definition HeartbeatResponse_Encode :: "HeartbeatResponse \<Rightarrow> bytes result" where
  "HeartbeatResponse_Encode r =
     seqW [PutInt16 (hbs_ErrorCode r)]"

definition HeartbeatResponse_Decode :: "HeartbeatResponse reader" where
  "HeartbeatResponse_Decode =
     bindR Int16 (\<lambda>vErrorCode.
     returnR \<lparr>hbs_ErrorCode = vErrorCode\<rparr>)"

definition wf_HeartbeatResponse :: "HeartbeatResponse \<Rightarrow> bool" where
  "wf_HeartbeatResponse r \<longleftrightarrow>
     in_s 16 (hbs_ErrorCode r)"

lemma decodes_HeartbeatResponse [codec_intros]:
  "wf_HeartbeatResponse r \<Longrightarrow> decodes (HeartbeatResponse_Encode r) HeartbeatResponse_Decode r"
  unfolding HeartbeatResponse_Encode_def HeartbeatResponse_Decode_def wf_HeartbeatResponse_def
  by (rule codec_intros | simp)+

lemma reads_HeartbeatResponse [reads_intros]: "reads HeartbeatResponse_Decode wf_HeartbeatResponse"
  unfolding HeartbeatResponse_Decode_def
  by ((rule reads_bind, (rule reads_intros)+)+, rule reads_return, simp add: wf_HeartbeatResponse_def)

interpretation heartbeat_response: strict_codec HeartbeatResponse_Encode HeartbeatResponse_Decode wf_HeartbeatResponse
  by unfold_locales (rule decodes_HeartbeatResponse reads_HeartbeatResponse; assumption?)+

section \<open>LeaveGroupResponse\<close>

record LeaveGroupResponse =
  lgs_ErrorCode :: int

definition LeaveGroupResponse_Encode :: "LeaveGroupResponse \<Rightarrow> bytes result" where
  "LeaveGroupResponse_Encode r =
     seqW [PutInt16 (lgs_ErrorCode r)]"

definition LeaveGroupResponse_Decode :: "LeaveGroupResponse reader" where
  "LeaveGroupResponse_Decode =
     bindR Int16 (\<lambda>vErrorCode.
     returnR \<lparr>lgs_ErrorCode = vErrorCode\<rparr>)"

definition wf_LeaveGroupResponse :: "LeaveGroupResponse \<Rightarrow> bool" where
  "wf_LeaveGroupResponse r \<longleftrightarrow>
     in_s 16 (lgs_ErrorCode r)"

lemma decodes_LeaveGroupResponse [codec_intros]:
  "wf_LeaveGroupResponse r \<Longrightarrow> decodes (LeaveGroupResponse_Encode r) LeaveGroupResponse_Decode r"
  unfolding LeaveGroupResponse_Encode_def LeaveGroupResponse_Decode_def wf_LeaveGroupResponse_def
  by (rule codec_intros | simp)+

lemma reads_LeaveGroupResponse [reads_intros]: "reads LeaveGroupResponse_Decode wf_LeaveGroupResponse"
  unfolding LeaveGroupResponse_Decode_def
  by ((rule reads_bind, (rule reads_intros)+)+, rule reads_return, simp add: wf_LeaveGroupResponse_def)

interpretation leave_group_response: strict_codec LeaveGroupResponse_Encode LeaveGroupResponse_Decode wf_LeaveGroupResponse
  by unfold_locales (rule decodes_LeaveGroupResponse reads_LeaveGroupResponse; assumption?)+

section \<open>OffsetCommitResponse\<close>

record OffsetCommitResponsePartition =
  ocsp_PartitionID :: int
  ocsp_ErrorCode :: int

definition OffsetCommitResponsePartition_Encode :: "OffsetCommitResponsePartition \<Rightarrow> bytes result" where
  "OffsetCommitResponsePartition_Encode r =
     seqW [PutInt32 (ocsp_PartitionID r),
           PutInt16 (ocsp_ErrorCode r)]"

definition OffsetCommitResponsePartition_Decode :: "OffsetCommitResponsePartition reader" where
  "OffsetCommitResponsePartition_Decode =
     bindR Int32 (\<lambda>vPartitionID.
     bindR Int16 (\<lambda>vErrorCode.
     returnR \<lparr>ocsp_PartitionID = vPartitionID, ocsp_ErrorCode = vErrorCode\<rparr>))"

definition wf_OffsetCommitResponsePartition :: "OffsetCommitResponsePartition \<Rightarrow> bool" where
  "wf_OffsetCommitResponsePartition r \<longleftrightarrow>
     in_s 32 (ocsp_PartitionID r) \<and>
     in_s 16 (ocsp_ErrorCode r)"

lemma decodes_OffsetCommitResponsePartition [codec_intros]:
  "wf_OffsetCommitResponsePartition r \<Longrightarrow> decodes (OffsetCommitResponsePartition_Encode r) OffsetCommitResponsePartition_Decode r"
  unfolding OffsetCommitResponsePartition_Encode_def OffsetCommitResponsePartition_Decode_def wf_OffsetCommitResponsePartition_def
  by (rule codec_intros | simp)+

lemma reads_OffsetCommitResponsePartition [reads_intros]: "reads OffsetCommitResponsePartition_Decode wf_OffsetCommitResponsePartition"
  unfolding OffsetCommitResponsePartition_Decode_def
  by ((rule reads_bind, (rule reads_intros)+)+, rule reads_return, simp add: wf_OffsetCommitResponsePartition_def)

record OffsetCommitResponseTopic =
  ocst_Name :: string
  ocst_Partitions :: "OffsetCommitResponsePartition list"

definition OffsetCommitResponseTopic_Encode :: "OffsetCommitResponseTopic \<Rightarrow> bytes result" where
  "OffsetCommitResponseTopic_Encode r =
     seqW [PutString (ocst_Name r),
           PutArray OffsetCommitResponsePartition_Encode (ocst_Partitions r)]"

definition OffsetCommitResponseTopic_Decode :: "OffsetCommitResponseTopic reader" where
  "OffsetCommitResponseTopic_Decode =
     bindR String (\<lambda>vName.
     bindR (GetArray ArrayHeader OffsetCommitResponsePartition_Decode) (\<lambda>vPartitions.
     returnR \<lparr>ocst_Name = vName, ocst_Partitions = vPartitions\<rparr>))"

definition wf_OffsetCommitResponseTopic :: "OffsetCommitResponseTopic \<Rightarrow> bool" where
  "wf_OffsetCommitResponseTopic r \<longleftrightarrow>
     int (length (ocst_Name r)) \<le> MaxInt16 \<and>
     int (length (ocst_Partitions r)) \<le> MaxInt32 \<and> (\<forall>y \<in> set (ocst_Partitions r). wf_OffsetCommitResponsePartition y)"

lemma decodes_OffsetCommitResponseTopic [codec_intros]:
  "wf_OffsetCommitResponseTopic r \<Longrightarrow> decodes (OffsetCommitResponseTopic_Encode r) OffsetCommitResponseTopic_Decode r"
  unfolding OffsetCommitResponseTopic_Encode_def OffsetCommitResponseTopic_Decode_def wf_OffsetCommitResponseTopic_def
  by (rule codec_intros | simp)+

lemma reads_OffsetCommitResponseTopic [reads_intros]: "reads OffsetCommitResponseTopic_Decode wf_OffsetCommitResponseTopic"
  unfolding OffsetCommitResponseTopic_Decode_def
  by ((rule reads_bind, (rule reads_intros)+)+, rule reads_return, simp add: wf_OffsetCommitResponseTopic_def)

record OffsetCommitResponse =
  ocs_Topics :: "OffsetCommitResponseTopic list"

definition OffsetCommitResponse_Encode :: "OffsetCommitResponse \<Rightarrow> bytes result" where
  "OffsetCommitResponse_Encode r =
     seqW [PutArray OffsetCommitResponseTopic_Encode (ocs_Topics r)]"

definition OffsetCommitResponse_Decode :: "OffsetCommitResponse reader" where
  "OffsetCommitResponse_Decode =
     bindR (GetArray ArrayHeader OffsetCommitResponseTopic_Decode) (\<lambda>vTopics.
     returnR \<lparr>ocs_Topics = vTopics\<rparr>)"

definition wf_OffsetCommitResponse :: "OffsetCommitResponse \<Rightarrow> bool" where
  "wf_OffsetCommitResponse r \<longleftrightarrow>
     int (length (ocs_Topics r)) \<le> MaxInt32 \<and> (\<forall>y \<in> set (ocs_Topics r). wf_OffsetCommitResponseTopic y)"

lemma decodes_OffsetCommitResponse [codec_intros]:
  "wf_OffsetCommitResponse r \<Longrightarrow> decodes (OffsetCommitResponse_Encode r) OffsetCommitResponse_Decode r"
  unfolding OffsetCommitResponse_Encode_def OffsetCommitResponse_Decode_def wf_OffsetCommitResponse_def
  by (rule codec_intros | simp)+

lemma reads_OffsetCommitResponse [reads_intros]: "reads OffsetCommitResponse_Decode wf_OffsetCommitResponse"
  unfolding OffsetCommitResponse_Decode_def
  by ((rule reads_bind, (rule reads_intros)+)+, rule reads_return, simp add: wf_OffsetCommitResponse_def)

interpretation offset_commit_response: strict_codec OffsetCommitResponse_Encode OffsetCommitResponse_Decode wf_OffsetCommitResponse
  by unfold_locales (rule decodes_OffsetCommitResponse reads_OffsetCommitResponse; assumption?)+

section \<open>OffsetFetchResponse\<close>

record OffsetFetchResponsePartition =
  ofsp_PartitionID :: int
  ofsp_Offset :: int
  ofsp_ErrorCode :: int

definition OffsetFetchResponsePartition_Encode :: "OffsetFetchResponsePartition \<Rightarrow> bytes result" where
  "OffsetFetchResponsePartition_Encode r =
     seqW [PutInt32 (ofsp_PartitionID r),
           PutInt64 (ofsp_Offset r),
           PutInt16 (ofsp_ErrorCode r)]"

definition OffsetFetchResponsePartition_Decode :: "OffsetFetchResponsePartition reader" where
  "OffsetFetchResponsePartition_Decode =
     bindR Int32 (\<lambda>vPartitionID.
     bindR Int64 (\<lambda>vOffset.
     bindR Int16 (\<lambda>vErrorCode.
     returnR \<lparr>ofsp_PartitionID = vPartitionID, ofsp_Offset = vOffset, ofsp_ErrorCode = vErrorCode\<rparr>)))"

definition wf_OffsetFetchResponsePartition :: "OffsetFetchResponsePartition \<Rightarrow> bool" where
  "wf_OffsetFetchResponsePartition r \<longleftrightarrow>
     in_s 32 (ofsp_PartitionID r) \<and>
     in_s 64 (ofsp_Offset r) \<and>
     in_s 16 (ofsp_ErrorCode r)"

lemma decodes_OffsetFetchResponsePartition [codec_intros]:
  "wf_OffsetFetchResponsePartition r \<Longrightarrow> decodes (OffsetFetchResponsePartition_Encode r) OffsetFetchResponsePartition_Decode r"
  unfolding OffsetFetchResponsePartition_Encode_def OffsetFetchResponsePartition_Decode_def wf_OffsetFetchResponsePartition_def
  by (rule codec_intros | simp)+

lemma reads_OffsetFetchResponsePartition [reads_intros]: "reads OffsetFetchResponsePartition_Decode wf_OffsetFetchResponsePartition"
  unfolding OffsetFetchResponsePartition_Decode_def
  by ((rule reads_bind, (rule reads_intros)+)+, rule reads_return, simp add: wf_OffsetFetchResponsePartition_def)

record OffsetFetchResponseTopic =
  ofst_Name :: string
  ofst_Partitions :: "OffsetFetchResponsePartition list"

definition OffsetFetchResponseTopic_Encode :: "OffsetFetchResponseTopic \<Rightarrow> bytes result" where
  "OffsetFetchResponseTopic_Encode r =
     seqW [PutString (ofst_Name r),
           PutArray OffsetFetchResponsePartition_Encode (ofst_Partitions r)]"

definition OffsetFetchResponseTopic_Decode :: "OffsetFetchResponseTopic reader" where
  "OffsetFetchResponseTopic_Decode =
     bindR String (\<lambda>vName.
     bindR (GetArray ArrayHeader OffsetFetchResponsePartition_Decode) (\<lambda>vPartitions.
     returnR \<lparr>ofst_Name = vName, ofst_Partitions = vPartitions\<rparr>))"

definition wf_OffsetFetchResponseTopic :: "OffsetFetchResponseTopic \<Rightarrow> bool" where
  "wf_OffsetFetchResponseTopic r \<longleftrightarrow>
     int (length (ofst_Name r)) \<le> MaxInt16 \<and>
     int (length (ofst_Partitions r)) \<le> MaxInt32 \<and> (\<forall>y \<in> set (ofst_Partitions r). wf_OffsetFetchResponsePartition y)"

lemma decodes_OffsetFetchResponseTopic [codec_intros]:
  "wf_OffsetFetchResponseTopic r \<Longrightarrow> decodes (OffsetFetchResponseTopic_Encode r) OffsetFetchResponseTopic_Decode r"
  unfolding OffsetFetchResponseTopic_Encode_def OffsetFetchResponseTopic_Decode_def wf_OffsetFetchResponseTopic_def
  by (rule codec_intros | simp)+

lemma reads_OffsetFetchResponseTopic [reads_intros]: "reads OffsetFetchResponseTopic_Decode wf_OffsetFetchResponseTopic"
  unfolding OffsetFetchResponseTopic_Decode_def
  by ((rule reads_bind, (rule reads_intros)+)+, rule reads_return, simp add: wf_OffsetFetchResponseTopic_def)

record OffsetFetchResponse =
  ofs_Topics :: "OffsetFetchResponseTopic list"

definition OffsetFetchResponse_Encode :: "OffsetFetchResponse \<Rightarrow> bytes result" where
  "OffsetFetchResponse_Encode r =
     seqW [PutArray OffsetFetchResponseTopic_Encode (ofs_Topics r)]"

definition OffsetFetchResponse_Decode :: "OffsetFetchResponse reader" where
  "OffsetFetchResponse_Decode =
     bindR (GetArray ArrayHeader OffsetFetchResponseTopic_Decode) (\<lambda>vTopics.
     returnR \<lparr>ofs_Topics = vTopics\<rparr>)"

definition wf_OffsetFetchResponse :: "OffsetFetchResponse \<Rightarrow> bool" where
  "wf_OffsetFetchResponse r \<longleftrightarrow>
     int (length (ofs_Topics r)) \<le> MaxInt32 \<and> (\<forall>y \<in> set (ofs_Topics r). wf_OffsetFetchResponseTopic y)"

lemma decodes_OffsetFetchResponse [codec_intros]:
  "wf_OffsetFetchResponse r \<Longrightarrow> decodes (OffsetFetchResponse_Encode r) OffsetFetchResponse_Decode r"
  unfolding OffsetFetchResponse_Encode_def OffsetFetchResponse_Decode_def wf_OffsetFetchResponse_def
  by (rule codec_intros | simp)+

lemma reads_OffsetFetchResponse [reads_intros]: "reads OffsetFetchResponse_Decode wf_OffsetFetchResponse"
  unfolding OffsetFetchResponse_Decode_def
  by ((rule reads_bind, (rule reads_intros)+)+, rule reads_return, simp add: wf_OffsetFetchResponse_def)

interpretation offset_fetch_response: strict_codec OffsetFetchResponse_Encode OffsetFetchResponse_Decode wf_OffsetFetchResponse
  by unfold_locales (rule decodes_OffsetFetchResponse reads_OffsetFetchResponse; assumption?)+

section \<open>ListOffsetsResponse\<close>

record ListOffsetsResponsePartition =
  losp_PartitionID :: int
  losp_ErrorCode :: int
  losp_Offset :: int

definition ListOffsetsResponsePartition_Encode :: "ListOffsetsResponsePartition \<Rightarrow> bytes result" where
  "ListOffsetsResponsePartition_Encode r =
     seqW [PutInt32 (losp_PartitionID r),
           PutInt16 (losp_ErrorCode r),
           PutInt64 (losp_Offset r)]"

definition ListOffsetsResponsePartition_Decode :: "ListOffsetsResponsePartition reader" where
  "ListOffsetsResponsePartition_Decode =
     bindR Int32 (\<lambda>vPartitionID.
     bindR Int16 (\<lambda>vErrorCode.
     bindR Int64 (\<lambda>vOffset.
     returnR \<lparr>losp_PartitionID = vPartitionID, losp_ErrorCode = vErrorCode, losp_Offset = vOffset\<rparr>)))"

definition wf_ListOffsetsResponsePartition :: "ListOffsetsResponsePartition \<Rightarrow> bool" where
  "wf_ListOffsetsResponsePartition r \<longleftrightarrow>
     in_s 32 (losp_PartitionID r) \<and>
     in_s 16 (losp_ErrorCode r) \<and>
     in_s 64 (losp_Offset r)"

lemma decodes_ListOffsetsResponsePartition [codec_intros]:
  "wf_ListOffsetsResponsePartition r \<Longrightarrow> decodes (ListOffsetsResponsePartition_Encode r) ListOffsetsResponsePartition_Decode r"
  unfolding ListOffsetsResponsePartition_Encode_def ListOffsetsResponsePartition_Decode_def wf_ListOffsetsResponsePartition_def
  by (rule codec_intros | simp)+

lemma reads_ListOffsetsResponsePartition [reads_intros]: "reads ListOffsetsResponsePartition_Decode wf_ListOffsetsResponsePartition"
  unfolding ListOffsetsResponsePartition_Decode_def
  by ((rule reads_bind, (rule reads_intros)+)+, rule reads_return, simp add: wf_ListOffsetsResponsePartition_def)

record ListOffsetsResponseTopic =
  lost_Name :: string
  lost_Partitions :: "ListOffsetsResponsePartition list"

definition ListOffsetsResponseTopic_Encode :: "ListOffsetsResponseTopic \<Rightarrow> bytes result" where
  "ListOffsetsResponseTopic_Encode r =
     seqW [PutString (lost_Name r),
           PutArray ListOffsetsResponsePartition_Encode (lost_Partitions r)]"

definition ListOffsetsResponseTopic_Decode :: "ListOffsetsResponseTopic reader" where
  "ListOffsetsResponseTopic_Decode =
     bindR String (\<lambda>vName.
     bindR (GetArray ArrayHeader ListOffsetsResponsePartition_Decode) (\<lambda>vPartitions.
     returnR \<lparr>lost_Name = vName, lost_Partitions = vPartitions\<rparr>))"

definition wf_ListOffsetsResponseTopic :: "ListOffsetsResponseTopic \<Rightarrow> bool" where
  "wf_ListOffsetsResponseTopic r \<longleftrightarrow>
     int (length (lost_Name r)) \<le> MaxInt16 \<and>
     int (length (lost_Partitions r)) \<le> MaxInt32 \<and> (\<forall>y \<in> set (lost_Partitions r). wf_ListOffsetsResponsePartition y)"

lemma decodes_ListOffsetsResponseTopic [codec_intros]:
  "wf_ListOffsetsResponseTopic r \<Longrightarrow> decodes (ListOffsetsResponseTopic_Encode r) ListOffsetsResponseTopic_Decode r"
  unfolding ListOffsetsResponseTopic_Encode_def ListOffsetsResponseTopic_Decode_def wf_ListOffsetsResponseTopic_def
  by (rule codec_intros | simp)+

lemma reads_ListOffsetsResponseTopic [reads_intros]: "reads ListOffsetsResponseTopic_Decode wf_ListOffsetsResponseTopic"
  unfolding ListOffsetsResponseTopic_Decode_def
  by ((rule reads_bind, (rule reads_intros)+)+, rule reads_return, simp add: wf_ListOffsetsResponseTopic_def)

record ListOffsetsResponse =
  los_Topics :: "ListOffsetsResponseTopic list"

definition ListOffsetsResponse_Encode :: "ListOffsetsResponse \<Rightarrow> bytes result" where
  "ListOffsetsResponse_Encode r =
     seqW [PutArray ListOffsetsResponseTopic_Encode (los_Topics r)]"

definition ListOffsetsResponse_Decode :: "ListOffsetsResponse reader" where
  "ListOffsetsResponse_Decode =
     bindR (GetArray ArrayHeader ListOffsetsResponseTopic_Decode) (\<lambda>vTopics.
     returnR \<lparr>los_Topics = vTopics\<rparr>)"

definition wf_ListOffsetsResponse :: "ListOffsetsResponse \<Rightarrow> bool" where
  "wf_ListOffsetsResponse r \<longleftrightarrow>
     int (length (los_Topics r)) \<le> MaxInt32 \<and> (\<forall>y \<in> set (los_Topics r). wf_ListOffsetsResponseTopic y)"

lemma decodes_ListOffsetsResponse [codec_intros]:
  "wf_ListOffsetsResponse r \<Longrightarrow> decodes (ListOffsetsResponse_Encode r) ListOffsetsResponse_Decode r"
  unfolding ListOffsetsResponse_Encode_def ListOffsetsResponse_Decode_def wf_ListOffsetsResponse_def
  by (rule codec_intros | simp)+

lemma reads_ListOffsetsResponse [reads_intros]: "reads ListOffsetsResponse_Decode wf_ListOffsetsResponse"
  unfolding ListOffsetsResponse_Decode_def
  by ((rule reads_bind, (rule reads_intros)+)+, rule reads_return, simp add: wf_ListOffsetsResponse_def)

interpretation list_offsets_response: strict_codec ListOffsetsResponse_Encode ListOffsetsResponse_Decode wf_ListOffsetsResponse
  by unfold_locales (rule decodes_ListOffsetsResponse reads_ListOffsetsResponse; assumption?)+

end
