(* ===== verification/Frame.thy ===== *)
theory Frame
  imports Requests Responses
begin

text \<open>
  Request and response frames, \<^verbatim>\<open>internal/protocol/frame.go\<close>: a 32-bit size followed by that many bytes
  of fields. The reader limits itself to the declared size, so one frame never consumes bytes of the
  next one; frames beyond the limits are refused before their body is decoded.
\<close>

section \<open>Operations\<close>

definition MaxFrameSize :: int where
  "MaxFrameSize = 100 * 1024 * 1024"

record RequestFrame =
  rf_Size :: int
  rf_ApiKey :: int
  rf_ApiVersion :: int
  rf_CorrelationID :: int
  rf_ClientID :: string
  rf_Payload :: bytes

record ResponseFrame =
  sf_Size :: int
  sf_CorrelationID :: int
  sf_ErrorCode :: int
  sf_Payload :: bytes

text \<open>
  Decoding from an \<open>io.LimitedReader\<close> over the next \<open>n\<close> bytes, followed by the probe for a byte that
  was left.
\<close>

definition limited :: "nat \<Rightarrow> 'a reader \<Rightarrow> 'a reader" where
  "limited n m bs =
     (case m (take n bs) of
        Inl e \<Rightarrow> Inl e
      | Inr (x, left) \<Rightarrow> if left \<noteq> [] then Inl ErrFrameSizeMismatch else Inr (x, drop n bs))"

definition request_fields :: "int \<Rightarrow> RequestFrame reader" where
  "request_fields sz =
     bindR Int16 (\<lambda>apiKey. bindR Int16 (\<lambda>apiVersion. bindR Int32 (\<lambda>correlationID.
     bindR String (\<lambda>clientID. bindR Bytes (\<lambda>payload.
     returnR \<lparr>rf_Size = sz, rf_ApiKey = apiKey, rf_ApiVersion = apiVersion,
              rf_CorrelationID = correlationID, rf_ClientID = clientID, rf_Payload = payload\<rparr>)))))"

text \<open>A frame above the server's limit is drained from the stream before it is refused.\<close>

definition ReadRequestFrameWithLimit :: "int \<Rightarrow> RequestFrame reader" where
  "ReadRequestFrameWithLimit maxRequestBytes =
     bindR Int32 (\<lambda>sz.
       if sz < 0 \<or> MaxFrameSize < sz then failR ErrFrameTooLarge
       else if 0 < maxRequestBytes \<and> maxRequestBytes < sz
       then (\<lambda>bs. if length bs < nat sz then Inl EOF else Inl ErrFrameTooLarge)
       else limited (nat sz) (request_fields sz))"

definition ReadRequestFrame :: "RequestFrame reader" where
  "ReadRequestFrame = ReadRequestFrameWithLimit 0"

definition request_body :: "RequestFrame \<Rightarrow> bytes result" where
  "request_body f =
     seqW [PutInt16 (rf_ApiKey f), PutInt16 (rf_ApiVersion f), PutInt32 (rf_CorrelationID f),
           PutString (rf_ClientID f), PutBytes (rf_Payload f)]"

text \<open>\<open>Write\<close> stores the size in the frame; it gives the frame and the bytes written.\<close>

definition RequestFrame_Write :: "RequestFrame \<Rightarrow> (RequestFrame \<times> bytes) result" where
  "RequestFrame_Write f =
     (case request_body f of
        Inl e \<Rightarrow> Inl e
      | Inr body \<Rightarrow>
          (let f = f\<lparr>rf_Size := int32 (int (length body))\<rparr>
           in case seqW [PutInt32 (rf_Size f), Inr body] of Inl e \<Rightarrow> Inl e | Inr bs \<Rightarrow> Inr (f, bs)))"

definition response_fields :: "int \<Rightarrow> ResponseFrame reader" where
  "response_fields sz =
     bindR Int32 (\<lambda>correlationID. bindR Int16 (\<lambda>errorCode. bindR Bytes (\<lambda>payload.
     returnR \<lparr>sf_Size = sz, sf_CorrelationID = correlationID, sf_ErrorCode = errorCode,
              sf_Payload = payload\<rparr>)))"

definition ReadResponseFrame :: "ResponseFrame reader" where
  "ReadResponseFrame =
     bindR Int32 (\<lambda>sz.
       if sz < 0 \<or> MaxFrameSize < sz then failR ErrFrameTooLarge
       else limited (nat sz) (response_fields sz))"

definition response_body :: "ResponseFrame \<Rightarrow> bytes result" where
  "response_body f =
     seqW [PutInt32 (sf_CorrelationID f), PutInt16 (sf_ErrorCode f), PutBytes (sf_Payload f)]"

definition ResponseFrame_Write :: "ResponseFrame \<Rightarrow> (ResponseFrame \<times> bytes) result" where
  "ResponseFrame_Write f =
     (case response_body f of
        Inl e \<Rightarrow> Inl e
      | Inr body \<Rightarrow>
          (let f = f\<lparr>sf_Size := int32 (int (length body))\<rparr>
           in case seqW [PutInt32 (sf_Size f), Inr body] of Inl e \<Rightarrow> Inl e | Inr bs \<Rightarrow> Inr (f, bs)))"

section \<open>Round trips\<close>

text \<open>The bytes written for a frame.\<close>

definition wire :: "('f \<times> bytes) result \<Rightarrow> bytes result" where
  "wire w = (case w of Inl e \<Rightarrow> Inl e | Inr (_, bs) \<Rightarrow> Inr bs)"

lemma decodes_limited:
  assumes "decodes w m x" and "w = Inr body" and "n = length body"
  shows "decodes (Inr body) (limited n m) x"
proof -
  have "m body = Inr (x, [])" using assms(1,2) by (auto simp: decodes_def dest: spec [where x = "[]"])
  then show ?thesis using assms(3) by (simp add: decodes_def limited_def)
qed

lemma in_s_MaxFrameSize: "0 \<le> n \<Longrightarrow> n \<le> MaxFrameSize \<Longrightarrow> in_s 32 n"
  by (simp add: MaxFrameSize_def in_s_def)

lemma frame_decodes:
  assumes "decodes (Inr body) m x" and "int (length body) \<le> MaxFrameSize"
    and "\<And>sz. sz = int (length body) \<Longrightarrow> f sz = limited (length body) m"
  shows "decodes (seqW [PutInt32 (int (length body)), Inr body]) (bindR Int32 f) x"
proof (rule decodes_bind [OF decodes_ints(3)])
  show "in_s 32 (int (length body))" using assms(2) by (intro in_s_MaxFrameSize) simp_all
  show "decodes (seqW [Inr body]) (f (int (length body))) x"
    using decodes_limited [OF assms(1) refl refl] assms(3) by (intro decodes_last) simp
qed

definition wf_RequestFrame :: "int \<Rightarrow> RequestFrame \<Rightarrow> bool" where
  "wf_RequestFrame maxRequestBytes f \<longleftrightarrow>
     in_s 16 (rf_ApiKey f) \<and> in_s 16 (rf_ApiVersion f) \<and> in_s 32 (rf_CorrelationID f) \<and>
     int (length (rf_ClientID f)) \<le> MaxInt16 \<and> int (length (rf_Payload f)) \<le> MaxBytesLength \<and>
     rf_Size f = 14 + int (length (rf_ClientID f)) + int (length (rf_Payload f)) \<and>
     rf_Size f \<le> MaxFrameSize \<and> (0 < maxRequestBytes \<longrightarrow> rf_Size f \<le> maxRequestBytes)"

lemma request_body_length:
  assumes "int (length (rf_ClientID f)) \<le> MaxInt16" and "int (length (rf_Payload f)) \<le> MaxBytesLength"
  shows "\<exists>body. request_body f = Inr body \<and>
    int (length body) = 14 + int (length (rf_ClientID f)) + int (length (rf_Payload f))"
proof -
  obtain c where "PutString (rf_ClientID f) = Inr c" "length c = 2 + length (rf_ClientID f)"
    using assms(1) by (rule PutString_length)
  moreover have "int (length (rf_Payload f)) \<le> MaxInt32" using assms(2) by (simp add: MaxBytesLength_def MaxInt32_def)
  then obtain p where "PutBytes (rf_Payload f) = Inr p" "length p = 4 + length (rf_Payload f)"
    by (rule PutBytes_length)
  ultimately show ?thesis by (simp add: request_body_def PutInt16_def PutInt32_def)
qed

lemma request_frame_decodes:
  assumes "wf_RequestFrame lim f"
  shows "decodes (wire (RequestFrame_Write f)) (ReadRequestFrameWithLimit lim) f"
proof -
  obtain body where body: "request_body f = Inr body" "int (length body) = rf_Size f"
    using request_body_length [of f] assms by (auto simp: wf_RequestFrame_def)
  have "decodes (request_body f) (request_fields (rf_Size f)) f"
    unfolding request_body_def request_fields_def
    by (rule codec_intros | simp add: assms [unfolded wf_RequestFrame_def])+
  then have d: "decodes (Inr body) (request_fields (rf_Size f)) f" using body(1) by simp
  have s: "in_s 32 (rf_Size f)" "0 \<le> rf_Size f" "rf_Size f \<le> MaxFrameSize"
    using assms in_s_MaxFrameSize by (auto simp: wf_RequestFrame_def)
  have n: "nat (rf_Size f) = length body" and lim: "\<not> (0 < lim \<and> lim < rf_Size f)"
    using assms body(2) by (simp, auto simp: wf_RequestFrame_def)
  have "wire (RequestFrame_Write f) = seqW [PutInt32 (int (length body)), Inr body]"
    using body s wrap_s_id [of 32 "rf_Size f"]
    by (simp add: RequestFrame_Write_def wire_def Let_def PutInt32_def)
  moreover have "decodes (seqW [PutInt32 (int (length body)), Inr body]) (ReadRequestFrameWithLimit lim) f"
    unfolding ReadRequestFrameWithLimit_def
    using n lim body(2) s(2,3) by (intro frame_decodes [OF d]) auto
  ultimately show ?thesis by simp
qed

interpretation request_frame: codec "\<lambda>f. wire (RequestFrame_Write f)" "ReadRequestFrameWithLimit lim"
    "wf_RequestFrame lim" for lim
  by unfold_locales (rule request_frame_decodes)

definition wf_ResponseFrame :: "ResponseFrame \<Rightarrow> bool" where
  "wf_ResponseFrame f \<longleftrightarrow>
     in_s 32 (sf_CorrelationID f) \<and> in_s 16 (sf_ErrorCode f) \<and>
     int (length (sf_Payload f)) \<le> MaxBytesLength \<and>
     sf_Size f = 10 + int (length (sf_Payload f)) \<and> sf_Size f \<le> MaxFrameSize"

lemma response_frame_decodes:
  assumes "wf_ResponseFrame f"
  shows "decodes (wire (ResponseFrame_Write f)) ReadResponseFrame f"
proof -
  have "int (length (sf_Payload f)) \<le> MaxInt32"
    using assms by (simp add: wf_ResponseFrame_def MaxBytesLength_def MaxInt32_def)
  then obtain p where "PutBytes (sf_Payload f) = Inr p" "length p = 4 + length (sf_Payload f)"
    by (rule PutBytes_length)
  then obtain body where body: "response_body f = Inr body" "int (length body) = sf_Size f"
    using assms by (simp add: wf_ResponseFrame_def response_body_def PutInt16_def PutInt32_def)
  have "decodes (response_body f) (response_fields (sf_Size f)) f"
    unfolding response_body_def response_fields_def
    by (rule codec_intros | simp add: assms [unfolded wf_ResponseFrame_def])+
  then have d: "decodes (Inr body) (response_fields (sf_Size f)) f" using body(1) by simp
  have s: "in_s 32 (sf_Size f)" "0 \<le> sf_Size f" "sf_Size f \<le> MaxFrameSize"
    using assms in_s_MaxFrameSize by (auto simp: wf_ResponseFrame_def)
  have n: "nat (sf_Size f) = length body" using body(2) by simp
  have "wire (ResponseFrame_Write f) = seqW [PutInt32 (int (length body)), Inr body]"
    using body s wrap_s_id [of 32 "sf_Size f"]
    by (simp add: ResponseFrame_Write_def wire_def Let_def PutInt32_def)
  moreover have "decodes (seqW [PutInt32 (int (length body)), Inr body]) ReadResponseFrame f"
    unfolding ReadResponseFrame_def using n body(2) s(2,3) by (intro frame_decodes [OF d]) auto
  ultimately show ?thesis by simp
qed

interpretation response_frame: codec "\<lambda>f. wire (ResponseFrame_Write f)" ReadResponseFrame wf_ResponseFrame
  by unfold_locales (rule response_frame_decodes)

section \<open>What a reader of frames accepts\<close>

text \<open>
  Two facts on the readers: a reader that only sees the declared size takes no more than that from the
  stream, and a reader that takes a value of at least \<open>n\<close> bytes needs \<open>n\<close> bytes.
\<close>

definition takes :: "'a reader \<Rightarrow> ('a \<Rightarrow> nat) \<Rightarrow> bool" where
  "takes m n \<longleftrightarrow> (\<forall>bs x rest. m bs = Inr (x, rest) \<longrightarrow> (\<exists>p. bs = p @ rest \<and> n x \<le> length p))"

lemma takesD: "takes m n \<Longrightarrow> m bs = Inr (x, rest) \<Longrightarrow> \<exists>p. bs = p @ rest \<and> n x \<le> length p"
  by (simp add: takes_def)

lemma takes_return: "n a = 0 \<Longrightarrow> takes (returnR a) n"
  by (simp add: takes_def returnR_def)

lemma takes_bind:
  assumes "takes m n" and "\<And>a. takes (f a) (\<lambda>x. k x - n a)"
  shows "takes (bindR m f) k"
  unfolding takes_def
proof (intro allI impI)
  fix bs x rest assume "bindR m f bs = Inr (x, rest)"
  then obtain a mid where m: "m bs = Inr (a, mid)" "f a mid = Inr (x, rest)"
    by (auto simp: bindR_def split: sum.splits prod.splits)
  obtain p where p: "bs = p @ mid" "n a \<le> length p" using takesD [OF assms(1) m(1)] by blast
  obtain q where q: "mid = q @ rest" "k x - n a \<le> length q"
    using takesD [OF assms(2) m(2)] by blast
  show "\<exists>p. bs = p @ rest \<and> k x \<le> length p"
    using p q by (intro exI [where x = "p @ q"]) simp
qed

lemma takes_mono: "takes m n \<Longrightarrow> (\<And>x. k x \<le> n x) \<Longrightarrow> takes m k"
  unfolding takes_def by (meson order_trans)

lemma takes_raw: "takes (ReadFull n) (\<lambda>p. n)"
  by (auto simp: takes_def dest!: ReadFull_length)

lemma takes_int: "takes (read_int n) (\<lambda>_. n)"
  unfolding read_int_def by (rule takes_bind [OF takes_raw]) (auto intro: takes_return)

lemma takes_ints: "takes Int16 (\<lambda>_. 2)" "takes Int32 (\<lambda>_. 4)"
  using takes_int [of 2] takes_int [of 4] by (simp_all add: Int16_def Int32_def)

lemma takes_String: "takes String (\<lambda>s. 2 + length s)"
  unfolding String_def
proof (rule takes_bind [OF takes_ints(1)])
  fix len :: int
  have "takes (bindR (ReadFull (nat len)) (\<lambda>buf. returnR (string_of buf))) length"
    unfolding takes_def
    by (auto simp: bindR_def returnR_def string_of_def split: sum.splits dest!: ReadFull_length)
  then show "takes (if len < 0 then returnR [] else if len = 0 then returnR []
      else if MaxStringLength < len then failR (ErrorNew ''protocol: string length exceeds maximum allowed limit'')
      else bindR (ReadFull (nat len)) (\<lambda>buf. returnR (string_of buf))) (\<lambda>s. 2 + length s - 2)"
    by (auto simp: takes_def returnR_def failR_def)
qed

lemma takes_Bytes: "takes Bytes (\<lambda>s. 4 + length s)"
  unfolding Bytes_def
  by (rule takes_bind [OF takes_ints(2)])
     (auto simp: takes_def returnR_def failR_def dest!: ReadFull_length)

lemma takes_request_fields:
  "takes (request_fields sz) (\<lambda>f. 14 + length (rf_ClientID f) + length (rf_Payload f))"
  unfolding request_fields_def
  by (rule takes_bind takes_ints takes_String takes_Bytes takes_return | simp)+

lemma reads_request_fields: "reads (request_fields sz) (\<lambda>f. rf_Size f = sz)"
  unfolding request_fields_def
  by ((rule reads_bind, (rule reads_intros)+)+, rule reads_return, simp)

lemma limited_Inr:
  assumes "limited n m bs = Inr (x, rest)"
  shows "m (take n bs) = Inr (x, []) \<and> rest = drop n bs"
  using assms by (auto simp: limited_def split: sum.splits prod.splits if_splits)

lemma bindR_Int32_Inr:
  assumes "bindR Int32 f bs = Inr (x, rest)"
  obtains sz where "bs = take 4 bs @ drop 4 bs" and "4 \<le> length bs" and "Int32 bs = Inr (sz, drop 4 bs)"
    and "f sz (drop 4 bs) = Inr (x, rest)"
  using assms
  by (auto simp: bindR_def Int32_def read_int_def ReadFull_def returnR_def split: sum.splits prod.splits if_splits)

lemma Int32_put: "in_s 32 sz \<Longrightarrow> Int32 (be_put 4 sz @ bs) = Inr (sz, bs)"
  using decodes_ints(3) [of sz] by (simp add: decodes_def PutInt32_def)

section \<open>Every message format\<close>

text \<open>
  What the broker and its clients rely on for a message type: a message that can be sent is read back
  from any stream that starts with it, and whatever a decoder accepts, from any bytes, is a message that
  can be sent.
\<close>

definition sound_format :: "('a \<Rightarrow> bytes result) \<Rightarrow> 'a reader \<Rightarrow> ('a \<Rightarrow> bool) \<Rightarrow> bool" where
  "sound_format enc dec ok \<longleftrightarrow>
     (\<forall>x rest. ok x \<longrightarrow> (\<exists>bs. enc x = Inr bs \<and> dec (bs @ rest) = Inr (x, rest))) \<and>
     (\<forall>bs x rest. dec bs = Inr (x, rest) \<longrightarrow> ok x \<and> (\<exists>p. bs = p @ rest))"

context strict_codec
begin

lemma sound: "sound_format enc dec wf"
  unfolding sound_format_def using enc_total dec_enc readsD [OF decoded] by blast

end

section \<open>Properties\<close>

text \<open>
  Requests and responses written one after another to a connection are read back one after another,
  each as it was sent, whatever follows them in the stream; this is what keeps the two ends of a
  connection in step.
\<close>

lemma Frame_stream_roundtrip:
  assumes "\<forall>f \<in> set reqs. wf_RequestFrame lim f" and "\<forall>f \<in> set resps. wf_ResponseFrame f"
  shows "(\<exists>bs. seqW (map (\<lambda>f. wire (RequestFrame_Write f)) reqs) = Inr bs \<and>
            repeatR (length reqs) (ReadRequestFrameWithLimit lim) (bs @ rest) = Inr (reqs, rest)) \<and>
         (\<exists>bs. seqW (map (\<lambda>f. wire (ResponseFrame_Write f)) resps) = Inr bs \<and>
            repeatR (length resps) ReadResponseFrame (bs @ rest) = Inr (resps, rest))"
  using request_frame.stream_roundtrip [of reqs lim] response_frame.stream_roundtrip [of resps] assms
  unfolding decodes_def by blast

definition demo_request_frame :: RequestFrame where
  "demo_request_frame = \<lparr>rf_Size = 18, rf_ApiKey = 3, rf_ApiVersion = 1, rf_CorrelationID = 7,
     rf_ClientID = ''cli'', rf_Payload = [42]\<rparr>"

definition demo_response_frame :: ResponseFrame where
  "demo_response_frame = \<lparr>sf_Size = 12, sf_CorrelationID = 7, sf_ErrorCode = -1, sf_Payload = [1, 2]\<rparr>"

lemma demo_frames_wf: "wf_RequestFrame 20 demo_request_frame" "wf_ResponseFrame demo_response_frame"
  by (simp_all add: wf_RequestFrame_def wf_ResponseFrame_def demo_request_frame_def demo_response_frame_def
      in_s_def MaxInt16_def MaxBytesLength_def MaxFrameSize_def)

lemma Frame_stream_roundtrip_witness:
  "\<exists>bs. seqW [wire (RequestFrame_Write demo_request_frame), wire (RequestFrame_Write demo_request_frame)] = Inr bs \<and>
        repeatR 2 (ReadRequestFrameWithLimit 20) (bs @ [9]) = Inr ([demo_request_frame, demo_request_frame], [9])"
  using Frame_stream_roundtrip [of "[demo_request_frame, demo_request_frame]" 20 "[demo_response_frame]" "[9]"]
    demo_frames_wf
  by (simp add: numeral_2_eq_2)



text \<open>
  C17: A frame whose declared size is negative, above the protocol limit, or above the limit of the server
  is refused as too large, whatever its body holds.
\<close>

theorem ReadRequestFrame_too_large:
  assumes "in_s 32 sz"
    and "sz < 0 \<or> MaxFrameSize < sz \<or> (0 < lim \<and> lim < sz \<and> nat sz \<le> length body)"
  shows "ReadRequestFrameWithLimit lim (be_put 4 sz @ body) = Inl ErrFrameTooLarge"
  using assms by (auto simp: ReadRequestFrameWithLimit_def bindR_def Int32_put failR_def)

theorem ReadRequestFrame_too_large_witness:
  "ReadRequestFrameWithLimit 3 (be_put 4 4 @ [1, 2, 3, 4]) = Inl ErrFrameTooLarge"
  using ReadRequestFrame_too_large [of 4 3 "[1, 2, 3, 4]"] by (simp add: in_s_def)

text \<open>
  C15: Each of the message formats of the protocol is sound: messages within the limits survive the wire,
  and a decoder never returns a message outside of them, whatever bytes a peer sends.
\<close>

theorem Messages_sound:
  "sound_format ProduceRequest_Encode ProduceRequest_Decode wf_ProduceRequest \<and>
   sound_format FetchRequest_Encode FetchRequest_Decode wf_FetchRequest \<and>
   sound_format CreateTopicsRequest_Encode CreateTopicsRequest_Decode wf_CreateTopicsRequest \<and>
   sound_format JoinGroupRequest_Encode JoinGroupRequest_Decode wf_JoinGroupRequest \<and>
   sound_format SyncGroupRequest_Encode SyncGroupRequest_Decode wf_SyncGroupRequest \<and>
   sound_format HeartbeatRequest_Encode HeartbeatRequest_Decode wf_HeartbeatRequest \<and>
   sound_format LeaveGroupRequest_Encode LeaveGroupRequest_Decode wf_LeaveGroupRequest \<and>
   sound_format OffsetCommitRequest_Encode OffsetCommitRequest_Decode wf_OffsetCommitRequest \<and>
   sound_format OffsetFetchRequest_Encode OffsetFetchRequest_Decode wf_OffsetFetchRequest \<and>
   sound_format ListOffsetsRequest_Encode ListOffsetsRequest_Decode wf_ListOffsetsRequest \<and>
   sound_format MetadataRequest_Encode MetadataRequest_Decode wf_MetadataRequest \<and>
   sound_format ProduceResponse_Encode ProduceResponse_Decode wf_ProduceResponse \<and>
   sound_format FetchResponse_Encode FetchResponse_Decode wf_FetchResponse \<and>
   sound_format ApiVersionsResponse_Encode ApiVersionsResponse_Decode wf_ApiVersionsResponse \<and>
   sound_format MetadataResponse_Encode MetadataResponse_Decode wf_MetadataResponse \<and>
   sound_format CreateTopicsResponse_Encode CreateTopicsResponse_Decode wf_CreateTopicsResponse \<and>
   sound_format JoinGroupResponse_Encode JoinGroupResponse_Decode wf_JoinGroupResponse \<and>
   sound_format SyncGroupResponse_Encode SyncGroupResponse_Decode wf_SyncGroupResponse \<and>
   sound_format HeartbeatResponse_Encode HeartbeatResponse_Decode wf_HeartbeatResponse \<and>
   sound_format LeaveGroupResponse_Encode LeaveGroupResponse_Decode wf_LeaveGroupResponse \<and>
   sound_format OffsetCommitResponse_Encode OffsetCommitResponse_Decode wf_OffsetCommitResponse \<and>
   sound_format OffsetFetchResponse_Encode OffsetFetchResponse_Decode wf_OffsetFetchResponse \<and>
   sound_format ListOffsetsResponse_Encode ListOffsetsResponse_Decode wf_ListOffsetsResponse"
  by (intro conjI strict_codec.sound
      produce_request.strict_codec_axioms
      fetch_request.strict_codec_axioms
      create_topics_request.strict_codec_axioms
      join_group_request.strict_codec_axioms
      sync_group_request.strict_codec_axioms
      heartbeat_request.strict_codec_axioms
      leave_group_request.strict_codec_axioms
      offset_commit_request.strict_codec_axioms
      offset_fetch_request.strict_codec_axioms
      list_offsets_request.strict_codec_axioms
      metadata_request.strict_codec_axioms
      produce_response.strict_codec_axioms
      fetch_response.strict_codec_axioms
      api_versions_response.strict_codec_axioms
      metadata_response.strict_codec_axioms
      create_topics_response.strict_codec_axioms
      join_group_response.strict_codec_axioms
      sync_group_response.strict_codec_axioms
      heartbeat_response.strict_codec_axioms
      leave_group_response.strict_codec_axioms
      offset_commit_response.strict_codec_axioms
      offset_fetch_response.strict_codec_axioms
      list_offsets_response.strict_codec_axioms)

text \<open>
  A produce request travels as the payload of a request frame: the broker, which reads a frame and
  decodes its payload, obtains the request that the client encoded, and the bytes behind the frame stay in
  the stream.
\<close>

lemma Produce_over_wire:
  assumes "ProduceRequest_Encode r = Inr payload" and "wf_ProduceRequest r"
    and "wf_RequestFrame lim f" and "rf_Payload f = payload"
  shows "\<exists>bs. wire (RequestFrame_Write f) = Inr bs \<and>
    (\<exists>g. ReadRequestFrameWithLimit lim (bs @ rest) = Inr (g, rest) \<and> rf_ApiKey g = rf_ApiKey f \<and>
         rf_CorrelationID g = rf_CorrelationID f \<and> ProduceRequest_Decode (rf_Payload g) = Inr (r, []))"
proof -
  obtain bs where bs: "wire (RequestFrame_Write f) = Inr bs" using request_frame.enc_total assms(3) by blast
  have "ReadRequestFrameWithLimit lim (bs @ rest) = Inr (f, rest)"
    by (rule request_frame.dec_enc [OF assms(3) bs])
  moreover have "ProduceRequest_Decode (rf_Payload f) = Inr (r, [])"
    using produce_request.dec_enc_all [OF assms(2,1)] assms(4) by simp
  ultimately show ?thesis using bs by blast
qed

definition demo_produce :: ProduceRequest where
  "demo_produce = \<lparr>pr_Acks = -1, pr_TimeoutMs = 100, pr_Topics = []\<rparr>"

lemma Produce_over_wire_witness:
  "\<exists>p bs. ProduceRequest_Encode demo_produce = Inr p \<and>
    wire (RequestFrame_Write (demo_request_frame\<lparr>rf_Size := 27, rf_Payload := p\<rparr>)) = Inr bs \<and>
    (\<exists>g. ReadRequestFrameWithLimit 0 (bs @ []) = Inr (g, []) \<and>
         ProduceRequest_Decode (rf_Payload g) = Inr (demo_produce, []))"
proof -
  let ?p = "be_put 2 (-1) @ be_put 4 100 @ be_put 4 0"
  have p: "ProduceRequest_Encode demo_produce = Inr ?p"
    by (simp add: ProduceRequest_Encode_def demo_produce_def PutArray_def PutArrayHeader_def PutInt16_def PutInt32_def
        MaxInt32_def wrap_s_id)
  have "wf_ProduceRequest demo_produce" by (simp add: wf_ProduceRequest_def demo_produce_def in_s_def)
  moreover have "wf_RequestFrame 0 (demo_request_frame\<lparr>rf_Size := 27, rf_Payload := ?p\<rparr>)"
    by (simp add: wf_RequestFrame_def demo_request_frame_def in_s_def MaxInt16_def MaxBytesLength_def MaxFrameSize_def)
  ultimately show ?thesis using Produce_over_wire [OF p, of 0 _ "[]"] p by fastforce
qed

end
