(* ===== verification/Dispatch.thy ===== *)
theory Dispatch
  imports Frame
begin

text \<open>
  Request dispatch, \<^verbatim>\<open>internal/server/handler.go\<close>: the error codes and the multiplexer that routes a
  request frame to the handler of its API key. A handler works on the state \<open>'st\<close> of the broker and
  returns a response frame (\<open>None\<close> for nil) or an error; a run-time panic is the error \<open>Panic\<close>. Logging
  is left out.
\<close>

section \<open>Error codes\<close>

definition codeNone :: int where "codeNone = 0"
definition codeUnknown :: int where "codeUnknown = 1"
definition codeOffsetOutOfRange :: int where "codeOffsetOutOfRange = 2"
definition codeCorruptMessage :: int where "codeCorruptMessage = 3"
definition codeUnknownTopicOrPartition :: int where "codeUnknownTopicOrPartition = 4"
definition codeNotLeaderForPartition :: int where "codeNotLeaderForPartition = 5"
definition codeRequestTimedOut :: int where "codeRequestTimedOut = 6"
definition codeMessageTooLarge :: int where "codeMessageTooLarge = 7"
definition codeNotEnoughReplicas :: int where "codeNotEnoughReplicas = 8"
definition codeUnknownMemberID :: int where "codeUnknownMemberID = 9"
definition codeRebalanceInProgress :: int where "codeRebalanceInProgress = 10"
definition codeIllegalGeneration :: int where "codeIllegalGeneration = 11"
definition codeInvalidGroupID :: int where "codeInvalidGroupID = 12"
definition codeUnsupportedVersion :: int where "codeUnsupportedVersion = 13"
definition codeTopicAlreadyExists :: int where "codeTopicAlreadyExists = 14"
definition codeInvalidPartitionCount :: int where "codeInvalidPartitionCount = 15"
definition codeInvalidTopicException :: int where "codeInvalidTopicException = 17"

lemmas codes = codeNone_def codeUnknown_def codeOffsetOutOfRange_def codeCorruptMessage_def
  codeUnknownTopicOrPartition_def codeNotLeaderForPartition_def codeRequestTimedOut_def codeMessageTooLarge_def
  codeNotEnoughReplicas_def codeUnknownMemberID_def codeRebalanceInProgress_def codeIllegalGeneration_def
  codeInvalidGroupID_def codeUnsupportedVersion_def codeTopicAlreadyExists_def codeInvalidPartitionCount_def
  codeInvalidTopicException_def

section \<open>The multiplexer\<close>

type_synonym 'st HandlerFunc = "RequestFrame \<Rightarrow> 'st \<Rightarrow> 'st \<times> ResponseFrame option result"

record 'st Mux =
  handlers :: "int \<rightharpoonup> 'st HandlerFunc"

definition NewMux :: "'st Mux" where
  "NewMux = \<lparr>handlers = Map.empty\<rparr>"

definition Handle :: "'st Mux \<Rightarrow> int \<Rightarrow> 'st HandlerFunc \<Rightarrow> 'st Mux" where
  "Handle m apiKey h = m\<lparr>handlers := (handlers m)(apiKey \<mapsto> h)\<rparr>"

definition reply :: "RequestFrame \<Rightarrow> int \<Rightarrow> ResponseFrame" where
  "reply req code = \<lparr>sf_Size = 0, sf_CorrelationID = rf_CorrelationID req, sf_ErrorCode = code, sf_Payload = []\<rparr>"

text \<open>
  \<open>coded\<close> is the search of \<open>errors.As\<close> for an error that carries a protocol code; no error type of the
  repository has one, so it is an argument. What a panicking handler has changed stays changed.
\<close>

definition is_panic :: "go_error \<Rightarrow> bool" where
  "is_panic e \<longleftrightarrow> (case e of Panic _ \<Rightarrow> True | _ \<Rightarrow> False)"

definition Dispatch :: "(go_error \<Rightarrow> int option) \<Rightarrow> 'st Mux \<Rightarrow> RequestFrame \<Rightarrow> 'st \<Rightarrow> 'st \<times> ResponseFrame" where
  "Dispatch coded m req st =
     (case handlers m (rf_ApiKey req) of
        None \<Rightarrow> (st, reply req codeUnsupportedVersion)
      | Some h \<Rightarrow>
          (case h req st of
             (st, Inl err) \<Rightarrow>
               if is_panic err then (st, reply req codeUnknown)
               else
                 (case coded err of
                    Some code \<Rightarrow> (st, reply req code)
                  | None \<Rightarrow> (st, reply req codeUnknown))
           | (st, Inr (Some out)) \<Rightarrow> (st, out\<lparr>sf_CorrelationID := rf_CorrelationID req\<rparr>)
           | (st, Inr None) \<Rightarrow> (st, reply req codeNone)))"

lemma Dispatch_correlation: "sf_CorrelationID (snd (Dispatch coded m req st)) = rf_CorrelationID req"
  by (auto simp: Dispatch_def reply_def split: option.split prod.split sum.split)

lemma handlers_Handle [simp]: "handlers (Handle m k h) = (handlers m)(k \<mapsto> h)"
  by (simp add: Handle_def)

lemma handlers_NewMux [simp]: "handlers NewMux = Map.empty"
  by (simp add: NewMux_def)

end
