(* ===== verification/Server.thy ===== *)
theory Server
  imports Dispatch
begin

text \<open>
  The TCP server, \<^verbatim>\<open>internal/server/server.go\<close>. A connection is the stream of bytes the client sends and
  the stream of bytes the server answers; \<open>serve\<close> is the loop of \<open>handleConn\<close>, which ends at the first
  frame that cannot be read. Deadlines end a connection as the end of the stream does. Accepting
  connections, their end and the shutdown are the steps of \<open>srv_step\<close>.
\<close>

section \<open>One connection\<close>

definition DefaultMaxRequestBytes :: int where
  "DefaultMaxRequestBytes = 16 * 1024 * 1024"

record ServerConfig =
  sc_MaxConnections :: int
  sc_IdleTimeout :: int
  sc_WriteTimeout :: int
  sc_MaxRequestBytes :: int

definition request_limit :: "ServerConfig \<Rightarrow> int" where
  "request_limit cfg = (if sc_MaxRequestBytes cfg = 0 then DefaultMaxRequestBytes else sc_MaxRequestBytes cfg)"

lemma ReadRequestFrame_shrinks:
  assumes "ReadRequestFrameWithLimit lim bs = Inr (req, rest)"
  shows "length rest < length bs"
proof -
  obtain sz where n: "4 \<le> length bs" and f: "(if sz < 0 \<or> MaxFrameSize < sz then failR ErrFrameTooLarge
       else if 0 < lim \<and> lim < sz then (\<lambda>bs. if length bs < nat sz then Inl EOF else Inl ErrFrameTooLarge)
       else limited (nat sz) (request_fields sz)) (drop 4 bs) = Inr (req, rest)"
    using assms unfolding ReadRequestFrameWithLimit_def by (rule bindR_Int32_Inr)
  have "limited (nat sz) (request_fields sz) (drop 4 bs) = Inr (req, rest)"
    using f by (simp add: failR_def del: drop_drop split: if_split_asm)
  then have "rest = drop (nat sz) (drop 4 bs)" by (rule limited_Inr [THEN conjunct2])
  then have "length rest \<le> length bs - 4" by simp
  with n show ?thesis by linarith
qed

function serve :: "(go_error \<Rightarrow> int option) \<Rightarrow> 'st Mux \<Rightarrow> int \<Rightarrow> bytes \<Rightarrow> 'st \<Rightarrow> 'st \<times> bytes" where
  "serve coded m lim inp st =
     (case ReadRequestFrameWithLimit lim inp of
        Inl _ \<Rightarrow> (st, [])
      | Inr (req, rest) \<Rightarrow>
          (case Dispatch coded m req st of (st, resp) \<Rightarrow>
             (case ResponseFrame_Write resp of
                Inl _ \<Rightarrow> (st, [])
              | Inr (_, out) \<Rightarrow> (case serve coded m lim rest st of (st, outs) \<Rightarrow> (st, out @ outs)))))"
  by pat_completeness auto
termination
  by (relation "measure (\<lambda>(_, _, _, inp, _). length inp)") (auto dest: ReadRequestFrame_shrinks)

declare serve.simps [simp del]

definition handleConn :: "(go_error \<Rightarrow> int option) \<Rightarrow> 'st Mux \<Rightarrow> ServerConfig \<Rightarrow> bytes \<Rightarrow> 'st \<Rightarrow> 'st \<times> bytes" where
  "handleConn coded m cfg inp st = serve coded m (request_limit cfg) inp st"

text \<open>What the requests do one after another, without a network.\<close>

fun dispatch_all :: "(go_error \<Rightarrow> int option) \<Rightarrow> 'st Mux \<Rightarrow> RequestFrame list \<Rightarrow> 'st \<Rightarrow> 'st \<times> ResponseFrame list" where
  "dispatch_all coded m [] st = (st, [])"
| "dispatch_all coded m (req # reqs) st =
     (case Dispatch coded m req st of (st, resp) \<Rightarrow>
        (case dispatch_all coded m reqs st of (st, resps) \<Rightarrow> (st, resp # resps)))"

text \<open>The frame as it is after \<open>Write\<close> has set its size.\<close>

definition sized :: "ResponseFrame \<Rightarrow> ResponseFrame" where
  "sized f = f\<lparr>sf_Size := 10 + int (length (sf_Payload f))\<rparr>"

lemma wire_sized: "wire (ResponseFrame_Write (sized f)) = wire (ResponseFrame_Write f)"
proof -
  have "response_body (sized f) = response_body f" by (simp add: response_body_def sized_def)
  then show ?thesis by (simp add: ResponseFrame_Write_def wire_def sized_def Let_def split: sum.split)
qed

lemma dispatch_all_correlation:
  "map sf_CorrelationID (snd (dispatch_all coded m reqs st)) = map rf_CorrelationID reqs"
proof (induction reqs arbitrary: st)
  case (Cons req reqs)
  obtain st' resp where d: "Dispatch coded m req st = (st', resp)" by force
  then show ?case
    using Dispatch_correlation [of coded m req st] Cons.IH [of st'] by (auto split: prod.split)
qed simp

lemma serve_pipeline:
  assumes "\<forall>f \<in> set reqs. wf_RequestFrame lim f" and "dispatch_all coded m reqs st = (st', resps)"
    and "\<forall>r \<in> set resps. wf_ResponseFrame (sized r)"
    and "seqW (map (\<lambda>f. wire (RequestFrame_Write f)) reqs) = Inr inp"
  shows "\<exists>out. serve coded m lim inp st = (st', out) \<and>
               seqW (map (\<lambda>r. wire (ResponseFrame_Write r)) (map sized resps)) = Inr out"
  using assms
proof (induction reqs arbitrary: st resps inp)
  case Nil
  have "ReadRequestFrameWithLimit lim [] = Inl EOF"
    by (simp add: ReadRequestFrameWithLimit_def bindR_def Int32_def read_int_def ReadFull_def)
  then show ?case using Nil by (simp add: serve.simps [of _ _ _ "[]"])
next
  case (Cons f reqs)
  obtain st1 resp where d: "Dispatch coded m f st = (st1, resp)" by force
  obtain resps' where all: "dispatch_all coded m reqs st1 = (st', resps')" "resps = resp # resps'"
    using Cons.prems(2) d by (auto split: prod.split_asm)
  obtain bs where bs: "wire (RequestFrame_Write f) = Inr bs"
    using request_frame.enc_total Cons.prems(1) by (metis list.set_intros(1))
  obtain inp' where inp: "inp = bs @ inp'" "seqW (map (\<lambda>f. wire (RequestFrame_Write f)) reqs) = Inr inp'"
    using Cons.prems(4) bs by (auto split: sum.split_asm)
  obtain out' where out': "serve coded m lim inp' st1 = (st', out')"
    "seqW (map (\<lambda>r. wire (ResponseFrame_Write r)) (map sized resps')) = Inr out'"
    using Cons.IH [OF _ all(1) _ inp(2)] Cons.prems(1,3) all(2) by auto
  obtain ob where ob: "wire (ResponseFrame_Write (sized resp)) = Inr ob"
    using response_frame.enc_total Cons.prems(3) all(2) by (metis list.set_intros(1))
  then obtain g where "ResponseFrame_Write resp = Inr (g, ob)"
    unfolding wire_sized by (auto simp: wire_def split: sum.split_asm)
  moreover have "ReadRequestFrameWithLimit lim (bs @ inp') = Inr (f, inp')"
    using request_frame.dec_enc [OF _ bs] Cons.prems(1) by simp
  ultimately have "serve coded m lim inp st = (st', ob @ out')"
    using d out'(1) inp(1) by (subst serve.simps) simp
  moreover have "seqW (map (\<lambda>r. wire (ResponseFrame_Write r)) (map sized resps)) = Inr (ob @ out')"
    using ob out'(2) all(2) by simp
  ultimately show ?case by blast
qed

section \<open>The connections\<close>

text \<open>
  \<open>sv_live\<close> are the connections whose handler goroutine runs, which is what the wait group counts.
  \<open>activeConns\<close> is the atomic counter, read and incremented by the accept loop only and decremented by the
  handlers.
\<close>

record server =
  sv_cfg :: ServerConfig
  sv_maxConns :: int
  sv_activeConns :: int
  sv_live :: "nat list"
  sv_listening :: bool
  sv_done :: bool

definition NewServer :: "ServerConfig \<Rightarrow> server" where
  "NewServer cfg = \<lparr>sv_cfg = cfg, sv_maxConns = sc_MaxConnections cfg, sv_activeConns = 0, sv_live = [],
     sv_listening = False, sv_done = False\<rparr>"

text \<open>One turn of the accept loop of \<open>Start\<close> for the connection \<open>c\<close>; the flag tells whether it is served.\<close>

definition accept_conn :: "server \<Rightarrow> nat \<Rightarrow> server \<times> bool" where
  "accept_conn s c =
     (if 0 < sv_maxConns s \<and> sv_maxConns s \<le> sv_activeConns s then (s, False)
      else (s\<lparr>sv_activeConns := sv_activeConns s + 1, sv_live := c # sv_live s\<rparr>, True))"

definition end_conn :: "server \<Rightarrow> nat \<Rightarrow> server" where
  "end_conn s c = s\<lparr>sv_activeConns := sv_activeConns s - 1, sv_live := remove1 c (sv_live s)\<rparr>"

text \<open>\<open>Shutdown\<close> up to the wait for the handlers, and the wait's condition.\<close>

definition Shutdown :: "server \<Rightarrow> server" where
  "Shutdown s = s\<lparr>sv_done := True, sv_listening := False\<rparr>"

definition drained :: "server \<Rightarrow> bool" where
  "drained s \<longleftrightarrow> sv_live s = []"

inductive srv_step :: "server \<Rightarrow> server \<Rightarrow> bool" where
  start: "\<not> sv_done s \<Longrightarrow> srv_step s (s\<lparr>sv_listening := True\<rparr>)"
| accept: "sv_listening s \<Longrightarrow> srv_step s (fst (accept_conn s c))"
| finish: "c \<in> set (sv_live s) \<Longrightarrow> srv_step s (end_conn s c)"
| shutdown: "srv_step s (Shutdown s)"

definition srv_inv :: "server \<Rightarrow> bool" where
  "srv_inv s \<longleftrightarrow>
     sv_activeConns s = int (length (sv_live s)) \<and>
     (0 < sv_maxConns s \<longrightarrow> int (length (sv_live s)) \<le> sv_maxConns s) \<and> (sv_done s \<longrightarrow> \<not> sv_listening s)"

lemma srv_step_inv: "srv_step s t \<Longrightarrow> srv_inv s \<Longrightarrow> srv_inv t \<and> sv_maxConns t = sv_maxConns s"
proof (induction rule: srv_step.induct)
  case (finish c s)
  then have "0 < length (sv_live s)" by (cases "sv_live s") auto
  then have "int (length (sv_live s) - 1) = int (length (sv_live s)) - 1" by linarith
  then show ?case using finish by (auto simp: srv_inv_def end_conn_def length_remove1)
qed (auto simp: srv_inv_def accept_conn_def Shutdown_def)

lemma srv_reach_inv:
  "srv_step\<^sup>*\<^sup>* (NewServer cfg) s \<Longrightarrow> srv_inv s \<and> sv_maxConns s = sc_MaxConnections cfg"
  proof (induction rule: rtranclp_induct)
  case base
  show ?case by (simp add: NewServer_def srv_inv_def)
qed (auto dest: srv_step_inv)

text \<open>From a shut-down server the handlers can only end.\<close>

lemma shut_down_drains:
  "srv_step s t \<Longrightarrow> sv_done s \<Longrightarrow> srv_inv s \<Longrightarrow> sv_done t \<and> length (sv_live t) \<le> length (sv_live s)"
  by (induction rule: srv_step.induct) (auto simp: srv_inv_def end_conn_def Shutdown_def length_remove1)

section \<open>Properties\<close>

text \<open>
  C29: A client may send requests without waiting for answers. The server handles exactly these requests, each
  once and in order, and answers with exactly their responses in the same order: the state afterwards is that
  of dispatching them one by one, and the client reads back the responses, each carrying the correlation id
  of its request. Handling a connection ends for every input.
\<close>

theorem Server_pipeline:
  assumes "\<forall>f \<in> set reqs. wf_RequestFrame (request_limit cfg) f" and "dispatch_all coded m reqs st = (st', resps)"
    and "\<forall>r \<in> set resps. wf_ResponseFrame (sized r)"
  shows "\<exists>inp out. seqW (map (\<lambda>f. wire (RequestFrame_Write f)) reqs) = Inr inp \<and>
    handleConn coded m cfg inp st = (st', out) \<and>
    repeatR (length reqs) ReadResponseFrame out = Inr (map sized resps, []) \<and>
    map sf_CorrelationID (map sized resps) = map rf_CorrelationID reqs"
proof -
  obtain inp where inp: "seqW (map (\<lambda>f. wire (RequestFrame_Write f)) reqs) = Inr inp"
    using request_frame.stream_roundtrip [of reqs "request_limit cfg"] assms(1) by (auto simp: decodes_def)
  obtain out where out: "serve coded m (request_limit cfg) inp st = (st', out)"
    "seqW (map (\<lambda>r. wire (ResponseFrame_Write r)) (map sized resps)) = Inr out"
    using serve_pipeline [OF assms inp] by blast
  have "\<forall>r \<in> set (map sized resps). wf_ResponseFrame r" using assms(3) by simp
  then have "repeatR (length (map sized resps)) ReadResponseFrame (out @ []) = Inr (map sized resps, [])"
    using response_frame.stream_roundtrip [of "map sized resps"] out(2) unfolding decodes_def by (metis sum.inject(2))
  moreover have ids: "map sf_CorrelationID resps = map rf_CorrelationID reqs"
    using dispatch_all_correlation [of coded m reqs st] assms(2) by simp
  then have "length resps = length reqs" by (metis length_map)
  moreover have "map sf_CorrelationID (map sized resps) = map sf_CorrelationID resps" by (simp add: sized_def)
  ultimately show ?thesis using inp out(1) ids by (simp add: handleConn_def)
qed

definition demo_server :: ServerConfig where
  "demo_server = \<lparr>sc_MaxConnections = 1, sc_IdleTimeout = 0, sc_WriteTimeout = 0, sc_MaxRequestBytes = 20\<rparr>"

theorem Server_pipeline_witness:
  "\<exists>inp out. seqW (map (\<lambda>f. wire (RequestFrame_Write f)) [demo_request_frame, demo_request_frame]) = Inr inp \<and>
    handleConn (\<lambda>_. None) NewMux demo_server inp () = ((), out) \<and>
    repeatR 2 ReadResponseFrame out =
      Inr ([sized (reply demo_request_frame 13), sized (reply demo_request_frame 13)], [])"
proof -
  have wf: "\<forall>f \<in> set [demo_request_frame, demo_request_frame]. wf_RequestFrame (request_limit demo_server) f"
    using demo_frames_wf(1) by (simp add: request_limit_def demo_server_def)
  have d: "dispatch_all (\<lambda>_. None) NewMux [demo_request_frame, demo_request_frame] () =
      ((), [reply demo_request_frame 13, reply demo_request_frame 13])"
    by (simp add: Dispatch_def codeUnsupportedVersion_def)
  have "in_s 32 (rf_CorrelationID demo_request_frame)" using demo_frames_wf(1) by (simp add: wf_RequestFrame_def)
  then have "\<forall>r \<in> set [reply demo_request_frame 13, reply demo_request_frame 13]. wf_ResponseFrame (sized r)"
    by (simp add: wf_ResponseFrame_def sized_def reply_def in_s_def MaxBytesLength_def MaxFrameSize_def)
  from Server_pipeline [OF wf d this] show ?thesis unfolding numeral_2_eq_2 list.size list.map add_0_left add_Suc_right add_0_right by blast
qed



end
