(* ===== verification/GroupCoord.thy ===== *)
theory GroupCoord
  imports Dispatch PartitionLog "HOL-Library.AList"
begin

text \<open>
  The consumer group coordinator, \<^verbatim>\<open>internal/coordinator/group.go\<close>. Each operation on a group is one
  critical section of its mutex. The members are an association list; the order in which Go iterates over
  the map is the argument \<open>ord\<close>, a permutation of the keys. The clock (in nanoseconds) and the random bytes of
  a member id are arguments. \<open>joinRespCh\<close> is created but never used in the source and is left out.

  A member's \<open>syncRespCh\<close> is a channel with a buffer of one: its content is \<open>gc_chans\<close>, and joining makes a
  fresh channel.
\<close>

section \<open>State\<close>

datatype GroupState = StateEmpty | StatePreparingRebalance | StateCompletingRebalance | StateStable

record Member =
  m_ID :: string
  m_SessionTimeoutMs :: int
  m_LastHeartbeat :: int
  m_Metadata :: bytes
  m_Assignment :: bytes
  m_syncRespCh :: nat

record Group =
  g_ID :: string
  g_State :: GroupState
  g_GenerationID :: int
  g_LeaderID :: string
  g_ProtocolType :: string
  g_ProtocolName :: string
  g_Members :: "(string \<times> Member) list"

type_synonym sync_chans = "nat \<Rightarrow> SyncGroupResponse list"

record GroupCoordinator =
  gc_groups :: "(string \<times> Group) list"
  gc_chans :: sync_chans
  gc_nextCh :: nat

type_synonym order = "string list \<Rightarrow> string list"

definition NewGroupCoordinator :: GroupCoordinator where
  "NewGroupCoordinator = \<lparr>gc_groups = [], gc_chans = (\<lambda>_. []), gc_nextCh = 0\<rparr>"

definition hex_digit :: "nat \<Rightarrow> char" where
  "hex_digit d = (if d < 10 then char_of (48 + d) else char_of (87 + d))"

definition EncodeToString :: "bytes \<Rightarrow> string" where
  "EncodeToString bs = concat (map (\<lambda>b. [hex_digit (unat b div 16), hex_digit (unat b mod 16)]) bs)"

definition generateMemberID :: "string \<Rightarrow> bytes \<Rightarrow> string" where
  "generateMemberID clientID rnd = clientID @ ''-'' @ EncodeToString rnd"

definition offer :: "nat \<Rightarrow> SyncGroupResponse \<Rightarrow> sync_chans \<Rightarrow> sync_chans" where
  "offer ch r chs = (if chs ch = [] then chs(ch := [r]) else chs)"

definition set_group :: "GroupCoordinator \<Rightarrow> Group \<Rightarrow> GroupCoordinator" where
  "set_group gc g = gc\<lparr>gc_groups := AList.update (g_ID g) g (gc_groups gc)\<rparr>"

section \<open>Rebalancing\<close>

definition AssignmentCleared :: "Group \<Rightarrow> Group" where
  "AssignmentCleared g = g\<lparr>g_Members := map (\<lambda>(k, m). (k, m\<lparr>m_Assignment := []\<rparr>)) (g_Members g)\<rparr>"

definition transitionToRebalanceLocked :: "order \<Rightarrow> Group \<Rightarrow> Group" where
  "transitionToRebalanceLocked ord g =
     (let g = AssignmentCleared
                (g\<lparr>g_State := StatePreparingRebalance, g_GenerationID := int32 (g_GenerationID g + 1), g_LeaderID := []\<rparr>)
      in g\<lparr>g_LeaderID := foldl (\<lambda>leader mID. if leader = [] then mID else leader) [] (ord (map fst (g_Members g)))\<rparr>)"

text \<open>What follows the removal of members, in \<open>LeaveGroup\<close> and \<open>checkSessionTimeouts\<close>.\<close>

definition after_removal :: "order \<Rightarrow> Group \<Rightarrow> Group" where
  "after_removal ord g =
     (if g_Members g = [] then g\<lparr>g_State := StateEmpty, g_LeaderID := []\<rparr> else transitionToRebalanceLocked ord g)"

definition session_expired :: "int \<Rightarrow> Member \<Rightarrow> bool" where
  "session_expired now m \<longleftrightarrow>
     (let timeout = ms_to_ns (m_SessionTimeoutMs m);
          timeout = (if timeout \<le> 0 then 45 * 1000000000 else timeout)
      in timeout < now - m_LastHeartbeat m)"

definition check_group :: "order \<Rightarrow> int \<Rightarrow> Group \<Rightarrow> Group" where
  "check_group ord now g =
     (let gone = filter (\<lambda>(_, m). session_expired now m) (g_Members g)
      in if gone \<noteq> []
         then after_removal ord (g\<lparr>g_Members := fold (\<lambda>(mID, _). AList.delete mID) gone (g_Members g)\<rparr>)
         else g)"

definition checkSessionTimeouts :: "order \<Rightarrow> GroupCoordinator \<Rightarrow> int \<Rightarrow> GroupCoordinator" where
  "checkSessionTimeouts ord gc now = gc\<lparr>gc_groups := map (\<lambda>(k, g). (k, check_group ord now g)) (gc_groups gc)\<rparr>"

section \<open>Requests\<close>

definition join_group_error :: "int \<Rightarrow> JoinGroupResponse" where
  "join_group_error code = \<lparr>jgs_ErrorCode = code, jgs_GenerationID = 0, jgs_ProtocolName = [], jgs_LeaderID = [],
     jgs_MemberID = [], jgs_Members = []\<rparr>"

definition new_group :: "JoinGroupRequest \<Rightarrow> Group" where
  "new_group req = \<lparr>g_ID = jgr_GroupID req, g_State = StateEmpty, g_GenerationID = 0, g_LeaderID = [],
     g_ProtocolType = jgr_ProtocolType req, g_ProtocolName = [], g_Members = []\<rparr>"

definition join_member :: "JoinGroupRequest \<Rightarrow> string \<Rightarrow> bytes \<Rightarrow> int \<Rightarrow> nat \<Rightarrow> Member option \<Rightarrow> Member" where
  "join_member req memberID meta now ch old =
     (case old of
        None \<Rightarrow> \<lparr>m_ID = memberID, m_SessionTimeoutMs = jgr_SessionTimeoutMs req, m_LastHeartbeat = now,
                 m_Metadata = meta, m_Assignment = [], m_syncRespCh = ch\<rparr>
      | Some m \<Rightarrow> m\<lparr>m_SessionTimeoutMs := jgr_SessionTimeoutMs req, m_LastHeartbeat := now, m_Metadata := meta,
                   m_syncRespCh := ch\<rparr>)"

definition group_join :: "order \<Rightarrow> Group \<Rightarrow> JoinGroupRequest \<Rightarrow> string \<Rightarrow> int \<Rightarrow> nat \<Rightarrow> Group" where
  "group_join ord g req memberID now ch =
     (let (protoName, meta) =
            (case jgr_Protocols req of [] \<Rightarrow> ([], []) | p # _ \<Rightarrow> (jgp_Name p, jgp_Metadata p));
          m = join_member req memberID meta now ch (map_of (g_Members g) memberID);
          g = g\<lparr>g_ProtocolName := protoName, g_Members := AList.update memberID m (g_Members g)\<rparr>;
          g = (if g_State g = StateStable \<or> g_State g = StateEmpty then transitionToRebalanceLocked ord g else g)
      in if g_LeaderID g = [] then g\<lparr>g_LeaderID := memberID\<rparr> else g)"

definition join_response :: "order \<Rightarrow> Group \<Rightarrow> string \<Rightarrow> JoinGroupResponse" where
  "join_response ord g memberID =
     \<lparr>jgs_ErrorCode = codeNone, jgs_GenerationID = g_GenerationID g, jgs_ProtocolName = g_ProtocolName g,
      jgs_LeaderID = g_LeaderID g, jgs_MemberID = memberID,
      jgs_Members =
        (if memberID = g_LeaderID g
         then map (\<lambda>k. \<lparr>jgm_MemberID = k, jgm_Metadata = m_Metadata (the (map_of (g_Members g) k))\<rparr>)
                (ord (map fst (g_Members g)))
         else [])\<rparr>"

definition JoinGroup ::
    "order \<Rightarrow> bytes \<Rightarrow> GroupCoordinator \<Rightarrow> JoinGroupRequest \<Rightarrow> string \<Rightarrow> int \<Rightarrow> GroupCoordinator \<times> JoinGroupResponse" where
  "JoinGroup ord rnd gc req clientID now =
     (if jgr_GroupID req = [] then (gc, join_group_error codeInvalidGroupID)
      else
        (let g = (case map_of (gc_groups gc) (jgr_GroupID req) of None \<Rightarrow> new_group req | Some g \<Rightarrow> g);
             memberID = (if jgr_MemberID req = [] then generateMemberID clientID rnd else jgr_MemberID req);
             g = group_join ord g req memberID now (gc_nextCh gc)
         in ((set_group gc g)\<lparr>gc_nextCh := gc_nextCh gc + 1\<rparr>, join_response ord g memberID)))"

text \<open>
  \<open>SyncGroup\<close> is answered at once or waits on the channel of the member: \<open>sync_section\<close> is the part under
  the lock, \<open>sync_receive\<close> the receive that ends the wait. The wait also ends with a timeout.
\<close>

definition assign_members :: "SyncGroupAssignment list \<Rightarrow> (string \<times> Member) list \<Rightarrow> (string \<times> Member) list" where
  "assign_members assigns ms =
     foldl (\<lambda>ms a.
        case map_of ms (sga_MemberID a) of
          None \<Rightarrow> ms
        | Some m \<Rightarrow> AList.update (sga_MemberID a) (m\<lparr>m_Assignment := sga_Assignment a\<rparr>) ms) ms assigns"

definition sync_response :: "Member \<Rightarrow> SyncGroupResponse" where
  "sync_response m = \<lparr>sgs_ErrorCode = codeNone, sgs_Assignment = m_Assignment m\<rparr>"

definition notify_members :: "(string \<times> Member) list \<Rightarrow> sync_chans \<Rightarrow> sync_chans" where
  "notify_members ms chs = foldl (\<lambda>chs (_, m). offer (m_syncRespCh m) (sync_response m) chs) chs ms"

datatype sync_result = SyncDone SyncGroupResponse | SyncWait nat

definition sync_error :: "int \<Rightarrow> SyncGroupResponse" where
  "sync_error code = \<lparr>sgs_ErrorCode = code, sgs_Assignment = []\<rparr>"

definition sync_section :: "GroupCoordinator \<Rightarrow> SyncGroupRequest \<Rightarrow> int \<Rightarrow> GroupCoordinator \<times> sync_result" where
  "sync_section gc req now =
     (case map_of (gc_groups gc) (sgr_GroupID req) of
        None \<Rightarrow> (gc, SyncDone (sync_error codeUnknownMemberID))
      | Some g \<Rightarrow>
          if sgr_GenerationID req \<noteq> g_GenerationID g then (gc, SyncDone (sync_error codeIllegalGeneration))
          else
            (case map_of (g_Members g) (sgr_MemberID req) of
               None \<Rightarrow> (gc, SyncDone (sync_error codeUnknownMemberID))
             | Some m \<Rightarrow>
                 (let g = g\<lparr>g_Members := AList.update (sgr_MemberID req) (m\<lparr>m_LastHeartbeat := now\<rparr>) (g_Members g)\<rparr>
                  in if sgr_MemberID req = g_LeaderID g \<and> sgr_Assignments req \<noteq> []
                     then
                       (let g = g\<lparr>g_Members := assign_members (sgr_Assignments req) (g_Members g), g_State := StateStable\<rparr>
                        in ((set_group gc g)\<lparr>gc_chans := notify_members (g_Members g) (gc_chans gc)\<rparr>,
                            SyncWait (m_syncRespCh m)))
                     else (set_group gc g, SyncWait (m_syncRespCh m)))))"

definition sync_receive :: "GroupCoordinator \<Rightarrow> nat \<Rightarrow> (GroupCoordinator \<times> SyncGroupResponse) option" where
  "sync_receive gc ch =
     (case gc_chans gc ch of [] \<Rightarrow> None | r # rs \<Rightarrow> Some (gc\<lparr>gc_chans := (gc_chans gc)(ch := rs)\<rparr>, r))"

definition sync_timeout :: SyncGroupResponse where
  "sync_timeout = sync_error codeRequestTimedOut"

definition Heartbeat :: "GroupCoordinator \<Rightarrow> HeartbeatRequest \<Rightarrow> int \<Rightarrow> GroupCoordinator \<times> HeartbeatResponse" where
  "Heartbeat gc req now =
     (case map_of (gc_groups gc) (hbr_GroupID req) of
        None \<Rightarrow> (gc, \<lparr>hbs_ErrorCode = codeUnknownMemberID\<rparr>)
      | Some g \<Rightarrow>
          if hbr_GenerationID req \<noteq> g_GenerationID g then (gc, \<lparr>hbs_ErrorCode = codeIllegalGeneration\<rparr>)
          else
            (case map_of (g_Members g) (hbr_MemberID req) of
               None \<Rightarrow> (gc, \<lparr>hbs_ErrorCode = codeUnknownMemberID\<rparr>)
             | Some m \<Rightarrow>
                 if g_State g = StatePreparingRebalance then (gc, \<lparr>hbs_ErrorCode = codeRebalanceInProgress\<rparr>)
                 else
                   (set_group gc
                      (g\<lparr>g_Members := AList.update (hbr_MemberID req) (m\<lparr>m_LastHeartbeat := now\<rparr>) (g_Members g)\<rparr>),
                    \<lparr>hbs_ErrorCode = codeNone\<rparr>)))"

definition LeaveGroup :: "order \<Rightarrow> GroupCoordinator \<Rightarrow> LeaveGroupRequest \<Rightarrow> GroupCoordinator \<times> LeaveGroupResponse" where
  "LeaveGroup ord gc req =
     (case map_of (gc_groups gc) (lgr_GroupID req) of
        None \<Rightarrow> (gc, \<lparr>lgs_ErrorCode = codeUnknownMemberID\<rparr>)
      | Some g \<Rightarrow>
          (case map_of (g_Members g) (lgr_MemberID req) of
             None \<Rightarrow> (gc, \<lparr>lgs_ErrorCode = codeUnknownMemberID\<rparr>)
           | Some _ \<Rightarrow>
               (set_group gc (after_removal ord (g\<lparr>g_Members := AList.delete (lgr_MemberID req) (g_Members g)\<rparr>)),
                \<lparr>lgs_ErrorCode = codeNone\<rparr>)))"

end
