(* ===== verification/GroupInv.thy ===== *)
theory GroupInv
  imports GroupCoord
begin

text \<open>
  The invariant of consumer groups, kept by every operation of the coordinator (\<open>gc_step\<close>), the delivery of
  assignments and the fencing of members of old generations.
\<close>

section \<open>Members as a map\<close>

definition valid_ord :: "order \<Rightarrow> bool" where
  "valid_ord ord \<longleftrightarrow> (\<forall>ks. set (ord ks) = set ks \<and> (distinct ks \<longrightarrow> distinct (ord ks)))"

definition member_ids :: "Group \<Rightarrow> string set" where
  "member_ids g = fst ` set (g_Members g)"

definition member_chans :: "Group \<Rightarrow> nat list" where
  "member_chans g = map (\<lambda>p. m_syncRespCh (snd p)) (g_Members g)"

lemma member_ids_map_of: "k \<in> member_ids g \<longleftrightarrow> (\<exists>m. map_of (g_Members g) k = Some m)"
  by (metis member_ids_def domIff dom_map_of_conv_image_fst option.exhaust_sel option.distinct(1))

lemma first_nonempty:
  assumes "[] \<notin> set ks"
  shows "foldl (\<lambda>l k. if l = [] then k else l) [] ks = (if ks = [] then [] else hd ks)"
proof (cases ks)
  case (Cons k ks')
  have "foldl (\<lambda>l k. if l = [] then k else l) l ks' = l" if "l \<noteq> []" for l :: "'a list"
    using that by (induction ks') auto
  then show ?thesis using Cons assms by auto
qed simp

section \<open>Invariant of a group\<close>

text \<open>\<open>n\<close> bounds the channels made so far.\<close>

definition members_ok :: "nat \<Rightarrow> (string \<times> Member) list \<Rightarrow> bool" where
  "members_ok n ms \<longleftrightarrow>
     distinct (map fst ms) \<and> distinct (map (\<lambda>p. m_syncRespCh (snd p)) ms) \<and>
     (\<forall>p \<in> set ms. m_ID (snd p) = fst p \<and> fst p \<noteq> [] \<and> m_syncRespCh (snd p) < n)"

definition group_inv :: "nat \<Rightarrow> Group \<Rightarrow> bool" where
  "group_inv n g \<longleftrightarrow>
     members_ok n (g_Members g) \<and> in_s 32 (g_GenerationID g) \<and>
     (if g_Members g = [] then g_State g = StateEmpty \<and> g_LeaderID g = []
      else g_State g \<in> {StatePreparingRebalance, StateStable} \<and> g_LeaderID g \<in> member_ids g) \<and>
     (g_State g = StatePreparingRebalance \<longrightarrow> (\<forall>m \<in> snd ` set (g_Members g). m_Assignment m = []))"

lemma members_ok_mono: "members_ok n ms \<Longrightarrow> n \<le> n' \<Longrightarrow> members_ok n' ms"
  by (fastforce simp: members_ok_def)

lemma group_inv_mono: "group_inv n g \<Longrightarrow> n \<le> n' \<Longrightarrow> group_inv n' g"
  using members_ok_mono [of n "g_Members g" n'] unfolding group_inv_def by blast

lemma members_ok_map_of: "members_ok n ms \<Longrightarrow> map_of ms k = Some m \<Longrightarrow> m_ID m = k \<and> k \<noteq> [] \<and> m_syncRespCh m < n"
  by (auto simp: members_ok_def dest!: map_of_SomeD)

text \<open>An update that keeps the channel and the id, as of heartbeats and assignments.\<close>

lemma members_ok_same:
  assumes "members_ok n ms" and "map fst ms' = map fst ms"
    and "map (\<lambda>p. m_syncRespCh (snd p)) ms' = map (\<lambda>p. m_syncRespCh (snd p)) ms" and "map (\<lambda>p. m_ID (snd p)) ms' = map (\<lambda>p. m_ID (snd p)) ms"
  shows "members_ok n ms'"
proof -
  have len: "length ms' = length ms" using assms(2) by (metis length_map)
  have "m_ID (snd (ms' ! i)) = fst (ms' ! i) \<and> fst (ms' ! i) \<noteq> [] \<and> m_syncRespCh (snd (ms' ! i)) < n" if "i < length ms'" for i
  proof -
    have "fst (ms' ! i) = fst (ms ! i)" "m_syncRespCh (snd (ms' ! i)) = m_syncRespCh (snd (ms ! i))" "m_ID (snd (ms' ! i)) = m_ID (snd (ms ! i))"
      using that len arg_cong [OF assms(2), of "\<lambda>xs. xs ! i"] arg_cong [OF assms(3), of "\<lambda>xs. xs ! i"]
        arg_cong [OF assms(4), of "\<lambda>xs. xs ! i"] by simp_all
    moreover have "ms ! i \<in> set ms" using that len by simp
    ultimately show ?thesis using assms(1) by (auto simp: members_ok_def)
  qed
  then have "\<forall>p \<in> set ms'. m_ID (snd p) = fst p \<and> fst p \<noteq> [] \<and> m_syncRespCh (snd p) < n"
    by (metis in_set_conv_nth)
  then show ?thesis using assms unfolding members_ok_def by simp
qed

lemma update_same:
  assumes "map_of ms k = Some m" and "f m' = f m"
  shows "map (\<lambda>p. f (snd p)) (AList.update k m' ms) = map (\<lambda>p. f (snd p)) ms" and "map fst (AList.update k m' ms) = map fst ms"
  using assms by (induction ms) (auto split: if_split_asm)

lemma members_ok_update_same:
  assumes "members_ok n ms" and "map_of ms k = Some m" and "m_syncRespCh m' = m_syncRespCh m" and "m_ID m' = m_ID m"
  shows "members_ok n (AList.update k m' ms)"
  by (rule members_ok_same [OF assms(1) update_same(2) [OF assms(2,3)] update_same(1) [OF assms(2,3)]
        update_same(1) [OF assms(2,4)]])

lemma members_ok_filter: "members_ok n ms \<Longrightarrow> members_ok n (filter P ms)"
  by (simp add: members_ok_def distinct_map_filter)

lemma update_fresh: "map_of ms k = None \<Longrightarrow> AList.update k m ms = ms @ [(k, m)]"
  by (induction ms) (auto split: if_split_asm)

lemma members_ok_join:
  assumes "members_ok n ms" and "k \<noteq> []" and "m_ID m = k" and "m_syncRespCh m = n"
  shows "members_ok (Suc n) (AList.update k m ms)"
proof (cases "map_of ms k")
  case None
  then have "k \<notin> fst ` set ms" by (simp add: map_of_eq_None_iff)
  then show ?thesis using assms update_fresh [OF None, of m] by (fastforce simp: members_ok_def)
next
  case (Some old)
  have "distinct (map fst (AList.update k m ms))" using assms(1) by (simp add: members_ok_def distinct_update)
  moreover have "set (AList.update k m ms) \<subseteq> insert (k, m) (set ms)"
    by (induction ms) auto
  then have "\<forall>p \<in> set (AList.update k m ms). m_ID (snd p) = fst p \<and> fst p \<noteq> [] \<and> m_syncRespCh (snd p) < Suc n"
    using assms by (fastforce simp: members_ok_def)
  moreover have "distinct (map (\<lambda>p. m_syncRespCh (snd p)) (AList.update k m ms))"
    using assms(1,4)
  proof (induction ms)
    case (Cons p ms)
    obtain j x where p: "p = (j, x)" by force
    have sub: "set (map (\<lambda>p. m_syncRespCh (snd p)) (AList.update k m ms)) \<subseteq> insert n (set (map (\<lambda>p. m_syncRespCh (snd p)) ms))"
      using assms(4) by (induction ms) auto
    have ok: "members_ok n ms" and x: "m_syncRespCh x < n" "m_syncRespCh x \<notin> set (map (\<lambda>p. m_syncRespCh (snd p)) ms)"
      and lt: "\<forall>c \<in> set (map (\<lambda>p. m_syncRespCh (snd p)) ms). c < n"
      using Cons.prems(1) p by (auto simp: members_ok_def)
    show ?case
    proof (cases "j = k")
      case True
      then show ?thesis using ok lt assms(4) p by (auto simp: members_ok_def)
    next
      case False
      then show ?thesis using Cons.IH [OF ok Cons.prems(2)] x sub p by auto
    qed
  qed simp
  ultimately show ?thesis by (simp add: members_ok_def)
qed

section \<open>Operations on a group\<close>

lemma transition_inv:
  assumes "members_ok n (g_Members g)" and "g_Members g \<noteq> []" and "valid_ord ord"
  shows "group_inv n (transitionToRebalanceLocked ord g)"
    and "g_State (transitionToRebalanceLocked ord g) = StatePreparingRebalance"
    and "g_GenerationID (transitionToRebalanceLocked ord g) = int32 (g_GenerationID g + 1)"
    and "map fst (g_Members (transitionToRebalanceLocked ord g)) = map fst (g_Members g)"
    and "member_chans (transitionToRebalanceLocked ord g) = member_chans g"
    and "g_ID (transitionToRebalanceLocked ord g) = g_ID g"
    and "g_LeaderID (transitionToRebalanceLocked ord g) \<in> member_ids g"
proof -
  let ?ms = "map (\<lambda>(k, m). (k, m\<lparr>m_Assignment := []\<rparr>)) (g_Members g)"
  let ?t = "transitionToRebalanceLocked ord g"
  have fst: "map fst ?ms = map fst (g_Members g)" by (induction "g_Members g") auto
  have ms: "g_Members ?t = ?ms" by (simp add: transitionToRebalanceLocked_def AssignmentCleared_def Let_def)
  have ch: "map (\<lambda>p. m_syncRespCh (snd p)) ?ms = map (\<lambda>p. m_syncRespCh (snd p)) (g_Members g)"
    "map (\<lambda>p. m_ID (snd p)) ?ms = map (\<lambda>p. m_ID (snd p)) (g_Members g)" by (simp_all add: split_beta)
  have ok: "members_ok n ?ms" by (rule members_ok_same [OF assms(1) fst ch])
  let ?ks = "ord (map fst (g_Members g))"
  have ks: "set ?ks = member_ids g" using assms(3) by (simp add: valid_ord_def member_ids_def)
  moreover have "[] \<notin> member_ids g" using assms(1) by (auto simp: members_ok_def member_ids_def)
  ultimately have "g_LeaderID ?t = (if ?ks = [] then [] else hd ?ks)"
    using first_nonempty [of ?ks] fst
    by (simp add: transitionToRebalanceLocked_def AssignmentCleared_def Let_def del: map_map)
  moreover have "?ks \<noteq> []" using ks assms(2) by (auto simp: member_ids_def)
  ultimately show leader: "g_LeaderID ?t \<in> member_ids g" using ks by (metis hd_in_set)
  show st: "g_State ?t = StatePreparingRebalance" and gen: "g_GenerationID ?t = int32 (g_GenerationID g + 1)"
    and "map fst (g_Members ?t) = map fst (g_Members g)" and "member_chans ?t = member_chans g" and "g_ID ?t = g_ID g"
    using fst ch by (simp_all add: transitionToRebalanceLocked_def AssignmentCleared_def Let_def member_chans_def del: map_map)
  have "member_ids ?t = member_ids g" using fst unfolding member_ids_def ms by (metis list.set_map)
  moreover have "\<forall>m \<in> snd ` set ?ms. m_Assignment m = []" by auto
  moreover have "in_s 32 (int32 (g_GenerationID g + 1))" by (rule in_s_wrap_s) simp
  ultimately show "group_inv n ?t" using ok leader st gen assms(2) by (simp add: group_inv_def ms)
qed

lemma group_inv_Empty: "group_inv n g \<Longrightarrow> g_State g = StateEmpty \<longleftrightarrow> g_Members g = []"
  by (auto simp: group_inv_def split: if_split_asm)

lemma after_removal_inv:
  assumes "members_ok n (g_Members g)" and "in_s 32 (g_GenerationID g)" and "valid_ord ord"
  shows "group_inv n (after_removal ord g)"
    and "g_ID (after_removal ord g) = g_ID g"
    and "map fst (g_Members (after_removal ord g)) = map fst (g_Members g)"
    and "member_chans (after_removal ord g) = member_chans g"
  using transition_inv [OF assms(1) _ assms(3)] assms(2)
  by (auto simp: after_removal_def group_inv_def members_ok_def member_chans_def)

lemma fold_delete: "fold (\<lambda>(k, _). AList.delete k) gone ms = filter (\<lambda>p. fst p \<notin> fst ` set gone) ms"
  by (induction gone arbitrary: ms) (auto simp: AList.delete_eq case_prod_unfold intro!: filter_cong)

lemma filter_gone:
  assumes "distinct (map fst ms)"
  shows "filter (\<lambda>p. fst p \<notin> fst ` set (filter P ms)) ms = filter (\<lambda>p. \<not> P p) ms"
proof (rule filter_cong [OF refl])
  fix p
  assume p: "p \<in> set ms"
  have "q = p" if "q \<in> set ms" "fst q = fst p" for q
    using assms p that by (auto simp: distinct_map inj_on_def)
  then show "(fst p \<notin> fst ` set (filter P ms)) = (\<not> P p)" using p by auto
qed

lemma check_group_members:
  assumes "members_ok n (g_Members g)"
  shows "check_group ord now g =
    (let alive = filter (\<lambda>p. \<not> session_expired now (snd p)) (g_Members g)
     in if alive = g_Members g then g else after_removal ord (g\<lparr>g_Members := alive\<rparr>))"
proof -
  have d: "distinct (map fst (g_Members g))" using assms by (simp add: members_ok_def)
  have "filter (\<lambda>p. session_expired now (snd p)) (g_Members g) = [] \<longleftrightarrow>
    filter (\<lambda>p. \<not> session_expired now (snd p)) (g_Members g) = g_Members g"
    by (auto simp: filter_empty_conv filter_id_conv)
  then show ?thesis
    using filter_gone [OF d, of "\<lambda>p. session_expired now (snd p)"]
    by (simp add: check_group_def Let_def case_prod_unfold fold_delete [unfolded case_prod_unfold])
qed

lemma check_group_inv:
  assumes "group_inv n g" and "valid_ord ord"
  shows "group_inv n (check_group ord now g)" and "g_ID (check_group ord now g) = g_ID g"
    and "member_ids (check_group ord now g) \<subseteq> member_ids g"
    and "set (member_chans (check_group ord now g)) \<subseteq> set (member_chans g)"
proof -
  let ?alive = "filter (\<lambda>p. \<not> session_expired now (snd p)) (g_Members g)"
  have ok: "members_ok n (g_Members g)" and gen: "in_s 32 (g_GenerationID g)"
    using assms(1) by (simp_all add: group_inv_def)
  note r = after_removal_inv [of n "g\<lparr>g_Members := ?alive\<rparr>" ord, simplified, OF members_ok_filter [OF ok] gen assms(2)]
  have ids: "fst ` set (g_Members (after_removal ord (g\<lparr>g_Members := ?alive\<rparr>))) = fst ` set ?alive"
    using arg_cong [OF r(3), of set] by simp
  have chs: "set (member_chans (after_removal ord (g\<lparr>g_Members := ?alive\<rparr>))) \<subseteq> set (member_chans g)"
    using r(4) by (auto simp: member_chans_def)
  show "group_inv n (check_group ord now g)" "g_ID (check_group ord now g) = g_ID g"
    using r(1,2) assms(1) by (simp_all add: check_group_members [OF ok] Let_def)
  show "member_ids (check_group ord now g) \<subseteq> member_ids g"
    using ids by (auto simp: check_group_members [OF ok] Let_def member_ids_def)
  show "set (member_chans (check_group ord now g)) \<subseteq> set (member_chans g)"
    using chs by (simp add: check_group_members [OF ok] Let_def)
qed

lemma member_ids_update: "fst ` set (AList.update k m ms) = insert k (fst ` set ms)"
  using dom_update [of k m ms] by simp

lemma update_chans: "set (map (\<lambda>p. m_syncRespCh (snd p)) (AList.update k m ms)) \<subseteq>
    insert (m_syncRespCh m) (set (map (\<lambda>p. m_syncRespCh (snd p)) ms))"
  by (induction ms) auto

lemma join_member_simps [simp]:
  "m_syncRespCh (join_member req k meta now ch old) = ch"
  "m_Assignment (join_member req k meta now ch old) = (case old of None \<Rightarrow> [] | Some m \<Rightarrow> m_Assignment m)"
  "m_ID (join_member req k meta now ch old) = (case old of None \<Rightarrow> k | Some m \<Rightarrow> m_ID m)"
  by (simp_all add: join_member_def split: option.split)

text \<open>The group after the member was stored, before the state and the leader are looked at.\<close>

definition stored_member :: "Group \<Rightarrow> JoinGroupRequest \<Rightarrow> string \<Rightarrow> int \<Rightarrow> nat \<Rightarrow> Group" where
  "stored_member g req k now ch =
     (let (pn, meta) = (case jgr_Protocols req of [] \<Rightarrow> ([], []) | p # _ \<Rightarrow> (jgp_Name p, jgp_Metadata p))
      in g\<lparr>g_ProtocolName := pn,
           g_Members := AList.update k (join_member req k meta now ch (map_of (g_Members g) k)) (g_Members g)\<rparr>)"

lemma stored_member_ok:
  assumes "members_ok n (g_Members g)" and "k \<noteq> []"
  shows "members_ok (Suc n) (g_Members (stored_member g req k now n))"
    and "g_Members (stored_member g req k now n) \<noteq> []"
    and "member_ids (stored_member g req k now n) = insert k (member_ids g)"
    and "set (member_chans (stored_member g req k now n)) \<subseteq> insert n (set (member_chans g))"
    and "\<forall>m \<in> snd ` set (g_Members g). m_Assignment m = [] \<Longrightarrow>
         \<forall>m \<in> snd ` set (g_Members (stored_member g req k now n)). m_Assignment m = []"
proof -
  obtain pn meta where pm: "(case jgr_Protocols req of [] \<Rightarrow> ([], []) | p # _ \<Rightarrow> (jgp_Name p, jgp_Metadata p)) = (pn, meta)"
    by fastforce
  define m where "m = join_member req k meta now n (map_of (g_Members g) k)"
  have ms: "g_Members (stored_member g req k now n) = AList.update k m (g_Members g)"
    by (simp add: stored_member_def pm m_def)
  have "m_ID m = k" using members_ok_map_of [OF assms(1), of k] by (simp add: m_def split: option.split)
  then show "members_ok (Suc n) (g_Members (stored_member g req k now n))"
    using members_ok_join [OF assms, of m] by (simp add: ms m_def)
  show "g_Members (stored_member g req k now n) \<noteq> []"
    "member_ids (stored_member g req k now n) = insert k (member_ids g)"
    "set (member_chans (stored_member g req k now n)) \<subseteq> insert n (set (member_chans g))"
    using update_chans [of k m "g_Members g"] update_nonempty [of k m "g_Members g"]
    by (simp_all add: ms member_ids_def member_ids_update member_chans_def m_def)
  assume empty: "\<forall>m \<in> snd ` set (g_Members g). m_Assignment m = []"
  then have "m_Assignment m = []"
    by (auto simp: m_def split: option.split dest!: map_of_SomeD)
  moreover have "set (AList.update k m ms) \<subseteq> insert (k, m) (set ms)" for ms by (induction ms) auto
  ultimately show "\<forall>m \<in> snd ` set (g_Members (stored_member g req k now n)). m_Assignment m = []"
    using empty unfolding ms by fastforce
qed

lemma stored_member_simps [simp]:
  "g_State (stored_member g req k now ch) = g_State g" "g_ID (stored_member g req k now ch) = g_ID g"
  "g_LeaderID (stored_member g req k now ch) = g_LeaderID g" "g_GenerationID (stored_member g req k now ch) = g_GenerationID g"
  by (simp_all add: stored_member_def split_beta Let_def)

lemma group_join_eq:
  assumes "group_inv n g" and "k \<noteq> []" and "valid_ord ord"
  shows "group_join ord g req k now n =
    (if g_State g = StatePreparingRebalance then stored_member g req k now n
     else transitionToRebalanceLocked ord (stored_member g req k now n))"
proof -
  have ok: "members_ok n (g_Members g)" using assms(1) by (simp add: group_inv_def)
  note s = stored_member_ok [OF ok assms(2)]
  have "[] \<notin> member_ids (stored_member g req k now n)"
    using s(1) [of req now] by (auto simp: members_ok_def member_ids_def)
  then have "g_LeaderID (transitionToRebalanceLocked ord (stored_member g req k now n)) \<noteq> []"
    using transition_inv(7) [OF s(1,2) assms(3)] by metis
  moreover have "g_State g \<in> {StateStable, StateEmpty} \<or> g_State g = StatePreparingRebalance \<and> g_LeaderID g \<noteq> []"
    using assms(1) ok by (auto simp: group_inv_def members_ok_def member_ids_def split: if_split_asm)
  ultimately show ?thesis
    by (auto simp: group_join_def stored_member_def Let_def split_beta)
qed

lemma group_join_inv:
  assumes inv: "group_inv n g" and k: "k \<noteq> []" and ord: "valid_ord ord"
  shows "group_inv (Suc n) (group_join ord g req k now n)"
    and "g_ID (group_join ord g req k now n) = g_ID g"
    and "member_ids (group_join ord g req k now n) = insert k (member_ids g)"
    and "set (member_chans (group_join ord g req k now n)) \<subseteq> insert n (set (member_chans g))"
    and "g_State (group_join ord g req k now n) = StatePreparingRebalance"
    and "g_GenerationID (group_join ord g req k now n) =
      (if g_State g = StatePreparingRebalance then g_GenerationID g else int32 (g_GenerationID g + 1))"
proof -
  have ok: "members_ok n (g_Members g)" using inv by (simp add: group_inv_def)
  note s = stored_member_ok [OF ok k, of req now]
  note t = transition_inv [OF s(1,2) ord]
  note eq = group_join_eq [OF inv k ord, of req now]
  have prep: "group_inv (Suc n) (stored_member g req k now n)" if "g_State g = StatePreparingRebalance"
  proof -
    have *: "g_LeaderID g \<in> member_ids g" "\<forall>m \<in> snd ` set (g_Members g). m_Assignment m = []" "in_s 32 (g_GenerationID g)"
      using inv that unfolding group_inv_def by (metis GroupState.distinct(1))+
    show ?thesis unfolding group_inv_def stored_member_simps s(3) using s(1,2) s(5) [OF *(2)] *(1,3) that by auto
  qed
  show "group_inv (Suc n) (group_join ord g req k now n)" using t(1) prep by (simp add: eq)
  show "g_ID (group_join ord g req k now n) = g_ID g" "g_State (group_join ord g req k now n) = StatePreparingRebalance"
    "g_GenerationID (group_join ord g req k now n) =
      (if g_State g = StatePreparingRebalance then g_GenerationID g else int32 (g_GenerationID g + 1))"
    using t(2,3,6) by (simp_all add: eq)
  show "member_ids (group_join ord g req k now n) = insert k (member_ids g)"
    using s(3) arg_cong [OF t(4), of set] by (simp add: eq member_ids_def)
  show "set (member_chans (group_join ord g req k now n)) \<subseteq> insert n (set (member_chans g))"
    using s(4) t(5) by (simp add: eq)
qed

subsection \<open>Assignments\<close>

text \<open>The assignment of a member after the leader's list, where the last entry of a member counts.\<close>

definition assigned_to :: "SyncGroupAssignment list \<Rightarrow> string \<Rightarrow> bytes \<Rightarrow> bytes" where
  "assigned_to assigns k old = foldl (\<lambda>old a. if sga_MemberID a = k then sga_Assignment a else old) old assigns"

lemma map_of_assign_members:
  "map_of (assign_members assigns ms) k =
     map_option (\<lambda>m. m\<lparr>m_Assignment := assigned_to assigns k (m_Assignment m)\<rparr>) (map_of ms k)"
proof (induction assigns arbitrary: ms)
  case Nil
  then show ?case by (cases "map_of ms k") (simp_all add: assign_members_def assigned_to_def)
next
  case (Cons a assigns)
  have "assign_members (a # assigns) ms = assign_members assigns
      (case map_of ms (sga_MemberID a) of None \<Rightarrow> ms
       | Some m \<Rightarrow> AList.update (sga_MemberID a) (m\<lparr>m_Assignment := sga_Assignment a\<rparr>) ms)"
    by (simp add: assign_members_def)
  moreover have "assigned_to (a # assigns) k old = assigned_to assigns k (if sga_MemberID a = k then sga_Assignment a else old)" for old
    by (simp add: assigned_to_def)
  ultimately show ?case
    by (cases "sga_MemberID a = k"; cases "map_of ms (sga_MemberID a)"; cases "map_of ms k") (simp_all add: Cons.IH update_conv)
qed

lemma assign_members_keeps:
  assumes "\<And>m x. f (m\<lparr>m_Assignment := x\<rparr>) = f m"
  shows "map (\<lambda>p. f (snd p)) (assign_members assigns ms) = map (\<lambda>p. f (snd p)) ms"
    and "map fst (assign_members assigns ms) = map fst ms"
proof (induction assigns arbitrary: ms)
  case (Cons a assigns)
  case 1
  show ?case using Cons(1) update_same(1) [of ms "sga_MemberID a" _ f] assms
    by (cases "map_of ms (sga_MemberID a)") (simp_all add: assign_members_def)
  case 2
  show ?case using Cons(2) update_same(2) [of ms "sga_MemberID a" _ f] assms
    by (cases "map_of ms (sga_MemberID a)") (simp_all add: assign_members_def)
qed (simp_all add: assign_members_def)

lemma assign_members_ok:
  assumes "members_ok n ms"
  shows "members_ok n (assign_members assigns ms)"
  by (rule members_ok_same [OF assms assign_members_keeps(2) [of m_ID] assign_members_keeps(1) assign_members_keeps(1)])
    simp_all

lemma notify_members_other: "c \<notin> set (map (\<lambda>p. m_syncRespCh (snd p)) ms) \<Longrightarrow> notify_members ms chs c = chs c"
  by (induction ms arbitrary: chs) (auto simp: notify_members_def offer_def)

lemma notify_members_Cons: "notify_members (p # ms) chs = notify_members ms (offer (m_syncRespCh (snd p)) (sync_response (snd p)) chs)"
  by (simp add: notify_members_def split_beta)

lemma notify_members_member:
  assumes "(k, m) \<in> set ms" and "distinct (map (\<lambda>p. m_syncRespCh (snd p)) ms)"
  shows "notify_members ms chs (m_syncRespCh m) =
    (if chs (m_syncRespCh m) = [] then [sync_response m] else chs (m_syncRespCh m))"
  using assms
proof (induction ms arbitrary: chs)
  case (Cons p ms)
  show ?case
  proof (cases "p = (k, m)")
    case True
    then have "m_syncRespCh m \<notin> set (map (\<lambda>p. m_syncRespCh (snd p)) ms)" using Cons.prems(2) by simp
    then show ?thesis using True by (simp add: notify_members_Cons notify_members_other offer_def)
  next
    case False
    then have mem: "(k, m) \<in> set ms" using Cons.prems(1) by simp
    then have "m_syncRespCh (snd p) \<noteq> m_syncRespCh m" using Cons.prems(2) by force
    then show ?thesis using Cons.IH [OF mem] Cons.prems(2) by (simp add: notify_members_Cons offer_def)
  qed
qed simp

section \<open>The coordinator\<close>

definition gc_inv :: "GroupCoordinator \<Rightarrow> bool" where
  "gc_inv gc \<longleftrightarrow>
     (\<forall>k g. map_of (gc_groups gc) k = Some g \<longrightarrow> g_ID g = k \<and> k \<noteq> [] \<and> group_inv (gc_nextCh gc) g) \<and>
     (\<forall>k g k' g'. map_of (gc_groups gc) k = Some g \<longrightarrow> map_of (gc_groups gc) k' = Some g' \<longrightarrow> k \<noteq> k' \<longrightarrow>
        set (member_chans g) \<inter> set (member_chans g') = {}) \<and>
     (\<forall>c. gc_nextCh gc \<le> c \<longrightarrow> gc_chans gc c = []) \<and> (\<forall>c. length (gc_chans gc c) \<le> 1)"

lemma gc_invD:
  assumes "gc_inv gc" and "map_of (gc_groups gc) k = Some g"
  shows "g_ID g = k" and "k \<noteq> []" and "group_inv (gc_nextCh gc) g" and "members_ok (gc_nextCh gc) (g_Members g)"
    and "\<forall>c \<in> set (member_chans g). c < gc_nextCh gc"
proof -
  show *: "g_ID g = k" "k \<noteq> []" "group_inv (gc_nextCh gc) g" using assms unfolding gc_inv_def by blast+
  show "members_ok (gc_nextCh gc) (g_Members g)" using *(3) by (simp add: group_inv_def)
  then show "\<forall>c \<in> set (member_chans g). c < gc_nextCh gc" by (auto simp: member_chans_def members_ok_def)
qed

lemma gc_inv_new: "gc_inv NewGroupCoordinator"
  by (simp add: gc_inv_def NewGroupCoordinator_def)

text \<open>
  Storing a group that keeps the invariant, whose channels are those it had or new ones. All requests change the
  coordinator in this way.
\<close>

lemma set_group_inv:
  assumes inv: "gc_inv gc" and g: "group_inv n g" "g_ID g \<noteq> []" and n: "gc_nextCh gc \<le> n"
    and ch: "set (member_chans g) \<subseteq>
      (case map_of (gc_groups gc) (g_ID g) of None \<Rightarrow> {} | Some g0 \<Rightarrow> set (member_chans g0)) \<union> {gc_nextCh gc..<n}"
    and cs: "\<forall>c. n \<le> c \<longrightarrow> cs c = []" "\<forall>c. length (cs c) \<le> 1"
  shows "gc_inv ((set_group gc g)\<lparr>gc_nextCh := n, gc_chans := cs\<rparr>)"
proof -
  have mo: "map_of (gc_groups (set_group gc g)) = (map_of (gc_groups gc))(g_ID g \<mapsto> g)"
    by (simp add: set_group_def update_conv')
  have dis: "set (member_chans g) \<inter> set (member_chans g') = {}"
    if "map_of (gc_groups gc) k = Some g'" "k \<noteq> g_ID g" for k g'
  proof -
    have "(case map_of (gc_groups gc) (g_ID g) of None \<Rightarrow> {} | Some g0 \<Rightarrow> set (member_chans g0)) \<inter> set (member_chans g') = {}"
      using inv that unfolding gc_inv_def by (cases "map_of (gc_groups gc) (g_ID g)") auto
    moreover have "{gc_nextCh gc..<n} \<inter> set (member_chans g') = {}" using gc_invD(5) [OF inv that(1)] by fastforce
    ultimately show ?thesis using ch by blast
  qed
  have grp: "g_ID g' = k \<and> k \<noteq> [] \<and> group_inv n g'" if "((map_of (gc_groups gc))(g_ID g \<mapsto> g)) k = Some g'" for k g'
    using that gc_invD(1,2) [OF inv, of k g'] group_inv_mono [OF gc_invD(3) [OF inv, of k g'] n] g by (auto split: if_split_asm)
  have sep: "set (member_chans g1) \<inter> set (member_chans g2) = {}"
    if two: "((map_of (gc_groups gc))(g_ID g \<mapsto> g)) k1 = Some g1" "((map_of (gc_groups gc))(g_ID g \<mapsto> g)) k2 = Some g2" "k1 \<noteq> k2"
    for k1 k2 g1 g2
  proof -
    consider "k1 = g_ID g" "g1 = g" | "k2 = g_ID g" "g2 = g" | "k1 \<noteq> g_ID g" "k2 \<noteq> g_ID g" using two by fastforce
    then show ?thesis
    proof cases
      case 3
      then show ?thesis using two inv unfolding gc_inv_def by simp
    qed (use two dis in auto)
  qed
  have sel: "gc_nextCh ((set_group gc g)\<lparr>gc_nextCh := n, gc_chans := cs\<rparr>) = n" "gc_chans ((set_group gc g)\<lparr>gc_nextCh := n, gc_chans := cs\<rparr>) = cs"
    "gc_groups ((set_group gc g)\<lparr>gc_nextCh := n, gc_chans := cs\<rparr>) = gc_groups (set_group gc g)" by simp_all
  show ?thesis unfolding gc_inv_def sel mo using grp sep cs by blast
qed

lemma gc_inv_chans:
  assumes "gc_inv gc"
  shows "\<forall>c. gc_nextCh gc \<le> c \<longrightarrow> gc_chans gc c = []" and "\<forall>c. length (gc_chans gc c) \<le> 1"
  using assms unfolding gc_inv_def by blast+

lemma update_group_inv:
  assumes "gc_inv gc" and "map_of (gc_groups gc) (g_ID g) = Some g0" and "group_inv (gc_nextCh gc) g"
    and "set (member_chans g) \<subseteq> set (member_chans g0)"
  shows "gc_inv (set_group gc g)"
proof -
  have "gc_inv ((set_group gc g)\<lparr>gc_nextCh := gc_nextCh gc, gc_chans := gc_chans gc\<rparr>)"
    by (rule set_group_inv [OF assms(1,3) gc_invD(2) [OF assms(1,2)] order_refl _ gc_inv_chans [OF assms(1)]])
      (simp add: assms(2,4))
  moreover have "(set_group gc g)\<lparr>gc_nextCh := gc_nextCh gc, gc_chans := gc_chans gc\<rparr> = set_group gc g"
    by (simp add: set_group_def)
  ultimately show ?thesis by simp
qed

text \<open>Each operation keeps the invariant.\<close>

lemma generateMemberID_nonempty: "generateMemberID clientID rnd \<noteq> []"
  by (simp add: generateMemberID_def)

definition joining_id :: "JoinGroupRequest \<Rightarrow> string \<Rightarrow> bytes \<Rightarrow> string" where
  "joining_id req clientID rnd = (if jgr_MemberID req = [] then generateMemberID clientID rnd else jgr_MemberID req)"

definition joined_group :: "GroupCoordinator \<Rightarrow> JoinGroupRequest \<Rightarrow> Group" where
  "joined_group gc req = (case map_of (gc_groups gc) (jgr_GroupID req) of None \<Rightarrow> new_group req | Some g \<Rightarrow> g)"

lemma joining_id_nonempty: "joining_id req clientID rnd \<noteq> []"
  by (simp add: joining_id_def generateMemberID_nonempty)

lemma JoinGroup_eq:
  "jgr_GroupID req \<noteq> [] \<Longrightarrow> JoinGroup ord rnd gc req clientID now =
     (let g = group_join ord (joined_group gc req) req (joining_id req clientID rnd) now (gc_nextCh gc)
      in ((set_group gc g)\<lparr>gc_nextCh := gc_nextCh gc + 1\<rparr>, join_response ord g (joining_id req clientID rnd)))"
  by (simp add: JoinGroup_def joined_group_def joining_id_def Let_def)

lemma new_group_inv: "group_inv n (new_group req)"
  by (simp add: group_inv_def new_group_def members_ok_def in_s_def)

lemma joined_group_inv:
  assumes "gc_inv gc"
  shows "group_inv (gc_nextCh gc) (joined_group gc req)" and "g_ID (joined_group gc req) = jgr_GroupID req"
    and "map_of (gc_groups gc) (jgr_GroupID req) = None \<Longrightarrow> member_chans (joined_group gc req) = []"
  using gc_invD(1,3) [OF assms] new_group_inv
  by (auto simp: joined_group_def new_group_def member_chans_def split: option.split)

lemma JoinGroup_inv:
  assumes "gc_inv gc" and "valid_ord ord"
  shows "gc_inv (fst (JoinGroup ord rnd gc req clientID now))"
proof (cases "jgr_GroupID req = []")
  case False
  let ?k = "joining_id req clientID rnd"
  let ?g = "group_join ord (joined_group gc req) req ?k now (gc_nextCh gc)"
  note j = joined_group_inv [OF assms(1), of req]
  note i = group_join_inv [OF j(1) joining_id_nonempty assms(2), where req = req and now = now]
  have "gc_inv ((set_group gc ?g)\<lparr>gc_nextCh := gc_nextCh gc + 1, gc_chans := gc_chans gc\<rparr>)"
  proof (rule set_group_inv [OF assms(1)])
    have "set (member_chans (joined_group gc req)) =
        (case map_of (gc_groups gc) (jgr_GroupID req) of None \<Rightarrow> {} | Some g0 \<Rightarrow> set (member_chans g0))"
      using j(3) by (auto simp: joined_group_def split: option.split)
    moreover have "set (member_chans ?g) \<subseteq> insert (gc_nextCh gc) (set (member_chans (joined_group gc req)))" by (rule i(4))
    ultimately show "set (member_chans ?g) \<subseteq>
        (case map_of (gc_groups gc) (g_ID ?g) of None \<Rightarrow> {} | Some g0 \<Rightarrow> set (member_chans g0)) \<union> {gc_nextCh gc..<gc_nextCh gc + 1}"
      unfolding i(2) j(2) by auto
  qed (use i(1,2) j(2) False gc_inv_chans [OF assms(1)] in auto)
  moreover have "(set_group gc ?g)\<lparr>gc_nextCh := gc_nextCh gc + 1, gc_chans := gc_chans gc\<rparr> =
      (set_group gc ?g)\<lparr>gc_nextCh := gc_nextCh gc + 1\<rparr>"
    by (simp add: set_group_def)
  ultimately show ?thesis using False by (simp add: JoinGroup_eq Let_def)
qed (use assms in \<open>simp add: JoinGroup_def\<close>)

lemma heartbeat_member_inv:
  assumes "group_inv n g" and "map_of (g_Members g) k = Some m"
  shows "group_inv n (g\<lparr>g_Members := AList.update k (m\<lparr>m_LastHeartbeat := now\<rparr>) (g_Members g)\<rparr>)" (is "group_inv n ?g")
    and "member_chans (g\<lparr>g_Members := AList.update k (m\<lparr>m_LastHeartbeat := now\<rparr>) (g_Members g)\<rparr>) = member_chans g"
    and "member_ids (g\<lparr>g_Members := AList.update k (m\<lparr>m_LastHeartbeat := now\<rparr>) (g_Members g)\<rparr>) = member_ids g"
proof -
  let ?m = "m\<lparr>m_LastHeartbeat := now\<rparr>"
  have ok: "members_ok n (AList.update k ?m (g_Members g))"
    using members_ok_update_same [OF _ assms(2), of n ?m] assms(1) by (simp add: group_inv_def)
  have fst: "map fst (AList.update k ?m (g_Members g)) = map fst (g_Members g)"
    using update_same(2) [OF assms(2), of m_ID ?m] by simp
  have as: "map (\<lambda>p. m_Assignment (snd p)) (AList.update k ?m (g_Members g)) = map (\<lambda>p. m_Assignment (snd p)) (g_Members g)"
    using update_same(1) [OF assms(2), of m_Assignment ?m] by simp
  have "(\<lambda>p. m_Assignment (snd p)) ` set (AList.update k ?m (g_Members g)) = (\<lambda>p. m_Assignment (snd p)) ` set (g_Members g)"
    using arg_cong [OF as, of set] by simp
  moreover have "(\<forall>x \<in> snd ` S. m_Assignment x = []) \<longleftrightarrow> (\<forall>y \<in> (\<lambda>p. m_Assignment (snd p)) ` S. y = [])"
    for S :: "(string \<times> Member) set" by simp
  ultimately have as': "(\<forall>x \<in> snd ` set (AList.update k ?m (g_Members g)). m_Assignment x = []) \<longleftrightarrow>
      (\<forall>x \<in> snd ` set (g_Members g). m_Assignment x = [])" by (simp only:)
  show ch: "member_chans ?g = member_chans g"
    using update_same(1) [OF assms(2), of m_syncRespCh ?m] by (simp add: member_chans_def)
  show ids: "member_ids ?g = member_ids g" using arg_cong [OF fst, of set] by (simp add: member_ids_def)
  have ne: "AList.update k ?m (g_Members g) \<noteq> []" "g_Members g \<noteq> []" using assms(2) update_nonempty by auto
  have sel: "g_Members ?g = AList.update k ?m (g_Members g)" "g_State ?g = g_State g" "g_LeaderID ?g = g_LeaderID g"
    "g_GenerationID ?g = g_GenerationID g" by simp_all
  show "group_inv n ?g" using assms(1) ok ne unfolding group_inv_def sel ids as' by argo
qed

lemma Heartbeat_inv:
  assumes "gc_inv gc"
  shows "gc_inv (fst (Heartbeat gc req now))"
proof -
  have "gc_inv (set_group gc (g\<lparr>g_Members := AList.update k (m\<lparr>m_LastHeartbeat := now\<rparr>) (g_Members g)\<rparr>))"
    if g: "map_of (gc_groups gc) gid = Some g" and m: "map_of (g_Members g) k = Some m" for gid g k m
    using heartbeat_member_inv [OF gc_invD(3) [OF assms g] m, of now] gc_invD(1) [OF assms g] g
    by (intro update_group_inv [OF assms, of _ g]) simp_all
  then show ?thesis using assms by (simp add: Heartbeat_def split: option.split)
qed

lemma LeaveGroup_inv:
  assumes "gc_inv gc" and "valid_ord ord"
  shows "gc_inv (fst (LeaveGroup ord gc req))"
proof -
  have "gc_inv (set_group gc (after_removal ord (g\<lparr>g_Members := AList.delete k (g_Members g)\<rparr>)))"
    if g: "map_of (gc_groups gc) gid = Some g" for gid g k
  proof -
    let ?g = "g\<lparr>g_Members := AList.delete k (g_Members g)\<rparr>"
    have "members_ok (gc_nextCh gc) (g_Members ?g)"
      using members_ok_filter [OF gc_invD(4) [OF assms(1) g]] by (simp add: AList.delete_eq)
    note r = after_removal_inv [OF this _ assms(2)]
    have gen: "in_s 32 (g_GenerationID ?g)" using gc_invD(3) [OF assms(1) g] unfolding group_inv_def by simp
    have "set (member_chans ?g) \<subseteq> set (member_chans g)" by (auto simp: member_chans_def AList.delete_eq)
    then show ?thesis using r [OF gen] g gc_invD(1) [OF assms(1) g]
      by (intro update_group_inv [OF assms(1), of _ g]) simp_all
  qed
  then show ?thesis using assms(1) by (simp add: LeaveGroup_def split: option.split)
qed

lemma checkSessionTimeouts_inv:
  assumes "gc_inv gc" and "valid_ord ord"
  shows "gc_inv (checkSessionTimeouts ord gc now)"
proof -
  let ?gc = "checkSessionTimeouts ord gc now"
  have sel: "gc_nextCh ?gc = gc_nextCh gc" "gc_chans ?gc = gc_chans gc"
    "map_of (gc_groups ?gc) k = map_option (check_group ord now) (map_of (gc_groups gc) k)" for k
    by (simp_all add: checkSessionTimeouts_def map_of_map)
  have grp: "g_ID g = k \<and> k \<noteq> [] \<and> group_inv (gc_nextCh gc) g"
    if "map_option (check_group ord now) (map_of (gc_groups gc) k) = Some g" for k g
    using that gc_invD(1-3) [OF assms(1), of k] check_group_inv(1,2) [OF _ assms(2)] by auto
  have sep: "set (member_chans g) \<inter> set (member_chans g') = {}"
    if two: "map_option (check_group ord now) (map_of (gc_groups gc) k) = Some g"
      "map_option (check_group ord now) (map_of (gc_groups gc) k') = Some g'" "k \<noteq> k'" for k g k' g'
  proof -
    obtain g1 g2 where g: "map_of (gc_groups gc) k = Some g1" "map_of (gc_groups gc) k' = Some g2"
      "g = check_group ord now g1" "g' = check_group ord now g2" using two(1,2) by blast
    have "set (member_chans g1) \<inter> set (member_chans g2) = {}" using assms(1) g(1,2) two(3) unfolding gc_inv_def by blast
    then show ?thesis
      using check_group_inv(4) [OF gc_invD(3) [OF assms(1) g(1)] assms(2), of now]
        check_group_inv(4) [OF gc_invD(3) [OF assms(1) g(2)] assms(2), of now] g(3,4) by blast
  qed
  show ?thesis unfolding gc_inv_def sel using grp sep gc_inv_chans [OF assms(1)] by blast
qed

lemma notify_members_bounded:
  assumes "\<forall>c. n \<le> c \<longrightarrow> chs c = []" and "\<forall>c. length (chs c) \<le> 1" and "\<forall>p \<in> set ms. m_syncRespCh (snd p) < n"
  shows "\<forall>c. n \<le> c \<longrightarrow> notify_members ms chs c = []" and "\<forall>c. length (notify_members ms chs c) \<le> 1"
proof -
  have "c \<notin> set (map (\<lambda>p. m_syncRespCh (snd p)) ms)" if "n \<le> c" for c using assms(3) that by auto
  then show "\<forall>c. n \<le> c \<longrightarrow> notify_members ms chs c = []" using assms(1) notify_members_other [of _ ms chs] by metis
  show "\<forall>c. length (notify_members ms chs c) \<le> 1" using assms(2)
    by (induction ms arbitrary: chs) (auto simp: notify_members_Cons offer_def notify_members_def)
qed

lemma assigned_group_inv:
  assumes "group_inv n g" and "g_Members g \<noteq> []"
  shows "group_inv n (g\<lparr>g_Members := assign_members assigns (g_Members g), g_State := StateStable\<rparr>)" (is "group_inv n ?g")
    and "member_chans (g\<lparr>g_Members := assign_members assigns (g_Members g), g_State := StateStable\<rparr>) = member_chans g"
    and "member_ids (g\<lparr>g_Members := assign_members assigns (g_Members g), g_State := StateStable\<rparr>) = member_ids g"
proof -
  have fst: "map fst (assign_members assigns (g_Members g)) = map fst (g_Members g)"
    by (rule assign_members_keeps(2) [of m_ID]) simp
  then have ne: "assign_members assigns (g_Members g) \<noteq> []" using assms(2) by force
  have ok: "members_ok n (g_Members g)" using assms(1) unfolding group_inv_def by blast
  show "member_chans ?g = member_chans g" by (simp add: member_chans_def assign_members_keeps(1))
  show ids: "member_ids ?g = member_ids g" using arg_cong [OF fst, of set] by (simp add: member_ids_def)
  have sel: "g_Members ?g = assign_members assigns (g_Members g)" "g_State ?g = StateStable" "g_LeaderID ?g = g_LeaderID g"
    "g_GenerationID ?g = g_GenerationID g" by simp_all
  show "group_inv n ?g"
    unfolding group_inv_def sel ids using assms ne assign_members_ok [OF ok, of assigns] unfolding group_inv_def by auto
qed

text \<open>The critical section of \<open>SyncGroup\<close>, for a member of the group and its generation.\<close>

definition seen_member :: "Group \<Rightarrow> string \<Rightarrow> Member \<Rightarrow> int \<Rightarrow> Group" where
  "seen_member g k m now = g\<lparr>g_Members := AList.update k (m\<lparr>m_LastHeartbeat := now\<rparr>) (g_Members g)\<rparr>"

definition assigned_group :: "Group \<Rightarrow> SyncGroupAssignment list \<Rightarrow> Group" where
  "assigned_group g assigns = g\<lparr>g_Members := assign_members assigns (g_Members g), g_State := StateStable\<rparr>"

lemma seen_member_simps [simp]:
  "g_ID (seen_member g k m now) = g_ID g" "g_LeaderID (seen_member g k m now) = g_LeaderID g"
  "g_GenerationID (seen_member g k m now) = g_GenerationID g" "g_State (seen_member g k m now) = g_State g"
  "g_ID (assigned_group g assigns) = g_ID g" "g_LeaderID (assigned_group g assigns) = g_LeaderID g"
  "g_GenerationID (assigned_group g assigns) = g_GenerationID g" "g_State (assigned_group g assigns) = StateStable"
  by (simp_all add: seen_member_def assigned_group_def)

lemma sync_section_eq:
  assumes "map_of (gc_groups gc) (sgr_GroupID req) = Some g" and "sgr_GenerationID req = g_GenerationID g"
    and "map_of (g_Members g) (sgr_MemberID req) = Some m"
  shows "sync_section gc req now =
    (let g' = seen_member g (sgr_MemberID req) m now; g'' = assigned_group g' (sgr_Assignments req)
     in (if sgr_MemberID req = g_LeaderID g \<and> sgr_Assignments req \<noteq> []
         then (set_group gc g'')\<lparr>gc_chans := notify_members (g_Members g'') (gc_chans gc)\<rparr>
         else set_group gc g', SyncWait (m_syncRespCh m)))"
  using assms by (simp add: sync_section_def seen_member_def assigned_group_def Let_def)

lemma seen_member_inv:
  assumes "group_inv n g" and "map_of (g_Members g) k = Some m"
  shows "group_inv n (seen_member g k m now)" and "member_chans (seen_member g k m now) = member_chans g"
    and "member_ids (seen_member g k m now) = member_ids g"
    and "g_Members (seen_member g k m now) \<noteq> []"
  using heartbeat_member_inv [OF assms, of now] update_nonempty by (simp_all add: seen_member_def)

lemma assigned_seen_inv:
  assumes "group_inv n g" and "map_of (g_Members g) k = Some m"
  shows "group_inv n (assigned_group (seen_member g k m now) assigns)"
    and "member_chans (assigned_group (seen_member g k m now) assigns) = member_chans g"
    and "member_ids (assigned_group (seen_member g k m now) assigns) = member_ids g"
  using assigned_group_inv [OF seen_member_inv(1) [OF assms] seen_member_inv(4) [OF assms]] seen_member_inv(2,3) [OF assms]
  by (simp_all add: assigned_group_def)

lemma sync_section_inv:
  assumes inv: "gc_inv gc"
  shows "gc_inv (fst (sync_section gc req now))"
proof (cases "\<exists>g m. map_of (gc_groups gc) (sgr_GroupID req) = Some g \<and> sgr_GenerationID req = g_GenerationID g
    \<and> map_of (g_Members g) (sgr_MemberID req) = Some m")
  case True
  then obtain g m where g: "map_of (gc_groups gc) (sgr_GroupID req) = Some g" "sgr_GenerationID req = g_GenerationID g"
    "map_of (g_Members g) (sgr_MemberID req) = Some m" by blast
  let ?g' = "seen_member g (sgr_MemberID req) m now"
  let ?g'' = "assigned_group ?g' (sgr_Assignments req)"
  let ?cs = "notify_members (g_Members ?g'') (gc_chans gc)"
  note gi = gc_invD [OF inv g(1)]
  note s = seen_member_inv [OF gi(3) g(3), of now] and a = assigned_seen_inv [OF gi(3) g(3), of now "sgr_Assignments req"]
  have "\<forall>p \<in> set (g_Members ?g''). m_syncRespCh (snd p) < gc_nextCh gc"
    using a(1) unfolding group_inv_def members_ok_def by blast
  note cs = notify_members_bounded [OF gc_inv_chans [OF inv] this]
  have "gc_inv ((set_group gc ?g'')\<lparr>gc_nextCh := gc_nextCh gc, gc_chans := ?cs\<rparr>)"
    by (rule set_group_inv [OF inv a(1) _ order_refl _ cs]) (use gi(1,2) g(1) a(2) in auto)
  moreover have "(set_group gc ?g'')\<lparr>gc_nextCh := gc_nextCh gc, gc_chans := ?cs\<rparr> = (set_group gc ?g'')\<lparr>gc_chans := ?cs\<rparr>"
    by (simp add: set_group_def)
  moreover have "gc_inv (set_group gc ?g')"
    by (rule update_group_inv [OF inv, of _ g]) (use gi(1) g(1) s(1,2) in auto)
  ultimately show ?thesis unfolding sync_section_eq [OF g, of now] Let_def fst_conv
    by (intro if_split [of gc_inv, THEN iffD2]) (simp only:, blast)
next
  case False
  then show ?thesis using inv by (auto simp: sync_section_def split: option.split)
qed

lemma sync_receive_inv: "gc_inv gc \<Longrightarrow> sync_receive gc ch = Some (gc', r) \<Longrightarrow> gc_inv gc'"
proof -
  assume inv: "gc_inv gc" and r: "sync_receive gc ch = Some (gc', r)"
  then obtain rs where rs: "gc_chans gc ch = r # rs" and gc': "gc' = gc\<lparr>gc_chans := (gc_chans gc)(ch := rs)\<rparr>"
    by (auto simp: sync_receive_def split: list.split_asm)
  have "rs = []" using gc_inv_chans(2) [OF inv] rs by (metis One_nat_def Suc_le_mono le_zero_eq length_0_conv length_Cons)
  then have cs: "\<forall>c. gc_nextCh gc \<le> c \<longrightarrow> gc_chans gc' c = []" "\<forall>c. length (gc_chans gc' c) \<le> 1"
    using gc_inv_chans [OF inv] gc' by simp_all
  have sel: "gc_groups gc' = gc_groups gc" "gc_nextCh gc' = gc_nextCh gc" using gc' by simp_all
  show "gc_inv gc'" unfolding gc_inv_def sel using inv cs unfolding gc_inv_def by blast
qed

end
