(* ===== verification/GroupSafety.thy ===== *)
theory GroupSafety
  imports GroupInv
begin

text \<open>
  Runs of the coordinator: requests of any clients and the session timer in any order (\<open>gc_step\<close>, \<open>gc_run\<close>). The
  invariant in every reachable state, the fencing of removed members, the delivery of assignments, and a run in
  which a member that joins late stays without partitions.
\<close>

section \<open>Runs\<close>

text \<open>The label of a step is the member that joins a group in it, if one does.\<close>

inductive gc_step :: "GroupCoordinator \<Rightarrow> (string \<times> string) option \<Rightarrow> GroupCoordinator \<Rightarrow> bool" where
  gs_join: "valid_ord ord \<Longrightarrow>
    gc_step gc (if jgr_GroupID req = [] then None else Some (jgr_GroupID req, joining_id req clientID rnd))
      (fst (JoinGroup ord rnd gc req clientID now))"
| gs_sync: "gc_step gc None (fst (sync_section gc req now))"
| gs_receive: "sync_receive gc ch = Some (gc', r) \<Longrightarrow> gc_step gc None gc'"
| gs_heartbeat: "gc_step gc None (fst (Heartbeat gc req now))"
| gs_leave: "valid_ord ord \<Longrightarrow> gc_step gc None (fst (LeaveGroup ord gc req))"
| gs_timer: "valid_ord ord \<Longrightarrow> gc_step gc None (checkSessionTimeouts ord gc now)"

inductive gc_run :: "GroupCoordinator \<Rightarrow> (string \<times> string) option list \<Rightarrow> GroupCoordinator \<Rightarrow> bool" where
  gr_refl: "gc_run gc [] gc"
| gr_step: "gc_run gc ls gc' \<Longrightarrow> gc_step gc' l gc'' \<Longrightarrow> gc_run gc (ls @ [l]) gc''"

lemma gc_step_inv: "gc_step gc l gc' \<Longrightarrow> gc_inv gc \<Longrightarrow> gc_inv gc'"
  by (induction rule: gc_step.induct)
    (rule JoinGroup_inv sync_section_inv sync_receive_inv Heartbeat_inv LeaveGroup_inv checkSessionTimeouts_inv; assumption)+

lemma gc_run_inv: "gc_run gc ls gc' \<Longrightarrow> gc_inv gc \<Longrightarrow> gc_inv gc'"
  by (induction rule: gc_run.induct) (blast intro: gc_step_inv)+

section \<open>Membership\<close>

definition is_member :: "GroupCoordinator \<Rightarrow> string \<Rightarrow> string \<Rightarrow> bool" where
  "is_member gc gid k \<longleftrightarrow> (case map_of (gc_groups gc) gid of None \<Rightarrow> False | Some g \<Rightarrow> k \<in> member_ids g)"

lemma is_member_set_group:
  "is_member ((set_group gc g)\<lparr>gc_nextCh := n\<rparr>) gid k = (if gid = g_ID g then k \<in> member_ids g else is_member gc gid k)"
  "is_member ((set_group gc g)\<lparr>gc_chans := cs\<rparr>) gid k = (if gid = g_ID g then k \<in> member_ids g else is_member gc gid k)"
  "is_member (set_group gc g) gid k = (if gid = g_ID g then k \<in> member_ids g else is_member gc gid k)"
  by (simp_all add: is_member_def set_group_def update_conv')

lemma is_member_Some: "map_of (gc_groups gc) gid = Some g \<Longrightarrow> is_member gc gid k \<longleftrightarrow> k \<in> member_ids g"
  by (simp add: is_member_def)

lemma after_removal_ids:
  assumes "gc_inv gc" and "map_of (gc_groups gc) gid = Some g" and "valid_ord ord"
  shows "member_ids (after_removal ord (g\<lparr>g_Members := AList.delete k (g_Members g)\<rparr>)) = member_ids g - {k}"
    and "g_ID (after_removal ord (g\<lparr>g_Members := AList.delete k (g_Members g)\<rparr>)) = gid"
proof -
  let ?g = "g\<lparr>g_Members := AList.delete k (g_Members g)\<rparr>"
  have ok: "members_ok (gc_nextCh gc) (g_Members ?g)"
    using members_ok_filter [OF gc_invD(4) [OF assms(1,2)]] by (simp add: AList.delete_eq)
  have gen: "in_s 32 (g_GenerationID ?g)" using gc_invD(3) [OF assms(1,2)] unfolding group_inv_def by simp
  note r = after_removal_inv [OF ok gen assms(3)]
  show "member_ids (after_removal ord ?g) = member_ids g - {k}"
    using arg_cong [OF r(3), of set] by (auto simp: member_ids_def AList.delete_eq)
  show "g_ID (after_removal ord ?g) = gid" using r(2) gc_invD(1) [OF assms(1,2)] by simp
qed

lemma joined_ids: "gc_inv gc \<Longrightarrow> k \<in> member_ids (joined_group gc req) \<Longrightarrow> is_member gc (jgr_GroupID req) k"
  by (auto simp: joined_group_def is_member_def new_group_def member_ids_def split: option.split_asm)

lemma step_members:
  assumes "gc_step gc l gc'" and "gc_inv gc" and "is_member gc' gid k"
  shows "is_member gc gid k \<or> l = Some (gid, k)"
  using assms
proof (induction rule: gc_step.induct)
  case (gs_join ord gc req clientID rnd now)
  show ?case
  proof (cases "jgr_GroupID req = []")
    case False
    note j = joined_group_inv [OF gs_join.prems(1), of req]
    note i = group_join_inv [OF j(1) joining_id_nonempty gs_join.hyps, where req = req and now = now]
    show ?thesis using gs_join.prems(2) joined_ids [OF gs_join.prems(1)] False i(2,3) j(2)
      by (auto simp: JoinGroup_eq Let_def is_member_set_group split: if_split_asm)
  qed (use gs_join in \<open>simp add: JoinGroup_def\<close>)
next
  case (gs_sync gc req now)
  show ?case
  proof (cases "\<exists>g m. map_of (gc_groups gc) (sgr_GroupID req) = Some g \<and> sgr_GenerationID req = g_GenerationID g
      \<and> map_of (g_Members g) (sgr_MemberID req) = Some m")
    case True
    then obtain g m where g: "map_of (gc_groups gc) (sgr_GroupID req) = Some g" "sgr_GenerationID req = g_GenerationID g"
      "map_of (g_Members g) (sgr_MemberID req) = Some m" by blast
    note gi = gc_invD [OF gs_sync(1) g(1)]
    show ?thesis using gs_sync(2) seen_member_inv(3) [OF gi(3) g(3)] assigned_seen_inv(3) [OF gi(3) g(3)] gi(1) g(1)
      by (auto simp: sync_section_eq [OF g] Let_def is_member_set_group is_member_Some split: if_split_asm)
  qed (use gs_sync in \<open>auto simp: sync_section_def split: option.split_asm if_split_asm\<close>)
next
  case (gs_receive gc ch gc' r)
  then show ?case by (auto simp: sync_receive_def is_member_def split: list.split_asm)
next
  case (gs_heartbeat gc req now)
  have "is_member gc gid k" if g: "map_of (gc_groups gc) gid' = Some g" and m: "map_of (g_Members g) k' = Some m"
    and mem: "is_member (set_group gc (seen_member g k' m now)) gid k" for gid' g k' m
    using mem seen_member_inv(3) [OF gc_invD(3) [OF gs_heartbeat(1) g] m] gc_invD(1) [OF gs_heartbeat(1) g] g
    by (auto simp: is_member_set_group is_member_Some split: if_split_asm)
  then show ?case using gs_heartbeat(2)
    by (auto simp: Heartbeat_def seen_member_def split: option.split_asm if_split_asm)
next
  case (gs_leave ord gc req)
  then show ?case using after_removal_ids [OF gs_leave.prems(1) _ gs_leave.hyps]
    by (auto simp: LeaveGroup_def is_member_set_group is_member_Some split: option.split_asm if_split_asm)
next
  case (gs_timer ord gc now)
  then show ?case using check_group_inv(3) [OF gc_invD(3) [OF gs_timer.prems(1)] gs_timer.hyps]
    by (fastforce simp: checkSessionTimeouts_def is_member_def map_of_map split: option.split_asm)
qed

lemma run_members:
  "gc_run gc ls gc' \<Longrightarrow> gc_inv gc \<Longrightarrow> is_member gc' gid k \<Longrightarrow> is_member gc gid k \<or> Some (gid, k) \<in> set ls"
  by (induction rule: gc_run.induct) (use gc_run_inv step_members in \<open>fastforce+\<close>)

lemma removed_refused:
  assumes "\<not> is_member gc gid k"
  shows "Heartbeat gc \<lparr>hbr_GroupID = gid, hbr_GenerationID = gen, hbr_MemberID = k\<rparr> now
      \<in> {(gc, \<lparr>hbs_ErrorCode = codeUnknownMemberID\<rparr>), (gc, \<lparr>hbs_ErrorCode = codeIllegalGeneration\<rparr>)}"
    and "sync_section gc \<lparr>sgr_GroupID = gid, sgr_GenerationID = gen, sgr_MemberID = k, sgr_Assignments = as\<rparr> now
      \<in> {(gc, SyncDone (sync_error codeUnknownMemberID)), (gc, SyncDone (sync_error codeIllegalGeneration))}"
  using assms member_ids_map_of by (auto simp: is_member_def Heartbeat_def sync_section_def split: option.split)

lemma leave_removes:
  assumes "gc_inv gc" and "valid_ord ord"
  shows "\<not> is_member (fst (LeaveGroup ord gc \<lparr>lgr_GroupID = gid, lgr_MemberID = k\<rparr>)) gid k"
proof (cases "is_member gc gid k")
  case True
  then obtain g where g: "map_of (gc_groups gc) gid = Some g" "k \<in> member_ids g"
    by (auto simp: is_member_def split: option.split_asm)
  then obtain m where "map_of (g_Members g) k = Some m" by (auto simp: member_ids_map_of)
  then show ?thesis using g after_removal_ids [OF assms(1) g(1) assms(2), of k]
    by (simp add: LeaveGroup_def is_member_set_group)
next
  case False
  then have "fst (LeaveGroup ord gc \<lparr>lgr_GroupID = gid, lgr_MemberID = k\<rparr>) = gc"
    by (auto simp: LeaveGroup_def is_member_def member_ids_map_of split: option.split)
  then show ?thesis using False by simp
qed

lemma timeout_removes:
  assumes "gc_inv gc" and "valid_ord ord" and "map_of (gc_groups gc) gid = Some g"
    and "map_of (g_Members g) k = Some m" and "session_expired now m"
  shows "\<not> is_member (checkSessionTimeouts ord gc now) gid k"
proof -
  let ?alive = "filter (\<lambda>p. \<not> session_expired now (snd p)) (g_Members g)"
  have ok: "members_ok (gc_nextCh gc) (g_Members g)" by (rule gc_invD(4) [OF assms(1,3)])
  then have d: "distinct (map fst (g_Members g))" by (simp add: members_ok_def)
  have mem: "(k, m) \<in> set (g_Members g)" using assms(4) by (rule map_of_SomeD)
  then have ne: "?alive \<noteq> g_Members g" using assms(5) by (metis (mono_tags, lifting) filter_id_conv snd_conv)
  have "k \<notin> fst ` set ?alive"
  proof
    assume "k \<in> fst ` set ?alive"
    then obtain m' where "(k, m') \<in> set (g_Members g)" "\<not> session_expired now m'" by auto
    then show False using d assms(4,5) by (metis map_of_is_SomeI option.inject)
  qed
  moreover have "in_s 32 (g_GenerationID g)" using gc_invD(3) [OF assms(1,3)] unfolding group_inv_def by blast
  then have "map fst (g_Members (after_removal ord (g\<lparr>g_Members := ?alive\<rparr>))) = map fst ?alive"
    using after_removal_inv(3) [of "gc_nextCh gc" "g\<lparr>g_Members := ?alive\<rparr>" ord] members_ok_filter [OF ok] assms(2) by simp
  then have "fst ` set (g_Members (after_removal ord (g\<lparr>g_Members := ?alive\<rparr>))) = fst ` set ?alive"
    by (metis list.set_map)
  ultimately show ?thesis
    using ne assms(3) by (simp add: checkSessionTimeouts_def is_member_def map_of_map check_group_members [OF ok] member_ids_def)
qed

section \<open>Delivery of assignments\<close>

lemma leader_sync_delivers:
  assumes inv: "gc_inv gc" and g: "map_of (gc_groups gc) gid = Some g" and ne: "assigns \<noteq> []"
    and k: "map_of (g_Members g) k = Some m" and empty: "gc_chans gc (m_syncRespCh m) = []"
    and gc'_def: "gc' = fst (sync_section gc \<lparr>sgr_GroupID = gid, sgr_GenerationID = g_GenerationID g,
      sgr_MemberID = g_LeaderID g, sgr_Assignments = assigns\<rparr> now)"
  shows "\<exists>g' m'. map_of (gc_groups gc') gid = Some g' \<and> g_State g' = StateStable \<and> g_GenerationID g' = g_GenerationID g
    \<and> g_LeaderID g' = g_LeaderID g \<and> map_of (g_Members g') k = Some m' \<and> m_syncRespCh m' = m_syncRespCh m
    \<and> m_Assignment m' = assigned_to assigns k (m_Assignment m) \<and> gc_chans gc' (m_syncRespCh m) = [sync_response m']"
proof -
  have "g_Members g \<noteq> []" using k by auto
  then have "g_LeaderID g \<in> member_ids g" using gc_invD(3) [OF inv g] unfolding group_inv_def by presburger
  then obtain l where l: "map_of (g_Members g) (g_LeaderID g) = Some l" by (auto simp: member_ids_map_of)
  let ?g = "assigned_group (seen_member g (g_LeaderID g) l now) assigns"
  have gc': "gc' = (set_group gc ?g)\<lparr>gc_chans := notify_members (g_Members ?g) (gc_chans gc)\<rparr>"
    unfolding gc'_def using sync_section_eq [of gc _ g l] g l ne by (simp add: Let_def)
  have gid: "g_ID g = gid" by (rule gc_invD(1) [OF inv g])
  define m0 where "m0 = (if k = g_LeaderID g then l\<lparr>m_LastHeartbeat := now\<rparr> else m)"
  define m' where "m' = m0\<lparr>m_Assignment := assigned_to assigns k (m_Assignment m)\<rparr>"
  have m': "map_of (g_Members ?g) k = Some m'"
    using k l by (auto simp: assigned_group_def seen_member_def map_of_assign_members update_conv' m'_def m0_def)
  have sel: "m_syncRespCh m' = m_syncRespCh m" "m_Assignment m' = assigned_to assigns k (m_Assignment m)"
    using k l by (auto simp: m'_def m0_def)
  have "group_inv (gc_nextCh gc) ?g" by (rule assigned_seen_inv(1) [OF gc_invD(3) [OF inv g] l])
  then have "distinct (map (\<lambda>p. m_syncRespCh (snd p)) (g_Members ?g))" unfolding group_inv_def members_ok_def by blast
  from notify_members_member [OF map_of_SomeD [OF m'] this, of "gc_chans gc"]
  have "gc_chans gc' (m_syncRespCh m) = [sync_response m']" using empty sel by (simp add: gc')
  moreover have "map_of (gc_groups gc') gid = Some ?g" by (simp add: gc' set_group_def update_conv' gid)
  ultimately show ?thesis using m' sel by auto
qed

lemma member_sync_receives:
  assumes "map_of (gc_groups gc) gid = Some g" and "map_of (g_Members g) k = Some m"
    and "gc_chans gc (m_syncRespCh m) = [r]" and "k \<noteq> g_LeaderID g \<or> as = []"
  shows "\<exists>gc' gc''. sync_section gc \<lparr>sgr_GroupID = gid, sgr_GenerationID = g_GenerationID g, sgr_MemberID = k,
      sgr_Assignments = as\<rparr> now = (gc', SyncWait (m_syncRespCh m)) \<and> sync_receive gc' (m_syncRespCh m) = Some (gc'', r)"
  using sync_section_eq [of gc _ g m now] assms by (auto simp: Let_def sync_receive_def set_group_def)

section \<open>A run\<close>

definition demo_join :: "string \<Rightarrow> JoinGroupRequest" where
  "demo_join k = \<lparr>jgr_GroupID = ''g'', jgr_SessionTimeoutMs = 10000, jgr_MemberID = k,
     jgr_ProtocolType = ''consumer'', jgr_Protocols = [\<lparr>jgp_Name = ''range'', jgp_Metadata = []\<rparr>]\<rparr>"

definition demo_sync :: "string \<Rightarrow> SyncGroupAssignment list \<Rightarrow> SyncGroupRequest" where
  "demo_sync k as = \<lparr>sgr_GroupID = ''g'', sgr_GenerationID = 1, sgr_MemberID = k, sgr_Assignments = as\<rparr>"

definition demo_gc1 :: GroupCoordinator where
  "demo_gc1 = fst (JoinGroup (\<lambda>ks. ks) [] NewGroupCoordinator (demo_join ''a'') ''c'' 0)"

definition demo_gc2 :: GroupCoordinator where
  "demo_gc2 = fst (JoinGroup (\<lambda>ks. ks) [] demo_gc1 (demo_join ''b'') ''c'' 0)"

lemma valid_ord_id: "valid_ord (\<lambda>ks. ks)"
  by (simp add: valid_ord_def)

lemmas demo_simps = demo_gc1_def demo_gc2_def demo_join_def demo_sync_def JoinGroup_def NewGroupCoordinator_def new_group_def
  group_join_def join_member_def transitionToRebalanceLocked_def AssignmentCleared_def set_group_def join_response_def Let_def

lemma demo_gc1_eq: "demo_gc1 = \<lparr>gc_groups = [(''g'', \<lparr>g_ID = ''g'', g_State = StatePreparingRebalance, g_GenerationID = 1,
    g_LeaderID = ''a'', g_ProtocolType = ''consumer'', g_ProtocolName = ''range'',
    g_Members = [(''a'', \<lparr>m_ID = ''a'', m_SessionTimeoutMs = 10000, m_LastHeartbeat = 0, m_Metadata = [],
      m_Assignment = [], m_syncRespCh = 0\<rparr>)]\<rparr>)], gc_chans = (\<lambda>_. []), gc_nextCh = 1\<rparr>"
  by (simp add: demo_simps wrap_s_def)

lemma demo_gc2_groups: "gc_groups demo_gc2 = [(''g'', \<lparr>g_ID = ''g'', g_State = StatePreparingRebalance, g_GenerationID = 1,
    g_LeaderID = ''a'', g_ProtocolType = ''consumer'', g_ProtocolName = ''range'',
    g_Members = [(''a'', \<lparr>m_ID = ''a'', m_SessionTimeoutMs = 10000, m_LastHeartbeat = 0, m_Metadata = [],
      m_Assignment = [], m_syncRespCh = 0\<rparr>), (''b'', \<lparr>m_ID = ''b'', m_SessionTimeoutMs = 10000, m_LastHeartbeat = 0,
      m_Metadata = [], m_Assignment = [], m_syncRespCh = 1\<rparr>)]\<rparr>)]"
  "gc_chans demo_gc2 = (\<lambda>_. [])"
  unfolding demo_gc2_def demo_gc1_eq
  by (simp_all add: JoinGroup_def demo_join_def group_join_def join_member_def set_group_def Let_def)

lemma demo_run1: "gc_run NewGroupCoordinator [Some (''g'', ''a'')] demo_gc1"
  using gr_step [OF gr_refl gs_join [OF valid_ord_id, of NewGroupCoordinator "demo_join ''a''" "''c''" "[]" 0]]
  by (simp add: demo_gc1_def demo_join_def joining_id_def)

lemma demo_run2: "gc_run NewGroupCoordinator [Some (''g'', ''a''), Some (''g'', ''b'')] demo_gc2"
  using gr_step [OF demo_run1 gs_join [OF valid_ord_id, of demo_gc1 "demo_join ''b''" "''c''" "[]" 0]]
  by (simp add: demo_gc2_def demo_join_def joining_id_def)

section \<open>Properties\<close>



text \<open>
  C32: A member that was removed from its group is fenced off. After it left, or after its session expired, and
  however the coordinator runs on without that member joining again, its heartbeats and its SyncGroup requests
  are answered with an error, for any generation, and change nothing.
\<close>

theorem Removed_member_fenced:
  assumes "gc_run NewGroupCoordinator ls gc" and "valid_ord ord"
    and "gc1 = fst (LeaveGroup ord gc \<lparr>lgr_GroupID = gid, lgr_MemberID = k\<rparr>) \<or>
      gc1 = checkSessionTimeouts ord gc now \<and> map_of (gc_groups gc) gid = Some g \<and> map_of (g_Members g) k = Some m \<and> session_expired now m"
    and "gc_run gc1 ls' gc2" and "Some (gid, k) \<notin> set ls'"
  shows "Heartbeat gc2 \<lparr>hbr_GroupID = gid, hbr_GenerationID = gen, hbr_MemberID = k\<rparr> t
      \<in> {(gc2, \<lparr>hbs_ErrorCode = codeUnknownMemberID\<rparr>), (gc2, \<lparr>hbs_ErrorCode = codeIllegalGeneration\<rparr>)}
    \<and> sync_section gc2 \<lparr>sgr_GroupID = gid, sgr_GenerationID = gen, sgr_MemberID = k, sgr_Assignments = as\<rparr> t
      \<in> {(gc2, SyncDone (sync_error codeUnknownMemberID)), (gc2, SyncDone (sync_error codeIllegalGeneration))}"
proof -
  have inv: "gc_inv gc" by (rule gc_run_inv [OF assms(1) gc_inv_new])
  have "\<not> is_member gc1 gid k" using assms(3) leave_removes [OF inv assms(2)] timeout_removes [OF inv assms(2)] by blast
  moreover have "gc_inv gc1"
    using assms(3) LeaveGroup_inv [OF inv assms(2)] checkSessionTimeouts_inv [OF inv assms(2)] by blast
  ultimately have "\<not> is_member gc2 gid k" using run_members [OF assms(4)] assms(5) by blast
  then show ?thesis by (intro conjI removed_refused)
qed

theorem Removed_member_fenced_witness:
  "snd (Heartbeat (fst (LeaveGroup (\<lambda>ks. ks) demo_gc2 \<lparr>lgr_GroupID = ''g'', lgr_MemberID = ''a''\<rparr>))
      \<lparr>hbr_GroupID = ''g'', hbr_GenerationID = 2, hbr_MemberID = ''a''\<rparr> 0) \<noteq> \<lparr>hbs_ErrorCode = codeNone\<rparr>"
  using Removed_member_fenced [OF demo_run2 valid_ord_id disjI1 [OF refl] gr_refl, of "''g''" "''a''" 2 0 "[]"]
  by (auto simp: codes)

text \<open>
  C33: A rebalance round delivers. When the leader of a reachable group sends its assignments with SyncGroup, the
  group becomes stable in the same generation, and every member whose channel is empty, as it is after
  joining, receives on its next SyncGroup of that generation exactly the assignment the leader listed for it (the
  last one), or the empty assignment if the leader listed none.
\<close>

theorem Sync_delivers:
  assumes "gc_run NewGroupCoordinator ls gc" and "map_of (gc_groups gc) gid = Some g" and "g_State g = StatePreparingRebalance"
    and "assigns \<noteq> []" and "map_of (g_Members g) k = Some m" and "gc_chans gc (m_syncRespCh m) = []"
    and "gc' = fst (sync_section gc \<lparr>sgr_GroupID = gid, sgr_GenerationID = g_GenerationID g,
      sgr_MemberID = g_LeaderID g, sgr_Assignments = assigns\<rparr> now)"
  shows "\<exists>g' gc1 gc2. map_of (gc_groups gc') gid = Some g' \<and> g_State g' = StateStable \<and> g_GenerationID g' = g_GenerationID g
    \<and> sync_section gc' \<lparr>sgr_GroupID = gid, sgr_GenerationID = g_GenerationID g, sgr_MemberID = k, sgr_Assignments = []\<rparr> t
        = (gc1, SyncWait (m_syncRespCh m))
    \<and> sync_receive gc1 (m_syncRespCh m)
        = Some (gc2, \<lparr>sgs_ErrorCode = codeNone, sgs_Assignment = assigned_to assigns k []\<rparr>)"
proof -
  have inv: "gc_inv gc" by (rule gc_run_inv [OF assms(1) gc_inv_new])
  have "\<forall>m \<in> snd ` set (g_Members g). m_Assignment m = []"
    using gc_invD(3) [OF inv assms(2)] assms(3) unfolding group_inv_def by blast
  then have empty: "m_Assignment m = []" using map_of_SomeD [OF assms(5)] by force
  obtain g' m' where g': "map_of (gc_groups gc') gid = Some g'" "g_State g' = StateStable" "g_GenerationID g' = g_GenerationID g"
    "map_of (g_Members g') k = Some m'" "m_syncRespCh m' = m_syncRespCh m" "m_Assignment m' = assigned_to assigns k []"
    "gc_chans gc' (m_syncRespCh m) = [sync_response m']"
    using leader_sync_delivers [OF inv assms(2,4-7)] empty by auto
  then obtain gc1 gc2 where "sync_section gc' \<lparr>sgr_GroupID = gid, sgr_GenerationID = g_GenerationID g', sgr_MemberID = k,
      sgr_Assignments = []\<rparr> t = (gc1, SyncWait (m_syncRespCh m))" "sync_receive gc1 (m_syncRespCh m) = Some (gc2, sync_response m')"
    using member_sync_receives [OF g'(1,4), of "sync_response m'" "[]" t] by auto
  then show ?thesis using g' by (simp add: sync_response_def)
qed

theorem Sync_delivers_witness:
  "\<exists>gc1 gc2. sync_section (fst (sync_section demo_gc2 (demo_sync ''a'' [\<lparr>sga_MemberID = ''b'', sga_Assignment = [7]\<rparr>]) 0))
      (demo_sync ''b'' []) 0 = (gc1, SyncWait 1)
    \<and> sync_receive gc1 1 = Some (gc2, \<lparr>sgs_ErrorCode = codeNone, sgs_Assignment = [7]\<rparr>)"
proof -
  obtain g m where g: "map_of (gc_groups demo_gc2) ''g'' = Some g" "g_State g = StatePreparingRebalance" "g_GenerationID g = 1"
    "g_LeaderID g = ''a''" "map_of (g_Members g) ''b'' = Some m" "m_syncRespCh m = 1" "gc_chans demo_gc2 (m_syncRespCh m) = []"
    by (simp add: demo_gc2_groups)
  let ?as = "[\<lparr>sga_MemberID = ''b'', sga_Assignment = [7]\<rparr>]"
  have ne: "?as \<noteq> []" by simp
  have "assigned_to ?as ''b'' [] = [7]" by (simp add: assigned_to_def)
  then show ?thesis
    using Sync_delivers [OF demo_run2 g(1,2) ne g(5,7) refl, of 0 0]
    unfolding demo_sync_def g(3,4,6) by metis
qed

text \<open>
  A member that joins while the group is rebalancing, after the leader was given the list of members, joins the
  generation that the leader is about to assign: the leader does not list it, the group becomes stable, and
  the member is answered with an empty assignment and positive heartbeats.
\<close>

lemma late_joiner_starves:
  defines "gc \<equiv> fst (sync_section demo_gc2 (demo_sync ''a'' [\<lparr>sga_MemberID = ''a'', sga_Assignment = [7]\<rparr>]) 0)"
  shows "jgs_Members (snd (JoinGroup (\<lambda>ks. ks) [] NewGroupCoordinator (demo_join ''a'') ''c'' 0)) =
      [\<lparr>jgm_MemberID = ''a'', jgm_Metadata = []\<rparr>]"
    and "map_option snd (sync_receive gc 1) = Some \<lparr>sgs_ErrorCode = codeNone, sgs_Assignment = []\<rparr>"
    and "snd (Heartbeat gc \<lparr>hbr_GroupID = ''g'', hbr_GenerationID = 1, hbr_MemberID = ''b''\<rparr> t) = \<lparr>hbs_ErrorCode = codeNone\<rparr>"
proof -
  show "jgs_Members (snd (JoinGroup (\<lambda>ks. ks) [] NewGroupCoordinator (demo_join ''a'') ''c'' 0)) =
      [\<lparr>jgm_MemberID = ''a'', jgm_Metadata = []\<rparr>]"
    by (simp add: demo_simps)
  show "map_option snd (sync_receive gc 1) = Some \<lparr>sgs_ErrorCode = codeNone, sgs_Assignment = []\<rparr>"
    by (simp add: gc_def sync_section_def demo_gc2_groups demo_sync_def Let_def assign_members_def notify_members_def offer_def
        sync_response_def set_group_def sync_receive_def)
  show "snd (Heartbeat gc \<lparr>hbr_GroupID = ''g'', hbr_GenerationID = 1, hbr_MemberID = ''b''\<rparr> t) = \<lparr>hbs_ErrorCode = codeNone\<rparr>"
    by (simp add: gc_def sync_section_def demo_gc2_groups demo_sync_def Let_def assign_members_def set_group_def Heartbeat_def)
qed

end
