(* ===== verification/Isr.thy ===== *)
theory Isr
  imports PartitionLog
begin

text \<open>
  The in-sync replica tracker of a partition, \<^verbatim>\<open>internal/replication/isr.go\<close>: what the leader knows of the
  replicas, the high watermark, and its checkpoint file.

  The map from broker ids to replicas is a list of pairs in the order of the iteration; the clock is an
  argument. The theorems show that the high watermark only grows and that every record below it is in the
  log of every replica that is in sync.
\<close>

section \<open>The tracker\<close>

record ReplicaState =
  rs_BrokerID :: int
  rs_LogEndOffset :: int
  rs_LastCaughtUpTime :: int
  rs_InSync :: bool

record ISRTracker =
  replicas :: "(int \<times> ReplicaState) list"
  leaderID :: int
  replicaLagTimeMaxMs :: int
  t_highWatermark :: int
  t_dataDir :: string
  t_topic :: string
  t_partition :: int

definition updateISRLocked :: "ISRTracker \<Rightarrow> int \<Rightarrow> ISRTracker" where
  "updateISRLocked t now =
     (let maxLag = ms_to_ns (replicaLagTimeMaxMs t)
      in t\<lparr>replicas := map (\<lambda>(id, rep).
              if rs_BrokerID rep = leaderID t then (id, rep\<lparr>rs_InSync := True\<rparr>)
              else if maxLag < now - rs_LastCaughtUpTime rep then (id, rep\<lparr>rs_InSync := False\<rparr>)
              else (id, rep\<lparr>rs_InSync := True\<rparr>)) (replicas t)\<rparr>)"

definition min_leo :: "int \<Rightarrow> ReplicaState \<Rightarrow> int" where
  "min_leo minLEO rep =
     (if rs_InSync rep \<and> (minLEO = -1 \<or> rs_LogEndOffset rep < minLEO) then rs_LogEndOffset rep else minLEO)"

definition calculateHWLocked :: "ISRTracker \<Rightarrow> ISRTracker \<times> int" where
  "calculateHWLocked t =
     (let minLEO = foldl min_leo (-1) (map snd (replicas t));
          t = (if t_highWatermark t < minLEO then t\<lparr>t_highWatermark := minLEO\<rparr> else t)
      in (t, t_highWatermark t))"

text \<open>The entry of a replica: an unknown one is added as in sync, a known one only advances.\<close>

definition advance_leo :: "int \<Rightarrow> int \<Rightarrow> int \<Rightarrow> (int \<times> ReplicaState) list \<Rightarrow> (int \<times> ReplicaState) list" where
  "advance_leo brokerID leo now reps =
     (if map_of reps brokerID = None
      then reps @ [(brokerID, \<lparr>rs_BrokerID = brokerID, rs_LogEndOffset = leo, rs_LastCaughtUpTime = now,
                                rs_InSync = True\<rparr>)]
      else map (\<lambda>(id, rep). if id = brokerID \<and> rs_LogEndOffset rep < leo
                            then (id, rep\<lparr>rs_LogEndOffset := leo\<rparr>) else (id, rep)) reps)"

definition UpdateLEO :: "ISRTracker \<Rightarrow> int \<Rightarrow> int \<Rightarrow> int \<Rightarrow> int \<Rightarrow> ISRTracker \<times> int" where
  "UpdateLEO t brokerID leo leaderLEO now =
     (let reps = advance_leo brokerID leo now (replicas t);
          effectiveLeaderLEO =
            (case map_of reps (leaderID t) of
               Some leader \<Rightarrow> if leaderLEO < rs_LogEndOffset leader then rs_LogEndOffset leader else leaderLEO
             | None \<Rightarrow> leaderLEO);
          reps = map (\<lambda>(id, rep). if id = brokerID \<and> effectiveLeaderLEO \<le> rs_LogEndOffset rep
                                  then (id, rep\<lparr>rs_LastCaughtUpTime := now\<rparr>) else (id, rep)) reps
      in calculateHWLocked (updateISRLocked (t\<lparr>replicas := reps\<rparr>) now))"

definition GetISR :: "ISRTracker \<Rightarrow> int list" where
  "GetISR t = map rs_BrokerID (filter rs_InSync (map snd (replicas t)))"

section \<open>The checkpoint file\<close>

text \<open>
  What the code uses of the package \<open>strings\<close>. White space is that of ASCII: topic names and numbers are
  the only other contents of the file.
\<close>

definition is_space :: "char \<Rightarrow> bool" where
  "is_space c \<longleftrightarrow> c \<in> {CHR 0x09, CHR 0x0A, CHR 0x0B, CHR 0x0C, CHR 0x0D, CHR '' ''}"

definition TrimSpace :: "string \<Rightarrow> string" where
  "TrimSpace s = rev (dropWhile is_space (rev (dropWhile is_space s)))"

fun split_on :: "char \<Rightarrow> string \<Rightarrow> string list" where
  "split_on d [] = [[]]"
| "split_on d (c # cs) =
     (if c = d then [] # split_on d cs
      else (case split_on d cs of [] \<Rightarrow> [[c]] | w # ws \<Rightarrow> (c # w) # ws))"

function Fields :: "string \<Rightarrow> string list" where
  "Fields s =
     (let s' = dropWhile is_space s
      in if s' = [] then [] else takeWhile (Not \<circ> is_space) s' # Fields (dropWhile (Not \<circ> is_space) s'))"
  by pat_completeness auto
termination
proof (relation "measure length", simp)
  fix s s' :: string assume s': "s' = dropWhile is_space s" "s' \<noteq> []"
  then have "\<not> is_space (hd s')" by (simp add: hd_dropWhile)
  then have "length (dropWhile (Not \<circ> is_space) s') < length s'"
    using s'(2) by (cases s') (simp_all add: le_imp_less_Suc length_dropWhile_le)
  then show "(dropWhile (Not \<circ> is_space) s', s) \<in> measure length"
    using length_dropWhile_le [of is_space s] s'(1) by simp
qed

declare Fields.simps [simp del]

definition HasPrefix :: "string \<Rightarrow> string \<Rightarrow> bool" where
  "HasPrefix s p \<longleftrightarrow> take (length p) s = p"

fun Join :: "string list \<Rightarrow> string \<Rightarrow> string" where
  "Join [] sep = []"
| "Join [s] sep = s"
| "Join (s # ss) sep = s @ sep @ Join ss sep"

definition line_prefix :: "ISRTracker \<Rightarrow> string" where
  "line_prefix t = t_topic t @ '' '' @ itoa (t_partition t) @ '' ''"

text \<open>One line of the file read back: a matching line whose third field is a number sets the watermark.\<close>

definition load_line :: "ISRTracker \<Rightarrow> string \<Rightarrow> ISRTracker" where
  "load_line t line =
     (let line = TrimSpace line
      in if HasPrefix line (line_prefix t) then
           (let fields = Fields line
            in if 3 \<le> length fields
               then (case ParseInt (fields ! 2) of None \<Rightarrow> t | Some hw \<Rightarrow> t\<lparr>t_highWatermark := hw\<rparr>)
               else t)
         else t)"

text \<open>The content of the checkpoint file is an argument; it is \<open>None\<close> when there is no such file.\<close>

definition loadCheckpoint :: "ISRTracker \<Rightarrow> string option \<Rightarrow> ISRTracker" where
  "loadCheckpoint t file =
     (if t_dataDir t = [] then t
      else (case file of None \<Rightarrow> t | Some data \<Rightarrow> foldl load_line t (split_on (CHR 0x0A) data)))"

text \<open>\<open>CheckpointHW\<close> gives the new content of the file, which replaces the old one in a single step.\<close>

definition CheckpointHW :: "ISRTracker \<Rightarrow> string option \<Rightarrow> string option" where
  "CheckpointHW t file =
     (if t_dataDir t = [] then file
      else
        (let line = t_topic t @ '' '' @ itoa (t_partition t) @ '' '' @ itoa (t_highWatermark t) @ [CHR 0x0A];
             existing =
               (case file of None \<Rightarrow> []
                | Some data \<Rightarrow> filter (\<lambda>l. l \<noteq> [] \<and> \<not> HasPrefix l (line_prefix t))
                                 (map TrimSpace (split_on (CHR 0x0A) data)))
         in Some (Join (existing @ [TrimSpace line]) [CHR 0x0A] @ [CHR 0x0A])))"

definition NewISRTracker ::
    "string \<Rightarrow> string \<Rightarrow> int \<Rightarrow> int \<Rightarrow> int list \<Rightarrow> int \<Rightarrow> string option \<Rightarrow> int \<Rightarrow> ISRTracker" where
  "NewISRTracker dataDir topic part leader replicaIDs lagTimeMaxMs file now =
     (let lagTimeMaxMs = (if lagTimeMaxMs \<le> 0 then 30000 else lagTimeMaxMs);
          reps = map (\<lambda>id. (id, \<lparr>rs_BrokerID = id, rs_LogEndOffset = 0, rs_LastCaughtUpTime = now,
                                  rs_InSync = True\<rparr>)) (remdups replicaIDs)
      in loadCheckpoint \<lparr>replicas = reps, leaderID = leader, replicaLagTimeMaxMs = lagTimeMaxMs,
           t_highWatermark = 0, t_dataDir = dataDir, t_topic = topic, t_partition = part\<rparr> file)"

section \<open>The high watermark\<close>

definition sync_leos :: "(int \<times> ReplicaState) list \<Rightarrow> int set" where
  "sync_leos reps = rs_LogEndOffset ` {rep \<in> snd ` set reps. rs_InSync rep}"

lemma sync_leos_simps:
  "sync_leos [] = {}"
  "sync_leos (reps @ [r]) = (if rs_InSync (snd r) then insert (rs_LogEndOffset (snd r)) (sync_leos reps) else sync_leos reps)"
  by (auto simp: sync_leos_def)

lemma finite_sync_leos [simp]: "finite (sync_leos reps)"
  by (simp add: sync_leos_def)

lemma foldl_min_leo:
  assumes "\<forall>x \<in> sync_leos reps. 0 \<le> x"
  shows "foldl min_leo (-1) (map snd reps) = (if sync_leos reps = {} then -1 else Min (sync_leos reps))"
  using assms
proof (induction reps rule: rev_induct)
  case (snoc r reps)
  have nonneg: "\<forall>x \<in> sync_leos reps. 0 \<le> x" using snoc.prems by (auto simp: sync_leos_simps split: if_splits)
  note IH = snoc.IH [OF nonneg]
  have "Min (sync_leos reps) \<noteq> -1" if "sync_leos reps \<noteq> {}"
    using nonneg Min_in [OF finite_sync_leos that] by auto
  then have "min_leo (foldl min_leo (-1) (map snd reps)) (snd r) =
      (if sync_leos (reps @ [r]) = {} then -1 else Min (sync_leos (reps @ [r])))"
    unfolding IH min_leo_def [of _ "snd r"]
    by (simp add: sync_leos_simps min_def del: Min_less_iff Min_le_iff Min_gr_iff Min_ge_iff)
  then show ?case by simp
qed (simp add: sync_leos_simps)

text \<open>Between two calls: the clock of the last call was \<open>tm\<close>.\<close>

definition max_lag :: "ISRTracker \<Rightarrow> int" where
  "max_lag t = ms_to_ns (replicaLagTimeMaxMs t)"

definition isr_inv :: "int \<Rightarrow> ISRTracker \<Rightarrow> bool" where
  "isr_inv tm t \<longleftrightarrow>
     distinct (map fst (replicas t)) \<and> leaderID t \<in> fst ` set (replicas t) \<and>
     (\<forall>(id, rep) \<in> set (replicas t).
        rs_BrokerID rep = id \<and> 0 \<le> rs_LogEndOffset rep \<and>
        (id = leaderID t \<longrightarrow> rs_InSync rep) \<and>
        (rs_InSync rep \<longrightarrow> t_highWatermark t \<le> rs_LogEndOffset rep) \<and>
        (\<not> rs_InSync rep \<longrightarrow> max_lag t < tm - rs_LastCaughtUpTime rep))"

definition leo_of :: "ISRTracker \<Rightarrow> int \<Rightarrow> int" where
  "leo_of t k = (case map_of (replicas t) k of None \<Rightarrow> 0 | Some rep \<Rightarrow> rs_LogEndOffset rep)"

text \<open>One call updates each known replica on its own.\<close>

definition advanced :: "int \<Rightarrow> int \<Rightarrow> int \<Rightarrow> ReplicaState \<Rightarrow> ReplicaState" where
  "advanced b leo k rep = (if k = b \<and> rs_LogEndOffset rep < leo then rep\<lparr>rs_LogEndOffset := leo\<rparr> else rep)"

definition refreshed :: "ISRTracker \<Rightarrow> int \<Rightarrow> int \<Rightarrow> int \<Rightarrow> int \<Rightarrow> int \<Rightarrow> ReplicaState \<Rightarrow> ReplicaState" where
  "refreshed t b leo eff now k rep =
     (let rep = advanced b leo k rep;
          rep = (if k = b \<and> eff \<le> rs_LogEndOffset rep then rep\<lparr>rs_LastCaughtUpTime := now\<rparr> else rep)
      in rep\<lparr>rs_InSync := (k = leaderID t \<or> now - rs_LastCaughtUpTime rep \<le> max_lag t)\<rparr>)"

lemma refreshed_simps:
  "rs_BrokerID (refreshed t b leo eff now k rep) = rs_BrokerID rep"
  "rs_LogEndOffset (refreshed t b leo eff now k rep) =
     (if k = b \<and> rs_LogEndOffset rep < leo then leo else rs_LogEndOffset rep)"
  by (simp_all add: refreshed_def advanced_def Let_def)

lemma refreshed_InSync:
  assumes "rs_InSync (refreshed t b leo eff now k rep)"
  shows "k = leaderID t \<or> now - rs_LastCaughtUpTime rep \<le> max_lag t \<or>
         eff \<le> rs_LogEndOffset (refreshed t b leo eff now k rep)"
  using assms by (auto simp: refreshed_def advanced_def Let_def split: if_splits)

lemma refreshed_OutOfSync:
  assumes "\<not> rs_InSync (refreshed t b leo eff now k rep)"
  shows "k \<noteq> leaderID t \<and> max_lag t < now - rs_LastCaughtUpTime (refreshed t b leo eff now k rep)"
  using assms by (auto simp: refreshed_def advanced_def Let_def split: if_splits)

lemma UpdateLEO_shape:
  assumes "isr_inv tm t" and "b \<in> fst ` set (replicas t)"
  obtains eff where
    "\<forall>rep. (leaderID t, rep) \<in> set (replicas t) \<longrightarrow> rs_LogEndOffset (advanced b leo (leaderID t) rep) \<le> eff"
    and "UpdateLEO t b leo leaderLEO now =
      calculateHWLocked (t\<lparr>replicas := map (\<lambda>(k, rep). (k, refreshed t b leo eff now k rep)) (replicas t)\<rparr>)"
proof -
  let ?reps = "map (\<lambda>(k, rep). (k, advanced b leo k rep)) (replicas t)"
  define eff where "eff = (case map_of ?reps (leaderID t) of
      Some leader \<Rightarrow> if leaderLEO < rs_LogEndOffset leader then rs_LogEndOffset leader else leaderLEO
    | None \<Rightarrow> leaderLEO)"
  have reps: "advance_leo b leo now (replicas t) = ?reps"
    using assms(2) by (auto simp: advance_leo_def advanced_def map_of_eq_None_iff)
  let ?G = "\<lambda>(k, rep). if k = b \<and> eff \<le> rs_LogEndOffset rep then (k, rep\<lparr>rs_LastCaughtUpTime := now\<rparr>) else (k, rep)"
  let ?F = "\<lambda>(k, rep). if rs_BrokerID rep = leaderID t then (k, rep\<lparr>rs_InSync := True\<rparr>)
      else if max_lag t < now - rs_LastCaughtUpTime rep then (k, rep\<lparr>rs_InSync := False\<rparr>)
      else (k, rep\<lparr>rs_InSync := True\<rparr>)"
  have "map ?F (map ?G ?reps) = map (\<lambda>(k, rep). (k, refreshed t b leo eff now k rep)) (replicas t)"
    unfolding map_map
  proof (rule map_cong [OF refl])
    fix x assume x: "x \<in> set (replicas t)"
    obtain k rep where "x = (k, rep)" by force
    then have "x = (k, rep)" "rs_BrokerID rep = k" using assms(1) x by (auto simp: isr_inv_def)
    then show "(?F \<circ> (?G \<circ> (\<lambda>(k, rep). (k, advanced b leo k rep)))) x = (\<lambda>(k, rep). (k, refreshed t b leo eff now k rep)) x"
      by (auto simp: refreshed_def advanced_def Let_def)
  qed
  then have "UpdateLEO t b leo leaderLEO now =
      calculateHWLocked (t\<lparr>replicas := map (\<lambda>(k, rep). (k, refreshed t b leo eff now k rep)) (replicas t)\<rparr>)"
    unfolding UpdateLEO_def reps Let_def eff_def [symmetric] updateISRLocked_def
    by (simp add: max_lag_def del: map_map cong: if_cong)
  moreover have "distinct (map fst ?reps)" using assms(1) by (simp add: isr_inv_def comp_def case_prod_unfold)
  then have "map_of ?reps (leaderID t) = Some (advanced b leo (leaderID t) rep)"
    if "(leaderID t, rep) \<in> set (replicas t)" for rep using that by (force simp: map_of_eq_Some_iff)
  then have "\<forall>rep. (leaderID t, rep) \<in> set (replicas t) \<longrightarrow> rs_LogEndOffset (advanced b leo (leaderID t) rep) \<le> eff"
    by (simp add: eff_def)
  ultimately show ?thesis using that by blast
qed

lemma calculateHW_ok:
  assumes "\<forall>x \<in> sync_leos (replicas t). 0 \<le> x" and "sync_leos (replicas t) \<noteq> {}"
    and "\<forall>x \<in> sync_leos (replicas t). t_highWatermark t \<le> x"
  shows "calculateHWLocked t = (t\<lparr>t_highWatermark := Min (sync_leos (replicas t))\<rparr>, Min (sync_leos (replicas t)))"
proof -
  define m where "m = Min (sync_leos (replicas t))"
  have "t_highWatermark t \<le> m" unfolding m_def using assms by (intro Min.boundedI) auto
  then consider "t_highWatermark t < m" | "t_highWatermark t = m" by linarith
  moreover have "foldl min_leo (-1) (map snd (replicas t)) = m" using foldl_min_leo [OF assms(1)] assms(2) by (simp add: m_def)
  ultimately show ?thesis unfolding m_def [symmetric] by cases (auto simp: calculateHWLocked_def Let_def)
qed

lemma map_of_map_key: "map_of (map (\<lambda>(k, r). (k, f k r)) xs) k = map_option (f k) (map_of xs k)"
  by (induction xs) auto

lemma leo_of_refreshed:
  assumes "b \<in> fst ` set (replicas t)" and "replicas t' = map (\<lambda>(k, rep). (k, refreshed t b leo eff now k rep)) (replicas t)"
  shows "leo_of t' k = (if k = b then max leo (leo_of t b) else leo_of t k)"
proof -
  have "map_of (replicas t) b \<noteq> None" using assms(1) by (auto simp: map_of_eq_None_iff)
  then show ?thesis
    unfolding leo_of_def assms(2) map_of_map_key
    by (cases "map_of (replicas t) k") (auto simp: refreshed_simps max_def)
qed

lemma UpdateLEO_ok:
  assumes inv: "isr_inv tm t" and b: "b \<in> fst ` set (replicas t)" and "0 \<le> leo" and "tm \<le> now"
  obtains t' where "UpdateLEO t b leo leaderLEO now = (t', t_highWatermark t')" and "isr_inv now t'"
    and "t_highWatermark t' = Min (sync_leos (replicas t'))" and "t_highWatermark t \<le> t_highWatermark t'"
    and "leaderID t' = leaderID t" and "max_lag t' = max_lag t" and "map fst (replicas t') = map fst (replicas t)"
    and "\<And>k. leo_of t' k = (if k = b then max leo (leo_of t b) else leo_of t k)"
proof -
  obtain eff where eff: "\<forall>rep. (leaderID t, rep) \<in> set (replicas t) \<longrightarrow> rs_LogEndOffset (advanced b leo (leaderID t) rep) \<le> eff"
    and upd: "UpdateLEO t b leo leaderLEO now =
      calculateHWLocked (t\<lparr>replicas := map (\<lambda>(k, rep). (k, refreshed t b leo eff now k rep)) (replicas t)\<rparr>)"
    using UpdateLEO_shape [OF inv b] by blast
  let ?R = "\<lambda>(k, rep). (k, refreshed t b leo eff now k rep)"
  define u where "u = t\<lparr>replicas := map ?R (replicas t)\<rparr>"
  have sync: "t_highWatermark t \<le> rs_LogEndOffset (refreshed t b leo eff now k rep) \<and>
      0 \<le> rs_LogEndOffset (refreshed t b leo eff now k rep)"
    if kr: "(k, rep) \<in> set (replicas t)" "rs_InSync (refreshed t b leo eff now k rep)" for k rep
  proof -
    obtain lrep where l: "(leaderID t, lrep) \<in> set (replicas t)" "rs_InSync lrep"
      "t_highWatermark t \<le> rs_LogEndOffset lrep" using inv by (force simp: isr_inv_def)
    have "t_highWatermark t \<le> eff" using eff l by (force simp: advanced_def split: if_splits)
    moreover have "rs_InSync rep \<or> max_lag t < now - rs_LastCaughtUpTime rep \<and> k \<noteq> leaderID t"
      using inv kr(1) assms(4) by (force simp: isr_inv_def)
    ultimately show ?thesis
      using refreshed_InSync [OF kr(2)] inv kr(1) assms(3) by (auto simp: isr_inv_def refreshed_simps)
  qed
  have leos: "sync_leos (replicas u) = {rs_LogEndOffset (refreshed t b leo eff now k rep) | k rep.
      (k, rep) \<in> set (replicas t) \<and> rs_InSync (refreshed t b leo eff now k rep)}"
    by (force simp: sync_leos_def u_def)
  obtain lrep where "(leaderID t, lrep) \<in> set (replicas t)" using inv by (auto simp: isr_inv_def)
  then have ne: "sync_leos (replicas u) \<noteq> {}" unfolding leos using refreshed_OutOfSync [of t b leo eff now "leaderID t" lrep] by blast
  define t' where "t' = u\<lparr>t_highWatermark := Min (sync_leos (replicas u))\<rparr>"
  have all: "\<forall>x \<in> sync_leos (replicas u). 0 \<le> x" "\<forall>x \<in> sync_leos (replicas u). t_highWatermark u \<le> x"
    unfolding leos using sync by (auto simp: u_def)
  have calc: "calculateHWLocked u = (t', t_highWatermark t')"
    using calculateHW_ok [OF all(1) ne all(2)] by (simp add: t'_def)
  have reps: "replicas t' = map ?R (replicas t)" "leaderID t' = leaderID t" "max_lag t' = max_lag t"
    by (simp_all add: t'_def u_def max_lag_def)
  have mono: "t_highWatermark t \<le> t_highWatermark t'"
    using all(2) ne by (auto simp: t'_def u_def intro!: Min.boundedI)
  have below: "t_highWatermark t' \<le> rs_LogEndOffset (refreshed t b leo eff now k rep)"
    if "(k, rep) \<in> set (replicas t)" "rs_InSync (refreshed t b leo eff now k rep)" for k rep
  proof -
    have "rs_LogEndOffset (refreshed t b leo eff now k rep) \<in> sync_leos (replicas u)" unfolding leos using that by blast
    then show ?thesis by (simp add: t'_def)
  qed
  have "isr_inv now t'"
    unfolding isr_inv_def reps
  proof (intro conjI ballI, goal_cases)
    case 1
    then show ?case using inv by (simp add: isr_inv_def comp_def case_prod_unfold)
  next
    case 2
    then show ?case using inv by (force simp: isr_inv_def)
  next
    case (3 x)
    then obtain k rep where x: "x = (k, refreshed t b leo eff now k rep)" "(k, rep) \<in> set (replicas t)" by auto
    then have "rs_BrokerID rep = k \<and> 0 \<le> rs_LogEndOffset rep" using inv by (auto simp: isr_inv_def)
    then show ?case
      using below [OF x(2)] refreshed_OutOfSync [of t b leo eff now k rep] assms(3)
      by (simp add: x(1) refreshed_simps) blast
  qed
  moreover have "leo_of t' k = (if k = b then max leo (leo_of t b) else leo_of t k)" for k
    using b reps(1) by (rule leo_of_refreshed)
  moreover have "t_highWatermark t' = Min (sync_leos (replicas t'))" by (simp add: t'_def)
  moreover have "map fst (replicas t') = map fst (replicas t)" by (simp add: reps comp_def case_prod_unfold)
  ultimately show ?thesis using that [of t'] upd calc mono reps(2,3) by (simp add: u_def)
qed

section \<open>Sequences of updates\<close>

text \<open>
  The calls of \<open>UpdateLEO\<close> that the handlers of a leader make from the time \<open>tm\<^sub>0\<close> on: for replicas of the
  partition, with offsets from their logs, at times that do not run backwards.
\<close>

inductive isr_reach :: "ISRTracker \<Rightarrow> int \<Rightarrow> int \<Rightarrow> ISRTracker \<Rightarrow> bool" for t\<^sub>0 :: ISRTracker and tm\<^sub>0 :: int where
  start: "isr_reach t\<^sub>0 tm\<^sub>0 tm\<^sub>0 t\<^sub>0"
| update: "isr_reach t\<^sub>0 tm\<^sub>0 tm t \<Longrightarrow> b \<in> fst ` set (replicas t) \<Longrightarrow> 0 \<le> leo \<Longrightarrow> tm \<le> now \<Longrightarrow>
    isr_reach t\<^sub>0 tm\<^sub>0 now (fst (UpdateLEO t b leo leaderLEO now))"

inductive_cases isr_reachE: "isr_reach t\<^sub>0 tm\<^sub>0 tm t"

lemma isr_reach_inv:
  assumes "isr_reach t\<^sub>0 tm\<^sub>0 tm t" and "isr_inv tm\<^sub>0 t\<^sub>0"
  shows "isr_inv tm t \<and> t_highWatermark t\<^sub>0 \<le> t_highWatermark t \<and> leaderID t = leaderID t\<^sub>0 \<and>
         map fst (replicas t) = map fst (replicas t\<^sub>0) \<and> (\<forall>k. leo_of t\<^sub>0 k \<le> leo_of t k)"
  using assms
proof (induction rule: isr_reach.induct)
  case (update tm t b leo now leaderLEO)
  then have "isr_inv tm t" by simp
  from UpdateLEO_ok [OF this update.hyps(2-4), where leaderLEO = leaderLEO] obtain t' where t':
    "UpdateLEO t b leo leaderLEO now = (t', t_highWatermark t')" "isr_inv now t'"
    "t_highWatermark t \<le> t_highWatermark t'" "leaderID t' = leaderID t" "map fst (replicas t') = map fst (replicas t)"
    "\<And>k. leo_of t' k = (if k = b then max leo (leo_of t b) else leo_of t k)" by blast
  have "leo_of t\<^sub>0 k \<le> leo_of t' k" for k
    unfolding t'(6) using update.IH update.prems by (auto simp: le_max_iff_disj)
  then show ?case using update.IH update.prems t' by simp
qed simp

lemma GetISR_iff:
  assumes "isr_inv tm t"
  shows "k \<in> set (GetISR t) \<longleftrightarrow> (\<exists>rep. (k, rep) \<in> set (replicas t) \<and> rs_InSync rep)"
  using assms by (force simp: GetISR_def isr_inv_def image_iff)

lemma leo_of_member:
  assumes "isr_inv tm t" and "(k, rep) \<in> set (replicas t)"
  shows "leo_of t k = rs_LogEndOffset rep"
  using assms by (simp add: leo_of_def isr_inv_def)

lemma sync_leos_ISR: "isr_inv tm t \<Longrightarrow> sync_leos (replicas t) = leo_of t ` set (GetISR t)"
  by (force simp: sync_leos_def GetISR_iff leo_of_member image_iff)

lemma isr_inv_ISR:
  assumes "isr_inv tm t"
  shows "leaderID t \<in> set (GetISR t)" and "k \<in> set (GetISR t) \<Longrightarrow> t_highWatermark t \<le> leo_of t k"
proof -
  show "leaderID t \<in> set (GetISR t)" using assms by (fastforce simp: GetISR_iff [OF assms] isr_inv_def)
  show "t_highWatermark t \<le> leo_of t k" if "k \<in> set (GetISR t)"
    using that assms leo_of_member [OF assms] by (fastforce simp: GetISR_iff [OF assms] isr_inv_def)
qed

lemma NewISRTracker_inv:
  assumes "leader \<in> set ids"
  shows "isr_inv now (NewISRTracker dir topic part leader ids lag None now)"
    and "t_highWatermark (NewISRTracker dir topic part leader ids lag None now) = 0"
    and "map fst (replicas (NewISRTracker dir topic part leader ids lag None now)) = remdups ids"
  using assms
  by (auto simp: NewISRTracker_def loadCheckpoint_def isr_inv_def Let_def comp_def image_image)

end
