(* ===== verification/Checkpoint.thy ===== *)
theory Checkpoint
  imports Isr
begin

text \<open>
  The checkpoint of the high watermark: a file of lines \<open>topic partition watermark\<close> that all partitions of
  a broker share. What \<open>CheckpointHW\<close> writes for one partition is what \<open>loadCheckpoint\<close> reads for it, and
  the other partitions read what they read before.
\<close>

section \<open>Lines and words\<close>

abbreviation newline :: char where
  "newline \<equiv> CHR 0x0A"

lemma split_on_word: "d \<notin> set w \<Longrightarrow> split_on d (w @ d # s) = w # split_on d s"
  by (induction w) auto

lemma split_on_no: "d \<notin> set w \<Longrightarrow> split_on d w = [w]"
  by (induction w) auto

lemma split_on_Join:
  "ls \<noteq> [] \<Longrightarrow> \<forall>l \<in> set ls. d \<notin> set l \<Longrightarrow> split_on d (Join ls [d] @ d # s) = ls @ split_on d s"
proof (induction ls rule: induct_list012)
  case (3 l l' ls)
  then show ?case using split_on_word [of d l "Join (l' # ls) [d] @ d # s"] by simp
qed (simp_all add: split_on_word)

lemma split_on_not_in: "l \<in> set (split_on d s) \<Longrightarrow> d \<notin> set l"
  by (induction s arbitrary: l) (auto split: if_splits list.splits)

lemma set_TrimSpace: "c \<in> set (TrimSpace s) \<Longrightarrow> c \<in> set s"
  by (auto simp: TrimSpace_def dest!: set_dropWhileD)

definition trimmed :: "string \<Rightarrow> bool" where
  "trimmed s \<longleftrightarrow> s = [] \<or> \<not> is_space (hd s) \<and> \<not> is_space (last s)"

lemma dropWhile_hd: "s = [] \<or> \<not> P (hd s) \<Longrightarrow> dropWhile P s = s"
  by (cases s) auto

lemma TrimSpace_trimmed: "trimmed s \<Longrightarrow> TrimSpace s = s"
  using dropWhile_hd [of s is_space] dropWhile_hd [of "rev s" is_space]
  by (auto simp: TrimSpace_def trimmed_def hd_rev)

lemma trimmed_TrimSpace: "trimmed (TrimSpace s)"
proof -
  define u where "u = dropWhile is_space s"
  have hd: "u = [] \<or> \<not> is_space (hd u)" unfolding u_def using hd_dropWhile by blast
  define v where "v = dropWhile is_space (rev u)"
  have v: "v = [] \<or> \<not> is_space (hd v)" unfolding v_def using hd_dropWhile by blast
  have "\<exists>w. rev u = w @ v" unfolding v_def by (metis takeWhile_dropWhile_id)
  then obtain w where "u = rev v @ rev w" by (metis rev_append rev_rev_ident)
  then have "v = [] \<or> hd (rev v) = hd u" by (cases "rev v") auto
  then have "trimmed (rev v)" using hd v \<open>u = rev v @ rev w\<close> by (auto simp: trimmed_def last_rev)
  then show ?thesis by (simp only: TrimSpace_def u_def v_def)
qed

lemma TrimSpace_idem [simp]: "TrimSpace (TrimSpace s) = TrimSpace s"
  by (rule TrimSpace_trimmed [OF trimmed_TrimSpace])

text \<open>Words: what topic names and numbers are.\<close>

definition word_ok :: "string \<Rightarrow> bool" where
  "word_ok w \<longleftrightarrow> w \<noteq> [] \<and> (\<forall>c \<in> set w. \<not> is_space c)"

lemma word_ok_itoa: "word_ok (itoa i)"
proof -
  have "\<not> is_space (digit_char d)" if "d < 10" for d
  proof -
    have "char_digit (digit_char d) = Some d" using that by simp
    moreover have "is_space c \<Longrightarrow> char_digit c = None" for c by (auto simp: is_space_def char_digit_def)
    ultimately show ?thesis by fastforce
  qed
  moreover have "\<not> is_space (CHR ''-'')" by (simp add: is_space_def)
  ultimately show ?thesis by (auto simp: word_ok_def itoa_def dest: set_digits)
qed

lemma dropWhile_word: "word_ok w \<Longrightarrow> dropWhile is_space (w @ s) = w @ s"
  by (cases w) (auto simp: word_ok_def)

lemma takeWhile_word: "word_ok w \<Longrightarrow> takeWhile (Not \<circ> is_space) (w @ CHR '' '' # s) = w"
  by (auto simp: word_ok_def takeWhile_append2 is_space_def)

lemma Fields_word: "word_ok w \<Longrightarrow> Fields (w @ CHR '' '' # s) = w # Fields s"
proof -
  assume w: "word_ok w"
  have "dropWhile (Not \<circ> is_space) (w @ CHR '' '' # s) = CHR '' '' # s"
    using w by (auto simp: word_ok_def dropWhile_append2 is_space_def)
  moreover have "Fields (CHR '' '' # s) = Fields s"
    by (simp add: Fields.simps [of "CHR '' '' # s"] Fields.simps [of s] is_space_def)
  moreover have "w \<noteq> []" using w by (simp add: word_ok_def)
  ultimately show ?thesis
    using dropWhile_word [OF w] takeWhile_word [OF w]
    by (simp add: Fields.simps [of "w @ CHR '' '' # s"] Let_def)
qed

lemma Fields_last: "word_ok w \<Longrightarrow> Fields w = [w]"
proof -
  assume w: "word_ok w"
  have "dropWhile (Not \<circ> is_space) w = []" "takeWhile (Not \<circ> is_space) w = w"
    using w by (auto simp: word_ok_def dropWhile_eq_Nil_conv takeWhile_eq_all_conv)
  moreover have "Fields [] = []" by (simp add: Fields.simps)
  moreover have "dropWhile is_space w = w" "w \<noteq> []" using w dropWhile_word [OF w, of "[]"] by (simp_all add: word_ok_def)
  ultimately show ?thesis by (simp only: Fields.simps [of w] Let_def if_False)
qed

section \<open>The lines of a partition\<close>

definition hw_line :: "ISRTracker \<Rightarrow> string" where
  "hw_line t = line_prefix t @ itoa (t_highWatermark t)"

definition matches :: "ISRTracker \<Rightarrow> string \<Rightarrow> bool" where
  "matches t l \<longleftrightarrow> HasPrefix (TrimSpace l) (line_prefix t)"

lemma HasPrefixE:
  assumes "HasPrefix l p"
  obtains s where "l = p @ s"
  using assms unfolding HasPrefix_def by (metis append_take_drop_id)

lemma Fields_line: "word_ok (t_topic t) \<Longrightarrow> Fields (line_prefix t @ s) = t_topic t # itoa (t_partition t) # Fields s"
  by (simp add: line_prefix_def Fields_word word_ok_itoa)

lemma matches_unique:
  assumes "matches t l" and "matches t' l" and "word_ok (t_topic t)" and "word_ok (t_topic t')"
  shows "t_topic t = t_topic t' \<and> itoa (t_partition t) = itoa (t_partition t')"
proof -
  obtain s s' where "TrimSpace l = line_prefix t @ s" "TrimSpace l = line_prefix t' @ s'"
    using assms(1,2) by (auto simp: matches_def elim!: HasPrefixE)
  then show ?thesis using Fields_line [OF assms(3), of s] Fields_line [OF assms(4), of s'] by simp
qed

lemma load_line_trim: "load_line t (TrimSpace l) = load_line t l"
  by (simp add: load_line_def)

lemma load_line_other: "\<not> matches t l \<Longrightarrow> load_line t l = t"
  by (simp add: load_line_def matches_def Let_def)

lemma load_line_prefix [simp]: "line_prefix (load_line t l) = line_prefix t" "matches (load_line t l) = matches t"
  by (auto simp: load_line_def line_prefix_def matches_def Let_def split: option.splits)

lemma foldl_load_filter: "foldl load_line t ls = foldl load_line t (filter (matches t) ls)"
  by (induction ls arbitrary: t) (simp_all add: load_line_other)

lemma foldl_load_trim: "foldl load_line t (map TrimSpace ls) = foldl load_line t ls"
  by (induction ls arbitrary: t) (simp_all add: load_line_trim)

lemma hw_line_trimmed:
  assumes "word_ok (t_topic t)"
  shows "trimmed (hw_line t)" and "newline \<notin> set (hw_line t)" and "hw_line t \<noteq> []"
proof -
  note words = assms [unfolded word_ok_def] word_ok_itoa [of "t_highWatermark t", unfolded word_ok_def]
    word_ok_itoa [of "t_partition t", unfolded word_ok_def]
  have "hd (hw_line t) = hd (t_topic t)" "last (hw_line t) = last (itoa (t_highWatermark t))"
    using words by (simp_all add: hw_line_def line_prefix_def)
  moreover have "hd (t_topic t) \<in> set (t_topic t)" "last (itoa (t_highWatermark t)) \<in> set (itoa (t_highWatermark t))"
    using words by simp_all
  ultimately show "trimmed (hw_line t)" using words unfolding trimmed_def by metis
  have "is_space newline" "newline \<noteq> CHR '' ''" by (simp_all add: is_space_def)
  then show "newline \<notin> set (hw_line t)" using words by (auto simp: hw_line_def line_prefix_def)
  show "hw_line t \<noteq> []" using words by (simp add: hw_line_def line_prefix_def)
qed

lemma TrimSpace_newline:
  assumes "trimmed s" and "s \<noteq> []"
  shows "TrimSpace (s @ [newline]) = s"
proof -
  have "dropWhile is_space (s @ [newline]) = s @ [newline]" using assms by (intro dropWhile_hd) (auto simp: trimmed_def)
  moreover have "dropWhile is_space (rev s) = rev s" using assms by (intro dropWhile_hd) (auto simp: trimmed_def hd_rev)
  ultimately show ?thesis by (simp add: TrimSpace_def is_space_def)
qed

definition old_lines :: "string option \<Rightarrow> string list" where
  "old_lines file = (case file of None \<Rightarrow> [] | Some data \<Rightarrow> split_on newline data)"

lemma CheckpointHW_lines:
  assumes "word_ok (t_topic t)" and "t_dataDir t \<noteq> []"
  obtains data where "CheckpointHW t file = Some data" and
    "split_on newline data =
       filter (\<lambda>l. l \<noteq> [] \<and> \<not> matches t l) (map TrimSpace (old_lines file)) @ [hw_line t, []]"
proof
  let ?old = "filter (\<lambda>l. l \<noteq> [] \<and> \<not> matches t l) (map TrimSpace (old_lines file))"
  let ?data = "Join (?old @ [hw_line t]) [newline] @ [newline]"
  note line = hw_line_trimmed [OF assms(1)]
  have "(\<lambda>l. l \<noteq> [] \<and> \<not> HasPrefix l (line_prefix t)) (TrimSpace l) = (\<lambda>l. l \<noteq> [] \<and> \<not> matches t l) (TrimSpace l)" for l
    by (simp add: matches_def)
  then have "filter (\<lambda>l. l \<noteq> [] \<and> \<not> HasPrefix l (line_prefix t)) (map TrimSpace ls) =
      filter (\<lambda>l. l \<noteq> [] \<and> \<not> matches t l) (map TrimSpace ls)" for ls
    by (induction ls) simp_all
  then show "CheckpointHW t file = Some ?data"
    using assms(2) TrimSpace_newline [OF line(1,3)]
    by (simp add: CheckpointHW_def old_lines_def hw_line_def line_prefix_def Let_def split: option.split)
  have "newline \<notin> set l" if "l \<in> set ?old" for l
    using that by (auto simp: old_lines_def dest!: set_TrimSpace split_on_not_in split: option.splits)
  then show "split_on newline ?data = ?old @ [hw_line t, []]"
    using line(2) split_on_Join [of "?old @ [hw_line t]" newline "[]"] by auto
qed

lemma loadCheckpoint_lines:
  "t_dataDir t \<noteq> [] \<Longrightarrow> loadCheckpoint t file = foldl load_line t (old_lines file)"
  by (simp add: loadCheckpoint_def old_lines_def split: option.split)

lemma load_hw_line:
  assumes "word_ok (t_topic t)" and "0 \<le> t_highWatermark t" and "in_s 64 (t_highWatermark t)"
    and "t_topic u = t_topic t" and "t_partition u = t_partition t"
  shows "load_line u (hw_line t) = u\<lparr>t_highWatermark := t_highWatermark t\<rparr>"
proof -
  have "line_prefix u = line_prefix t" using assms(4,5) by (simp add: line_prefix_def)
  moreover have "Fields (hw_line t) = [t_topic t, itoa (t_partition t), itoa (t_highWatermark t)]"
    using assms(1) by (simp add: hw_line_def Fields_line Fields_last word_ok_itoa)
  ultimately show ?thesis
    using TrimSpace_trimmed [OF hw_line_trimmed(1) [OF assms(1)]] ParseInt_itoa [OF assms(2,3)]
    by (simp add: load_line_def hw_line_def HasPrefix_def)
qed

lemma Checkpoint_own:
  assumes "word_ok (t_topic t)" and "t_dataDir t \<noteq> []" and "0 \<le> t_highWatermark t" and "in_s 64 (t_highWatermark t)"
    and "t_topic u = t_topic t" and "t_partition u = t_partition t" and "t_dataDir u \<noteq> []"
  shows "loadCheckpoint u (CheckpointHW t file) = u\<lparr>t_highWatermark := t_highWatermark t\<rparr>"
proof -
  obtain data where d: "CheckpointHW t file = Some data" "split_on newline data =
      filter (\<lambda>l. l \<noteq> [] \<and> \<not> matches t l) (map TrimSpace (old_lines file)) @ [hw_line t, []]"
    using CheckpointHW_lines [OF assms(1,2)] by blast
  have m: "matches u = matches t" using assms(5,6) by (simp add: matches_def line_prefix_def fun_eq_iff)
  have "\<not> matches t []" by (simp add: matches_def HasPrefix_def TrimSpace_def line_prefix_def)
  moreover have "matches t (hw_line t)"
    using TrimSpace_trimmed [OF hw_line_trimmed(1) [OF assms(1)]] by (simp add: matches_def HasPrefix_def hw_line_def)
  ultimately have "filter (matches u) (split_on newline data) = [hw_line t]" unfolding d(2) m by simp
  then have "foldl load_line u (split_on newline data) = load_line u (hw_line t)"
    by (subst foldl_load_filter) simp
  then show ?thesis
    using d(1) assms(7) load_hw_line [OF assms(1,3-6)] by (simp add: loadCheckpoint_lines old_lines_def)
qed

lemma Checkpoint_other:
  assumes "word_ok (t_topic t)" and "t_dataDir t \<noteq> []" and "word_ok (t_topic u)" and "t_dataDir u \<noteq> []"
    and "t_topic u \<noteq> t_topic t \<or> itoa (t_partition u) \<noteq> itoa (t_partition t)"
  shows "loadCheckpoint u (CheckpointHW t file) = loadCheckpoint u file"
proof -
  obtain data where d: "CheckpointHW t file = Some data" "split_on newline data =
      filter (\<lambda>l. l \<noteq> [] \<and> \<not> matches t l) (map TrimSpace (old_lines file)) @ [hw_line t, []]"
    using CheckpointHW_lines [OF assms(1,2)] by blast
  have excl: "\<not> (matches u l \<and> matches t l)" for l using matches_unique [OF _ _ assms(3,1)] assms(5) by blast
  have nil: "\<not> matches u []" by (simp add: matches_def HasPrefix_def TrimSpace_def line_prefix_def)
  have "matches t (hw_line t)"
    using TrimSpace_trimmed [OF hw_line_trimmed(1) [OF assms(1)]] by (simp add: matches_def HasPrefix_def hw_line_def)
  then have own: "\<not> matches u (hw_line t)" using excl by blast
  have keep: "filter (matches u) (filter (\<lambda>l. l \<noteq> [] \<and> \<not> matches t l) ls) = filter (matches u) ls" for ls
    using excl nil by (induction ls) auto
  have "filter (matches u) (split_on newline data) = filter (matches u) (map TrimSpace (old_lines file))"
    unfolding d(2) filter_append keep using own nil by simp
  then have "foldl load_line u (split_on newline data) = foldl load_line u (old_lines file)"
    by (metis foldl_load_filter foldl_load_trim)
  then show ?thesis using d(1) assms(4) by (simp add: loadCheckpoint_lines old_lines_def)
qed

section \<open>Properties\<close>

text \<open>
  C22: The checkpoint file is a map from partitions to high watermarks: after a partition has written its
  checkpoint, a tracker of that partition that is loaded from the file has the watermark that was written,
  and a tracker of any other partition has what it would have had before.
\<close>

theorem CheckpointHW_roundtrip:
  assumes "word_ok (t_topic t)" and "t_dataDir t \<noteq> []" and "0 \<le> t_highWatermark t" and "in_s 64 (t_highWatermark t)"
    and "word_ok (t_topic u)" and "t_dataDir u \<noteq> []"
  shows "loadCheckpoint u (CheckpointHW t file) =
    (if t_topic u = t_topic t \<and> itoa (t_partition u) = itoa (t_partition t)
     then u\<lparr>t_highWatermark := t_highWatermark t\<rparr> else loadCheckpoint u file)"
proof (cases "t_topic u = t_topic t \<and> itoa (t_partition u) = itoa (t_partition t)")
  case True
  let ?v = "t\<lparr>t_partition := t_partition u\<rparr>"
  have lp: "line_prefix ?v = line_prefix t" using True by (simp add: line_prefix_def)
  have "CheckpointHW ?v file = CheckpointHW t file"
    unfolding CheckpointHW_def lp using True by simp
  then show ?thesis using Checkpoint_own [of ?v u "file"] assms True by simp
next
  case False
  then show ?thesis using Checkpoint_other [OF assms(1,2,5,6)] by auto
qed

definition demo_tracker :: "string \<Rightarrow> ISRTracker" where
  "demo_tracker topic = NewISRTracker ''/data'' topic 0 1 [1, 2, 3] 30000 None 10"

theorem CheckpointHW_roundtrip_witness:
  "t_highWatermark (loadCheckpoint (demo_tracker ''orders'')
     (CheckpointHW ((demo_tracker ''orders'')\<lparr>t_highWatermark := 80\<rparr>) None)) = 80 \<and>
   loadCheckpoint (demo_tracker ''audit'')
     (CheckpointHW ((demo_tracker ''orders'')\<lparr>t_highWatermark := 80\<rparr>) None) = demo_tracker ''audit''"
proof -
  have "word_ok ''orders''" "word_ok ''audit''" by (simp_all add: word_ok_def is_space_def)
  then show ?thesis
    using CheckpointHW_roundtrip [of "(demo_tracker ''orders'')\<lparr>t_highWatermark := 80\<rparr>" "demo_tracker ''orders''" None]
      CheckpointHW_roundtrip [of "(demo_tracker ''orders'')\<lparr>t_highWatermark := 80\<rparr>" "demo_tracker ''audit''" None]
    by (simp add: demo_tracker_def NewISRTracker_def loadCheckpoint_def in_s_def)
qed



text \<open>
  C21: An update from a replica computes the high watermark exactly: it is the least log end offset among
  the replicas that are in sync afterwards, and only the entry of that replica moves, never backwards.
\<close>

theorem UpdateLEO_exact:
  assumes "isr_inv tm t" and "b \<in> fst ` set (replicas t)" and "0 \<le> leo" and "tm \<le> now"
  shows "\<exists>t'. UpdateLEO t b leo leaderLEO now = (t', Min (leo_of t' ` set (GetISR t'))) \<and>
    t_highWatermark t' = Min (leo_of t' ` set (GetISR t')) \<and> isr_inv now t' \<and>
    (\<forall>k. leo_of t' k = (if k = b then max leo (leo_of t b) else leo_of t k))"
proof -
  obtain t' where "UpdateLEO t b leo leaderLEO now = (t', t_highWatermark t')" "isr_inv now t'"
    "t_highWatermark t' = Min (sync_leos (replicas t'))"
    "\<And>k. leo_of t' k = (if k = b then max leo (leo_of t b) else leo_of t k)"
    using UpdateLEO_ok [OF assms, where leaderLEO = leaderLEO] by blast
  then show ?thesis using sync_leos_ISR [of now t'] by (intro exI [where x = t']) simp
qed

theorem UpdateLEO_exact_witness:
  "\<exists>t'. UpdateLEO (demo_tracker ''orders'') 1 100 100 20 = (t', Min (leo_of t' ` set (GetISR t'))) \<and>
        leo_of t' 1 = max 100 (leo_of (demo_tracker ''orders'') 1) \<and> isr_inv 20 t'"
proof -
  have inv: "isr_inv 10 (demo_tracker ''orders'')" unfolding demo_tracker_def by (rule NewISRTracker_inv) simp
  have k: "1 \<in> fst ` set (replicas (demo_tracker ''orders''))"
    by (simp add: demo_tracker_def NewISRTracker_def loadCheckpoint_def Let_def)
  show ?thesis using UpdateLEO_exact [OF inv k, of 100 20 100] by auto
qed

end
