(* ===== verification/Topics.thy ===== *)
theory Topics
  imports LogRecover Checkpoint "HOL-Library.AList"
begin

text \<open>
  Topics and partitions of the broker: \<^verbatim>\<open>internal/broker/partition.go\<close>, \<^verbatim>\<open>internal/broker/topic.go\<close> and
  \<^verbatim>\<open>internal/broker/metadata.go\<close>. A file system path is the list of its components, with the working directory
  and the content of the directories (\<open>fs\<close>) as arguments. Appends to a partition go through its writer
  goroutine, which is in the theory \<open>PartWriter\<close>; here \<open>Partition_AppendBatch\<close> is what one caller sees.
\<close>

section \<open>Paths\<close>

text \<open>
  \<open>Clean\<close>, \<open>Abs\<close>, \<open>Join\<close> and \<open>Rel\<close> of the package \<open>filepath\<close> (Unix) on absolute paths: empty and \<open>.\<close> components are
  dropped, and \<open>..\<close> removes the component before it.
\<close>

type_synonym path = "string list"

definition clean_step :: "path \<Rightarrow> string \<Rightarrow> path" where
  "clean_step p c = (if c = [] \<or> c = ''.'' then p else if c = ''..'' then butlast p else p @ [c])"

definition path_Join :: "path \<Rightarrow> string \<Rightarrow> path" where
  "path_Join p s = foldl clean_step p (split_on (CHR ''/'') s)"

definition path_Abs :: "path \<Rightarrow> string \<Rightarrow> path" where
  "path_Abs cwd s = path_Join (if s \<noteq> [] \<and> hd s = CHR ''/'' then [] else cwd) s"

fun path_Rel :: "path \<Rightarrow> path \<Rightarrow> path" where
  "path_Rel (b # bs) (t # ts) = (if b = t then path_Rel bs ts else replicate (length (b # bs)) ''..'' @ t # ts)"
| "path_Rel bs ts = replicate (length bs) ''..'' @ ts"

definition escapes :: "path \<Rightarrow> bool" where
  "escapes rel \<longleftrightarrow> rel \<noteq> [] \<and> hd rel = ''..''"

section \<open>Topic names\<close>

definition maxTopicNameLen :: nat where
  "maxTopicNameLen = 249"

definition topic_char :: "char \<Rightarrow> bool" where
  "topic_char c \<longleftrightarrow>
     (let n = (of_char c :: nat)
      in 97 \<le> n \<and> n \<le> 122 \<or> 65 \<le> n \<and> n \<le> 90 \<or> 48 \<le> n \<and> n \<le> 57 \<or> c = CHR ''.'' \<or> c = CHR ''_'' \<or> c = CHR ''-'')"

definition topicNamePattern :: "string \<Rightarrow> bool" where
  "topicNamePattern name \<longleftrightarrow> name \<noteq> [] \<and> (\<forall>c \<in> set name. topic_char c)"

definition validateTopicName :: "path \<Rightarrow> string \<Rightarrow> string \<Rightarrow> go_error option" where
  "validateTopicName cwd dataDir name =
     (if name = [] \<or> name = ''.'' \<or> name = ''..'' then Some (Wrapped name ErrInvalidTopicName)
      else if maxTopicNameLen < length name then Some (Wrapped ''exceeds 249 characters'' ErrInvalidTopicName)
      else if \<not> topicNamePattern name then Some (Wrapped name ErrInvalidTopicName)
      else
        (let cleanData = path_Abs cwd dataDir
         in if escapes (path_Rel cleanData (path_Join cleanData name))
            then Some (Wrapped ''path escapes data dir'' ErrInvalidTopicName) else None))"

section \<open>Partitions\<close>

record Partition =
  pt_Topic :: string
  pt_ID :: int
  pt_log :: Log
  pt_highWatermark :: int
  pt_closed :: bool

definition partition_dir :: "path \<Rightarrow> string \<Rightarrow> string \<Rightarrow> int \<Rightarrow> path" where
  "partition_dir cwd baseDir topic partitionID =
     path_Join (path_Join (path_Abs cwd baseDir) topic) (itoa partitionID)"

definition NewPartition ::
    "path \<Rightarrow> (path \<Rightarrow> dirent list) \<Rightarrow> string \<Rightarrow> string \<Rightarrow> int \<Rightarrow> Config \<Rightarrow> int \<Rightarrow> Partition result" where
  "NewPartition cwd fs baseDir topic partitionID cfg now =
     (case validateTopicName cwd baseDir topic of
        Some e \<Rightarrow> Inl (Wrapped (''partition '' @ topic @ ''-'' @ itoa partitionID) e)
      | None \<Rightarrow>
          (let dir = partition_dir cwd baseDir topic partitionID
           in if escapes (path_Rel (path_Abs cwd baseDir) dir)
              then Inl (Wrapped (''partition '' @ topic @ ''-'' @ itoa partitionID) ErrInvalidTopicName)
              else
                (case NewLog (fs dir) cfg now of
                   Inl e \<Rightarrow> Inl (Wrapped (''partition '' @ topic @ ''-'' @ itoa partitionID) e)
                 | Inr l \<Rightarrow>
                     Inr \<lparr>pt_Topic = topic, pt_ID = partitionID, pt_log = l, pt_highWatermark = HighestOffset l,
                          pt_closed = False\<rparr>)))"

definition Partition_AppendBatch :: "Partition \<Rightarrow> Record list \<Rightarrow> int \<Rightarrow> Partition \<times> int \<times> go_error option" where
  "Partition_AppendBatch p records now =
     (if pt_closed p
      then (p, -1, Some (ErrorNew (''partition '' @ pt_Topic p @ ''-'' @ itoa (pt_ID p) @ '' is closed'')))
      else (case AppendBatch (pt_log p) records now of (l, base, err) \<Rightarrow> (p\<lparr>pt_log := l\<rparr>, base, err)))"

definition Partition_ReadFrom :: "Partition \<Rightarrow> int \<Rightarrow> int \<Rightarrow> Partition \<times> Record list \<times> go_error option" where
  "Partition_ReadFrom p offset maxBytes =
     (case Log_ReadFrom (pt_log p) offset maxBytes of (l, recs, err) \<Rightarrow> (p\<lparr>pt_log := l\<rparr>, recs, err))"

definition HighWatermark :: "Partition \<Rightarrow> int" where
  "HighWatermark p = pt_highWatermark p"

definition SetHighWatermark :: "Partition \<Rightarrow> int \<Rightarrow> Partition" where
  "SetHighWatermark p hw = (if pt_highWatermark p < hw then p\<lparr>pt_highWatermark := hw\<rparr> else p)"

definition LogStartOffset :: "Partition \<Rightarrow> int" where
  "LogStartOffset p = LowestOffset (pt_log p)"

definition LogEndOffset :: "Partition \<Rightarrow> int" where
  "LogEndOffset p = HighestOffset (pt_log p)"

definition Partition_Close :: "Partition \<Rightarrow> Partition \<times> Segment list" where
  "Partition_Close p =
     (if pt_closed p then (p, [])
      else (case Log_Close (pt_log p) of (l, files) \<Rightarrow> (p\<lparr>pt_closed := True, pt_log := l\<rparr>, files)))"

section \<open>Topics\<close>

record Topic =
  tp_Name :: string
  tp_Partitions :: "(int \<times> Partition) list"
  tp_roundRobinCounter :: "32 word"

text \<open>The loop of \<open>NewTopic\<close>: on an error the partitions opened so far are closed and the error is returned.\<close>

fun new_partitions ::
    "path \<Rightarrow> (path \<Rightarrow> dirent list) \<Rightarrow> string \<Rightarrow> string \<Rightarrow> Config \<Rightarrow> int \<Rightarrow> int list \<Rightarrow> (int \<times> Partition) list result" where
  "new_partitions cwd fs baseDir name cfg now [] = Inr []"
| "new_partitions cwd fs baseDir name cfg now (i # is) =
     (case NewPartition cwd fs baseDir name i cfg now of
        Inl e \<Rightarrow> Inl e
      | Inr p \<Rightarrow>
          (case new_partitions cwd fs baseDir name cfg now is of Inl e \<Rightarrow> Inl e | Inr ps \<Rightarrow> Inr ((i, p) # ps)))"

definition NewTopic ::
    "path \<Rightarrow> (path \<Rightarrow> dirent list) \<Rightarrow> string \<Rightarrow> string \<Rightarrow> int \<Rightarrow> Config \<Rightarrow> int \<Rightarrow> Topic result" where
  "NewTopic cwd fs baseDir name numPartitions cfg now =
     (case new_partitions cwd fs baseDir name cfg now [0..numPartitions - 1] of
        Inl e \<Rightarrow> Inl e
      | Inr ps \<Rightarrow> Inr \<lparr>tp_Name = name, tp_Partitions = ps, tp_roundRobinCounter = 0\<rparr>)"

definition GetPartition :: "Topic \<Rightarrow> int \<Rightarrow> Partition option" where
  "GetPartition t partitionID = map_of (tp_Partitions t) partitionID"

definition Topic_Close :: "Topic \<Rightarrow> Topic \<times> Segment list list" where
  "Topic_Close t =
     (t\<lparr>tp_Partitions := map (\<lambda>(i, p). (i, fst (Partition_Close p))) (tp_Partitions t)\<rparr>,
      map (\<lambda>(_, p). snd (Partition_Close p)) (tp_Partitions t))"

subsection \<open>Partitioning by key\<close>

text \<open>\<open>Murmur2\<close> over the blocks of four bytes and the rest of at most three.\<close>

definition murmur_m :: "32 word" where
  "murmur_m = 0x5bd1e995"

definition murmur_block :: "byte \<Rightarrow> byte \<Rightarrow> byte \<Rightarrow> byte \<Rightarrow> 32 word \<Rightarrow> 32 word" where
  "murmur_block b0 b1 b2 b3 h =
     (let k = ucast b0 OR push_bit 8 (ucast b1) OR push_bit 16 (ucast b2) OR push_bit 24 (ucast b3);
          k = k * murmur_m;
          k = k XOR drop_bit 24 k;
          k = k * murmur_m
      in (h * murmur_m) XOR k)"

fun murmur_tail :: "bytes \<Rightarrow> 32 word \<Rightarrow> 32 word" where
  "murmur_tail [b0] h = (h XOR ucast b0) * murmur_m"
| "murmur_tail [b0, b1] h = murmur_tail [b0] (h XOR push_bit 8 (ucast b1))"
| "murmur_tail [b0, b1, b2] h = murmur_tail [b0, b1] (h XOR push_bit 16 (ucast b2))"
| "murmur_tail bs h = h"

fun murmur_loop :: "bytes \<Rightarrow> 32 word \<Rightarrow> 32 word" where
  "murmur_loop (b0 # b1 # b2 # b3 # bs) h = murmur_loop bs (murmur_block b0 b1 b2 b3 h)"
| "murmur_loop bs h = murmur_tail bs h"

definition Murmur2 :: "bytes \<Rightarrow> 32 word" where
  "Murmur2 data =
     (let h = murmur_loop data (0x973afb51 XOR word_of_nat (length data));
          h = h XOR drop_bit 13 h;
          h = h * murmur_m;
          h = h XOR drop_bit 15 h
      in h AND 0x7fffffff)"

definition PartitionFor :: "Topic \<Rightarrow> bytes \<Rightarrow> Topic \<times> int" where
  "PartitionFor t key =
     (let numPartitions = int32 (int (length (tp_Partitions t)))
      in if numPartitions \<le> 0 then (t, 0)
         else if key \<noteq> [] then (t, int32 (int (unat (Murmur2 key)) mod numPartitions))
         else
           (let t = t\<lparr>tp_roundRobinCounter := tp_roundRobinCounter t + 1\<rparr>
            in (t, int32 (int (unat (tp_roundRobinCounter t - 1)) mod numPartitions))))"

section \<open>Metadata\<close>

text \<open>
  The file \<open>topics.json\<close> is held as the value it encodes, \<open>None\<close> when it does not exist. \<open>saveLocked\<close> writes a
  temporary file and renames it.
\<close>

record TopicMeta =
  tmeta_Name :: string
  tmeta_NumPartitions :: int
  tmeta_ReplicationFactor :: int

type_synonym meta_file = "(string \<times> TopicMeta) list option"

record MetadataManager =
  mm_topics :: "(string \<times> TopicMeta) list"
  mm_tmp :: meta_file
  mm_file :: meta_file

definition mm_load :: "MetadataManager \<Rightarrow> MetadataManager" where
  "mm_load mm = (case mm_file mm of None \<Rightarrow> mm | Some topics \<Rightarrow> mm\<lparr>mm_topics := topics\<rparr>)"

definition NewMetadataManager :: "meta_file \<Rightarrow> meta_file \<Rightarrow> MetadataManager" where
  "NewMetadataManager tmp file = mm_load \<lparr>mm_topics = [], mm_tmp = tmp, mm_file = file\<rparr>"

definition write_tmp :: "MetadataManager \<Rightarrow> MetadataManager" where
  "write_tmp mm = mm\<lparr>mm_tmp := Some (mm_topics mm)\<rparr>"

definition rename_tmp :: "MetadataManager \<Rightarrow> MetadataManager" where
  "rename_tmp mm = mm\<lparr>mm_file := mm_tmp mm, mm_tmp := None\<rparr>"

definition saveLocked :: "MetadataManager \<Rightarrow> MetadataManager" where
  "saveLocked mm = rename_tmp (write_tmp mm)"

definition CreateTopic :: "MetadataManager \<Rightarrow> string \<Rightarrow> int \<Rightarrow> int \<Rightarrow> MetadataManager \<times> TopicMeta \<times> bool" where
  "CreateTopic mm name numPartitions replicationFactor =
     (case map_of (mm_topics mm) name of
        Some meta \<Rightarrow> (mm, meta, False)
      | None \<Rightarrow>
          (let meta = \<lparr>tmeta_Name = name, tmeta_NumPartitions = numPartitions, tmeta_ReplicationFactor = replicationFactor\<rparr>
           in (saveLocked (mm\<lparr>mm_topics := mm_topics mm @ [(name, meta)]\<rparr>), meta, True)))"

definition GetTopic :: "MetadataManager \<Rightarrow> string \<Rightarrow> TopicMeta option" where
  "GetTopic mm name = map_of (mm_topics mm) name"

text \<open>The order of the list is that of the iteration over the map.\<close>

definition ListTopics :: "MetadataManager \<Rightarrow> TopicMeta list" where
  "ListTopics mm = map snd (mm_topics mm)"

section \<open>Paths of partitions\<close>

lemma split_on_none: "d \<notin> set s \<Longrightarrow> split_on d s = [s]"
  by (induction s) auto

lemma path_Join_one: "CHR ''/'' \<notin> set s \<Longrightarrow> s \<notin> {[], ''.'', ''..''} \<Longrightarrow> path_Join p s = p @ [s]"
  by (simp add: path_Join_def split_on_none clean_step_def)

lemma path_Rel_append: "path_Rel p (p @ s) = s"
  by (induction p) (cases s; simp)+

lemma topic_char_slash: "\<not> topic_char (CHR ''/'')"
  by (simp add: topic_char_def)

lemma validateTopicName_iff:
  "validateTopicName cwd dataDir name = None \<longleftrightarrow>
     topicNamePattern name \<and> name \<noteq> ''.'' \<and> name \<noteq> ''..'' \<and> length name \<le> maxTopicNameLen"
proof (cases "topicNamePattern name \<and> name \<noteq> ''.'' \<and> name \<noteq> ''..''")
  case True
  then have "CHR ''/'' \<notin> set name" "name \<notin> {[], ''.'', ''..''}" using topic_char_slash by (auto simp: topicNamePattern_def)
  then have "path_Join (path_Abs cwd dataDir) name = path_Abs cwd dataDir @ [name]" by (rule path_Join_one)
  then have "path_Rel (path_Abs cwd dataDir) (path_Join (path_Abs cwd dataDir) name) = [name]" by (simp add: path_Rel_append)
  then show ?thesis using True by (auto simp: validateTopicName_def escapes_def Let_def topicNamePattern_def)
next
  case False
  then show ?thesis by (auto simp: validateTopicName_def topicNamePattern_def)
qed

lemma slash_itoa: "CHR ''/'' \<notin> set (itoa i)"
proof -
  have "char_digit (CHR ''/'') = None" by (simp add: char_digit_def)
  then have "CHR ''/'' \<notin> set (digits n)" for n using set_digits by fastforce
  then show ?thesis by (simp add: itoa_def)
qed

lemma digits_dots: "CHR ''.'' \<notin> set (digits n)"
proof -
  have "char_digit (CHR ''.'') = None" by (simp add: char_digit_def)
  then show ?thesis using set_digits by fastforce
qed

lemma itoa_component: "itoa i \<notin> {[], ''.'', ''..''}"
  using digits_dots [of "nat i"] by (auto simp: itoa_def)

lemma partition_dir_eq:
  assumes "validateTopicName cwd dataDir t = None"
  shows "partition_dir cwd dataDir t i = path_Abs cwd dataDir @ [t, itoa i]"
proof -
  have "CHR ''/'' \<notin> set t" "t \<notin> {[], ''.'', ''..''}"
    using assms topic_char_slash by (auto simp: validateTopicName_iff topicNamePattern_def)
  then show ?thesis using path_Join_one [OF slash_itoa itoa_component] by (simp add: partition_dir_def path_Join_one)
qed

text \<open>
  The name of the internal offsets topic is an ordinary topic name; its partitions have the directories in
  which the offset store keeps its logs.
\<close>

lemma consumer_offsets_collide:
  "validateTopicName cwd dataDir ''__consumer_offsets'' = None"
  "partition_dir cwd dataDir ''__consumer_offsets'' i =
     path_Join (path_Join (path_Abs cwd dataDir) ''__consumer_offsets'') (itoa i)"
  by (simp_all add: validateTopicName_iff topicNamePattern_def topic_char_def maxTopicNameLen_def partition_dir_def)

section \<open>Lemmas on partitions and topics\<close>

lemma NewPartition_valid:
  assumes "validateTopicName cwd baseDir topic = None"
  shows "NewPartition cwd fs baseDir topic i cfg now =
    (case NewLog (fs (path_Abs cwd baseDir @ [topic, itoa i])) cfg now of
       Inl e \<Rightarrow> Inl (Wrapped (''partition '' @ topic @ ''-'' @ itoa i) e)
     | Inr l \<Rightarrow> Inr \<lparr>pt_Topic = topic, pt_ID = i, pt_log = l, pt_highWatermark = HighestOffset l, pt_closed = False\<rparr>)"
proof -
  have "topic \<noteq> ''..''" using assms by (simp add: validateTopicName_iff)
  then show ?thesis
    using assms by (simp add: NewPartition_def partition_dir_eq path_Rel_append escapes_def Let_def)
qed

lemma SetHighWatermark_simps [simp]:
  "pt_log (SetHighWatermark p hw) = pt_log p" "pt_closed (SetHighWatermark p hw) = pt_closed p"
  "pt_ID (SetHighWatermark p hw) = pt_ID p" "pt_Topic (SetHighWatermark p hw) = pt_Topic p"
  "pt_highWatermark (SetHighWatermark p hw) = max (pt_highWatermark p) hw"
  by (simp_all add: SetHighWatermark_def)

lemma Murmur2_bound: "unat (Murmur2 key) < 2 ^ 31"
proof -
  have "Murmur2 key = Murmur2 key AND mask 31" by (simp add: Murmur2_def Let_def mask_eq_exp_minus_1 and.assoc)
  then have "Murmur2 key = take_bit 31 (Murmur2 key)" by (simp add: take_bit_eq_mask)
  then have "unat (Murmur2 key) = take_bit 31 (unat (Murmur2 key))" by (metis unsigned_take_bit_eq)
  then show ?thesis by (metis take_bit_nat_less_exp)
qed

lemma PartitionFor_range:
  assumes "tp_Partitions t \<noteq> []" and "length (tp_Partitions t) < 2 ^ 31"
  shows "0 \<le> snd (PartitionFor t key)" and "snd (PartitionFor t key) < int (length (tp_Partitions t))"
proof -
  let ?n = "int (length (tp_Partitions t))"
  have n: "int32 ?n = ?n" "0 < ?n" using assms by (auto intro!: wrap_s_id simp: in_s_def)
  have "int32 (x mod ?n) = x mod ?n" for x
  proof (rule wrap_s_id)
    have "0 \<le> x mod ?n" "x mod ?n < ?n" using n(2) by simp_all
    then show "in_s 32 (x mod ?n)" using assms(2) by (simp add: in_s_def)
  qed simp
  then show "0 \<le> snd (PartitionFor t key)" "snd (PartitionFor t key) < ?n"
    using n by (simp_all add: PartitionFor_def Let_def)
qed

text \<open>What is on disk after \<open>CreateTopic\<close>, also when the process stops between its file operations.\<close>

definition mm_inv :: "MetadataManager \<Rightarrow> bool" where
  "mm_inv mm \<longleftrightarrow> (case mm_file mm of None \<Rightarrow> mm_topics mm = [] | Some topics \<Rightarrow> mm_topics mm = topics)"

lemma NewMetadataManager_reload: "mm_inv mm \<Longrightarrow> mm_topics (NewMetadataManager tmp (mm_file mm)) = mm_topics mm"
  by (simp add: mm_inv_def NewMetadataManager_def mm_load_def split: option.split_asm)

lemma CreateTopic_ok:
  assumes "mm_inv mm" and "CreateTopic mm name n rf = (mm', meta, created)"
  shows "mm_inv mm'" and "GetTopic mm' name = Some meta" and "created \<longleftrightarrow> GetTopic mm name = None"
    and "k \<noteq> name \<Longrightarrow> GetTopic mm' k = GetTopic mm k"
  using assms by (auto simp: CreateTopic_def mm_inv_def GetTopic_def saveLocked_def rename_tmp_def write_tmp_def Let_def map_add_def
      split: option.split_asm option.split)

lemma saveLocked_crash:
  assumes "mm_inv mm"
  shows "mm_file (write_tmp (mm\<lparr>mm_topics := topics\<rparr>)) = mm_file mm"
    and "mm_file (saveLocked (mm\<lparr>mm_topics := topics\<rparr>)) = Some topics"
  by (simp_all add: saveLocked_def rename_tmp_def write_tmp_def)

section \<open>Properties\<close>

text \<open>
  C38: Topic names cannot be used to leave the data directory, and different partitions never share a directory: for
  every name that is accepted the directory of a partition is right below that of the topic in the data
  directory, whatever the data directory is, and the directory determines the topic and the partition. The second
  check of the path in \<open>NewPartition\<close> never refuses what \<open>validateTopicName\<close> accepted.
\<close>

theorem Partition_dirs_safe:
  assumes "validateTopicName cwd dataDir t = None" and "validateTopicName cwd dataDir t' = None"
  shows "topicNamePattern t \<and> length t \<le> 249 \<and> partition_dir cwd dataDir t i = path_Abs cwd dataDir @ [t, itoa i] \<and>
    (partition_dir cwd dataDir t i = partition_dir cwd dataDir t' i' \<longrightarrow> t = t' \<and> i = i') \<and>
    (\<forall>l. NewLog (fs (partition_dir cwd dataDir t i)) cfg now = Inr l \<longrightarrow>
       (\<exists>p. NewPartition cwd fs dataDir t i cfg now = Inr p \<and> pt_log p = l \<and> HighWatermark p = LogEndOffset p))"
proof (intro conjI allI impI)
  show "topicNamePattern t" "length t \<le> 249" using assms(1) by (simp_all add: validateTopicName_iff maxTopicNameLen_def)
  show dir: "partition_dir cwd dataDir t i = path_Abs cwd dataDir @ [t, itoa i]" by (rule partition_dir_eq [OF assms(1)])
  show "t = t'" "i = i'" if "partition_dir cwd dataDir t i = partition_dir cwd dataDir t' i'"
    using that partition_dir_eq [OF assms(2), of i'] dir itoa_inj [of i i'] by simp_all
  fix l
  assume "NewLog (fs (partition_dir cwd dataDir t i)) cfg now = Inr l"
  then show "\<exists>p. NewPartition cwd fs dataDir t i cfg now = Inr p \<and> pt_log p = l \<and> HighWatermark p = LogEndOffset p"
    using NewPartition_valid [OF assms(1), of fs i cfg now] dir by (simp add: HighWatermark_def LogEndOffset_def)
qed

theorem Partition_dirs_safe_witness:
  "partition_dir [''srv''] ''/data/../kafka'' ''orders-1'' 7 = [''kafka'', ''orders-1'', itoa 7]"
proof -
  have v: "validateTopicName [''srv''] ''/data/../kafka'' ''orders-1'' = None"
    by (simp add: validateTopicName_iff topicNamePattern_def topic_char_def maxTopicNameLen_def)
  have "path_Abs [''srv''] ''/data/../kafka'' = [''kafka'']"
    by (simp add: path_Abs_def path_Join_def clean_step_def)
  then show ?thesis using Partition_dirs_safe [OF v v, of 7 7] by simp
qed

end
