(* ===== verification/PartWriter.thy ===== *)
theory PartWriter
  imports Topics
begin

text \<open>
  The writer goroutine of a partition, \<open>writerLoop\<close>, \<open>AppendBatch\<close> and \<open>Close\<close> of \<^verbatim>\<open>internal/broker/partition.go\<close>, with
  any number of concurrent callers: the requests wait in a channel with a buffer of 256, the writer takes them one
  by one, and closing lets it drain the channel and return. \<open>ws_sent\<close> and \<open>ws_done\<close> only record what was sent
  and written so far.
\<close>

section \<open>State and steps\<close>

type_synonym append_request = "nat \<times> Record list"

record writer_sys =
  ws_queue :: "append_request list"
  ws_log :: Log
  ws_closeCh :: bool
  ws_exited :: bool
  ws_resp :: "nat \<rightharpoonup> int \<times> go_error option"
  ws_sent :: "append_request list"
  ws_done :: "append_request list"

definition start_writer :: "Log \<Rightarrow> writer_sys" where
  "start_writer l = \<lparr>ws_queue = [], ws_log = l, ws_closeCh = False, ws_exited = False, ws_resp = Map.empty,
     ws_sent = [], ws_done = []\<rparr>"

definition append_send :: "writer_sys \<Rightarrow> append_request \<Rightarrow> writer_sys option" where
  "append_send s req =
     (if length (ws_queue s) < 256
      then Some (s\<lparr>ws_queue := ws_queue s @ [req], ws_sent := ws_sent s @ [req]\<rparr>) else None)"

definition append_reject :: "string \<Rightarrow> int \<Rightarrow> writer_sys \<Rightarrow> append_request \<Rightarrow> writer_sys option" where
  "append_reject topic partID s req =
     (if ws_closeCh s
      then Some (s\<lparr>ws_resp := (ws_resp s)(fst req \<mapsto>
             (-1, Some (ErrorNew (''partition '' @ topic @ ''-'' @ itoa partID @ '' is closed''))))\<rparr>)
      else None)"

definition writer_take :: "writer_sys \<Rightarrow> int \<Rightarrow> writer_sys option" where
  "writer_take s now =
     (if ws_exited s then None
      else
        (case ws_queue s of
           [] \<Rightarrow> None
         | req # queue \<Rightarrow>
             (case AppendBatch (ws_log s) (snd req) now of
                (l, baseOffset, err) \<Rightarrow>
                  Some (s\<lparr>ws_queue := queue, ws_log := l, ws_resp := (ws_resp s)(fst req \<mapsto> (baseOffset, err)),
                          ws_done := ws_done s @ [req]\<rparr>))))"

definition writer_return :: "writer_sys \<Rightarrow> writer_sys option" where
  "writer_return s = (if ws_closeCh s \<and> ws_queue s = [] \<and> \<not> ws_exited s then Some (s\<lparr>ws_exited := True\<rparr>) else None)"

definition close_begin :: "writer_sys \<Rightarrow> writer_sys" where
  "close_begin s = s\<lparr>ws_closeCh := True\<rparr>"

definition close_end :: "writer_sys \<Rightarrow> writer_sys option" where
  "close_end s = (if ws_exited s then Some (s\<lparr>ws_log := fst (Log_Close (ws_log s))\<rparr>) else None)"

text \<open>Requests have their own response channel, so a request that enters has a new number.\<close>

inductive writer_step :: "string \<Rightarrow> int \<Rightarrow> writer_sys \<Rightarrow> writer_sys \<Rightarrow> bool" for topic partID where
  wr_send: "fst req \<notin> fst ` set (ws_sent s) \<Longrightarrow> ws_resp s (fst req) = None \<Longrightarrow> append_send s req = Some s' \<Longrightarrow>
    writer_step topic partID s s'"
| wr_reject: "fst req \<notin> fst ` set (ws_sent s) \<Longrightarrow> ws_resp s (fst req) = None \<Longrightarrow> append_reject topic partID s req = Some s' \<Longrightarrow>
    writer_step topic partID s s'"
| wr_take: "writer_take s now = Some s' \<Longrightarrow> writer_step topic partID s s'"
| wr_return: "writer_return s = Some s' \<Longrightarrow> writer_step topic partID s s'"
| wr_close: "writer_step topic partID s (close_begin s)"

abbreviation writer_reach :: "string \<Rightarrow> int \<Rightarrow> Log \<Rightarrow> writer_sys \<Rightarrow> bool" where
  "writer_reach topic partID l s \<equiv> (writer_step topic partID)\<^sup>*\<^sup>* (start_writer l) s"

section \<open>The writer is serial\<close>

definition batch_ok :: "Record list \<Rightarrow> bool" where
  "batch_ok recs \<longleftrightarrow> recs \<noteq> [] \<and> (\<forall>r \<in> set recs. typed_record r \<and> EncodedSize r \<le> MaxRecordSize)"

definition payload :: "append_request list \<Rightarrow> Record list" where
  "payload reqs = concat (map snd reqs)"

lemma payload_simps [simp]: "payload [] = []" "payload (r # rs) = snd r @ payload rs" "payload (rs @ rs') = payload rs @ payload rs'"
  by (simp_all add: payload_def)

lemma number_from_append: "number_from k (rs @ rs') = number_from k rs @ number_from (k + int (length rs)) rs'"
  by (induction rs arbitrary: k) (simp_all add: algebra_simps)

text \<open>What the responses must be: request \<open>i\<close> was written right behind the requests before it.\<close>

definition answered :: "int \<Rightarrow> writer_sys \<Rightarrow> bool" where
  "answered base s \<longleftrightarrow> (\<forall>pre req post. ws_done s = pre @ req # post \<longrightarrow>
     ws_resp s (fst req) = Some (base + int (length (payload pre)), None))"

definition writer_inv :: "Log \<Rightarrow> writer_sys \<Rightarrow> bool" where
  "writer_inv l0 s \<longleftrightarrow>
     ws_sent s = ws_done s @ ws_queue s \<and> distinct (map fst (ws_sent s)) \<and>
     ((\<forall>req \<in> set (ws_sent s). batch_ok (snd req)) \<and> HighestOffset l0 + int (length (payload (ws_sent s))) < 2 ^ 63 \<longrightarrow>
        log_inv (ws_log s) \<and> same_log l0 (ws_log s) \<and>
        log_recs (ws_log s) = log_recs l0 @ number_from (HighestOffset l0) (payload (ws_done s)) \<and>
        answered (HighestOffset l0) s)"

lemma answered_snoc:
  assumes "answered base s" and "fst req \<notin> fst ` set (ws_done s)"
    and "ws_done s' = ws_done s @ [req]" and "ws_resp s' = (ws_resp s)(fst req \<mapsto> (base + int (length (payload (ws_done s))), None))"
  shows "answered base s'"
  unfolding answered_def
proof (intro allI impI)
  fix pre r post
  assume d: "ws_done s' = pre @ r # post"
  show "ws_resp s' (fst r) = Some (base + int (length (payload pre)), None)"
  proof (cases post rule: rev_cases)
    case Nil
    then show ?thesis using d assms(3,4) by simp
  next
    case (snoc post' x)
    then have ds: "ws_done s = pre @ r # post'" using d assms(3) by simp
    then have "fst r \<noteq> fst req" using assms(2) by force
    moreover have "ws_resp s (fst r) = Some (base + int (length (payload pre)), None)"
      using assms(1) ds unfolding answered_def by blast
    ultimately show ?thesis using assms(4) by simp
  qed
qed

lemma answered_mono:
  assumes "answered base s" and "ws_done s' = ws_done s" and "\<forall>k \<in> fst ` set (ws_done s). ws_resp s' k = ws_resp s k"
  shows "answered base s'"
  unfolding answered_def
proof (intro allI impI)
  fix pre r post
  assume "ws_done s' = pre @ r # post"
  then have "ws_done s = pre @ r # post" using assms(2) by simp
  moreover from this have "ws_resp s (fst r) = Some (base + int (length (payload pre)), None)"
    using assms(1) unfolding answered_def by blast
  ultimately show "ws_resp s' (fst r) = Some (base + int (length (payload pre)), None)" using assms(3) by simp
qed

lemma writer_take_inv:
  assumes inv: "writer_inv l0 s" and l0: "log_inv l0" and step: "writer_take s now = Some s'"
  shows "writer_inv l0 s'"
proof -
  obtain req queue l b e where q: "ws_queue s = req # queue" and ap: "AppendBatch (ws_log s) (snd req) now = (l, b, e)"
    and s': "s' = s\<lparr>ws_queue := queue, ws_log := l, ws_resp := (ws_resp s)(fst req \<mapsto> (b, e)), ws_done := ws_done s @ [req]\<rparr>"
    using step by (auto simp: writer_take_def split: if_split_asm list.split_asm prod.split_asm)
  have sent: "ws_sent s = ws_done s @ req # queue" "distinct (map fst (ws_sent s))"
    using inv unfolding writer_inv_def q by blast+
  have "log_inv l \<and> same_log l0 l \<and> log_recs l = log_recs l0 @ number_from (HighestOffset l0) (payload (ws_done s @ [req])) \<and>
      answered (HighestOffset l0) s'"
    if ok: "\<forall>req \<in> set (ws_sent s). batch_ok (snd req)" and bound: "HighestOffset l0 + int (length (payload (ws_sent s))) < 2 ^ 63"
  proof -
    have i: "log_inv (ws_log s)" "same_log l0 (ws_log s)" "answered (HighestOffset l0) s"
      "log_recs (ws_log s) = log_recs l0 @ number_from (HighestOffset l0) (payload (ws_done s))"
      using inv ok bound unfolding writer_inv_def by blast+
    have h: "HighestOffset (ws_log s) = HighestOffset l0 + int (length (payload (ws_done s)))"
      using HighestOffset_append [OF l0 i(1,2,4)] by simp
    have "batch_ok (snd req)" using ok sent(1) by simp
    then have "b = HighestOffset (ws_log s)" "e = None" "log_inv l" "same_log (ws_log s) l"
      "log_recs l = log_recs (ws_log s) @ number_from (HighestOffset (ws_log s)) (snd req)"
      using AppendBatch_ok [OF i(1), of "snd req" now] ap bound sent(1) h by (auto simp: batch_ok_def)
    moreover have "fst req \<notin> fst ` set (ws_done s)" using sent by simp
    ultimately show ?thesis using i h answered_snoc [OF i(3), of req s'] by (auto simp: s' same_log_def number_from_append)
  qed
  then show ?thesis using sent by (simp add: writer_inv_def s')
qed

text \<open>Steps that do not write: requests may be added behind, and answers to other requests.\<close>

lemma writer_inv_keep:
  assumes inv: "writer_inv l0 s" and d: "ws_done s' = ws_done s" and l: "ws_log s' = ws_log s"
    and q: "ws_queue s' = ws_queue s @ new" and sent: "ws_sent s' = ws_sent s @ new"
    and dist: "distinct (map fst (ws_sent s @ new))" and resp: "\<forall>k \<in> fst ` set (ws_done s). ws_resp s' k = ws_resp s k"
  shows "writer_inv l0 s'"
  unfolding writer_inv_def
proof (intro conjI impI)
  show "ws_sent s' = ws_done s' @ ws_queue s'" using inv unfolding writer_inv_def d q sent by simp
  show "distinct (map fst (ws_sent s'))" using dist sent by simp
  assume ok: "(\<forall>req \<in> set (ws_sent s'). batch_ok (snd req)) \<and> HighestOffset l0 + int (length (payload (ws_sent s'))) < 2 ^ 63"
  then have "(\<forall>req \<in> set (ws_sent s). batch_ok (snd req)) \<and> HighestOffset l0 + int (length (payload (ws_sent s))) < 2 ^ 63"
    unfolding sent by auto
  then have *: "log_inv (ws_log s)" "same_log l0 (ws_log s)" "answered (HighestOffset l0) s"
    "log_recs (ws_log s) = log_recs l0 @ number_from (HighestOffset l0) (payload (ws_done s))"
    using inv unfolding writer_inv_def by blast+
  show "log_inv (ws_log s')" "same_log l0 (ws_log s')"
    "log_recs (ws_log s') = log_recs l0 @ number_from (HighestOffset l0) (payload (ws_done s'))"
    using * l d by simp_all
  show "answered (HighestOffset l0) s'" by (rule answered_mono [OF *(3) d resp])
qed

lemma writer_step_inv:
  assumes "writer_step topic partID s s'" and "log_inv l0" and "writer_inv l0 s"
  shows "writer_inv l0 s'"
  using assms
proof (induction rule: writer_step.induct)
  case (wr_send req s s')
  have "distinct (map fst (ws_sent s))" using wr_send.prems(2) unfolding writer_inv_def by blast
  then show ?case using wr_send.hyps
    by (intro writer_inv_keep [OF wr_send.prems(2), where new = "[req]"]) (auto simp: append_send_def split: if_split_asm)
next
  case (wr_reject req s s')
  have "ws_sent s = ws_done s @ ws_queue s" "distinct (map fst (ws_sent s))"
    using wr_reject.prems(2) unfolding writer_inv_def by blast+
  moreover from this have ne: "fst req \<notin> fst ` set (ws_done s)" using wr_reject.hyps(1) by auto
  moreover obtain v where s': "s' = s\<lparr>ws_resp := (ws_resp s)(fst req \<mapsto> v)\<rparr>"
    using wr_reject.hyps(3) unfolding append_reject_def by (metis option.distinct(1) option.inject)
  then have "\<forall>k \<in> fst ` set (ws_done s). ws_resp s' k = ws_resp s k"
    using ne by (metis (no_types, lifting) fun_upd_apply s' writer_sys.select_convs(5) writer_sys.surjective writer_sys.update_convs(5))
  ultimately show ?case by (intro writer_inv_keep [OF wr_reject.prems(2), where new = "[]"]) (simp_all add: s')
next
  case (wr_take s now s')
  then show ?case using writer_take_inv by blast
next
  case (wr_return s s')
  have "distinct (map fst (ws_sent s))" using wr_return.prems(2) unfolding writer_inv_def by blast
  then show ?case using wr_return.hyps
    by (intro writer_inv_keep [OF wr_return.prems(2), where new = "[]"]) (auto simp: writer_return_def split: if_split_asm)
next
  case (wr_close s)
  have "distinct (map fst (ws_sent s))" using wr_close(2) unfolding writer_inv_def by blast
  then show ?case by (intro writer_inv_keep [OF wr_close(2), where new = "[]"]) (auto simp: close_begin_def)
qed

lemma writer_reach_inv:
  assumes "log_inv l" and "writer_reach topic partID l s"
  shows "writer_inv l s"
  using assms(2)
proof (induction rule: rtranclp_induct)
  case base
  then show ?case using assms(1) by (simp add: writer_inv_def start_writer_def answered_def same_log_def)
qed (use writer_step_inv assms(1) in blast)

section \<open>Properties\<close>

text \<open>
  C37: The writer makes concurrent appends serial. However callers, the writer and a close interleave, the log
  holds, behind what it held at the start, exactly the batches taken so far, whole and in the order in which they
  entered the channel, with consecutive offsets; every request taken is answered with the offset of its first
  record; and what has entered and is not taken yet is still in the channel.
\<close>

theorem Writer_serial:
  assumes "log_inv l" and "writer_reach topic partID l s" and "\<forall>req \<in> set (ws_sent s). batch_ok (snd req)"
    and "HighestOffset l + int (length (payload (ws_sent s))) < 2 ^ 63"
  shows "ws_sent s = ws_done s @ ws_queue s \<and>
    log_recs (ws_log s) = log_recs l @ number_from (HighestOffset l) (payload (ws_done s)) \<and>
    (\<forall>pre req post. ws_done s = pre @ req # post \<longrightarrow>
       ws_resp s (fst req) = Some (HighestOffset l + int (length (payload pre)), None))"
  using writer_reach_inv [OF assms(1,2)] assms(3,4) unfolding writer_inv_def answered_def by blast

definition demo_writer :: "writer_sys" where
  "demo_writer = the (writer_take (the (append_send (start_writer demo_log) (0, [demo_record]))) 2)"

lemma demo_writer_eq:
  "writer_reach ''t'' 0 demo_log demo_writer" "ws_sent demo_writer = [(0, [demo_record])]" "ws_done demo_writer = [(0, [demo_record])]"
proof -
  let ?s1 = "(start_writer demo_log)\<lparr>ws_queue := [(0, [demo_record])], ws_sent := [(0, [demo_record])]\<rparr>"
  have s1: "append_send (start_writer demo_log) (0, [demo_record]) = Some ?s1" by (simp add: append_send_def start_writer_def)
  then have r1: "writer_step ''t'' 0 (start_writer demo_log) ?s1"
    by (rule wr_send [rotated 2]) (simp_all add: start_writer_def)
  obtain l b e where ap: "AppendBatch demo_log [demo_record] 2 = (l, b, e)" by (metis prod_cases3)
  then have t: "writer_take ?s1 2 = Some (?s1\<lparr>ws_queue := [], ws_log := l, ws_resp := [0 \<mapsto> (b, e)], ws_done := [(0, [demo_record])]\<rparr>)"
    by (simp add: writer_take_def start_writer_def)
  have d: "demo_writer = ?s1\<lparr>ws_queue := [], ws_log := l, ws_resp := [0 \<mapsto> (b, e)], ws_done := [(0, [demo_record])]\<rparr>"
    using s1 t by (simp add: demo_writer_def)
  show "writer_reach ''t'' 0 demo_log demo_writer"
    using r1 wr_take [OF t, of "''t''" 0] d by (metis (no_types, lifting) converse_rtranclp_into_rtranclp rtranclp.rtrancl_refl)
  show "ws_sent demo_writer = [(0, [demo_record])]" "ws_done demo_writer = [(0, [demo_record])]"
    unfolding d by (simp_all add: start_writer_def)
qed

theorem Writer_serial_witness:
  "log_recs (ws_log demo_writer) = [demo_record] \<and> ws_resp demo_writer 0 = Some (0, None)"
proof -
  have ok: "\<forall>req \<in> set (ws_sent demo_writer). batch_ok (snd req)" and b: "HighestOffset demo_log + int (length (payload (ws_sent demo_writer))) < 2 ^ 63"
    using demo_writer_eq demo_record_ok demo_log_ok by (simp_all add: batch_ok_def)
  have o: "Offset demo_record = 0" by (simp add: demo_record_def)
  note w = Writer_serial [OF demo_log_ok(1) demo_writer_eq(1) ok b]
  moreover have "ws_done demo_writer = [] @ (0, [demo_record]) # []" using demo_writer_eq(3) by simp
  ultimately have "ws_resp demo_writer (fst (0 :: nat, [demo_record])) = Some (HighestOffset demo_log + int (length (payload [])), None)"
    by blast
  then show ?thesis using w demo_writer_eq(3) demo_log_ok o by simp
qed

text \<open>
  A caller that sends its request when the partition is closed and the writer has returned is never answered:
  the request stays in the channel, and nothing takes it out.
\<close>

lemma late_append_blocks:
  assumes s_def: "s = (start_writer l)\<lparr>ws_closeCh := True, ws_exited := True, ws_queue := [(0, recs)], ws_sent := [(0, recs)]\<rparr>"
  shows "writer_reach topic partID l s"
    and "(writer_step topic partID)\<^sup>*\<^sup>* s s' \<Longrightarrow> (0, recs) \<in> set (ws_queue s') \<and> ws_resp s' 0 = None"
proof -
  let ?c = "close_begin (start_writer l)" and ?e = "(close_begin (start_writer l))\<lparr>ws_exited := True\<rparr>"
  have "writer_step topic partID (start_writer l) ?c" by (rule wr_close)
  moreover have "writer_step topic partID ?c ?e"
    by (rule wr_return) (simp add: writer_return_def close_begin_def start_writer_def)
  moreover have "writer_step topic partID ?e s"
    by (rule wr_send [where req = "(0, recs)"]) (simp_all add: append_send_def close_begin_def start_writer_def s_def)
  ultimately show "writer_reach topic partID l s" by (meson converse_rtranclp_into_rtranclp rtranclp.rtrancl_refl)
  show "(0, recs) \<in> set (ws_queue s') \<and> ws_resp s' 0 = None" if "(writer_step topic partID)\<^sup>*\<^sup>* s s'"
  proof -
    have "ws_exited s' \<and> (0, recs) \<in> set (ws_queue s') \<and> (0, recs) \<in> set (ws_sent s') \<and> ws_resp s' 0 = None"
      using that
    proof (induction rule: rtranclp_induct)
      case base
      then show ?case by (simp add: s_def start_writer_def)
    next
      case (step y z)
      from step.hyps(2) step.IH show ?case
        by (cases rule: writer_step.cases)
          (auto simp: append_send_def append_reject_def writer_take_def writer_return_def close_begin_def split: if_split_asm,
            force)
    qed
    then show ?thesis by blast
  qed
qed

end
