(* ===== verification/OffsetStore.thy ===== *)
theory OffsetStore
  imports LogRecover
begin

text \<open>
  The store of committed consumer offsets, \<^verbatim>\<open>internal/coordinator/offsets.go\<close>: an in-memory cache over the partition
  logs of \<open>__consumer_offsets\<close>. The content of the directory of each log is an argument of \<open>Start\<close>; the cache is a
  HOL map. The loop that replays a log may not end for arbitrary reads, so it is a partial function; for
  well-formed logs it is shown to return.
\<close>

section \<open>State and operations\<close>

type_synonym offset_cache = "string \<rightharpoonup> int"

record OffsetStore =
  os_cache :: offset_cache
  os_numParts :: int
  os_logs :: "Log list"
  os_started :: bool

definition NewOffsetStore :: "int \<Rightarrow> OffsetStore" where
  "NewOffsetStore numPartitions =
     \<lparr>os_cache = Map.empty, os_numParts = (if numPartitions \<le> 0 then 50 else numPartitions),
      os_logs = [], os_started = False\<rparr>"

definition offsets_config :: Config where
  "offsets_config = \<lparr>SegmentBytes = 10485760, IndexMaxBytes = 1048576, IndexIntervalBytes = 4096,
     RetentionMs = -1, RetentionBytes = -1, FlushMs = 1000, FlushMessages = 0, SegmentMs = 0\<rparr>"

definition replay_record :: "offset_cache \<Rightarrow> Record \<Rightarrow> offset_cache" where
  "replay_record cache rec =
     (case (Key rec, Value rec) of
        (Some k, Some v) \<Rightarrow>
          if k = [] \<or> length v < 8 then cache
          else cache(string_of k \<mapsto> int64 (be_get (take 8 v)))
      | _ \<Rightarrow> cache)"

partial_function (option) replay :: "Log \<Rightarrow> int \<Rightarrow> offset_cache \<Rightarrow> (Log \<times> offset_cache) option" where
  "replay l offset cache =
     (case Log_ReadFrom l offset (2 ^ 30) of
        (l', records, err) \<Rightarrow>
          if err \<noteq> None \<or> records = [] then Some (l', cache)
          else replay l' (Offset (last records) + 1) (foldl replay_record cache records))"

fun start_logs :: "(nat \<Rightarrow> dirent list) \<Rightarrow> int \<Rightarrow> nat list \<Rightarrow> Log list \<Rightarrow> offset_cache \<Rightarrow> (Log list result \<times> offset_cache) option" where
  "start_logs dirs now [] logs cache = Some (Inr logs, cache)"
| "start_logs dirs now (i # is) logs cache =
     (case NewLog (dirs i) offsets_config now of
        Inl e \<Rightarrow> Some (Inl (Wrapped ''offset store: open log'' e), cache)
      | Inr l \<Rightarrow>
          (case replay l 0 cache of
             None \<Rightarrow> None
           | Some (l', cache') \<Rightarrow> start_logs dirs now is (logs @ [l']) cache'))"

definition OffsetStore_Start :: "(nat \<Rightarrow> dirent list) \<Rightarrow> int \<Rightarrow> OffsetStore \<Rightarrow> (OffsetStore \<times> go_error option) option" where
  "OffsetStore_Start dirs now s =
     (if os_started s then Some (s, None)
      else
        (case start_logs dirs now [0..<nat (os_numParts s)] [] (os_cache s) of
           None \<Rightarrow> None
         | Some (Inl e, cache) \<Rightarrow> Some (s\<lparr>os_cache := cache, os_logs := []\<rparr>, Some e)
         | Some (Inr logs, cache) \<Rightarrow> Some (s\<lparr>os_cache := cache, os_logs := logs, os_started := True\<rparr>, None)))"

definition offset_key :: "string \<Rightarrow> string \<Rightarrow> int \<Rightarrow> string" where
  "offset_key groupID topic part = groupID @ '':'' @ topic @ '':'' @ itoa part"

definition offset_part :: "int \<Rightarrow> string \<Rightarrow> nat" where
  "offset_part numParts groupID = unat (fnv32a (bytes_of groupID)) mod nat (uint32 numParts)"

definition offset_record :: "string \<Rightarrow> int \<Rightarrow> int \<Rightarrow> Record" where
  "offset_record key offset now = \<lparr>Offset = 0, Timestamp = now div 1000000, Attributes = 0,
     Key = Some (bytes_of key), Value = Some (be_put 8 offset)\<rparr>"

text \<open>The two critical sections of \<open>Commit\<close>: the cache first; then the append, undone in the cache if it fails.\<close>

definition commit_cache :: "OffsetStore \<Rightarrow> string \<Rightarrow> int \<Rightarrow> OffsetStore" where
  "commit_cache s key offset = s\<lparr>os_cache := (os_cache s)(key \<mapsto> offset)\<rparr>"

definition commit_append :: "OffsetStore \<Rightarrow> nat \<Rightarrow> string \<Rightarrow> int \<Rightarrow> int option \<Rightarrow> int \<Rightarrow> OffsetStore" where
  "commit_append s partIdx key offset old now =
     (case Log_Append (os_logs s ! partIdx) (offset_record key offset now) now of
        (l, Inr _) \<Rightarrow> s\<lparr>os_logs := (os_logs s)[partIdx := l]\<rparr>
      | (l, Inl _) \<Rightarrow> s\<lparr>os_logs := (os_logs s)[partIdx := l], os_cache := (os_cache s)(key := old)\<rparr>)"

definition OffsetStore_Commit :: "OffsetStore \<Rightarrow> string \<Rightarrow> string \<Rightarrow> int \<Rightarrow> int \<Rightarrow> int \<Rightarrow> OffsetStore result" where
  "OffsetStore_Commit s groupID topic part offset now =
     (if uint32 (os_numParts s) = 0 then Inl (Panic ''integer divide by zero'')
      else
        (let key = offset_key groupID topic part;
             partIdx = offset_part (os_numParts s) groupID;
             old = os_cache s key;
             s = commit_cache s key offset
         in if \<not> os_started s \<or> length (os_logs s) \<le> partIdx then Inr s
            else Inr (commit_append s partIdx key offset old now)))"

definition OffsetStore_Fetch :: "OffsetStore \<Rightarrow> string \<Rightarrow> string \<Rightarrow> int \<Rightarrow> int" where
  "OffsetStore_Fetch s groupID topic part =
     (case os_cache s (offset_key groupID topic part) of Some off \<Rightarrow> off | None \<Rightarrow> -1)"

text \<open>\<open>Close\<close> gives the store and the segments that each log left in its directory.\<close>

definition OffsetStore_Close :: "OffsetStore \<Rightarrow> OffsetStore \<times> Segment list list" where
  "OffsetStore_Close s =
     (if \<not> os_started s then (s, [])
      else (s\<lparr>os_logs := [], os_started := False\<rparr>, map (\<lambda>l. snd (Log_Close l)) (os_logs s)))"

section \<open>Replay\<close>

lemma budget_all: "acc + int (length (encs rs)) \<le> mx \<Longrightarrow> budget mx acc rs = rs"
  by (induction rs arbitrary: acc) auto

lemma encs_drop_le: "length (encs (drop k rs)) \<le> length (encs rs)"
  by (metis append_take_drop_id encs_simps(3) le_add2 length_append)

text \<open>While the budget is not exhausted, what is read has no gap.\<close>

lemma gather_contiguous:
  "segments_ok ss \<Longrightarrow> BaseOffset (hd ss) \<le> off \<Longrightarrow> 0 \<le> acc \<Longrightarrow>
   acc + int (length (encs (drop (nat (off - BaseOffset (hd ss))) (recs_of ss)))) \<le> mx \<Longrightarrow>
   \<exists>k. gather off mx acc ss = take k (drop (nat (off - BaseOffset (hd ss))) (recs_of ss))"
proof (induction off mx acc ss rule: gather.induct)
  case (2 off mx acc s ss)
  let ?k = "nat (off - BaseOffset s)"
  have recs: "recs_of (s # ss) = seg_recs s @ recs_of ss" by (simp add: recs_of_def)
  have size: "acc + int (length (encs (drop ?k (seg_recs s)))) + int (length (encs (drop (?k - length (seg_recs s)) (recs_of ss)))) \<le> mx"
    using 2(6) by (simp add: recs)
  show ?case
  proof (cases "ss \<noteq> [] \<and> BaseOffset (hd ss) \<le> off")
    case True
    have hd: "BaseOffset (hd ss) = seg_end s" and ok: "segments_ok ss" using segments_ok_Cons [OF 2(3)] True by auto
    have "?k - length (seg_recs s) = nat (off - BaseOffset (hd ss))" "length (seg_recs s) \<le> ?k"
      using hd True by (auto simp: seg_end_def)
    moreover from this have "drop ?k (recs_of (s # ss)) = drop (nat (off - BaseOffset (hd ss))) (recs_of ss)" by (simp add: recs)
    ultimately show ?thesis using 2(1) True ok 2(5) size by simp
  next
    case False
    define d where "d = drop ?k (seg_recs s)"
    have b: "budget (mx - acc) 0 d = d" "0 \<le> acc + int (length (encs d))"
      using size 2(5) unfolding d_def by (auto intro: budget_all)
    show ?thesis
    proof (cases "mx \<le> acc + int (length (encs d)) \<or> NextOffset s \<le> off \<or> ss = []")
      case True
      then have "gather off mx acc (s # ss) = d" using False b(1) by (auto simp: d_def Let_def)
      then show ?thesis by (auto simp: recs d_def intro!: exI [of _ "length d"])
    next
      case more: False
      have t: "segments_ok ss" "BaseOffset (hd ss) = NextOffset s" "NextOffset s = seg_end s"
        using gather_tail [OF 2(3)] 2(4) more by auto
      have k: "?k \<le> length (seg_recs s)" using more t(3) by (simp add: seg_end_def nat_le_iff)
      then have "\<exists>k. gather (NextOffset s) mx (acc + int (length (encs d))) ss = take k (drop 0 (recs_of ss))"
        using 2(2) [OF False refl refl] b t more size by (simp add: d_def)
      then obtain k where "gather (NextOffset s) mx (acc + int (length (encs d))) ss = take k (recs_of ss)" by auto
      then have "gather off mx acc (s # ss) = d @ take k (recs_of ss)" using False more b(1) by (auto simp: d_def Let_def)
      then show ?thesis using k by (auto simp: recs d_def intro!: exI [of _ "length d + k"])
    qed
  qed
qed simp

definition replay_read :: "Log \<Rightarrow> int \<Rightarrow> Log \<Rightarrow> Record list \<Rightarrow> bool" where
  "replay_read l off l' rs \<longleftrightarrow> Log_ReadFrom l off (2 ^ 30) = (l', rs, None) \<and> log_inv l' \<and> same_log l l' \<and>
     log_recs l' = log_recs l \<and> HighestOffset l' = HighestOffset l \<and> (rs = [] \<longleftrightarrow> HighestOffset l \<le> off) \<and>
     (\<forall>r \<in> set rs. off \<le> Offset r \<and> Offset r < HighestOffset l)"

lemma replay_reads:
  assumes "log_inv l" and "LowestOffset l \<le> off"
  obtains l' where "replay_read l off l' (gather off (2 ^ 30) 0 (l_segments l))"
proof -
  let ?g = "gather off (2 ^ 30) 0 (l_segments l)"
  have "(2 :: int) ^ 30 + int MaxRecordSize < 2 ^ 31" by (simp add: MaxRecordSize_def)
  then obtain l' where l': "Log_ReadFrom l off (2 ^ 30) = (l', ?g, None)" "log_inv l'" "same_log l l'" "log_recs l' = log_recs l"
    using Log_ReadFrom_gather [OF assms, of "2 ^ 30"] by auto
  have ok: "segments_ok (l_segments l)" using assms(1) by (simp add: log_inv_def)
  have low: "BaseOffset (hd (l_segments l)) \<le> off"
    using assms(2) log_nonempty [OF assms(1)] by (simp add: LowestOffset_def)
  have high: "HighestOffset l = seg_end (active l)"
    using log_nonempty [OF assms(1)] seg_inv_end [OF active_inv [OF assms(1)]] by (simp add: HighestOffset_def)
  have bound: "off \<le> Offset r \<and> Offset r < HighestOffset l" if "r \<in> set ?g" for r
  proof -
    have "r \<in> set (log_recs l)" "off \<le> Offset r" using that gather_sound [OF ok low] by (auto simp: log_recs_def)
    moreover have "contiguous (LowestOffset l) (log_recs l)" by (rule log_contiguous [OF assms(1)])
    ultimately show ?thesis using contiguous_set HighestOffset_eq [OF assms(1)] by fastforce
  qed
  have "?g \<noteq> []" if "off < HighestOffset l" using gather_progress [OF ok low] that high by simp
  moreover have "?g = []" if "HighestOffset l \<le> off" using bound that by (metis list.set_intros(1) neq_Nil_conv not_le order.strict_trans1)
  ultimately have "?g = [] \<longleftrightarrow> HighestOffset l \<le> off" by linarith
  moreover have "HighestOffset l' = HighestOffset l"
    using l'(2,3,4) assms(1) by (simp add: HighestOffset_eq same_log_def)
  ultimately show ?thesis using l' bound by (intro that [of l']) (simp add: replay_read_def)
qed

text \<open>The loop ends: each round continues behind the last record read, and reads end at the log end.\<close>

lemma replay_returns:
  assumes "log_inv l"
  shows "\<exists>l' c'. replay l off c = Some (l', c') \<and> log_inv l' \<and> same_log l l' \<and> log_recs l' = log_recs l \<and> (runs l \<longrightarrow> runs l')"
  using assms
proof (induction "nat (HighestOffset l - off)" arbitrary: l off c rule: less_induct)
  case less
  show ?case
  proof (cases "LowestOffset l \<le> off")
    case True
    then obtain l1 rs where r: "replay_read l off l1 rs" using replay_reads [OF less.prems] by metis
    have runs: "runs l1" if "runs l"
      using that r readSegments_runs [of l 0 off "2 ^ 30" "[]" 0] by (auto simp: replay_read_def Log_ReadFrom_def split: if_split_asm)
    show ?thesis
    proof (cases "rs = []")
      case True
      then show ?thesis using r runs by (auto simp: replay.simps [of l] replay_read_def)
    next
      case False
      then have "off \<le> Offset (last rs)" "Offset (last rs) < HighestOffset l"
        using r last_in_set [OF False] unfolding replay_read_def by blast+
      moreover have "HighestOffset l1 = HighestOffset l" using r by (simp add: replay_read_def)
      ultimately have "nat (HighestOffset l1 - (Offset (last rs) + 1)) < nat (HighestOffset l - off)" by linarith
      from less.hyps [OF this] show ?thesis
        using r False runs by (fastforce simp: replay.simps [of l] replay_read_def same_log_def)
    qed
  next
    case False
    then have "Log_ReadFrom l off (2 ^ 30) = (l, [], Some ErrOffsetOutOfRange)"
      using less.prems log_nonempty [OF less.prems] by (simp add: Log_ReadFrom_def log_inv_def LowestOffset_def)
    then show ?thesis using less.prems by (simp add: replay.simps [of l] same_log_def)
  qed
qed

text \<open>Up to the batch size of the loop, all records from the offset on are applied once, in order.\<close>

lemma replay_all:
  assumes "log_inv l" and "LowestOffset l \<le> off" and "length (encs (log_recs l)) \<le> 2 ^ 30"
  shows "\<exists>l'. replay l off c = Some (l', foldl replay_record c (drop (nat (off - LowestOffset l)) (log_recs l)))"
  using assms
proof (induction "nat (HighestOffset l - off)" arbitrary: l off c rule: less_induct)
  case less
  let ?k = "nat (off - LowestOffset l)" and ?rs = "gather off (2 ^ 30) 0 (l_segments l)"
  obtain l1 where r: "replay_read l off l1 ?rs" using replay_reads [OF less.prems(1,2)] .
  have len: "HighestOffset l = LowestOffset l + int (length (log_recs l))" by (rule HighestOffset_eq [OF less.prems(1)])
  show ?case
  proof (cases "?rs = []")
    case True
    then have "HighestOffset l \<le> off" using r by (simp add: replay_read_def)
    then have "length (log_recs l) \<le> ?k" using len by linarith
    then show ?thesis using r True by (simp add: replay.simps [of l] replay_read_def)
  next
    case False
    have low: "BaseOffset (hd (l_segments l)) = LowestOffset l" using log_nonempty [OF less.prems(1)] by (simp add: LowestOffset_def)
    have "segments_ok (l_segments l)" using less.prems(1) by (simp add: log_inv_def)
    then obtain k where k: "?rs = take k (drop ?k (log_recs l))"
      using gather_contiguous [of "l_segments l" off 0 "2 ^ 30"] less.prems(2,3) low
        encs_drop_le [of "nat (off - LowestOffset l)" "recs_of (l_segments l)"] by (fastforce simp: log_recs_def)
    define n where "n = length ?rs"
    have "take (length (take k d)) d = take k d" for d :: "Record list" by (metis append_eq_conv_conj append_take_drop_id)
    then have n: "?rs = take n (drop ?k (log_recs l))" unfolding n_def k by (rule sym)
    have n': "0 < n" "?k + n \<le> length (log_recs l)" using k False unfolding n_def by auto
    note n = n n'
    have "last ?rs = log_recs l ! (?k + n - 1)" using n False by (simp add: last_conv_nth n_def [symmetric])
    then have off: "Offset (last ?rs) + 1 = LowestOffset l + int (?k + n)"
      using contiguous_nth [OF log_contiguous [OF less.prems(1)], of "?k + n - 1"] n(2,3) by simp
    have l1: "log_inv l1" "LowestOffset l1 = LowestOffset l" "log_recs l1 = log_recs l" "HighestOffset l1 = HighestOffset l"
      using r by (simp_all add: replay_read_def same_log_def)
    have "nat (HighestOffset l1 - (Offset (last ?rs) + 1)) < nat (HighestOffset l - off)"
      using off n l1(4) len less.prems(2) by linarith
    moreover have "LowestOffset l1 \<le> Offset (last ?rs) + 1" "length (encs (log_recs l1)) \<le> 2 ^ 30"
      using off l1 less.prems(3) by simp_all
    ultimately have "\<exists>l2. replay l1 (Offset (last ?rs) + 1) (foldl replay_record c ?rs) =
        Some (l2, foldl replay_record (foldl replay_record c ?rs) (drop (nat (Offset (last ?rs) + 1 - LowestOffset l1)) (log_recs l1)))"
      by (intro less.hyps l1(1))
    moreover have "nat (Offset (last ?rs) + 1 - LowestOffset l1) = ?k + n" using off l1(2) by linarith
    ultimately obtain l2 where "replay l1 (Offset (last ?rs) + 1) (foldl replay_record c ?rs) =
        Some (l2, foldl replay_record (foldl replay_record c ?rs) (drop (?k + n) (log_recs l)))"
      using l1(3) by auto
    moreover have "foldl replay_record (foldl replay_record c ?rs) (drop (?k + n) (log_recs l)) =
        foldl replay_record c (drop ?k (log_recs l))"
      using n(1) by (metis append_take_drop_id drop_drop add.commute foldl_append)
    ultimately show ?thesis using r False by (simp add: replay.simps [of l] replay_read_def)
  qed
qed

section \<open>Keys\<close>

lemma colon_itoa: "CHR '':'' \<notin> set (itoa i)"
proof -
  have "char_digit (CHR '':'') = None" by (simp add: char_digit_def)
  then have "CHR '':'' \<notin> set (digits n)" for n using set_digits by fastforce
  then show ?thesis by (simp add: itoa_def)
qed

lemma split_last_colon:
  assumes "xs @ c # ys = xs' @ c # ys'" and "c \<notin> set ys" and "c \<notin> set ys'"
  shows "xs = xs' \<and> ys = ys'"
proof -
  have "takeWhile (\<lambda>x. x \<noteq> c) (ws @ c # zs) = ws" if "c \<notin> set ws" for zs ws :: "'a list"
    using that by (induction ws) auto
  then have "takeWhile (\<lambda>x. x \<noteq> c) (rev (zs @ c # ws)) = rev ws" if "c \<notin> set ws" for zs ws
    using that by (metis append.assoc append_Cons append_Nil rev.simps(2) rev_append set_rev)
  then have "rev ys = rev ys'" using assms by metis
  then show ?thesis using assms(1) by simp
qed

lemma offset_key_inj:
  assumes "offset_key g t p = offset_key g' t' p'" and "CHR '':'' \<notin> set t" and "CHR '':'' \<notin> set t'"
  shows "g = g' \<and> t = t' \<and> p = p'"
proof -
  have "(g @ CHR '':'' # t) @ CHR '':'' # itoa p = (g' @ CHR '':'' # t') @ CHR '':'' # itoa p'"
    using assms(1) by (simp add: offset_key_def)
  from split_last_colon [OF this colon_itoa colon_itoa]
  have *: "g @ CHR '':'' # t = g' @ CHR '':'' # t'" "itoa p = itoa p'" by simp_all
  show ?thesis using split_last_colon [OF *(1) assms(2,3)] itoa_inj [OF *(2)] by simp
qed

section \<open>Invariant\<close>

definition offset_entry :: "int \<Rightarrow> nat \<Rightarrow> Record \<Rightarrow> bool" where
  "offset_entry n i r \<longleftrightarrow> (\<exists>g t p off. CHR '':'' \<notin> set t \<and> in_s 32 p \<and> in_s 64 off \<and> offset_part n g = i \<and>
     Key r = Some (bytes_of (offset_key g t p)) \<and> Value r = Some (be_put 8 off))"

definition offsets_log :: "int \<Rightarrow> nat \<Rightarrow> Log \<Rightarrow> bool" where
  "offsets_log n i l \<longleftrightarrow> runs l \<and> LowestOffset l = 0 \<and> l_config l = withDefaults offsets_config \<and>
     length (encs (log_recs l)) \<le> 2 ^ 30 \<and> (\<forall>r \<in> set (log_recs l). offset_entry n i r)"

definition os_inv :: "OffsetStore \<Rightarrow> bool" where
  "os_inv s \<longleftrightarrow> os_started s \<and> 0 < os_numParts s \<and> os_numParts s < 2 ^ 32 \<and> length (os_logs s) = nat (os_numParts s) \<and>
     (\<forall>i < length (os_logs s). offsets_log (os_numParts s) i (os_logs s ! i)) \<and>
     os_cache s = foldl replay_record Map.empty (concat (map log_recs (os_logs s)))"

lemma replay_entry:
  assumes "Key r = Some (bytes_of (offset_key g t p))" and "Value r = Some (be_put 8 off)" and "in_s 64 off"
  shows "replay_record c r = c(offset_key g t p \<mapsto> off)"
proof -
  have "int64 (be_get (be_put 8 off)) = off" using be_signed_roundtrip [of 8 off] assms(3) by simp
  moreover have "bytes_of (offset_key g t p) \<noteq> []" by (simp add: offset_key_def bytes_of_def)
  ultimately show ?thesis using assms(1,2) by (simp add: replay_record_def)
qed

lemma replay_commute:
  assumes "\<forall>r \<in> set rs. \<forall>k. Key r = Some k \<longrightarrow> string_of k \<noteq> key"
  shows "foldl replay_record (c(key \<mapsto> v)) rs = (foldl replay_record c rs)(key \<mapsto> v)"
  using assms
proof (induction rs arbitrary: c)
  case (Cons r rs)
  have "replay_record (c(key \<mapsto> v)) r = (replay_record c r)(key \<mapsto> v)"
    using Cons.prems by (auto simp: replay_record_def fun_upd_twist split: option.split)
  then show ?case using Cons.IH [of "replay_record c r"] Cons.prems by (simp del: fun_upd_apply)
qed simp

section \<open>Starting\<close>

lemma offsets_config_ok: "config_ok (withDefaults offsets_config)"
  by (simp add: config_ok_def withDefaults_def offsets_config_def MaxUint32_def entrySize_def)

lemma NewLog_config: "NewLog dir cfg now = Inr l \<Longrightarrow> l_config l = withDefaults cfg"
  by (auto simp: NewLog_def Let_def set_active_def split: if_split_asm sum.split_asm prod.split_asm option.split_asm)

lemma start_logs_ok:
  assumes "\<forall>i \<in> set is. \<exists>l. NewLog (dirs i) offsets_config now = Inr l \<and> runs l \<and> LowestOffset l = 0 \<and>
      length (encs (log_recs l)) \<le> 2 ^ 30 \<and> log_recs l = rs i"
  shows "\<exists>ls. start_logs dirs now is logs c = Some (Inr (logs @ ls), foldl replay_record c (concat (map rs is))) \<and>
    list_all2 (\<lambda>l i. runs l \<and> LowestOffset l = 0 \<and> log_recs l = rs i \<and> l_config l = withDefaults offsets_config) ls is"
  using assms
proof (induction "is" arbitrary: logs c)
  case (Cons i "is")
  obtain l where l: "NewLog (dirs i) offsets_config now = Inr l" "runs l" "LowestOffset l = 0"
    "length (encs (log_recs l)) \<le> 2 ^ 30" "log_recs l = rs i"
    using Cons.prems by auto
  have inv: "log_inv l" using l(2) by (simp add: runs_def)
  obtain l' where l': "replay l 0 c = Some (l', foldl replay_record c (rs i))"
    using replay_all [OF inv, of 0] l(3-5) by fastforce
  then have "runs l'" "LowestOffset l' = 0" "log_recs l' = rs i" "l_config l' = withDefaults offsets_config"
    using replay_returns [OF inv, of 0 c] l NewLog_config [OF l(1)] by (auto simp: same_log_def)
  then show ?case using Cons.IH [of "logs @ [l']" "foldl replay_record c (rs i)"] Cons.prems l(1) l' by fastforce
qed simp

lemma Start_ok:
  assumes "\<forall>i < nat (os_numParts s). \<exists>l. NewLog (dirs i) offsets_config now = Inr l \<and> runs l \<and> LowestOffset l = 0 \<and>
      length (encs (log_recs l)) \<le> 2 ^ 30 \<and> log_recs l = rs i \<and> (\<forall>r \<in> set (rs i). offset_entry (os_numParts s) i r)"
    and "\<not> os_started s" and "0 < os_numParts s" and "os_numParts s < 2 ^ 32" and "os_cache s = Map.empty"
  shows "\<exists>s'. OffsetStore_Start dirs now s = Some (s', None) \<and> os_inv s' \<and> os_numParts s' = os_numParts s \<and>
    os_cache s' = foldl replay_record Map.empty (concat (map rs [0..<nat (os_numParts s)])) \<and>
    map log_recs (os_logs s') = map rs [0..<nat (os_numParts s)]"
proof -
  let ?n = "nat (os_numParts s)"
  obtain ls where ls: "start_logs dirs now [0..<?n] [] Map.empty = Some (Inr ls, foldl replay_record Map.empty (concat (map rs [0..<?n])))"
    and all: "list_all2 (\<lambda>l i. runs l \<and> LowestOffset l = 0 \<and> log_recs l = rs i \<and> l_config l = withDefaults offsets_config) ls [0..<?n]"
    using start_logs_ok [of "[0..<?n]" dirs now rs "[]" Map.empty] assms(1) by fastforce
  have len: "length ls = ?n" using all by (auto dest: list_all2_lengthD)
  have nth: "runs (ls ! i) \<and> LowestOffset (ls ! i) = 0 \<and> log_recs (ls ! i) = rs i \<and> l_config (ls ! i) = withDefaults offsets_config"
    if "i < ?n" for i using list_all2_nthD [OF all, of i] that len by simp
  then have recs: "map log_recs ls = map rs [0..<?n]" using len by (auto intro: nth_equalityI)
  then have "os_inv (s\<lparr>os_cache := foldl replay_record Map.empty (concat (map rs [0..<?n])), os_logs := ls, os_started := True\<rparr>)"
    using nth len assms(1,3,4) by (fastforce simp: os_inv_def offsets_log_def)
  then show ?thesis using ls recs assms(2,5) by (simp add: OffsetStore_Start_def)
qed

lemma Start_fresh:
  assumes "n < 2 ^ 32"
  shows "\<exists>s. OffsetStore_Start (\<lambda>_. []) now (NewOffsetStore n) = Some (s, None) \<and> os_inv s \<and> os_cache s = Map.empty
    \<and> os_numParts s = os_numParts (NewOffsetStore n) \<and> (\<forall>l \<in> set (os_logs s). log_recs l = [])"
proof -
  obtain l where l: "NewLog [] offsets_config now = Inr l" "log_recs l = []" "LowestOffset l = 0"
    using NewLog_empty [OF offsets_config_ok, of now] by blast
  then have "runs l" using log_life_runs [OF offsets_config_ok log_life.create] by blast
  then have "\<exists>s'. OffsetStore_Start (\<lambda>_. []) now (NewOffsetStore n) = Some (s', None) \<and> os_inv s' \<and>
      os_numParts s' = os_numParts (NewOffsetStore n) \<and>
      os_cache s' = foldl replay_record Map.empty (concat (map (\<lambda>_. []) [0..<nat (os_numParts (NewOffsetStore n))])) \<and>
      map log_recs (os_logs s') = map (\<lambda>_. []) [0..<nat (os_numParts (NewOffsetStore n))]"
    using l assms by (intro Start_ok) (auto simp: NewOffsetStore_def)
  moreover have "concat (map (\<lambda>_. []) xs) = ([] :: Record list)" for xs :: "nat list" by (induction xs) auto
  moreover have "\<forall>l \<in> set ls. log_recs l = []" if "map log_recs ls = map (\<lambda>_. []) xs" for ls and xs :: "nat list"
    using arg_cong [OF that, of set] by auto
  ultimately show ?thesis by (metis foldl_Nil)
qed

text \<open>Closing the store and starting a new one on what was left in the directories.\<close>

definition restarted :: "(int \<Rightarrow> int) \<Rightarrow> int \<Rightarrow> OffsetStore \<Rightarrow> (OffsetStore \<times> go_error option) option" where
  "restarted mtime now s =
     OffsetStore_Start (\<lambda>i. dir_of mtime (snd (OffsetStore_Close s) ! i)) now (NewOffsetStore (os_numParts s))"

lemma NewLog_defaults: "NewLog dir (withDefaults cfg) now = NewLog dir cfg now"
  by (simp add: NewLog_def withDefaults_idem)

lemma restarted_ok:
  assumes "os_inv s"
  shows "\<exists>s'. restarted mtime now s = Some (s', None) \<and> os_inv s' \<and> os_numParts s' = os_numParts s \<and> os_cache s' = os_cache s"
proof -
  let ?rs = "\<lambda>i. log_recs (os_logs s ! i)" and ?n = "nat (os_numParts s)"
  let ?dirs = "\<lambda>i. dir_of mtime (snd (OffsetStore_Close s) ! i)"
  have len: "length (os_logs s) = ?n" using assms by (simp add: os_inv_def)
  have "\<exists>l. NewLog (?dirs i) offsets_config now = Inr l \<and> runs l \<and> LowestOffset l = 0 \<and>
      length (encs (log_recs l)) \<le> 2 ^ 30 \<and> log_recs l = ?rs i \<and> (\<forall>r \<in> set (?rs i). offset_entry (os_numParts s) i r)" if "i < ?n" for i
  proof -
    have ol: "offsets_log (os_numParts s) i (os_logs s ! i)" using assms that len by (simp add: os_inv_def)
    then obtain l where "NewLog (dir_of mtime (snd (Log_Close (os_logs s ! i)))) offsets_config now = Inr l" "runs l"
      "LowestOffset l = 0" "log_recs l = ?rs i"
      using close_reopens [of "os_logs s ! i" mtime now] by (auto simp: offsets_log_def NewLog_defaults)
    then show ?thesis using ol that len assms by (auto simp: OffsetStore_Close_def os_inv_def offsets_log_def)
  qed
  then have files: "\<forall>i < ?n. \<exists>l. NewLog (?dirs i) offsets_config now = Inr l \<and> runs l \<and> LowestOffset l = 0 \<and>
      length (encs (log_recs l)) \<le> 2 ^ 30 \<and> log_recs l = ?rs i \<and> (\<forall>r \<in> set (?rs i). offset_entry (os_numParts s) i r)" by blast
  have n: "0 < os_numParts s" "os_numParts s < 2 ^ 32" using assms by (simp_all add: os_inv_def)
  then have new: "os_numParts (NewOffsetStore (os_numParts s)) = os_numParts s"
    "\<not> os_started (NewOffsetStore (os_numParts s))" "os_cache (NewOffsetStore (os_numParts s)) = Map.empty"
    by (simp_all add: NewOffsetStore_def)
  from Start_ok [of "NewOffsetStore (os_numParts s)" ?dirs now ?rs, unfolded new(1), OF files new(2) n new(3)]
  have "\<exists>s'. restarted mtime now s = Some (s', None) \<and> os_inv s' \<and> os_numParts s' = os_numParts s \<and>
      os_cache s' = foldl replay_record Map.empty (concat (map ?rs [0..<?n]))"
    unfolding restarted_def by blast
  moreover have "map ?rs [0..<?n] = map log_recs (os_logs s)" using len by (auto intro: nth_equalityI)
  ultimately show ?thesis using assms by (simp add: os_inv_def)
qed

section \<open>Committing\<close>

text \<open>Commits that the wire can carry, with a topic name without colon and room in the log of the group.\<close>

definition commit_ok :: "OffsetStore \<Rightarrow> string \<Rightarrow> string \<Rightarrow> int \<Rightarrow> int \<Rightarrow> int \<Rightarrow> bool" where
  "commit_ok s g t p off now \<longleftrightarrow>
     length g \<le> 32767 \<and> length t \<le> 32767 \<and> CHR '':'' \<notin> set t \<and> in_s 32 p \<and> in_s 64 off \<and> in_s 64 (now div 1000000) \<and>
     length (encs (log_recs (os_logs s ! offset_part (os_numParts s) g))) +
       EncodedSize (offset_record (offset_key g t p) off now) \<le> 2 ^ 30"

lemma offset_record_ok:
  assumes "commit_ok s g t p off now"
  shows "typed_record (offset_record (offset_key g t p) off now)"
    and "EncodedSize (offset_record (offset_key g t p) off now) \<le> MaxRecordSize"
proof -
  have "nat \<bar>p\<bar> < 10 ^ 10" using assms by (auto simp: commit_ok_def in_s_def)
  then have "length (digits (nat \<bar>p\<bar>)) \<le> 10" by (rule length_digits) simp
  then have "length (itoa p) \<le> 11" by (auto simp: itoa_def split: if_split_asm)
  then show "EncodedSize (offset_record (offset_key g t p) off now) \<le> MaxRecordSize"
    using assms by (simp add: offset_record_def offset_key_def EncodedSize_def MaxRecordSize_def commit_ok_def)
  show "typed_record (offset_record (offset_key g t p) off now)"
    using assms by (simp add: offset_record_def typed_record_def commit_ok_def in_s_def)
qed

lemma offset_part_less: "0 < n \<Longrightarrow> n < 2 ^ 32 \<Longrightarrow> offset_part n g < nat n"
  by (simp add: offset_part_def wrap_u_def)

lemma replay_insert:
  assumes "i < length logs" and "log_recs l = log_recs (logs ! i) @ [r]" and "\<And>c. replay_record c r = c(key \<mapsto> v)"
    and "\<And>j r. j < length logs \<Longrightarrow> i < j \<Longrightarrow> r \<in> set (log_recs (logs ! j)) \<Longrightarrow> \<forall>k. Key r = Some k \<longrightarrow> string_of k \<noteq> key"
  shows "foldl replay_record c (concat (map log_recs (logs[i := l]))) =
    (foldl replay_record c (concat (map log_recs logs)))(key \<mapsto> v)"
proof -
  let ?A = "concat (map log_recs (take i logs))" and ?B = "concat (map log_recs (drop (Suc i) logs))"
  have "logs[i := l] = take i logs @ l # drop (Suc i) logs" using assms(1) by (simp add: upd_conv_take_nth_drop)
  moreover have "logs = take i logs @ logs ! i # drop (Suc i) logs" using assms(1) by (simp add: id_take_nth_drop)
  ultimately have eq: "concat (map log_recs (logs[i := l])) = ?A @ log_recs (logs ! i) @ r # ?B"
    "concat (map log_recs logs) = ?A @ log_recs (logs ! i) @ ?B"
    using assms(2) by (simp_all, metis concat.simps(2) concat_append list.simps(9) map_append)
  have "\<forall>r \<in> set ?B. \<forall>k. Key r = Some k \<longrightarrow> string_of k \<noteq> key"
  proof
    fix r
    assume "r \<in> set ?B"
    then obtain lg where "lg \<in> set (drop (Suc i) logs)" "r \<in> set (log_recs lg)" by auto
    then obtain m where m: "m < length (drop (Suc i) logs)" "r \<in> set (log_recs (drop (Suc i) logs ! m))"
      by (metis in_set_conv_nth)
    then show "\<forall>k. Key r = Some k \<longrightarrow> string_of k \<noteq> key" using assms(4) [of "Suc i + m" r] by simp
  qed
  from replay_commute [OF this] show ?thesis unfolding eq by (simp add: assms(3) del: fun_upd_apply)
qed

lemma Commit_ok:
  assumes inv: "os_inv s" and ok: "commit_ok s g t p off now"
  shows "\<exists>s'. OffsetStore_Commit s g t p off now = Inr s' \<and> os_inv s' \<and> os_numParts s' = os_numParts s \<and>
    os_cache s' = (os_cache s)(offset_key g t p \<mapsto> off)"
proof -
  let ?i = "offset_part (os_numParts s) g" and ?key = "offset_key g t p"
  let ?r = "offset_record ?key off now" and ?l = "os_logs s ! offset_part (os_numParts s) g"
  have n: "0 < os_numParts s" "os_numParts s < 2 ^ 32" "uint32 (os_numParts s) = os_numParts s"
    using inv by (simp_all add: os_inv_def wrap_u_def)
  have i: "?i < length (os_logs s)" using offset_part_less [OF n(1,2)] inv by (simp add: os_inv_def)
  have ol: "offsets_log (os_numParts s) ?i ?l" using inv i by (simp add: os_inv_def)
  have li: "log_inv ?l" "runs ?l" using ol by (simp_all add: offsets_log_def runs_def)
  have "33 * length (log_recs ?l) \<le> 2 ^ 30" using ol length_encs_ge [of "log_recs ?l"] by (simp add: offsets_log_def)
  then have high: "HighestOffset ?l < 2 ^ 63 - 1" using HighestOffset_eq [OF li(1)] ol by (simp add: offsets_log_def)
  obtain l where l: "Log_Append ?l ?r now = (l, Inr (HighestOffset ?l))" "same_log ?l l"
    "log_recs l = log_recs ?l @ [?r\<lparr>Offset := HighestOffset ?l\<rparr>]"
    using Log_Append_ok [OF li(1) offset_record_ok(1) [OF ok] high offset_record_ok(2) [OF ok], of now] by blast
  have runs: "runs l"
    using append_one_runs(1) [OF li(2) offset_record_ok(1) [OF ok] high, of now] l(1) li(1) by (simp add: Log_Append_def log_inv_def)
  let ?r' = "?r\<lparr>Offset := HighestOffset ?l\<rparr>"
  have key: "Key ?r' = Some (bytes_of ?key)" "Value ?r' = Some (be_put 8 off)" by (simp_all add: offset_record_def)
  have ok': "CHR '':'' \<notin> set t" "in_s 32 p" "in_s 64 off" using ok by (simp_all add: commit_ok_def)
  have "offset_entry (os_numParts s) ?i ?r'" using key ok' unfolding offset_entry_def by blast
  moreover have "EncodedSize ?r' = EncodedSize ?r" by (simp add: EncodedSize_def offset_record_def)
  ultimately have ol': "offsets_log (os_numParts s) ?i l"
    using ol runs l(2,3) ok by (auto simp: offsets_log_def same_log_def commit_ok_def)
  have other: "\<forall>k. Key r = Some k \<longrightarrow> string_of k \<noteq> ?key"
    if "j < length (os_logs s)" "?i < j" "r \<in> set (log_recs (os_logs s ! j))" for j r
  proof -
    have "offset_entry (os_numParts s) j r" using inv that by (simp add: os_inv_def offsets_log_def)
    then obtain g' t' p' where "CHR '':'' \<notin> set t'" "offset_part (os_numParts s) g' = j" "Key r = Some (bytes_of (offset_key g' t' p'))"
      by (auto simp: offset_entry_def)
    then show ?thesis using offset_key_inj [of g t p g' t' p'] ok'(1) that(2) by auto
  qed
  have "foldl replay_record Map.empty (concat (map log_recs ((os_logs s)[?i := l]))) = (os_cache s)(?key \<mapsto> off)"
    using replay_insert [OF i l(3) replay_entry [OF key ok'(3)] other, where c = Map.empty] inv by (simp add: os_inv_def del: fun_upd_apply)
  moreover have "offsets_log (os_numParts s) j ((os_logs s)[?i := l] ! j)" if "j < length (os_logs s)" for j
    using ol' inv that by (cases "j = ?i") (simp_all add: os_inv_def)
  ultimately have "os_inv (s\<lparr>os_cache := (os_cache s)(?key \<mapsto> off), os_logs := (os_logs s)[?i := l]\<rparr>)"
    using inv by (simp add: os_inv_def del: fun_upd_apply)
  then show ?thesis using l(1) i inv n(1,3)
    by (simp add: OffsetStore_Commit_def commit_cache_def commit_append_def Let_def os_inv_def del: fun_upd_apply)
qed

section \<open>The store as a durable map\<close>

text \<open>What a service that keeps a map over restarts promises, and what its clients get from it.\<close>

fun history :: "('o \<Rightarrow> 's \<Rightarrow> 's \<Rightarrow> bool) \<Rightarrow> 's \<Rightarrow> 'o list \<Rightarrow> 's \<Rightarrow> bool" where
  "history step s [] s' \<longleftrightarrow> s' = s"
| "history step s (a # as) s' \<longleftrightarrow> (\<exists>s1. step a s s1 \<and> history step s1 as s')"

fun last_write :: "('o \<Rightarrow> ('k \<times> 'v) option) \<Rightarrow> 'k \<Rightarrow> 'v option \<Rightarrow> 'o list \<Rightarrow> 'v option" where
  "last_write w k v [] = v"
| "last_write w k v (a # as) =
     last_write w k (case w a of Some (k', v') \<Rightarrow> if k' = k then Some v' else v | None \<Rightarrow> v) as"

locale durable_map =
  fixes inv :: "'s \<Rightarrow> bool" and get :: "'s \<Rightarrow> 'k \<Rightarrow> 'v option" and step :: "'o \<Rightarrow> 's \<Rightarrow> 's \<Rightarrow> bool"
    and writes :: "'o \<Rightarrow> ('k \<times> 'v) option" and keys :: "'k set"
  assumes step_inv: "inv s \<Longrightarrow> step a s s' \<Longrightarrow> inv s'"
    and step_get: "inv s \<Longrightarrow> step a s s' \<Longrightarrow> k \<in> keys \<Longrightarrow>
      get s' k = (case writes a of Some (k', v) \<Rightarrow> if k' = k then Some v else get s k | None \<Rightarrow> get s k)"
begin

lemma history_get:
  "inv s \<Longrightarrow> history step s as s' \<Longrightarrow> k \<in> keys \<Longrightarrow> inv s' \<and> get s' k = last_write writes k (get s k) as"
proof (induction "as" arbitrary: s)
  case (Cons a "as")
  then obtain s1 where "step a s s1" "history step s1 as s'" by auto
  then show ?case using Cons.IH [of s1] Cons.prems step_inv [of s a s1] step_get [of s a s1 k] by simp
qed simp

end

datatype offset_op = CommitOp string string int int int | RestartOp "int \<Rightarrow> int" int

fun os_step :: "offset_op \<Rightarrow> OffsetStore \<Rightarrow> OffsetStore \<Rightarrow> bool" where
  "os_step (CommitOp g t p off now) s s' \<longleftrightarrow> commit_ok s g t p off now \<and> OffsetStore_Commit s g t p off now = Inr s'"
| "os_step (RestartOp mtime now) s s' \<longleftrightarrow> restarted mtime now s = Some (s', None)"

fun os_writes :: "offset_op \<Rightarrow> ((string \<times> string \<times> int) \<times> int) option" where
  "os_writes (CommitOp g t p off now) = Some ((g, t, p), off)"
| "os_writes (RestartOp mtime now) = None"

definition os_abs :: "OffsetStore \<Rightarrow> string \<times> string \<times> int \<Rightarrow> int option" where
  "os_abs s k = (case k of (g, t, p) \<Rightarrow> os_cache s (offset_key g t p))"

definition os_keys :: "(string \<times> string \<times> int) set" where
  "os_keys = {(g, t, p). CHR '':'' \<notin> set t}"

lemma os_abs_commit:
  assumes "os_cache s' = (os_cache s)(offset_key g t p \<mapsto> off)" and "CHR '':'' \<notin> set t" and "k \<in> os_keys"
  shows "os_abs s' k = (if (g, t, p) = k then Some off else os_abs s k)"
proof -
  obtain g' t' p' where k: "k = (g', t', p')" "CHR '':'' \<notin> set t'" using assms(3) by (auto simp: os_keys_def)
  have "offset_key g' t' p' = offset_key g t p \<longleftrightarrow> (g, t, p) = k"
    using offset_key_inj [OF _ k(2) assms(2)] k(1) by auto
  then show ?thesis using assms(1) k(1) by (simp add: os_abs_def)
qed

interpretation os: durable_map os_inv os_abs os_step os_writes os_keys
proof
  fix s a s' k
  assume inv: "os_inv s" and step: "os_step a s s'"
  show "os_inv s'"
  proof (cases a)
    case (CommitOp g t p off now)
    then show ?thesis using step Commit_ok [OF inv, of g t p off now] by auto
  next
    case (RestartOp mtime now)
    then show ?thesis using step restarted_ok [OF inv, of mtime now] by auto
  qed
  assume k: "k \<in> os_keys"
  show "os_abs s' k = (case os_writes a of Some (k', v) \<Rightarrow> if k' = k then Some v else os_abs s k | None \<Rightarrow> os_abs s k)"
  proof (cases a)
    case (CommitOp g t p off now)
    then have "os_cache s' = (os_cache s)(offset_key g t p \<mapsto> off)" "CHR '':'' \<notin> set t"
      using step Commit_ok [OF inv, of g t p off now] by (auto simp: commit_ok_def simp del: fun_upd_apply)
    then show ?thesis using os_abs_commit k CommitOp by simp
  next
    case (RestartOp mtime now)
    then show ?thesis using step restarted_ok [OF inv, of mtime now] by (auto simp: os_abs_def split: prod.split)
  qed
qed

section \<open>Properties\<close>





text \<open>
  C35: Committed offsets are durable. After any history of commits and restarts from a fresh store, the offset
  fetched for a group, a topic without colon and a partition is the one committed last for them, or -1 when
  there was none.
\<close>

theorem Offsets_durable:
  assumes "OffsetStore_Start (\<lambda>_. []) now (NewOffsetStore n) = Some (s0, None)" and "n < 2 ^ 32"
    and "history os_step s0 ops s" and "CHR '':'' \<notin> set t"
  shows "OffsetStore_Fetch s g t p = (case last_write os_writes (g, t, p) None ops of Some off \<Rightarrow> off | None \<Rightarrow> -1)"
proof -
  have s0: "os_inv s0" "os_cache s0 = Map.empty" using Start_fresh [OF assms(2), of now] assms(1) by auto
  have "(g, t, p) \<in> os_keys" using assms(4) by (simp add: os_keys_def)
  then have "os_abs s (g, t, p) = last_write os_writes (g, t, p) (os_abs s0 (g, t, p)) ops"
    using os.history_get [OF s0(1) assms(3)] by blast
  then show ?thesis using s0(2) by (simp add: os_abs_def OffsetStore_Fetch_def)
qed

theorem Offsets_durable_witness:
  "\<exists>s0 s. OffsetStore_Start (\<lambda>_. []) 0 (NewOffsetStore 1) = Some (s0, None) \<and>
     history os_step s0 [CommitOp ''g'' ''t'' 0 7 0, RestartOp (\<lambda>_. 0) 0] s \<and> OffsetStore_Fetch s ''g'' ''t'' 0 = 7"
proof -
  obtain s0 where s0: "OffsetStore_Start (\<lambda>_. []) 0 (NewOffsetStore 1) = Some (s0, None)" "os_inv s0"
    "os_numParts s0 = 1" "\<forall>l \<in> set (os_logs s0). log_recs l = []"
    using Start_fresh [of 1 0] by (auto simp: NewOffsetStore_def)
  have "offset_part (os_numParts s0) ''g'' < length (os_logs s0)"
    using offset_part_less [of 1 "''g''"] s0(2,3) by (simp add: os_inv_def)
  then have "log_recs (os_logs s0 ! offset_part (os_numParts s0) ''g'') = []" using s0(4) by simp
  then have ok: "commit_ok s0 ''g'' ''t'' 0 7 0"
    by (simp add: commit_ok_def in_s_def offset_record_def EncodedSize_def offset_key_def itoa_def digits.simps)
  obtain s1 where s1: "OffsetStore_Commit s0 ''g'' ''t'' 0 7 0 = Inr s1" "os_inv s1" using Commit_ok [OF s0(2) ok] by blast
  obtain s where s: "restarted (\<lambda>_. 0) 0 s1 = Some (s, None)" using restarted_ok [OF s1(2)] by blast
  have "history os_step s0 [CommitOp ''g'' ''t'' 0 7 0, RestartOp (\<lambda>_. 0) 0] s" using ok s1 s by auto
  then show ?thesis using Offsets_durable [OF s0(1) _ _ , of "[CommitOp ''g'' ''t'' 0 7 0, RestartOp (\<lambda>_. 0) 0]" s "''t''" "''g''" 0] s0(1) by auto
qed

end
