(* ===== verification/Purgatory.thy ===== *)
theory Purgatory
  imports Isr "HOL-Library.Multiset"
begin

text \<open>
  Waiting for replication: the purgatory of \<^verbatim>\<open>internal/replication/replication.go\<close> and its use by
  \<open>waitForAcksAll\<close> in \<^verbatim>\<open>internal/broker/broker_replication.go\<close>.

  A produce request with acks=all runs concurrently with the handlers that advance high watermarks. The
  step relation \<open>acks_step\<close> interleaves them at the granularity of the critical sections, and the theorems
  show that no wake-up is lost and that success is only reported for a record that is replicated.
\<close>

section \<open>The purgatory\<close>

text \<open>A channel of capacity one: a non-blocking send is dropped when the buffer is full.\<close>

type_synonym chans = "nat \<Rightarrow> go_error option list"

definition send_nb :: "nat \<Rightarrow> go_error option \<Rightarrow> chans \<Rightarrow> chans" where
  "send_nb ch v cs = (if length (cs ch) < 1 then cs(ch := cs ch @ [v]) else cs)"

record ProduceRequestItem =
  pi_ID :: int
  pi_Topic :: string
  pi_Partition :: int
  pi_RequiredHW :: int
  pi_RespCh :: nat

record Purgatory =
  p_items :: "ProduceRequestItem list"
  p_nextID :: int

definition NewPurgatory :: Purgatory where
  "NewPurgatory = \<lparr>p_items = [], p_nextID = 0\<rparr>"

definition Watch :: "Purgatory \<Rightarrow> string \<Rightarrow> int \<Rightarrow> int \<Rightarrow> nat \<Rightarrow> Purgatory \<times> int" where
  "Watch p topic part requiredHW respCh =
     (let k = int64 (p_nextID p + 1)
      in (p\<lparr>p_nextID := k,
            p_items := filter (\<lambda>it. pi_ID it \<noteq> k) (p_items p) @
              [\<lparr>pi_ID = k, pi_Topic = topic, pi_Partition = part, pi_RequiredHW = requiredHW, pi_RespCh = respCh\<rparr>]\<rparr>,
          k))"

definition completes :: "string \<Rightarrow> int \<Rightarrow> int \<Rightarrow> ProduceRequestItem \<Rightarrow> bool" where
  "completes topic part currentHW it \<longleftrightarrow>
     pi_Topic it = topic \<and> pi_Partition it = part \<and> pi_RequiredHW it \<le> currentHW"

definition CheckAndComplete :: "Purgatory \<Rightarrow> chans \<Rightarrow> string \<Rightarrow> int \<Rightarrow> int \<Rightarrow> Purgatory \<times> chans" where
  "CheckAndComplete p cs topic part currentHW =
     (p\<lparr>p_items := filter (\<lambda>it. \<not> completes topic part currentHW it) (p_items p)\<rparr>,
      fold (\<lambda>it. send_nb (pi_RespCh it) None) (filter (completes topic part currentHW) (p_items p)) cs)"

definition Cancel :: "Purgatory \<Rightarrow> int \<Rightarrow> Purgatory" where
  "Cancel p k = p\<lparr>p_items := filter (\<lambda>it. pi_ID it \<noteq> k) (p_items p)\<rparr>"

section \<open>Waiters and handlers\<close>

text \<open>Where a call of \<open>waitForAcksAll\<close> is: the points between its critical sections.\<close>

datatype wait_pc =
    AtStart | AtWatch | AtRecheck int | AtSecondRead int | AtComplete int int | AtDeadline int
  | Blocked int | Returned "go_error option"

record waiter =
  w_topic :: string
  w_part :: int
  w_required :: int
  w_pc :: wait_pc

text \<open>
  The state: the high watermarks of the trackers, the purgatory, the channels (a waiter creates its own, so
  it has the number of the waiter), the handlers between \<open>UpdateLEO\<close> and \<open>CheckAndComplete\<close> with the
  watermark they got, and the waiters.
\<close>

record acks_sys =
  a_hw :: "string \<Rightarrow> int \<Rightarrow> int"
  a_purg :: Purgatory
  a_chans :: chans
  a_pending :: "(string \<times> int \<times> int) multiset"
  a_waiters :: "nat \<rightharpoonup> waiter"

definition hw_of :: "acks_sys \<Rightarrow> waiter \<Rightarrow> int" where
  "hw_of s w = a_hw s (w_topic w) (w_part w)"

definition goto :: "acks_sys \<Rightarrow> nat \<Rightarrow> waiter \<Rightarrow> wait_pc \<Rightarrow> acks_sys" where
  "goto s n w pc = s\<lparr>a_waiters := (a_waiters s)(n \<mapsto> w\<lparr>w_pc := pc\<rparr>)\<rparr>"

text \<open>
  The critical sections of one call, by the point it is at. \<open>late\<close> is the outcome of the test of the
  deadline, or of the timer winning the race with the channel.
\<close>

definition wait_section :: "acks_sys \<Rightarrow> nat \<Rightarrow> waiter \<Rightarrow> bool \<Rightarrow> acks_sys option" where
  "wait_section s n w late =
     (case w_pc w of
        AtStart \<Rightarrow> Some (goto s n w (if w_required w \<le> 0 \<or> w_required w \<le> hw_of s w then Returned None else AtWatch))
      | AtWatch \<Rightarrow>
          (let (p, k) = Watch (a_purg s) (w_topic w) (w_part w) (w_required w) n
           in Some (goto (s\<lparr>a_purg := p\<rparr>) n w (AtRecheck k)))
      | AtRecheck k \<Rightarrow> Some (goto s n w (if w_required w \<le> hw_of s w then AtSecondRead k else AtDeadline k))
      | AtSecondRead k \<Rightarrow> Some (goto s n w (AtComplete k (hw_of s w)))
      | AtComplete k h \<Rightarrow>
          (let (p, cs) = CheckAndComplete (a_purg s) (a_chans s) (w_topic w) (w_part w) h
           in Some (goto (s\<lparr>a_purg := p, a_chans := cs\<rparr>) n w (AtDeadline k)))
      | AtDeadline k \<Rightarrow>
          (if late then Some (goto (s\<lparr>a_purg := Cancel (a_purg s) k\<rparr>) n w (Returned (Some ErrProduceTimeout)))
           else Some (goto s n w (Blocked k)))
      | Blocked k \<Rightarrow>
          (if late then Some (goto (s\<lparr>a_purg := Cancel (a_purg s) k\<rparr>) n w (Returned (Some ErrProduceTimeout)))
           else (case a_chans s n of
                   [] \<Rightarrow> None
                 | v # vs \<Rightarrow> Some (goto (s\<lparr>a_chans := (a_chans s)(n := vs)\<rparr>) n w (Returned v))))
      | Returned _ \<Rightarrow> None)"

inductive acks_step :: "acks_sys \<Rightarrow> acks_sys \<Rightarrow> bool" where
  advance: "a_hw s topic part \<le> h \<Longrightarrow>
    acks_step s (s\<lparr>a_hw := (a_hw s)(topic := (a_hw s topic)(part := h)),
                   a_pending := add_mset (topic, part, h) (a_pending s)\<rparr>)"
| complete: "(topic, part, h) \<in># a_pending s \<Longrightarrow> CheckAndComplete (a_purg s) (a_chans s) topic part h = (p, cs) \<Longrightarrow>
    acks_step s (s\<lparr>a_purg := p, a_chans := cs, a_pending := a_pending s - {#(topic, part, h)#}\<rparr>)"
| spawn: "a_waiters s n = None \<Longrightarrow>
    acks_step s (s\<lparr>a_chans := (a_chans s)(n := []),
      a_waiters := (a_waiters s)(n \<mapsto> \<lparr>w_topic = topic, w_part = part, w_required = required, w_pc = AtStart\<rparr>)\<rparr>)"
| wait: "a_waiters s n = Some w \<Longrightarrow> p_nextID (a_purg s) < 2 ^ 63 - 1 \<Longrightarrow> wait_section s n w late = Some s' \<Longrightarrow>
    acks_step s s'"

definition acks_init :: acks_sys where
  "acks_init = \<lparr>a_hw = (\<lambda>_ _. 0), a_purg = NewPurgatory, a_chans = (\<lambda>_. []), a_pending = {#}, a_waiters = Map.empty\<rparr>"

abbreviation acks_reach :: "acks_sys \<Rightarrow> bool" where
  "acks_reach \<equiv> acks_step\<^sup>*\<^sup>* acks_init"

section \<open>The invariant\<close>

fun pc_id :: "wait_pc \<Rightarrow> int option" where
  "pc_id (AtRecheck k) = Some k"
| "pc_id (AtSecondRead k) = Some k"
| "pc_id (AtComplete k h) = Some k"
| "pc_id (AtDeadline k) = Some k"
| "pc_id (Blocked k) = Some k"
| "pc_id _ = None"

fun settled :: "wait_pc \<Rightarrow> bool" where
  "settled (AtDeadline k) = True"
| "settled (Blocked k) = True"
| "settled _ = False"

text \<open>The item that waiter \<open>n\<close> put into the purgatory.\<close>

definition item_of :: "nat \<Rightarrow> waiter \<Rightarrow> int \<Rightarrow> ProduceRequestItem" where
  "item_of n w k = \<lparr>pi_ID = k, pi_Topic = w_topic w, pi_Partition = w_part w, pi_RequiredHW = w_required w, pi_RespCh = n\<rparr>"

abbreviation items :: "acks_sys \<Rightarrow> ProduceRequestItem set" where
  "items s \<equiv> set (p_items (a_purg s))"

definition ids_inv :: "acks_sys \<Rightarrow> bool" where
  "ids_inv s \<longleftrightarrow>
     0 \<le> p_nextID (a_purg s) \<and> p_nextID (a_purg s) < 2 ^ 63 \<and>
     (\<forall>it \<in> items s. \<exists>n w k. it = item_of n w k \<and> a_waiters s n = Some w \<and> pc_id (w_pc w) = Some k) \<and>
     (\<forall>n w k. a_waiters s n = Some w \<longrightarrow> pc_id (w_pc w) = Some k \<longrightarrow> k \<le> p_nextID (a_purg s)) \<and>
     (\<forall>n w n' w' k. a_waiters s n = Some w \<longrightarrow> pc_id (w_pc w) = Some k \<longrightarrow>
        a_waiters s n' = Some w' \<longrightarrow> pc_id (w_pc w') = Some k \<longrightarrow> n = n')"

text \<open>What is known about waiter \<open>n\<close>; the last clause is that its wake-up is not lost.\<close>

definition waiter_inv :: "acks_sys \<Rightarrow> nat \<Rightarrow> waiter \<Rightarrow> bool" where
  "waiter_inv s n w \<longleftrightarrow>
     (a_chans s n \<noteq> [] \<longrightarrow> a_chans s n = [None] \<and> w_required w \<le> hw_of s w \<and> (\<forall>k. item_of n w k \<notin> items s)) \<and>
     (w_pc w = AtStart \<or> w_pc w = AtWatch \<longrightarrow> a_chans s n = []) \<and>
     (w_pc w = Returned None \<longrightarrow> w_required w \<le> 0 \<or> w_required w \<le> hw_of s w) \<and>
     (\<forall>k. w_pc w = AtSecondRead k \<longrightarrow> w_required w \<le> hw_of s w) \<and>
     (\<forall>k h. w_pc w = AtComplete k h \<longrightarrow> w_required w \<le> h \<and> h \<le> hw_of s w) \<and>
     (\<forall>k. pc_id (w_pc w) = Some k \<longrightarrow> item_of n w k \<in> items s \<or> a_chans s n \<noteq> []) \<and>
     (\<forall>k. settled (w_pc w) \<longrightarrow> pc_id (w_pc w) = Some k \<longrightarrow> item_of n w k \<in> items s \<longrightarrow> w_required w \<le> hw_of s w \<longrightarrow>
        (\<exists>h. (w_topic w, w_part w, h) \<in># a_pending s \<and> w_required w \<le> h))"

definition acks_inv :: "acks_sys \<Rightarrow> bool" where
  "acks_inv s \<longleftrightarrow> ids_inv s \<and> (\<forall>n w. a_waiters s n = Some w \<longrightarrow> waiter_inv s n w) \<and>
     (\<forall>n. a_waiters s n = None \<longrightarrow> a_chans s n = []) \<and>
     (\<forall>topic part h. (topic, part, h) \<in># a_pending s \<longrightarrow> h \<le> a_hw s topic part)"

lemma fold_send:
  "fold (\<lambda>it. send_nb (pi_RespCh it) None) its cs n =
     (if cs n = [] \<and> (\<exists>it \<in> set its. pi_RespCh it = n) then [None] else cs n)"
  by (induction its arbitrary: cs) (auto simp: send_nb_def)

lemma item_of_inject [simp]: "item_of n w k = item_of n' w' k' \<longleftrightarrow>
    n = n' \<and> k = k' \<and> w_topic w = w_topic w' \<and> w_part w = w_part w' \<and> w_required w = w_required w'"
  by (auto simp: item_of_def)

lemma item_of_pc [simp]: "item_of n (w\<lparr>w_pc := pc\<rparr>) k = item_of n w k"
  by (simp add: item_of_def)

lemma item_of_simps [simp]: "pi_ID (item_of n w k) = k" "pi_RespCh (item_of n w k) = n"
  by (simp_all add: item_of_def)

lemma completes_item_of [simp]:
  "completes topic part h (item_of n w k) \<longleftrightarrow> w_topic w = topic \<and> w_part w = part \<and> w_required w \<le> h"
  by (simp add: completes_def item_of_def)

lemma ids_item:
  assumes "ids_inv s" and "it \<in> items s"
  obtains n w k where "it = item_of n w k" and "a_waiters s n = Some w" and "pc_id (w_pc w) = Some k"
  using assms unfolding ids_inv_def by blast

lemma ids_unique:
  assumes "ids_inv s" and "a_waiters s n = Some w" and "pc_id (w_pc w) = Some k"
    and "a_waiters s n' = Some w'" and "pc_id (w_pc w') = Some k"
  shows "n = n'"
  using assms unfolding ids_inv_def by blast

lemma item_waiter:
  assumes "ids_inv s" and "it \<in> items s" and "pi_RespCh it = n" and "a_waiters s n = Some w"
  obtains k where "it = item_of n w k" and "pc_id (w_pc w) = Some k"
proof -
  obtain m w' k where it: "it = item_of m w' k" "a_waiters s m = Some w'" "pc_id (w_pc w') = Some k"
    using assms(1,2) unfolding ids_inv_def by blast
  then have "m = n" "w' = w" using assms(3,4) by auto
  then show ?thesis using that it by blast
qed

text \<open>Completing waiters for a watermark \<open>h\<close> that the tracker has reached.\<close>

lemma acks_complete:
  assumes inv: "acks_inv s" and h: "h \<le> a_hw s topic part"
    and cc: "CheckAndComplete (a_purg s) (a_chans s) topic part h = (p, cs)"
  shows "acks_inv (s\<lparr>a_purg := p, a_chans := cs\<rparr>)"
    and "\<And>it. it \<in> set (p_items p) \<longleftrightarrow> it \<in> items s \<and> \<not> completes topic part h it"
proof -
  have pe: "p = (a_purg s)\<lparr>p_items := filter (\<lambda>it. \<not> completes topic part h it) (p_items (a_purg s))\<rparr>"
    and ce: "cs = fold (\<lambda>it. send_nb (pi_RespCh it) None) (filter (completes topic part h) (p_items (a_purg s))) (a_chans s)"
    using cc by (simp_all add: CheckAndComplete_def)
  have p: "p_nextID p = p_nextID (a_purg s)" and it: "set (p_items p) = {it \<in> items s. \<not> completes topic part h it}"
    by (auto simp: pe)
  have cs: "cs n = (if a_chans s n = [] \<and> (\<exists>it \<in> items s. completes topic part h it \<and> pi_RespCh it = n) then [None] else a_chans s n)" for n
    by (auto simp: ce fold_send)
  show "\<And>it. it \<in> set (p_items p) \<longleftrightarrow> it \<in> items s \<and> \<not> completes topic part h it" by (simp add: it)
  let ?s = "s\<lparr>a_purg := p, a_chans := cs\<rparr>"
  have ids: "ids_inv s" using inv by (simp add: acks_inv_def)
  then have "ids_inv ?s" by (auto simp: ids_inv_def p it)
  moreover have "waiter_inv ?s n w" if w: "a_waiters s n = Some w" for n w
  proof -
    have wi: "waiter_inv s n w" using inv w by (simp add: acks_inv_def)
    have own: "w_required w \<le> hw_of s w \<and> (\<forall>k. item_of n w k \<notin> set (p_items p)) \<and> pc_id (w_pc w) \<noteq> None"
      if c: "it \<in> items s" "completes topic part h it" "pi_RespCh it = n" for it
    proof -
      obtain k where k: "it = item_of n w k" "pc_id (w_pc w) = Some k" using item_waiter [OF ids c(1,3) w] by blast
      have "item_of n w k' \<notin> set (p_items p)" for k'
      proof
        assume p': "item_of n w k' \<in> set (p_items p)"
        then have "item_of n w k' \<in> items s" by (simp add: it)
        then have "k' = k" using item_waiter [OF ids _ _ w, of "item_of n w k'"] k(2) by auto
        then show False using p' c(2) k(1) by (simp add: it)
      qed
      then show ?thesis using k c(2) h by (auto simp: hw_of_def)
    qed
    have chan: "cs n = [None] \<and> w_required w \<le> hw_of s w \<and> (\<forall>k. item_of n w k \<notin> set (p_items p))" if "cs n \<noteq> []"
    proof (cases "a_chans s n = []")
      case True
      then obtain it' where "it' \<in> items s" "completes topic part h it'" "pi_RespCh it' = n"
        using \<open>cs n \<noteq> []\<close> cs [of n] by (cases "\<exists>it \<in> items s. completes topic part h it \<and> pi_RespCh it = n") auto
      then show ?thesis using own True cs [of n] by auto
    next
      case False
      then show ?thesis using wi unfolding waiter_inv_def cs by (simp add: it)
    qed
    have early: "cs n = []" if "w_pc w = AtStart \<or> w_pc w = AtWatch"
    proof -
      have "pc_id (w_pc w) = None" using that by auto
      then have "\<not> (\<exists>it \<in> items s. completes topic part h it \<and> pi_RespCh it = n)" using own by metis
      then show ?thesis using wi that by (simp add: cs waiter_inv_def)
    qed
    have kept: "item_of n w k \<in> set (p_items p) \<or> cs n \<noteq> []" if "pc_id (w_pc w) = Some k" for k
    proof (cases "item_of n w k \<in> items s")
      case True
      then show ?thesis by (cases "completes topic part h (item_of n w k)") (auto simp: it cs intro!: bexI [where x = "item_of n w k"])
    next
      case False
      then have "a_chans s n \<noteq> []" using wi that by (auto simp: waiter_inv_def)
      then show ?thesis by (simp add: cs)
    qed
    have hw: "hw_of ?s w = hw_of s w" by (simp add: hw_of_def)
    have sub: "item_of n w k \<in> set (p_items p) \<Longrightarrow> item_of n w k \<in> items s" for k by (simp add: it)
    show ?thesis using wi chan early kept sub unfolding waiter_inv_def hw by simp
  qed
  moreover have "cs n = []" if n: "a_waiters s n = None" for n
  proof -
    have "pi_RespCh it \<noteq> n" if i: "it \<in> items s" for it
    proof -
      obtain m w k where "it = item_of m w k" "a_waiters s m = Some w"
        using i ids unfolding ids_inv_def by blast
      then show ?thesis using n by auto
    qed
    then show ?thesis using n inv by (auto simp: cs acks_inv_def)
  qed
  ultimately show "acks_inv ?s" using inv by (auto simp: acks_inv_def)
qed

lemma acks_advance:
  assumes inv: "acks_inv s" and "a_hw s topic part \<le> h"
  shows "acks_inv (s\<lparr>a_hw := (a_hw s)(topic := (a_hw s topic)(part := h)),
                     a_pending := add_mset (topic, part, h) (a_pending s)\<rparr>)"
    (is "acks_inv ?s")
proof -
  have hw: "hw_of s w \<le> hw_of ?s w" for w using assms(2) by (simp add: hw_of_def)
  have "waiter_inv ?s n w" if w: "a_waiters s n = Some w" for n w
  proof -
    have wi: "waiter_inv s n w" using inv w by (simp add: acks_inv_def)
    have pend: "\<exists>h. (w_topic w, w_part w, h) \<in># a_pending ?s \<and> w_required w \<le> h"
      if "w_required w \<le> hw_of s w \<Longrightarrow> \<exists>h. (w_topic w, w_part w, h) \<in># a_pending s \<and> w_required w \<le> h"
        and "w_required w \<le> hw_of ?s w"
      using that by (cases "w_required w \<le> hw_of s w") (auto simp: hw_of_def split: if_splits)
    show ?thesis using wi pend hw [of w] unfolding waiter_inv_def by (auto intro: order_trans)
  qed
  moreover have "ids_inv ?s" using inv by (simp add: acks_inv_def ids_inv_def)
  moreover have "h' \<le> a_hw ?s t p" if "(t, p, h') \<in># a_pending ?s" for t p h'
  proof (cases "(t, p, h') \<in># a_pending s")
    case True
    then have "h' \<le> a_hw s t p" using inv by (simp add: acks_inv_def)
    also have "\<dots> \<le> a_hw ?s t p" using assms(2) by simp
    finally show ?thesis .
  qed (use that in auto)
  ultimately show ?thesis using inv by (simp add: acks_inv_def)
qed

text \<open>A step of one waiter that leaves the others alone: it has to establish what is known about itself.\<close>

lemma acks_goto:
  assumes inv: "acks_inv s" and w: "a_waiters s n = Some w"
    and ids: "ids_inv (goto (s\<lparr>a_purg := p, a_chans := cs\<rparr>) n w pc)"
    and own: "waiter_inv (goto (s\<lparr>a_purg := p, a_chans := cs\<rparr>) n w pc) n (w\<lparr>w_pc := pc\<rparr>)"
    and chans: "\<And>m. m \<noteq> n \<Longrightarrow> cs m = a_chans s m"
    and others: "\<And>m w' k. m \<noteq> n \<Longrightarrow> item_of m w' k \<in> set (p_items p) \<longleftrightarrow> item_of m w' k \<in> items s"
  shows "acks_inv (goto (s\<lparr>a_purg := p, a_chans := cs\<rparr>) n w pc)"
    (is "acks_inv ?s")
proof -
  have "waiter_inv ?s m w'" if "a_waiters ?s m = Some w'" for m w'
  proof (cases "m = n")
    case False
    then have "a_waiters s m = Some w'" using that by (simp add: goto_def)
    then have "waiter_inv s m w'" using inv by (simp add: acks_inv_def)
    then show ?thesis
      using chans [OF False] others [OF False] unfolding waiter_inv_def by (simp add: goto_def hw_of_def)
  qed (use own that in \<open>simp add: goto_def\<close>)
  then show ?thesis using inv ids chans w by (auto simp: acks_inv_def goto_def)
qed

lemma ids_goto:
  assumes "ids_inv s" and "a_waiters s n = Some w" and "pc_id pc = pc_id (w_pc w)"
  shows "ids_inv (goto s n w pc)"
proof -
  have old: "\<exists>w'. a_waiters s m = Some w' \<and> pc_id (w_pc w') = pc_id (w_pc v) \<and> (\<forall>k. item_of m w' k = item_of m v k)"
    if "a_waiters (goto s n w pc) m = Some v" for m v
    using that assms(2,3) by (auto simp: goto_def split: if_splits)
  have new: "\<exists>v. a_waiters (goto s n w pc) m = Some v \<and> pc_id (w_pc v) = pc_id (w_pc w') \<and> (\<forall>k. item_of m v k = item_of m w' k)"
    if "a_waiters s m = Some w'" for m w'
    using that assms(2,3) by (cases "m = n") (auto simp: goto_def)
  have same: "a_purg (goto s n w pc) = a_purg s" by (simp add: goto_def)
  show ?thesis unfolding ids_inv_def same
  proof (intro conjI ballI allI impI)
    fix it assume "it \<in> items s"
    then obtain m w' k where "it = item_of m w' k" "a_waiters s m = Some w'" "pc_id (w_pc w') = Some k"
      using assms(1) unfolding ids_inv_def by blast
    then show "\<exists>m v k. it = item_of m v k \<and> a_waiters (goto s n w pc) m = Some v \<and> pc_id (w_pc v) = Some k"
      using new [of m w'] by auto
  next
    fix m v k assume "a_waiters (goto s n w pc) m = Some v" "pc_id (w_pc v) = Some k"
    then obtain w' where "a_waiters s m = Some w'" "pc_id (w_pc w') = Some k" using old [of m v] by auto
    then show "k \<le> p_nextID (a_purg s)" using assms(1) unfolding ids_inv_def by blast
  next
    fix m v m' v' k
    assume "a_waiters (goto s n w pc) m = Some v" "pc_id (w_pc v) = Some k"
      "a_waiters (goto s n w pc) m' = Some v'" "pc_id (w_pc v') = Some k"
    then obtain w' w'' where "a_waiters s m = Some w'" "pc_id (w_pc w') = Some k"
      "a_waiters s m' = Some w''" "pc_id (w_pc w'') = Some k" using old [of m v] old [of m' v'] by auto
    then show "m = m'" using assms(1) unfolding ids_inv_def by blast
  qed (use assms(1) in \<open>simp_all add: ids_inv_def\<close>)
qed

lemma ids_cancel:
  assumes ids: "ids_inv s" and w: "a_waiters s n = Some w" "pc_id (w_pc w) = Some k" and "pc_id pc = None"
  shows "ids_inv (goto (s\<lparr>a_purg := Cancel (a_purg s) k, a_chans := cs\<rparr>) n w pc)"
    and "m \<noteq> n \<Longrightarrow> item_of m w' k' \<in> set (p_items (Cancel (a_purg s) k)) \<longleftrightarrow> item_of m w' k' \<in> items s"
    and "item_of n w k \<notin> set (p_items (Cancel (a_purg s) k))"
proof -
  have owner: "m = n" if i: "item_of m w' k \<in> items s" for m w'
  proof -
    obtain m' v k' where it: "item_of m w' k = item_of m' v k'" "a_waiters s m' = Some v" "pc_id (w_pc v) = Some k'"
      using ids_item [OF ids i] .
    then have "m' = m" "k' = k" by simp_all
    then show ?thesis using ids_unique [OF ids it(2) _ w] it(3) by simp
  qed
  then show "m \<noteq> n \<Longrightarrow> item_of m w' k' \<in> set (p_items (Cancel (a_purg s) k)) \<longleftrightarrow> item_of m w' k' \<in> items s"
    by (auto simp: Cancel_def)
  show "item_of n w k \<notin> set (p_items (Cancel (a_purg s) k))" by (simp add: Cancel_def)
  let ?s = "goto (s\<lparr>a_purg := Cancel (a_purg s) k, a_chans := cs\<rparr>) n w pc"
  have same: "a_waiters ?s m = Some v \<and> pc_id (w_pc v) = Some k' \<longleftrightarrow>
      m \<noteq> n \<and> a_waiters s m = Some v \<and> pc_id (w_pc v) = Some k'" for m v k'
    using assms(4) by (auto simp: goto_def)
  have purg: "a_purg ?s = Cancel (a_purg s) k" "p_nextID (Cancel (a_purg s) k) = p_nextID (a_purg s)"
    by (simp_all add: goto_def Cancel_def)
  show "ids_inv ?s"
    unfolding ids_inv_def purg
  proof (intro conjI ballI allI impI)
    fix it assume i: "it \<in> set (p_items (Cancel (a_purg s) k))"
    then have "it \<in> items s" and nk: "pi_ID it \<noteq> k" by (simp_all add: Cancel_def)
    from ids_item [OF ids this(1)] obtain m v k' where it: "it = item_of m v k'" "a_waiters s m = Some v" "pc_id (w_pc v) = Some k'"
      by blast
    then have "k' \<noteq> k" using nk by simp
    then have "m \<noteq> n" using w it(2,3) by auto
    then have "a_waiters ?s m = Some v \<and> pc_id (w_pc v) = Some k'" using it same by blast
    then show "\<exists>m v k'. it = item_of m v k' \<and> a_waiters ?s m = Some v \<and> pc_id (w_pc v) = Some k'" using it(1) by blast
  next
    fix m v k' assume "a_waiters ?s m = Some v" "pc_id (w_pc v) = Some k'"
    then have "a_waiters s m = Some v" "pc_id (w_pc v) = Some k'" using same by blast+
    then show "k' \<le> p_nextID (a_purg s)" using ids unfolding ids_inv_def by blast
  next
    fix m v m' v' k'
    assume "a_waiters ?s m = Some v" "pc_id (w_pc v) = Some k'" "a_waiters ?s m' = Some v'" "pc_id (w_pc v') = Some k'"
    then have "a_waiters s m = Some v" "pc_id (w_pc v) = Some k'" "a_waiters s m' = Some v'" "pc_id (w_pc v') = Some k'"
      using same by blast+
    then show "m = m'" by (rule ids_unique [OF ids])
  qed (use ids in \<open>simp_all add: ids_inv_def\<close>)
qed

lemma waiter_timeout:
  assumes "waiter_inv s n w" and "item_of n w k \<notin> set (p_items p)" and "set (p_items p) \<subseteq> items s"
  shows "waiter_inv (goto (s\<lparr>a_purg := p\<rparr>) n w (Returned (Some e))) n (w\<lparr>w_pc := Returned (Some e)\<rparr>)"
  using assms unfolding waiter_inv_def by (auto simp: goto_def hw_of_def)

lemma wait_cancel:
  assumes inv: "acks_inv s" and w: "a_waiters s n = Some w" "pc_id (w_pc w) = Some k"
  shows "acks_inv (goto (s\<lparr>a_purg := Cancel (a_purg s) k\<rparr>) n w (Returned (Some e)))"
proof -
  have ids: "ids_inv s" and wi: "waiter_inv s n w" using inv w by (simp_all add: acks_inv_def)
  note c = ids_cancel [OF ids w, of "Returned (Some e)", simplified]
  have "set (p_items (Cancel (a_purg s) k)) \<subseteq> items s" by (auto simp: Cancel_def)
  then have "waiter_inv (goto (s\<lparr>a_purg := Cancel (a_purg s) k\<rparr>) n w (Returned (Some e))) n (w\<lparr>w_pc := Returned (Some e)\<rparr>)"
    by (rule waiter_timeout [OF wi c(3)])
  then show ?thesis
    using acks_goto [OF inv w(1), where p = "Cancel (a_purg s) k" and cs = "a_chans s" and pc = "Returned (Some e)"]
      c(1) [where cs = "a_chans s"] c(2) by simp
qed

lemma wait_move:
  assumes inv: "acks_inv s" and w: "a_waiters s n = Some w" and "pc_id pc = pc_id (w_pc w)"
    and own: "waiter_inv (goto s n w pc) n (w\<lparr>w_pc := pc\<rparr>)"
  shows "acks_inv (goto s n w pc)"
  using acks_goto [OF inv w, where p = "a_purg s" and cs = "a_chans s" and pc = pc] own
    ids_goto [OF _ w assms(3)] inv by (simp add: acks_inv_def)

lemma wait_receive:
  assumes inv: "acks_inv s" and w: "a_waiters s n = Some w" "pc_id (w_pc w) = Some k" and "a_chans s n = v # vs"
  shows "acks_inv (goto (s\<lparr>a_chans := (a_chans s)(n := vs)\<rparr>) n w (Returned v))"
proof -
  have ids: "ids_inv s" and wi: "waiter_inv s n w" using inv w by (simp_all add: acks_inv_def)
  have v: "v = None" "vs = []" "w_required w \<le> hw_of s w" and gone: "item_of n w k \<notin> items s"
    using wi assms(4) by (auto simp: waiter_inv_def)
  have "pi_ID it \<noteq> k" if i: "it \<in> items s" for it
  proof
    assume id: "pi_ID it = k"
    obtain m w' k' where it: "it = item_of m w' k'" "a_waiters s m = Some w'" "pc_id (w_pc w') = Some k'" using ids_item [OF ids i] .
    then have "m = n" using ids_unique [OF ids it(2) _ w] id by simp
    then show False using it w(1) id i gone by simp
  qed
  then have same: "Cancel (a_purg s) k = a_purg s" by (simp add: Cancel_def)
  have "waiter_inv (goto (s\<lparr>a_chans := (a_chans s)(n := vs)\<rparr>) n w (Returned v)) n (w\<lparr>w_pc := Returned v\<rparr>)"
    using v by (simp add: waiter_inv_def goto_def hw_of_def)
  then show ?thesis
    using acks_goto [OF inv w(1), where p = "a_purg s" and cs = "(a_chans s)(n := vs)" and pc = "Returned v"]
      ids_cancel(1) [OF ids w, where pc = "Returned v" and cs = "(a_chans s)(n := vs)"] same by simp
qed

lemma wait_watch:
  assumes inv: "acks_inv s" and w: "a_waiters s n = Some w" "w_pc w = AtWatch" and "p_nextID (a_purg s) < 2 ^ 63 - 1"
    and watch: "Watch (a_purg s) (w_topic w) (w_part w) (w_required w) n = (p, k)"
  shows "acks_inv (goto (s\<lparr>a_purg := p\<rparr>) n w (AtRecheck k))"
    (is "acks_inv ?s")
proof -
  have ids: "ids_inv s" and wi: "waiter_inv s n w" using inv w by (simp_all add: acks_inv_def)
  have nx: "0 \<le> p_nextID (a_purg s)" using ids by (simp add: ids_inv_def)
  then have k: "k = p_nextID (a_purg s) + 1" using watch assms(4) wrap_s_id [of 64 "p_nextID (a_purg s) + 1"]
    by (auto simp: Watch_def Let_def in_s_def)
  have le: "k' < k" if "a_waiters s m = Some v" "pc_id (w_pc v) = Some k'" for m v k'
    using that ids k unfolding ids_inv_def by force
  have "pi_ID it \<noteq> k" if i: "it \<in> items s" for it
  proof -
    obtain m w' k' where it: "it = item_of m w' k'" "a_waiters s m = Some w'" "pc_id (w_pc w') = Some k'" using ids_item [OF ids i] .
    then show ?thesis using le [OF it(2,3)] by simp
  qed
  then have "filter (\<lambda>it. pi_ID it \<noteq> k) (p_items (a_purg s)) = p_items (a_purg s)" by simp
  then have p: "p_items p = p_items (a_purg s) @ [item_of n w k]" "p_nextID p = k"
    using watch k by (auto simp: Watch_def Let_def item_of_def)
  have wn: "pc_id (w_pc w) = None" using w(2) by simp
  have same: "a_waiters ?s m = Some v \<and> pc_id (w_pc v) = Some k' \<longleftrightarrow>
      m = n \<and> v = w\<lparr>w_pc := AtRecheck k\<rparr> \<and> k' = k \<or> m \<noteq> n \<and> a_waiters s m = Some v \<and> pc_id (w_pc v) = Some k'" for m v k'
    by (auto simp: goto_def)
  have purg: "a_purg ?s = p" by (simp add: goto_def)
  have "ids_inv ?s"
    unfolding ids_inv_def purg
  proof (intro conjI ballI allI impI)
    fix it assume i: "it \<in> set (p_items p)"
    show "\<exists>m v k'. it = item_of m v k' \<and> a_waiters ?s m = Some v \<and> pc_id (w_pc v) = Some k'"
    proof (cases "it = item_of n w k")
      case True
      then show ?thesis by (intro exI [where x = n] exI [where x = "w\<lparr>w_pc := AtRecheck k\<rparr>"] exI [where x = k]) (simp add: goto_def)
    next
      case False
      then have "it \<in> items s" using i p by simp
      then obtain m v k' where it: "it = item_of m v k'" "a_waiters s m = Some v" "pc_id (w_pc v) = Some k'" using ids_item [OF ids] by blast
      then have "m \<noteq> n" using w(1) wn by auto
      then have "a_waiters ?s m = Some v \<and> pc_id (w_pc v) = Some k'" using it same by blast
      then show ?thesis using it(1) by blast
    qed
  next
    fix m v k' assume "a_waiters ?s m = Some v" "pc_id (w_pc v) = Some k'"
    then show "k' \<le> p_nextID p" using same le [of m v k'] p(2) by force
  next
    fix m v m' v' k'
    assume a: "a_waiters ?s m = Some v" "pc_id (w_pc v) = Some k'" "a_waiters ?s m' = Some v'" "pc_id (w_pc v') = Some k'"
    then show "m = m'" using same [of m v k'] same [of m' v' k'] le [of m v k'] le [of m' v' k'] ids_unique [OF ids] by force
  qed (use nx assms(4) k p in simp_all)
  moreover have "waiter_inv ?s n (w\<lparr>w_pc := AtRecheck k\<rparr>)"
    using wi w(2) p unfolding waiter_inv_def by (auto simp: goto_def hw_of_def)
  ultimately show ?thesis
    using acks_goto [OF inv w(1), where p = p and cs = "a_chans s" and pc = "AtRecheck k"] p by simp
qed

lemma wait_complete:
  assumes inv: "acks_inv s" and w: "a_waiters s n = Some w" "w_pc w = AtComplete k h"
    and cc: "CheckAndComplete (a_purg s) (a_chans s) (w_topic w) (w_part w) h = (p, cs)"
  shows "acks_inv (goto (s\<lparr>a_purg := p, a_chans := cs\<rparr>) n w (AtDeadline k))"
proof -
  have wi: "w_required w \<le> h" "h \<le> a_hw s (w_topic w) (w_part w)"
    using inv w by (auto simp: acks_inv_def waiter_inv_def hw_of_def)
  note c = acks_complete [OF inv wi(2) cc]
  let ?s = "s\<lparr>a_purg := p, a_chans := cs\<rparr>"
  have w': "a_waiters ?s n = Some w" using w by simp
  have "item_of n w k \<notin> items ?s" using c(2) wi(1) by simp
  moreover have "waiter_inv ?s n w" using c(1) w' unfolding acks_inv_def by blast
  ultimately have "waiter_inv (goto ?s n w (AtDeadline k)) n (w\<lparr>w_pc := AtDeadline k\<rparr>)"
    using w(2) unfolding waiter_inv_def by (simp add: goto_def hw_of_def)
  then show ?thesis using wait_move [OF c(1) w', of "AtDeadline k"] w(2) by simp
qed

lemma wait_section_inv:
  assumes inv: "acks_inv s" and w: "a_waiters s n = Some w" and "p_nextID (a_purg s) < 2 ^ 63 - 1"
    and step: "wait_section s n w late = Some s'"
  shows "acks_inv s'"
proof -
  have wi: "waiter_inv s n w" using inv w by (simp add: acks_inv_def)
  note own = wi [unfolded waiter_inv_def]
  note defs = wait_section_def waiter_inv_def goto_def hw_of_def
  show ?thesis
  proof (cases "w_pc w")
    case AtStart
    then show ?thesis using step wait_move [OF inv w] own by (auto simp: defs)
  next
    case AtWatch
    obtain p k where "Watch (a_purg s) (w_topic w) (w_part w) (w_required w) n = (p, k)" by force
    then show ?thesis using step AtWatch wait_watch [OF inv w AtWatch assms(3)] by (auto simp: wait_section_def)
  next
    case (AtRecheck k)
    then show ?thesis using step wait_move [OF inv w] own by (auto simp: defs)
  next
    case (AtSecondRead k)
    then show ?thesis using step wait_move [OF inv w] own by (auto simp: defs)
  next
    case (AtComplete k h)
    obtain p cs where "CheckAndComplete (a_purg s) (a_chans s) (w_topic w) (w_part w) h = (p, cs)" by force
    then show ?thesis using step AtComplete wait_complete [OF inv w AtComplete] by (auto simp: wait_section_def)
  next
    case (AtDeadline k)
    then show ?thesis
      using step wait_cancel [OF inv w, of k ErrProduceTimeout] wait_move [OF inv w, of "Blocked k"] own
      by (auto simp: defs split: if_splits)
  next
    case (Blocked k)
    then show ?thesis
      using step wait_cancel [OF inv w, of k ErrProduceTimeout] wait_receive [OF inv w, of k]
      by (auto simp: wait_section_def split: if_splits list.splits)
  next
    case (Returned r)
    then show ?thesis using step by (simp add: wait_section_def)
  qed
qed

lemma acks_spawn:
  assumes inv: "acks_inv s" and n: "a_waiters s n = None"
  shows "acks_inv (s\<lparr>a_chans := (a_chans s)(n := []),
      a_waiters := (a_waiters s)(n \<mapsto> \<lparr>w_topic = topic, w_part = part, w_required = required, w_pc = AtStart\<rparr>)\<rparr>)"
    (is "acks_inv ?s")
proof -
  have ids: "ids_inv s" using inv by (simp add: acks_inv_def)
  have same: "a_waiters ?s m = Some v \<and> pc_id (w_pc v) = Some k \<longleftrightarrow> a_waiters s m = Some v \<and> pc_id (w_pc v) = Some k" for m v k
    using n by auto
  have purg: "a_purg ?s = a_purg s" by simp
  have "ids_inv ?s"
    unfolding ids_inv_def purg
  proof (intro conjI ballI allI impI)
    fix it assume "it \<in> items s"
    then obtain m v k where "it = item_of m v k" "a_waiters s m = Some v" "pc_id (w_pc v) = Some k" using ids_item [OF ids] by blast
    then show "\<exists>m v k. it = item_of m v k \<and> a_waiters ?s m = Some v \<and> pc_id (w_pc v) = Some k" using same by blast
  next
    fix m v k assume "a_waiters ?s m = Some v" "pc_id (w_pc v) = Some k"
    then have "a_waiters s m = Some v" using same by blast
    then show "k \<le> p_nextID (a_purg s)" using \<open>pc_id (w_pc v) = Some k\<close> ids unfolding ids_inv_def by blast
  next
    fix m v m' v' k
    assume "a_waiters ?s m = Some v" "pc_id (w_pc v) = Some k" "a_waiters ?s m' = Some v'" "pc_id (w_pc v') = Some k"
    then show "m = m'" using same ids_unique [OF ids] by blast
  qed (use ids in \<open>simp_all add: ids_inv_def\<close>)
  moreover have "waiter_inv ?s m v" if "a_waiters ?s m = Some v" for m v
  proof (cases "m = n")
    case False
    then have "waiter_inv s m v" using that inv by (simp add: acks_inv_def)
    then show ?thesis using False unfolding waiter_inv_def by (simp add: hw_of_def)
  qed (use that in \<open>auto simp: waiter_inv_def\<close>)
  ultimately show ?thesis using inv unfolding acks_inv_def by simp
qed

lemma acks_step_inv:
  assumes "acks_step s s'" and inv: "acks_inv s"
  shows "acks_inv s'"
  using assms(1)
proof cases
  case (advance topic part h)
  then show ?thesis using acks_advance [OF inv] by simp
next
  case (complete topic part h p cs)
  have h: "h \<le> a_hw s topic part" using complete(2) inv by (simp add: acks_inv_def)
  note c = acks_complete [OF inv h complete(3)]
  let ?t = "s\<lparr>a_purg := p, a_chans := cs\<rparr>"
  have "waiter_inv s' n w" if "a_waiters s' n = Some w" for n w
  proof -
    have wi: "waiter_inv ?t n w" using that c(1) complete(1) by (simp add: acks_inv_def)
    have "\<exists>h'. (w_topic w, w_part w, h') \<in># a_pending s' \<and> w_required w \<le> h'"
      if q: "item_of n w k \<in> set (p_items p)" "\<exists>h'. (w_topic w, w_part w, h') \<in># a_pending s \<and> w_required w \<le> h'" for k
    proof -
      obtain h' where h': "(w_topic w, w_part w, h') \<in># a_pending s" "w_required w \<le> h'" using q(2) by blast
      then have "(w_topic w, w_part w, h') \<noteq> (topic, part, h)" using q(1) c(2) by auto
      then show ?thesis using h' complete(1) by (auto simp: in_diff_count not_in_iff intro!: exI [where x = h'])
    qed
    then show ?thesis using wi complete(1) unfolding waiter_inv_def by (auto simp: hw_of_def)
  qed
  then show ?thesis using c(1) complete(1) by (auto simp: acks_inv_def ids_inv_def dest: in_diffD)
next
  case (spawn n topic part required)
  then show ?thesis using acks_spawn [OF inv] by simp
next
  case (wait n w late)
  then show ?thesis using wait_section_inv [OF inv] by blast
qed

lemma acks_reach_inv: "acks_reach s \<Longrightarrow> acks_inv s"
proof (induction rule: rtranclp_induct)
  case base
  show ?case by (simp add: acks_inv_def ids_inv_def acks_init_def NewPurgatory_def)
next
  case (step s s')
  then show ?case using acks_step_inv by blast
qed

section \<open>Properties\<close>

text \<open>A waiter whose channel holds the signal returns with success when it is scheduled.\<close>

lemma wait_wakes:
  assumes "acks_inv s" and "a_waiters s n = Some w" and "w_pc w = Blocked k" and "a_chans s n \<noteq> []"
    and "p_nextID (a_purg s) < 2 ^ 63 - 1"
  shows "\<exists>s'. acks_step s s' \<and> a_waiters s' n = Some (w\<lparr>w_pc := Returned None\<rparr>)"
proof -
  have "a_chans s n = [None]" using assms by (auto simp: acks_inv_def waiter_inv_def)
  then have "wait_section s n w False =
      Some (goto (s\<lparr>a_chans := (a_chans s)(n := [])\<rparr>) n w (Returned None))"
    using assms(3) by (simp add: wait_section_def)
  then show ?thesis using acks_step.wait [OF assms(2,5)] by (fastforce simp: goto_def)
qed

lemma blocked_wakes:
  assumes "acks_reach s" and "a_waiters s n = Some w" and "w_pc w = Blocked k"
    and "w_required w \<le> hw_of s w" and "p_nextID (a_purg s) < 2 ^ 63 - 1"
  shows "\<exists>s\<^sub>1 s\<^sub>2. (s\<^sub>1 = s \<or> acks_step s s\<^sub>1) \<and> acks_step s\<^sub>1 s\<^sub>2 \<and>
                a_waiters s\<^sub>2 n = Some (w\<lparr>w_pc := Returned None\<rparr>)"
proof (cases "a_chans s n = []")
  case False
  then show ?thesis using wait_wakes [OF acks_reach_inv [OF assms(1)] assms(2,3) _ assms(5)] by blast
next
  case True
  have inv: "acks_inv s" by (rule acks_reach_inv [OF assms(1)])
  then have wi: "waiter_inv s n w" using assms(2) by (simp add: acks_inv_def)
  then have item: "item_of n w k \<in> items s" using True assms(3) by (auto simp: waiter_inv_def)
  then obtain h where h: "(w_topic w, w_part w, h) \<in># a_pending s" "w_required w \<le> h"
    using wi assms(3,4) by (auto simp: waiter_inv_def)
  obtain p cs where cc: "CheckAndComplete (a_purg s) (a_chans s) (w_topic w) (w_part w) h = (p, cs)" by force
  let ?s = "s\<lparr>a_purg := p, a_chans := cs, a_pending := a_pending s - {#(w_topic w, w_part w, h)#}\<rparr>"
  have step: "acks_step s ?s" by (rule acks_step.complete [OF h(1) cc])
  have "acks_inv ?s" by (rule acks_step_inv [OF step inv])
  moreover have "a_chans ?s n \<noteq> []"
  proof -
    have "\<exists>it \<in> set (filter (completes (w_topic w) (w_part w) h) (p_items (a_purg s))). pi_RespCh it = n"
      using item h(2) by (intro bexI [where x = "item_of n w k"]) simp_all
    then have "fold (\<lambda>it. send_nb (pi_RespCh it) None) (filter (completes (w_topic w) (w_part w) h) (p_items (a_purg s))) (a_chans s) n = [None]"
      using True by (simp only: fold_send) simp
    then show ?thesis using cc by (auto simp: CheckAndComplete_def)
  qed
  moreover have "p_nextID (a_purg ?s) < 2 ^ 63 - 1" using cc assms(5) by (auto simp: CheckAndComplete_def)
  ultimately obtain s\<^sub>2 where "acks_step ?s s\<^sub>2" "a_waiters s\<^sub>2 n = Some (w\<lparr>w_pc := Returned None\<rparr>)"
    using wait_wakes [of ?s n w k] assms(2,3) by auto
  then show ?thesis using step by blast
qed

text \<open>The steps of a request for offset 5 up to the point where it is blocked, and an advance to 5.\<close>

definition demo_waiter :: "wait_pc \<Rightarrow> waiter" where
  "demo_waiter pc = \<lparr>w_topic = ''t'', w_part = 0, w_required = 5, w_pc = pc\<rparr>"

definition demo_wait :: "wait_pc \<Rightarrow> Purgatory \<Rightarrow> acks_sys" where
  "demo_wait pc p = acks_init\<lparr>a_purg := p,
     a_waiters := [0 \<mapsto> demo_waiter pc]\<rparr>"

definition demo_purgatory :: Purgatory where
  "demo_purgatory = fst (Watch NewPurgatory ''t'' 0 5 0)"

definition demo_advanced :: acks_sys where
  "demo_advanced = (demo_wait (Blocked 1) demo_purgatory)
     \<lparr>a_hw := (\<lambda>_ _. 0)(''t'' := (\<lambda>_. 0)(0 := 5)), a_pending := {#(''t'', 0, 5)#}\<rparr>"

lemma demo_advanced_reach: "acks_reach demo_advanced"
proof -
  have w: "Watch NewPurgatory ''t'' 0 5 0 = (demo_purgatory, 1)" "p_nextID demo_purgatory = 1" "p_nextID NewPurgatory = 0"
    by (simp_all add: demo_purgatory_def Watch_def NewPurgatory_def Let_def wrap_s_id in_s_def)
  have init: "demo_wait pc NewPurgatory = acks_init\<lparr>a_waiters := [0 \<mapsto> demo_waiter pc]\<rparr>" for pc
    by (simp add: demo_wait_def acks_init_def)
  note simps = demo_wait_def demo_waiter_def wait_section_def goto_def hw_of_def acks_init_def w
  have s1: "acks_step acks_init (demo_wait AtStart NewPurgatory)"
    using acks_step.spawn [of acks_init 0 "''t''" 0 5] by (simp add: init acks_init_def demo_waiter_def fun_upd_def)
  have s2: "acks_step (demo_wait AtStart NewPurgatory) (demo_wait AtWatch NewPurgatory)"
    by (rule acks_step.wait [where n = 0 and w = "demo_waiter AtStart" and late = False]) (simp_all add: simps)
  have s3: "acks_step (demo_wait AtWatch NewPurgatory) (demo_wait (AtRecheck 1) demo_purgatory)"
    by (rule acks_step.wait [where n = 0 and w = "demo_waiter AtWatch" and late = False]) (simp_all add: simps)
  have s4: "acks_step (demo_wait (AtRecheck 1) demo_purgatory) (demo_wait (AtDeadline 1) demo_purgatory)"
    by (rule acks_step.wait [where n = 0 and w = "demo_waiter (AtRecheck 1)" and late = False]) (simp_all add: simps)
  have s5: "acks_step (demo_wait (AtDeadline 1) demo_purgatory) (demo_wait (Blocked 1) demo_purgatory)"
    by (rule acks_step.wait [where n = 0 and w = "demo_waiter (AtDeadline 1)" and late = False]) (simp_all add: simps)
  have s6: "acks_step (demo_wait (Blocked 1) demo_purgatory) demo_advanced"
    using acks_step.advance [of "demo_wait (Blocked 1) demo_purgatory" "''t''" 0 5]
    by (simp add: demo_advanced_def demo_wait_def acks_init_def)
  note into = converse_rtranclp_into_rtranclp [where r = acks_step]
  show ?thesis
    by (rule into [OF s1 into [OF s2 into [OF s3 into [OF s4 into [OF s5 into [OF s6 rtranclp.rtrancl_refl]]]]]])
qed

text \<open>
  C19: No wake-up is lost. In every state that handlers and waiters can reach together, a produce request
  that is blocked although the high watermark has reached the offset it waits for is at most two steps away
  from returning with success: the handler that advanced the watermark still has to complete the purgatory,
  or the signal is already in the channel of the request.
\<close>

theorem acks_no_lost_wakeup:
  assumes "acks_reach s" and "a_waiters s n = Some w" and "w_pc w = Blocked k"
    and "w_required w \<le> hw_of s w" and "p_nextID (a_purg s) < 2 ^ 63 - 1"
  shows "\<exists>s\<^sub>1 s\<^sub>2. (s\<^sub>1 = s \<or> acks_step s s\<^sub>1) \<and> acks_step s\<^sub>1 s\<^sub>2 \<and>
                a_waiters s\<^sub>2 n = Some (w\<lparr>w_pc := Returned None\<rparr>)"
  by (rule blocked_wakes [OF assms])

theorem acks_no_lost_wakeup_witness:
  "\<exists>s\<^sub>1 s\<^sub>2. (s\<^sub>1 = demo_advanced \<or> acks_step demo_advanced s\<^sub>1) \<and> acks_step s\<^sub>1 s\<^sub>2 \<and>
     a_waiters s\<^sub>2 0 = Some (demo_waiter (Returned None))"
  using acks_no_lost_wakeup [OF demo_advanced_reach, of 0 "demo_waiter (Blocked 1)" 1]
  by (simp add: demo_advanced_def demo_wait_def demo_waiter_def hw_of_def demo_purgatory_def Watch_def NewPurgatory_def Let_def wrap_s_id in_s_def)

lemma demo_woken:
  "\<exists>s\<^sub>1 s\<^sub>2. (s\<^sub>1 = demo_advanced \<or> acks_step demo_advanced s\<^sub>1) \<and> acks_step s\<^sub>1 s\<^sub>2 \<and>
     a_waiters s\<^sub>2 0 = Some (demo_waiter (Returned None))"
  using blocked_wakes [OF demo_advanced_reach, of 0 "demo_waiter (Blocked 1)" 1]
  by (simp add: demo_advanced_def demo_wait_def demo_waiter_def hw_of_def demo_purgatory_def Watch_def NewPurgatory_def Let_def wrap_s_id in_s_def)

text \<open>
  C20: Success means replicated: when a produce request with acks=all has returned without an error, the
  high watermark of its partition has reached the offset the request waited for.
\<close>

theorem acks_all_success_replicated:
  assumes "acks_reach s" and "a_waiters s n = Some w" and "w_pc w = Returned None"
  shows "w_required w \<le> max 0 (hw_of s w)"
proof -
  have "waiter_inv s n w" using acks_reach_inv [OF assms(1)] assms(2) by (simp add: acks_inv_def)
  then show ?thesis using assms(3) by (auto simp: waiter_inv_def)
qed

theorem acks_all_success_replicated_witness:
  "\<exists>s w. acks_reach s \<and> a_waiters s 0 = Some w \<and> w_pc w = Returned None \<and> w_required w = 5 \<and> w_required w \<le> max 0 (hw_of s w)"
proof -
  obtain s\<^sub>1 s\<^sub>2 where s: "s\<^sub>1 = demo_advanced \<or> acks_step demo_advanced s\<^sub>1" "acks_step s\<^sub>1 s\<^sub>2"
    "a_waiters s\<^sub>2 0 = Some (demo_waiter (Returned None))"
    using demo_woken by blast
  then have "acks_reach s\<^sub>2" using demo_advanced_reach by (auto intro: rtranclp.rtrancl_into_rtrancl)
  then show ?thesis using acks_all_success_replicated [OF _ s(3)] s(3) by (intro exI [where x = s\<^sub>2]) (auto simp: demo_waiter_def)
qed

end
