(* ===== verification/Replication.thy ===== *)
theory Replication
  imports Purgatory Checkpoint Codec
begin

text \<open>
  Leader epochs, \<^verbatim>\<open>internal/replication/epoch.go\<close>, and the messages between a follower and a leader,
  \<^verbatim>\<open>internal/replication/replication.go\<close>.
\<close>

section \<open>Leader epochs\<close>

record PartitionEpoch =
  pe_Topic :: string
  pe_Partition :: int
  pe_Epoch :: int
  pe_LeaderID :: int

type_synonym EpochManager = "string \<rightharpoonup> (int \<rightharpoonup> PartitionEpoch)"

definition NewEpochManager :: EpochManager where
  "NewEpochManager = Map.empty"

definition IncrementEpoch :: "EpochManager \<Rightarrow> string \<Rightarrow> int \<Rightarrow> int \<Rightarrow> EpochManager \<times> int" where
  "IncrementEpoch em topic part newLeaderID =
     (let tEpochs = (case em topic of None \<Rightarrow> Map.empty | Some m \<Rightarrow> m)
      in case tEpochs part of
           None \<Rightarrow>
             (em(topic \<mapsto> tEpochs(part \<mapsto> \<lparr>pe_Topic = topic, pe_Partition = part, pe_Epoch = 1, pe_LeaderID = newLeaderID\<rparr>)), 1)
         | Some pe \<Rightarrow>
             (let pe = pe\<lparr>pe_Epoch := int32 (pe_Epoch pe + 1), pe_LeaderID := newLeaderID\<rparr>
              in (em(topic \<mapsto> tEpochs(part \<mapsto> pe)), pe_Epoch pe)))"

definition GetEpoch :: "EpochManager \<Rightarrow> string \<Rightarrow> int \<Rightarrow> (int \<times> int) result" where
  "GetEpoch em topic part =
     (case em topic of
        None \<Rightarrow> Inl (ErrorNew (''epoch: unknown topic '' @ topic))
      | Some tEpochs \<Rightarrow>
          (case tEpochs part of
             None \<Rightarrow> Inl (ErrorNew (''epoch: unknown partition '' @ topic @ ''-'' @ itoa part))
           | Some pe \<Rightarrow> Inr (pe_Epoch pe, pe_LeaderID pe)))"

definition ValidateEpoch :: "EpochManager \<Rightarrow> string \<Rightarrow> int \<Rightarrow> int \<Rightarrow> bool" where
  "ValidateEpoch em topic part epoch =
     (case GetEpoch em topic part of Inl _ \<Rightarrow> True | Inr (currentEpoch, _) \<Rightarrow> currentEpoch \<le> epoch)"

lemma GetEpoch_Increment:
  assumes "IncrementEpoch em topic part l = (em', e)"
  shows "GetEpoch em' topic part = Inr (e, l)"
    and "(topic', part') \<noteq> (topic, part) \<Longrightarrow> GetEpoch em' topic' part' = Inr v \<longleftrightarrow> GetEpoch em topic' part' = Inr v"
    and "GetEpoch em topic part = Inr (e\<^sub>0, l\<^sub>0) \<Longrightarrow> e = int32 (e\<^sub>0 + 1)"
    and "GetEpoch em topic part = Inl err \<Longrightarrow> e = 1"
  using assms by (auto simp: IncrementEpoch_def GetEpoch_def Let_def split: option.splits if_splits)

section \<open>Follower fetches\<close>

record ReplicaFetchRequest =
  rfq_ReplicaID :: int
  rfq_MaxWaitMs :: int
  rfq_Topic :: string
  rfq_Partition :: int
  rfq_FetchOffset :: int

definition EncodeReplicaFetchRequest :: "ReplicaFetchRequest \<Rightarrow> bytes result" where
  "EncodeReplicaFetchRequest req =
     seqW [PutInt32 (rfq_ReplicaID req), PutInt32 (rfq_MaxWaitMs req), PutString (rfq_Topic req),
           PutInt32 (rfq_Partition req), PutInt64 (rfq_FetchOffset req)]"

definition replica_fetch_fields :: "ReplicaFetchRequest reader" where
  "replica_fetch_fields =
     bindR Int32 (\<lambda>repID. bindR Int32 (\<lambda>maxWait. bindR String (\<lambda>topic. bindR Int32 (\<lambda>part. bindR Int64 (\<lambda>off.
       returnR \<lparr>rfq_ReplicaID = repID, rfq_MaxWaitMs = maxWait, rfq_Topic = topic, rfq_Partition = part,
                rfq_FetchOffset = off\<rparr>)))))"

definition DecodeReplicaFetchRequest :: "bytes \<Rightarrow> ReplicaFetchRequest result" where
  "DecodeReplicaFetchRequest data =
     (case replica_fetch_fields data of Inl e \<Rightarrow> Inl e | Inr (req, _) \<Rightarrow> Inr req)"

definition EncodeReplicaFetchResponse :: "int \<Rightarrow> int \<Rightarrow> Record list \<Rightarrow> bytes result" where
  "EncodeReplicaFetchResponse errorCode hw records =
     seqW ([PutInt16 errorCode, PutInt64 hw] @ map Record_Encode records)"

text \<open>The loop over the records stops at the first one that cannot be decoded, without an error.\<close>

definition DecodeReplicaFetchResponse :: "bytes \<Rightarrow> (int \<times> int \<times> Record list) result" where
  "DecodeReplicaFetchResponse data =
     (case bindR Int16 (\<lambda>errorCode. bindR Int64 (\<lambda>hw. returnR (errorCode, hw))) data of
        Inl e \<Rightarrow> Inl e
      | Inr ((errorCode, hw), rest) \<Rightarrow> Inr (errorCode, hw, decode_all rest))"

definition wf_ReplicaFetchRequest :: "ReplicaFetchRequest \<Rightarrow> bool" where
  "wf_ReplicaFetchRequest r \<longleftrightarrow>
     in_s 32 (rfq_ReplicaID r) \<and> in_s 32 (rfq_MaxWaitMs r) \<and> int (length (rfq_Topic r)) \<le> MaxInt16 \<and>
     in_s 32 (rfq_Partition r) \<and> in_s 64 (rfq_FetchOffset r)"

lemma decodes_replica_fetch:
  "wf_ReplicaFetchRequest r \<Longrightarrow> decodes (EncodeReplicaFetchRequest r) replica_fetch_fields r"
  unfolding EncodeReplicaFetchRequest_def replica_fetch_fields_def wf_ReplicaFetchRequest_def
  by (rule codec_intros | simp)+

lemma reads_replica_fetch: "reads replica_fetch_fields wf_ReplicaFetchRequest"
  unfolding replica_fetch_fields_def
  by ((rule reads_bind, (rule reads_intros)+)+, rule reads_return, simp add: wf_ReplicaFetchRequest_def)

interpretation replica_fetch_request: strict_codec EncodeReplicaFetchRequest replica_fetch_fields wf_ReplicaFetchRequest
  by unfold_locales (rule decodes_replica_fetch reads_replica_fetch; assumption?)+

lemma seqW_records: "\<forall>r \<in> set rs. wf_record r \<Longrightarrow> seqW (map Record_Encode rs) = Inr (encs rs)"
proof -
  assume "\<forall>r \<in> set rs. wf_record r"
  then have "map Record_Encode rs = map Inr (map enc rs)" by (simp add: Record_Encode_wf)
  then show ?thesis using seqW_Inr [of "map enc rs"] by (simp only: encs_def)
qed

lemma ReplicaFetchResponse_roundtrip:
  assumes "in_s 16 c" and "in_s 64 hw" and "\<forall>r \<in> set rs. wf_record r"
  shows "\<exists>bs. EncodeReplicaFetchResponse c hw rs = Inr bs \<and> DecodeReplicaFetchResponse bs = Inr (c, hw, rs)"
proof -
  have "EncodeReplicaFetchResponse c hw rs = Inr (be_put 2 c @ be_put 8 hw @ encs rs)"
    using seqW_records [OF assms(3)] by (simp add: EncodeReplicaFetchResponse_def PutInt16_def PutInt64_def)
  moreover have "Int16 (be_put 2 c @ bs) = Inr (c, bs)" "Int64 (be_put 8 hw @ bs) = Inr (hw, bs)" for bs
    using decodes_ints(2) [OF assms(1)] decodes_ints(4) [OF assms(2)] by (simp_all add: decodes_def PutInt16_def PutInt64_def)
  ultimately show ?thesis
    using decode_all_encs [OF assms(3)] by (simp add: DecodeReplicaFetchResponse_def bindR_def returnR_def)
qed

section \<open>Properties\<close>



text \<open>
  A follower and a leader understand each other: the fetch request and the response, with the
  high watermark and all the records in it, are decoded as they were encoded.
\<close>

lemma ReplicaFetch_roundtrip:
  assumes "wf_ReplicaFetchRequest r" and "in_s 16 c" and "in_s 64 hw" and "\<forall>rec \<in> set rs. wf_record rec"
  shows "(\<exists>bs. EncodeReplicaFetchRequest r = Inr bs \<and> DecodeReplicaFetchRequest bs = Inr r) \<and>
         (\<exists>bs. EncodeReplicaFetchResponse c hw rs = Inr bs \<and> DecodeReplicaFetchResponse bs = Inr (c, hw, rs))"
proof
  obtain bs where "EncodeReplicaFetchRequest r = Inr bs" using replica_fetch_request.enc_total [OF assms(1)] by blast
  then show "\<exists>bs. EncodeReplicaFetchRequest r = Inr bs \<and> DecodeReplicaFetchRequest bs = Inr r"
    using replica_fetch_request.dec_enc_all [OF assms(1)] by (simp add: DecodeReplicaFetchRequest_def)
qed (rule ReplicaFetchResponse_roundtrip [OF assms(2-4)])

lemma ReplicaFetch_roundtrip_witness:
  "\<exists>bs. EncodeReplicaFetchResponse 0 7 [demo_record, demo_record] = Inr bs \<and>
        DecodeReplicaFetchResponse bs = Inr (0, 7, [demo_record, demo_record])"
  using ReplicaFetch_roundtrip [of "\<lparr>rfq_ReplicaID = 2, rfq_MaxWaitMs = 500, rfq_Topic = ''t'', rfq_Partition = 0, rfq_FetchOffset = 3\<rparr>"
      0 7 "[demo_record, demo_record]"] demo_record_ok(3)
  by (simp add: wf_ReplicaFetchRequest_def in_s_def MaxInt16_def)

end
