(* ===== verification/BrokerState.thy ===== *)
theory BrokerState
  imports PartWriter OffsetStore GroupCoord Configuration Purgatory Replication
begin

text \<open>
  The state of the broker and the functions its handlers share: topics, leadership, in-sync replicas and long-poll
  listeners, from \<^verbatim>\<open>internal/broker/broker.go\<close> and \<^verbatim>\<open>internal/broker/broker_replication.go\<close>.

  \<open>broker_env\<close> is what a call sees of its environment: the working directory, the content of the directories and of
  the checkpoint file, the clock, random bytes and the order of map iterations. The nested maps of the source
  from topic and partition to a tracker or to listeners are maps from pairs.
\<close>

section \<open>State\<close>

definition apiKeyProduce :: int where "apiKeyProduce = 0"
definition apiKeyFetch :: int where "apiKeyFetch = 1"
definition apiKeyMetadata :: int where "apiKeyMetadata = 2"
definition apiKeyCreateTopics :: int where "apiKeyCreateTopics = 3"
definition apiKeyJoinGroup :: int where "apiKeyJoinGroup = 4"
definition apiKeySyncGroup :: int where "apiKeySyncGroup = 5"
definition apiKeyHeartbeat :: int where "apiKeyHeartbeat = 6"
definition apiKeyLeaveGroup :: int where "apiKeyLeaveGroup = 7"
definition apiKeyOffsetCommit :: int where "apiKeyOffsetCommit = 8"
definition apiKeyOffsetFetch :: int where "apiKeyOffsetFetch = 9"
definition apiKeyListOffsets :: int where "apiKeyListOffsets = 10"
definition apiKeyReplicaFetch :: int where "apiKeyReplicaFetch = 11"
definition apiKeyApiVersions :: int where "apiKeyApiVersions = 12"

lemmas api_keys = apiKeyProduce_def apiKeyFetch_def apiKeyMetadata_def apiKeyCreateTopics_def apiKeyJoinGroup_def
  apiKeySyncGroup_def apiKeyHeartbeat_def apiKeyLeaveGroup_def apiKeyOffsetCommit_def apiKeyOffsetFetch_def
  apiKeyListOffsets_def apiKeyReplicaFetch_def apiKeyApiVersions_def

record broker_env =
  e_cwd :: path
  e_fs :: "path \<Rightarrow> dirent list"
  e_ckpt :: "string option"
  e_now :: int
  e_rnd :: bytes
  e_ord :: order

record Broker =
  b_config :: BrokerCfg
  b_meta :: MetadataManager
  b_coord :: GroupCoordinator
  b_offsets :: OffsetStore
  b_purgatory :: Purgatory
  b_chans :: chans
  b_epochs :: EpochManager
  b_localID :: int
  b_replicaIDs :: "int list"
  b_isr :: "string \<times> int \<rightharpoonup> ISRTracker"
  b_topics :: "(string \<times> Topic) list"
  b_listeners :: "string \<times> int \<Rightarrow> nat list"
  b_signals :: "nat \<Rightarrow> bool"

definition dataDir :: "Broker \<Rightarrow> string" where
  "dataDir b = bc_DataDir (cfg_Broker (b_config b))"

section \<open>Replicas and leaders\<close>

definition clusterReplicaIDs :: "BrokerCfg \<Rightarrow> int list" where
  "clusterReplicaIDs cfg =
     (if cc_Brokers (cfg_Cluster cfg) = [] then [int32 (bc_ID (cfg_Broker cfg))]
      else foldl (\<lambda>ids br. let id = int32 (cb_ID br) in if id \<in> set ids then ids else ids @ [id]) []
             (cc_Brokers (cfg_Cluster cfg)))"

definition minInsyncReplicas :: "Broker \<Rightarrow> int" where
  "minInsyncReplicas b = (let n = rc_MinInsyncReplicas (cfg_Replication (b_config b)) in if n \<le> 0 then 1 else n)"

definition lagTimeMaxMs :: "Broker \<Rightarrow> int" where
  "lagTimeMaxMs b = (let ms = rc_ReplicaLagTimeMaxMs (cfg_Replication (b_config b)) in if ms \<le> 0 then 30000 else ms)"

definition staticPartitionLeader :: "Broker \<Rightarrow> int \<Rightarrow> int" where
  "staticPartitionLeader b part =
     (if b_replicaIDs b = [] then b_localID b
      else
        (let idx = part smod int (length (b_replicaIDs b));
             idx = (if idx < 0 then - idx else idx)
         in b_replicaIDs b ! nat idx))"

definition partitionLeader :: "Broker \<Rightarrow> string \<Rightarrow> int \<Rightarrow> int" where
  "partitionLeader b topic part =
     (case GetEpoch (b_epochs b) topic part of
        Inl _ \<Rightarrow> staticPartitionLeader b part
      | Inr (_, leader) \<Rightarrow> leader)"

definition isLeader :: "Broker \<Rightarrow> string \<Rightarrow> int \<Rightarrow> Broker \<times> bool" where
  "isLeader b topic part =
     (case GetEpoch (b_epochs b) topic part of
        Inl _ \<Rightarrow>
          (let static = staticPartitionLeader b part
           in (b\<lparr>b_epochs := fst (IncrementEpoch (b_epochs b) topic part static)\<rparr>, static = b_localID b))
      | Inr (_, leader) \<Rightarrow> (b, leader = b_localID b))"

definition getISRTracker :: "Broker \<Rightarrow> string \<Rightarrow> int \<Rightarrow> ISRTracker option" where
  "getISRTracker b topic part = b_isr b (topic, part)"

definition getOrCreateISRTracker :: "broker_env \<Rightarrow> Broker \<Rightarrow> string \<Rightarrow> int \<Rightarrow> Broker \<times> ISRTracker" where
  "getOrCreateISRTracker e b topic part =
     (case b_isr b (topic, part) of
        Some t \<Rightarrow> (b, t)
      | None \<Rightarrow>
          (let tracker = NewISRTracker (dataDir b) topic part (partitionLeader b topic part) (b_replicaIDs b)
                           (lagTimeMaxMs b) (e_ckpt e) (e_now e)
           in (b\<lparr>b_isr := (b_isr b)((topic, part) \<mapsto> tracker)\<rparr>, tracker)))"

definition initTopicReplication :: "broker_env \<Rightarrow> Broker \<Rightarrow> string \<Rightarrow> int \<Rightarrow> Broker" where
  "initTopicReplication e b topic numPartitions =
     foldl (\<lambda>b p.
        let b = (case GetEpoch (b_epochs b) topic p of
                   Inl _ \<Rightarrow> b\<lparr>b_epochs := fst (IncrementEpoch (b_epochs b) topic p (staticPartitionLeader b p))\<rparr>
                 | Inr _ \<Rightarrow> b)
        in fst (getOrCreateISRTracker e b topic p)) b [0..numPartitions - 1]"

text \<open>Both updates of a log end offset: the tracker is looked up, and its new high watermark returned.\<close>

definition updateReplicaLEO :: "broker_env \<Rightarrow> Broker \<Rightarrow> string \<Rightarrow> int \<Rightarrow> int \<Rightarrow> int \<Rightarrow> int \<Rightarrow> Broker \<times> int" where
  "updateReplicaLEO e b topic part replicaID leo leaderLEO =
     (case getOrCreateISRTracker e b topic part of
        (b, tracker) \<Rightarrow>
          (case UpdateLEO tracker replicaID leo leaderLEO (e_now e) of
             (tracker, hw) \<Rightarrow> (b\<lparr>b_isr := (b_isr b)((topic, part) \<mapsto> tracker)\<rparr>, hw)))"

definition updateLeaderLEO :: "broker_env \<Rightarrow> Broker \<Rightarrow> string \<Rightarrow> int \<Rightarrow> int \<Rightarrow> Broker \<times> int" where
  "updateLeaderLEO e b topic part leaderLEO = updateReplicaLEO e b topic part (b_localID b) leaderLEO leaderLEO"

definition PromoteLeader :: "broker_env \<Rightarrow> Broker \<Rightarrow> string \<Rightarrow> int \<Rightarrow> int \<Rightarrow> Broker \<times> int" where
  "PromoteLeader e b topic part newLeaderID =
     (case IncrementEpoch (b_epochs b) topic part newLeaderID of
        (em, epoch) \<Rightarrow>
          (b\<lparr>b_epochs := em,
             b_isr := (b_isr b)((topic, part) \<mapsto>
               NewISRTracker (dataDir b) topic part newLeaderID (b_replicaIDs b) (lagTimeMaxMs b) (e_ckpt e) (e_now e))\<rparr>,
           epoch))"

definition clusterBrokerMetadata :: "Broker \<Rightarrow> BrokerMetadata list" where
  "clusterBrokerMetadata b =
     (if cc_Brokers (cfg_Cluster (b_config b)) = []
      then [\<lparr>bm_NodeID = b_localID b, bm_Host = bc_Host (cfg_Broker (b_config b)),
             bm_Port = int32 (bc_Port (cfg_Broker (b_config b)))\<rparr>]
      else map (\<lambda>br. \<lparr>bm_NodeID = int32 (cb_ID br), bm_Host = cb_Host br, bm_Port = int32 (cb_Port br)\<rparr>)
             (cc_Brokers (cfg_Cluster (b_config b))))"

definition brokerAddr :: "Broker \<Rightarrow> int \<Rightarrow> string option" where
  "brokerAddr b nid =
     (if cc_Brokers (cfg_Cluster (b_config b)) = []
      then if nid = b_localID b
           then Some (bc_Host (cfg_Broker (b_config b)) @ '':'' @ itoa (bc_Port (cfg_Broker (b_config b)))) else None
      else map_option (\<lambda>br. cb_Host br @ '':'' @ itoa (cb_Port br))
             (find (\<lambda>br. int32 (cb_ID br) = nid) (cc_Brokers (cfg_Cluster (b_config b)))))"

section \<open>Topics and partitions\<close>

definition getTopic :: "Broker \<Rightarrow> string \<Rightarrow> Topic option" where
  "getTopic b name = map_of (b_topics b) name"

definition get_partition :: "Broker \<Rightarrow> string \<Rightarrow> int \<Rightarrow> Partition option" where
  "get_partition b topic part =
     (case getTopic b topic of None \<Rightarrow> None | Some t \<Rightarrow> GetPartition t part)"

text \<open>The update of a partition that the source reaches by a pointer.\<close>

definition put_partition :: "Broker \<Rightarrow> string \<Rightarrow> int \<Rightarrow> Partition \<Rightarrow> Broker" where
  "put_partition b topic part p =
     (case getTopic b topic of
        None \<Rightarrow> b
      | Some t \<Rightarrow>
          b\<lparr>b_topics := AList.update topic (t\<lparr>tp_Partitions := AList.update part p (tp_Partitions t)\<rparr>) (b_topics b)\<rparr>)"

definition storageConfig :: "Broker \<Rightarrow> Config" where
  "storageConfig b = storageConfigFrom (b_config b)"

text \<open>What follows the creation of the metadata of a topic.\<close>

definition open_topic :: "broker_env \<Rightarrow> Broker \<Rightarrow> string \<Rightarrow> int \<Rightarrow> Broker \<times> go_error option" where
  "open_topic e b name numPartitions =
     (case NewTopic (e_cwd e) (e_fs e) (dataDir b) name numPartitions (storageConfig b) (e_now e) of
        Inl err \<Rightarrow> (b, Some err)
      | Inr t \<Rightarrow> (initTopicReplication e (b\<lparr>b_topics := AList.update name t (b_topics b)\<rparr>) name numPartitions, None))"

definition getOrCreateTopic :: "broker_env \<Rightarrow> Broker \<Rightarrow> string \<Rightarrow> int \<Rightarrow> Broker \<times> go_error option" where
  "getOrCreateTopic e b name requestedPartitions =
     (case validateTopicName (e_cwd e) (dataDir b) name of
        Some err \<Rightarrow> (b, Some err)
      | None \<Rightarrow>
          (case getTopic b name of
             Some t \<Rightarrow> (b, None)
           | None \<Rightarrow>
               if requestedPartitions \<le> 0 \<and> \<not> tc_AutoCreate (cfg_Topic (b_config b))
               then (b, Some (ErrorNew (''topic '' @ name @ '' not found and auto creation disabled'')))
               else
                 (let dflt = int32 (tc_DefaultPartitions (cfg_Topic (b_config b)));
                      numPartitions = (if requestedPartitions \<le> 0 then (if dflt \<le> 0 then 1 else dflt) else requestedPartitions);
                      rf = int16 (tc_DefaultReplicationFactor (cfg_Topic (b_config b)));
                      rf = (if rf \<le> 0 then 1 else rf)
                  in case CreateTopic (b_meta b) name numPartitions rf of
                       (mm, meta, _) \<Rightarrow> open_topic e (b\<lparr>b_meta := mm\<rparr>) name (tmeta_NumPartitions meta))))"

section \<open>Long-poll listeners\<close>

text \<open>A listener is a channel with a buffer of one signal.\<close>

definition registerListenerOn :: "Broker \<Rightarrow> string \<Rightarrow> int \<Rightarrow> nat \<Rightarrow> Broker" where
  "registerListenerOn b topic part ch = b\<lparr>b_listeners := (b_listeners b)((topic, part) := b_listeners b (topic, part) @ [ch])\<rparr>"

definition notifyAppended :: "Broker \<Rightarrow> string \<Rightarrow> int \<Rightarrow> Broker" where
  "notifyAppended b topic part =
     b\<lparr>b_signals := (\<lambda>ch. b_signals b ch \<or> ch \<in> set (b_listeners b (topic, part)))\<rparr>"

text \<open>The first occurrence is replaced by the last element of the list.\<close>

definition remove_listener :: "nat \<Rightarrow> nat list \<Rightarrow> nat list" where
  "remove_listener ch chs =
     (if ch \<in> set chs
      then butlast (chs[length (takeWhile (\<lambda>c. c \<noteq> ch) chs) := last chs])
      else chs)"

definition unregisterListener :: "Broker \<Rightarrow> string \<Rightarrow> int \<Rightarrow> nat \<Rightarrow> Broker" where
  "unregisterListener b topic part ch =
     b\<lparr>b_listeners := (b_listeners b)((topic, part) := remove_listener ch (b_listeners b (topic, part)))\<rparr>"

record fetchTarget =
  ft_topic :: string
  ft_partitionID :: int
  ft_targetOffset :: int

definition fetchTargetHasNewData :: "Broker \<Rightarrow> fetchTarget \<Rightarrow> bool" where
  "fetchTargetHasNewData b t =
     (case get_partition b (ft_topic t) (ft_partitionID t) of
        None \<Rightarrow> False
      | Some p \<Rightarrow> ft_targetOffset t < LogEndOffset p)"

end
