(* ===== verification/BrokerHandlers.thy ===== *)
theory BrokerHandlers
  imports BrokerState Server
begin

text \<open>
  The request handlers of \<^verbatim>\<open>internal/broker/broker.go\<close> and the construction of the broker. A handler is a
  \<open>HandlerFunc\<close> on the state \<open>Broker\<close>, with the environment \<open>e\<close> as its first argument.

  Two handlers wait while other requests run. \<open>others\<close> is the effect of those requests on the broker
  during the wait of \<open>handleFetch\<close> and \<open>handleSyncGroup\<close>. \<open>slow\<close> is the outcome of the blocking part of
  \<open>waitForAcksAll\<close> (the steps of a waiter in \<open>Purgatory\<close>).
\<close>

section \<open>Loops over the parts of a request\<close>

primrec thread :: "('b \<Rightarrow> 'x \<Rightarrow> 'b \<times> 'y) \<Rightarrow> 'b \<Rightarrow> 'x list \<Rightarrow> 'b \<times> 'y list" where
  "thread f b [] = (b, [])"
| "thread f b (x # xs) = (case f b x of (b, y) \<Rightarrow> case thread f b xs of (b, ys) \<Rightarrow> (b, y # ys))"

primrec thread_r :: "('b \<Rightarrow> 'x \<Rightarrow> 'b \<times> 'y result) \<Rightarrow> 'b \<Rightarrow> 'x list \<Rightarrow> 'b \<times> 'y list result" where
  "thread_r f b [] = (b, Inr [])"
| "thread_r f b (x # xs) =
     (case f b x of
        (b, Inl err) \<Rightarrow> (b, Inl err)
      | (b, Inr y) \<Rightarrow> (case thread_r f b xs of (b, Inl err) \<Rightarrow> (b, Inl err) | (b, Inr ys) \<Rightarrow> (b, Inr (y # ys))))"

definition frame_code :: "int \<Rightarrow> ResponseFrame option result" where
  "frame_code code = Inr (Some \<lparr>sf_Size = 0, sf_CorrelationID = 0, sf_ErrorCode = code, sf_Payload = []\<rparr>)"

definition frame_body :: "bytes result \<Rightarrow> ResponseFrame option result" where
  "frame_body r =
     (case r of
        Inl err \<Rightarrow> Inl err
      | Inr body \<Rightarrow> Inr (Some \<lparr>sf_Size = 0, sf_CorrelationID = 0, sf_ErrorCode = 0, sf_Payload = body\<rparr>))"

section \<open>ApiVersions\<close>

definition supported_versions :: ApiVersionsResponse where
  "supported_versions =
     \<lparr>avs_ApiKeys =
        map (\<lambda>k. \<lparr>av_ApiKey = k, av_MinVersion = 1, av_MaxVersion = 1\<rparr>)
          [apiKeyProduce, apiKeyFetch, apiKeyMetadata, apiKeyCreateTopics, apiKeyJoinGroup, apiKeySyncGroup,
           apiKeyHeartbeat, apiKeyLeaveGroup, apiKeyOffsetCommit, apiKeyOffsetFetch, apiKeyListOffsets,
           apiKeyReplicaFetch] @
        [\<lparr>av_ApiKey = apiKeyApiVersions, av_MinVersion = 0, av_MaxVersion = 0\<rparr>]\<rparr>"

definition handleApiVersions :: "Broker HandlerFunc" where
  "handleApiVersions req b = (b, frame_body (ApiVersionsResponse_Encode supported_versions))"

section \<open>Produce\<close>

text \<open>The records of a record set with the error code: a torn record that is an end of file ends the loop.\<close>

function decode_set :: "bytes \<Rightarrow> Record list \<times> int" where
  "decode_set bs =
     (if bs = [] then ([], codeNone)
      else
        (case DecodeRecord bs of
           Inl (err, _) \<Rightarrow> ([], if errors_Is err EOF then codeNone else codeCorruptMessage)
         | Inr (r, _, rest) \<Rightarrow> (case decode_set rest of (rs, code) \<Rightarrow> (r # rs, code))))"
  by pat_completeness auto

termination decode_set
  by (relation "measure length") (auto dest: DecodeRecord_shrinks)

declare decode_set.simps [simp del]

definition produce_error :: "int \<Rightarrow> int \<Rightarrow> ProduceResponsePartition" where
  "produce_error partitionID code =
     \<lparr>psp_PartitionID = partitionID, psp_ErrorCode = code, psp_BaseOffset = 0, psp_LogAppendTime = 0\<rparr>"

text \<open>What follows the append of the records of a partition.\<close>

definition after_append :: "broker_env \<Rightarrow> Broker \<Rightarrow> string \<Rightarrow> int \<Rightarrow> Partition \<Rightarrow> Broker" where
  "after_append e b topic part p =
     (case updateLeaderLEO e b topic part (LogEndOffset p) of
        (b, hw) \<Rightarrow>
          (let b = put_partition b topic part (SetHighWatermark p hw)
           in case CheckAndComplete (b_purgatory b) (b_chans b) topic part hw of
                (pu, cs) \<Rightarrow> notifyAppended (b\<lparr>b_purgatory := pu, b_chans := cs\<rparr>) topic part))"

definition append_records ::
    "broker_env \<Rightarrow> int \<Rightarrow> Broker \<Rightarrow> string \<Rightarrow> int \<Rightarrow> Partition \<Rightarrow> Record list \<Rightarrow> Broker \<times> ProduceResponsePartition \<times> int option" where
  "append_records e acks b topic part p records =
     (case Partition_AppendBatch p records (e_now e) of
        (p, _, Some err) \<Rightarrow> (put_partition b topic part p, produce_error part codeUnknown, None)
      | (p, baseOffset, None) \<Rightarrow>
          (after_append e b topic part p,
           \<lparr>psp_PartitionID = part, psp_ErrorCode = codeNone, psp_BaseOffset = baseOffset,
            psp_LogAppendTime = e_now e div 1000000\<rparr>,
           if acks = -1 then Some (LogEndOffset p) else None))"

text \<open>The \<open>acks=all\<close> check of the number of in-sync replicas.\<close>

definition enough_replicas :: "broker_env \<Rightarrow> int \<Rightarrow> Broker \<Rightarrow> string \<Rightarrow> int \<Rightarrow> Broker \<times> bool" where
  "enough_replicas e acks b topic part =
     (if acks = -1
      then (case getOrCreateISRTracker e b topic part of
              (b, tracker) \<Rightarrow> (b, minInsyncReplicas b \<le> int (length (GetISR tracker))))
      else (b, True))"

definition produce_partition ::
    "broker_env \<Rightarrow> int \<Rightarrow> string \<Rightarrow> go_error option \<Rightarrow> Broker \<Rightarrow> ProduceRequestPartition \<Rightarrow>
     Broker \<times> ProduceResponsePartition \<times> int option" where
  "produce_partition e acks topic terr b pReq =
     (let part = prp_PartitionID pReq;
          maxBytes = lc_MaxMessageBytes (cfg_Log (b_config b))
      in case terr of
           Some err \<Rightarrow>
             (b, produce_error part (if errors_Is err ErrInvalidTopicName then codeInvalidTopicException
                                     else codeUnknownTopicOrPartition), None)
         | None \<Rightarrow>
             (case get_partition b topic part of
                None \<Rightarrow> (b, produce_error part codeUnknownTopicOrPartition, None)
              | Some p \<Rightarrow>
                  (case isLeader b topic part of
                     (b, False) \<Rightarrow> (b, produce_error part codeNotLeaderForPartition, None)
                   | (b, True) \<Rightarrow>
                       (case enough_replicas e acks b topic part of
                          (b, False) \<Rightarrow> (b, produce_error part codeNotEnoughReplicas, None)
                        | (b, True) \<Rightarrow>
                            if 0 < maxBytes \<and> maxBytes < int (length (prp_RecordSet pReq))
                            then (b, produce_error part codeMessageTooLarge, None)
                            else
                              (case decode_set (prp_RecordSet pReq) of
                                 (records, code) \<Rightarrow>
                                   if code = 0 \<and> records \<noteq> [] then append_records e acks b topic part p records
                                   else (b, produce_error part code, None))))))"

definition produce_topic ::
    "broker_env \<Rightarrow> int \<Rightarrow> Broker \<Rightarrow> ProduceRequestTopic \<Rightarrow> Broker \<times> string \<times> (ProduceResponsePartition \<times> int option) list" where
  "produce_topic e acks b tReq =
     (case getOrCreateTopic e b (prt_Name tReq) 0 of
        (b, terr) \<Rightarrow>
          (case thread (produce_partition e acks (prt_Name tReq) terr) b (prt_Partitions tReq) of
             (b, rs) \<Rightarrow> (b, prt_Name tReq, rs)))"

definition waitForAcksAll ::
    "(string \<Rightarrow> int \<Rightarrow> int \<Rightarrow> go_error option) \<Rightarrow> broker_env \<Rightarrow> Broker \<Rightarrow> string \<Rightarrow> int \<Rightarrow> int \<Rightarrow> go_error option" where
  "waitForAcksAll slow e b topic part requiredHW =
     (if requiredHW \<le> 0 then None
      else if requiredHW \<le> t_highWatermark (snd (getOrCreateISRTracker e b topic part)) then None
      else slow topic part requiredHW)"

definition acked ::
    "(string \<Rightarrow> int \<Rightarrow> int \<Rightarrow> go_error option) \<Rightarrow> string \<Rightarrow> ProduceResponsePartition \<times> int option \<Rightarrow> ProduceResponsePartition" where
  "acked wait topic = (\<lambda>(partResp, required).
     case required of
       None \<Rightarrow> partResp
     | Some hw \<Rightarrow>
         (case wait topic (psp_PartitionID partResp) hw of
            None \<Rightarrow> partResp
          | Some err \<Rightarrow>
              partResp\<lparr>psp_ErrorCode := if errors_Is err ErrProduceTimeout then codeRequestTimedOut else codeNotEnoughReplicas\<rparr>))"

definition produce ::
    "(string \<Rightarrow> int \<Rightarrow> int \<Rightarrow> go_error option) \<Rightarrow> broker_env \<Rightarrow> ProduceRequest \<Rightarrow> Broker \<Rightarrow> Broker \<times> ProduceResponse" where
  "produce slow e preq b =
     (case thread (produce_topic e (pr_Acks preq)) b (pr_Topics preq) of
        (b, ts) \<Rightarrow>
          (b, \<lparr>ps_Topics = map (\<lambda>(name, rs).
                 \<lparr>pst_Name = name, pst_Partitions = map (acked (waitForAcksAll slow e b) name) rs\<rparr>) ts\<rparr>))"

definition handleProduce :: "(string \<Rightarrow> int \<Rightarrow> int \<Rightarrow> go_error option) \<Rightarrow> broker_env \<Rightarrow> Broker HandlerFunc" where
  "handleProduce slow e req b =
     (case ProduceRequest_Decode (rf_Payload req) of
        Inl _ \<Rightarrow> (b, frame_code codeUnknown)
      | Inr (preq, _) \<Rightarrow> (case produce slow e preq b of (b, resp) \<Rightarrow> (b, frame_body (ProduceResponse_Encode resp))))"

section \<open>Fetch\<close>

definition fetch_targets :: "FetchRequest \<Rightarrow> fetchTarget list" where
  "fetch_targets freq =
     concat (map (\<lambda>t. map (\<lambda>p. \<lparr>ft_topic = frt_Name t, ft_partitionID = frp_PartitionID p, ft_targetOffset = frp_FetchOffset p\<rparr>)
                        (frt_Partitions t)) (fr_Topics freq))"

text \<open>
  The long poll: the channel \<open>ch\<close> is registered on every target before the first check, and removed on both exits.
\<close>

definition long_poll :: "(Broker \<Rightarrow> Broker) \<Rightarrow> nat \<Rightarrow> FetchRequest \<Rightarrow> Broker \<Rightarrow> Broker" where
  "long_poll others ch freq b =
     (let targets = fetch_targets freq
      in if 0 < fr_MaxWaitMs freq \<and> targets \<noteq> []
         then
           (let b = foldl (\<lambda>b t. registerListenerOn b (ft_topic t) (ft_partitionID t) ch) b targets;
                b = (if \<exists>t\<in>set targets. fetchTargetHasNewData b t then b else others b)
            in foldl (\<lambda>b t. unregisterListener b (ft_topic t) (ft_partitionID t) ch) b targets)
         else b)"

fun encode_records :: "Record list \<Rightarrow> bytes result" where
  "encode_records [] = Inr []"
| "encode_records (r # rs) =
     (case Record_Encode r of
        Inl err \<Rightarrow> Inl err
      | Inr bs \<Rightarrow> (case encode_records rs of Inl err \<Rightarrow> Inl err | Inr rest \<Rightarrow> Inr (bs @ rest)))"

definition fetch_partition :: "string \<Rightarrow> Broker \<Rightarrow> FetchRequestPartition \<Rightarrow> Broker \<times> FetchResponsePartition" where
  "fetch_partition topic b pReq =
     (let part = frp_PartitionID pReq
      in case get_partition b topic part of
           None \<Rightarrow>
             (b, \<lparr>fsp_PartitionID = part, fsp_ErrorCode = codeUnknownTopicOrPartition, fsp_HighWatermark = 0,
                  fsp_LogStartOffset = 0, fsp_RecordSet = []\<rparr>)
         | Some p \<Rightarrow>
             (let hw = HighWatermark p;
                  partResp = \<lparr>fsp_PartitionID = part, fsp_ErrorCode = codeNone, fsp_HighWatermark = hw,
                              fsp_LogStartOffset = LogStartOffset p, fsp_RecordSet = []\<rparr>
              in if hw \<le> frp_FetchOffset pReq then (b, partResp)
                 else
                   (case Partition_ReadFrom p (frp_FetchOffset pReq) (frp_MaxBytes pReq) of
                      (p, records, err) \<Rightarrow>
                        (put_partition b topic part p,
                         if (case err of None \<Rightarrow> False | Some x \<Rightarrow> \<not> errors_Is x EOF)
                         then partResp\<lparr>fsp_ErrorCode := codeUnknown\<rparr>
                         else
                           (case encode_records (takeWhile (\<lambda>r. Offset r < hw) records) of
                              Inl _ \<Rightarrow> partResp\<lparr>fsp_ErrorCode := codeUnknown\<rparr>
                            | Inr bs \<Rightarrow> partResp\<lparr>fsp_RecordSet := bs\<rparr>)))))"

definition fetch_topic :: "Broker \<Rightarrow> FetchRequestTopic \<Rightarrow> Broker \<times> FetchResponseTopic" where
  "fetch_topic b tReq =
     (case thread (fetch_partition (frt_Name tReq)) b (frt_Partitions tReq) of
        (b, ps) \<Rightarrow> (b, \<lparr>fst_Name = frt_Name tReq, fst_Partitions = ps\<rparr>))"

definition handleFetch :: "(Broker \<Rightarrow> Broker) \<Rightarrow> nat \<Rightarrow> Broker HandlerFunc" where
  "handleFetch others ch req b =
     (case FetchRequest_Decode (rf_Payload req) of
        Inl _ \<Rightarrow> (b, frame_code codeUnknown)
      | Inr (freq, _) \<Rightarrow>
          (case thread fetch_topic (long_poll others ch freq b) (fr_Topics freq) of
             (b, ts) \<Rightarrow> (b, frame_body (FetchResponse_Encode \<lparr>fs_Topics = ts\<rparr>))))"

section \<open>Metadata and topics\<close>

definition partition_metadata :: "Broker \<Rightarrow> string \<Rightarrow> int \<Rightarrow> PartitionMetadata" where
  "partition_metadata b topic pID =
     \<lparr>pm_PartitionID = pID, pm_Leader = partitionLeader b topic pID, pm_Replicas = b_replicaIDs b,
      pm_ISR = (case getISRTracker b topic pID of None \<Rightarrow> b_replicaIDs b | Some tracker \<Rightarrow> GetISR tracker)\<rparr>"

definition topic_metadata :: "broker_env \<Rightarrow> Broker \<Rightarrow> string \<Rightarrow> Broker \<times> TopicMetadata result" where
  "topic_metadata e b topic =
     (case (case GetTopic (b_meta b) topic of
              Some tm \<Rightarrow> (b, Some tm)
            | None \<Rightarrow>
                if tc_AutoCreate (cfg_Topic (b_config b))
                then (case getOrCreateTopic e b topic 0 of
                        (b, None) \<Rightarrow> (b, GetTopic (b_meta b) topic)
                      | (b, Some _) \<Rightarrow> (b, None))
                else (b, None)) of
        (b, found) \<Rightarrow>
          (case found of
           None \<Rightarrow> (b, Inr \<lparr>tm_Name = topic, tm_ErrorCode = codeUnknownTopicOrPartition, tm_Partitions = []\<rparr>)
         | Some tm \<Rightarrow>
             if tmeta_NumPartitions tm < 0 then (b, Inl (Panic ''makeslice: len out of range''))
             else (b, Inr \<lparr>tm_Name = topic, tm_ErrorCode = codeNone,
                           tm_Partitions = map (partition_metadata b topic) [0..tmeta_NumPartitions tm - 1]\<rparr>)))"

definition handleMetadata :: "broker_env \<Rightarrow> Broker HandlerFunc" where
  "handleMetadata e req b =
     (case MetadataRequest_Decode (rf_Payload req) of
        Inl _ \<Rightarrow> (b, frame_code codeUnknown)
      | Inr (mreq, _) \<Rightarrow>
          (let brokersMeta = clusterBrokerMetadata b;
               targetTopics = (case mr_Topics mreq of None \<Rightarrow> map tmeta_Name (ListTopics (b_meta b)) | Some ts \<Rightarrow> ts)
           in case thread_r (topic_metadata e) b targetTopics of
                (b, Inl err) \<Rightarrow> (b, Inl err)
              | (b, Inr ts) \<Rightarrow> (b, frame_body (MetadataResponse_Encode \<lparr>ms_Brokers = brokersMeta, ms_Topics = ts\<rparr>))))"

definition create_topic :: "broker_env \<Rightarrow> Broker \<Rightarrow> CreateTopicsRequestTopic \<Rightarrow> Broker \<times> CreateTopicResponseTopic" where
  "create_topic e b tReq =
     (let name = ctrt_Name tReq; answer = (\<lambda>code. \<lparr>ctst_Name = name, ctst_ErrorCode = code\<rparr>)
      in if validateTopicName (e_cwd e) (dataDir b) name \<noteq> None then (b, answer codeInvalidTopicException)
         else if ctrt_NumPartitions tReq \<le> 0 then (b, answer codeInvalidPartitionCount)
         else
           (case CreateTopic (b_meta b) name (ctrt_NumPartitions tReq) (ctrt_ReplicationFactor tReq) of
              (mm, _, False) \<Rightarrow> (b\<lparr>b_meta := mm\<rparr>, answer codeTopicAlreadyExists)
            | (mm, _, True) \<Rightarrow>
                (case open_topic e (b\<lparr>b_meta := mm\<rparr>) name (ctrt_NumPartitions tReq) of
                   (b, None) \<Rightarrow> (b, answer codeNone)
                 | (b, Some err) \<Rightarrow>
                     (b, answer (if errors_Is err ErrInvalidTopicName then codeInvalidTopicException else codeUnknown)))))"

definition handleCreateTopics :: "broker_env \<Rightarrow> Broker HandlerFunc" where
  "handleCreateTopics e req b =
     (case CreateTopicsRequest_Decode (rf_Payload req) of
        Inl _ \<Rightarrow> (b, frame_code codeUnknown)
      | Inr (creq, _) \<Rightarrow>
          (case thread (create_topic e) b (ctr_Topics creq) of
             (b, ts) \<Rightarrow> (b, frame_body (CreateTopicsResponse_Encode \<lparr>cts_Topics = ts\<rparr>))))"

section \<open>Consumer groups\<close>

definition handleJoinGroup :: "broker_env \<Rightarrow> Broker HandlerFunc" where
  "handleJoinGroup e req b =
     (case JoinGroupRequest_Decode (rf_Payload req) of
        Inl _ \<Rightarrow> (b, frame_code codeUnknown)
      | Inr (jreq, _) \<Rightarrow>
          (case JoinGroup (e_ord e) (e_rnd e) (b_coord b) jreq (rf_ClientID req) (e_now e) of
             (gc, resp) \<Rightarrow> (b\<lparr>b_coord := gc\<rparr>, frame_body (JoinGroupResponse_Encode resp))))"

text \<open>The wait of \<open>SyncGroup\<close> on the channel of the member: an answer that is there, one that comes, or the timeout.\<close>

definition sync_wait :: "(Broker \<Rightarrow> Broker) \<Rightarrow> Broker \<Rightarrow> nat \<Rightarrow> Broker \<times> SyncGroupResponse" where
  "sync_wait others b ch =
     (case sync_receive (b_coord b) ch of
        Some (gc, resp) \<Rightarrow> (b\<lparr>b_coord := gc\<rparr>, resp)
      | None \<Rightarrow>
          (let b = others b
           in case sync_receive (b_coord b) ch of
                Some (gc, resp) \<Rightarrow> (b\<lparr>b_coord := gc\<rparr>, resp)
              | None \<Rightarrow> (b, sync_timeout)))"

definition handleSyncGroup :: "(Broker \<Rightarrow> Broker) \<Rightarrow> broker_env \<Rightarrow> Broker HandlerFunc" where
  "handleSyncGroup others e req b =
     (case SyncGroupRequest_Decode (rf_Payload req) of
        Inl _ \<Rightarrow> (b, frame_code codeUnknown)
      | Inr (sreq, _) \<Rightarrow>
          (case sync_section (b_coord b) sreq (e_now e) of
             (gc, SyncDone resp) \<Rightarrow> (b\<lparr>b_coord := gc\<rparr>, frame_body (SyncGroupResponse_Encode resp))
           | (gc, SyncWait ch) \<Rightarrow>
               (case sync_wait others (b\<lparr>b_coord := gc\<rparr>) ch of
                  (b, resp) \<Rightarrow> (b, frame_body (SyncGroupResponse_Encode resp)))))"

definition handleHeartbeat :: "broker_env \<Rightarrow> Broker HandlerFunc" where
  "handleHeartbeat e req b =
     (case HeartbeatRequest_Decode (rf_Payload req) of
        Inl _ \<Rightarrow> (b, frame_code codeUnknown)
      | Inr (hreq, _) \<Rightarrow>
          (case Heartbeat (b_coord b) hreq (e_now e) of
             (gc, resp) \<Rightarrow> (b\<lparr>b_coord := gc\<rparr>, frame_body (HeartbeatResponse_Encode resp))))"

definition handleLeaveGroup :: "broker_env \<Rightarrow> Broker HandlerFunc" where
  "handleLeaveGroup e req b =
     (case LeaveGroupRequest_Decode (rf_Payload req) of
        Inl _ \<Rightarrow> (b, frame_code codeUnknown)
      | Inr (lreq, _) \<Rightarrow>
          (case LeaveGroup (e_ord e) (b_coord b) lreq of
             (gc, resp) \<Rightarrow> (b\<lparr>b_coord := gc\<rparr>, frame_body (LeaveGroupResponse_Encode resp))))"

section \<open>Offsets\<close>

definition CommitOffset :: "broker_env \<Rightarrow> Broker \<Rightarrow> string \<Rightarrow> string \<Rightarrow> int \<Rightarrow> int \<Rightarrow> Broker \<times> unit result" where
  "CommitOffset e b groupID topic part offset =
     (case OffsetStore_Commit (b_offsets b) groupID topic part offset (e_now e) of
        Inl err \<Rightarrow> (b, Inl err)
      | Inr s \<Rightarrow> (b\<lparr>b_offsets := s\<rparr>, Inr ()))"

definition FetchOffset :: "Broker \<Rightarrow> string \<Rightarrow> string \<Rightarrow> int \<Rightarrow> int" where
  "FetchOffset b groupID topic part = OffsetStore_Fetch (b_offsets b) groupID topic part"

definition commit_partition ::
    "broker_env \<Rightarrow> string \<Rightarrow> string \<Rightarrow> Broker \<Rightarrow> OffsetCommitRequestPartition \<Rightarrow> Broker \<times> OffsetCommitResponsePartition result" where
  "commit_partition e groupID topic b p =
     (case CommitOffset e b groupID topic (ocrp_PartitionID p) (ocrp_Offset p) of
        (b, Inl err) \<Rightarrow> (b, Inl err)
      | (b, Inr _) \<Rightarrow> (b, Inr \<lparr>ocsp_PartitionID = ocrp_PartitionID p, ocsp_ErrorCode = codeNone\<rparr>))"

definition commit_topic :: "broker_env \<Rightarrow> string \<Rightarrow> Broker \<Rightarrow> OffsetCommitRequestTopic \<Rightarrow> Broker \<times> OffsetCommitResponseTopic result" where
  "commit_topic e groupID b t =
     (case thread_r (commit_partition e groupID (ocrt_Name t)) b (ocrt_Partitions t) of
        (b, Inl err) \<Rightarrow> (b, Inl err)
      | (b, Inr ps) \<Rightarrow> (b, Inr \<lparr>ocst_Name = ocrt_Name t, ocst_Partitions = ps\<rparr>))"

definition handleOffsetCommit :: "broker_env \<Rightarrow> Broker HandlerFunc" where
  "handleOffsetCommit e req b =
     (case OffsetCommitRequest_Decode (rf_Payload req) of
        Inl _ \<Rightarrow> (b, frame_code codeUnknown)
      | Inr (creq, _) \<Rightarrow>
          (case thread_r (commit_topic e (ocr_GroupID creq)) b (ocr_Topics creq) of
             (b, Inl err) \<Rightarrow> (b, Inl err)
           | (b, Inr ts) \<Rightarrow> (b, frame_body (OffsetCommitResponse_Encode \<lparr>ocs_Topics = ts\<rparr>))))"

definition offset_topic :: "Broker \<Rightarrow> string \<Rightarrow> OffsetFetchRequestTopic \<Rightarrow> OffsetFetchResponseTopic" where
  "offset_topic b groupID t =
     \<lparr>ofst_Name = ofrt_Name t,
      ofst_Partitions = map (\<lambda>pID. \<lparr>ofsp_PartitionID = pID, ofsp_Offset = FetchOffset b groupID (ofrt_Name t) pID,
                                    ofsp_ErrorCode = codeNone\<rparr>) (ofrt_Partitions t)\<rparr>"

definition handleOffsetFetch :: "Broker HandlerFunc" where
  "handleOffsetFetch req b =
     (case OffsetFetchRequest_Decode (rf_Payload req) of
        Inl _ \<Rightarrow> (b, frame_code codeUnknown)
      | Inr (freq, _) \<Rightarrow>
          (b, frame_body (OffsetFetchResponse_Encode \<lparr>ofs_Topics = map (offset_topic b (ofr_GroupID freq)) (ofr_Topics freq)\<rparr>)))"

definition list_partition :: "Broker \<Rightarrow> string \<Rightarrow> ListOffsetsRequestPartition \<Rightarrow> ListOffsetsResponsePartition" where
  "list_partition b topic p =
     (case get_partition b topic (lorp_PartitionID p) of
        None \<Rightarrow> \<lparr>losp_PartitionID = lorp_PartitionID p, losp_ErrorCode = codeUnknownTopicOrPartition, losp_Offset = -1\<rparr>
      | Some part \<Rightarrow>
          \<lparr>losp_PartitionID = lorp_PartitionID p, losp_ErrorCode = codeNone,
           losp_Offset = (if lorp_Timestamp p = -2 then LogStartOffset part else LogEndOffset part)\<rparr>)"

definition handleListOffsets :: "Broker HandlerFunc" where
  "handleListOffsets req b =
     (case ListOffsetsRequest_Decode (rf_Payload req) of
        Inl _ \<Rightarrow> (b, frame_code codeUnknown)
      | Inr (lreq, _) \<Rightarrow>
          (b, frame_body (ListOffsetsResponse_Encode
                \<lparr>los_Topics = map (\<lambda>t. \<lparr>lost_Name = lort_Name t,
                   lost_Partitions = map (list_partition b (lort_Name t)) (lort_Partitions t)\<rparr>) (lor_Topics lreq)\<rparr>)))"

section \<open>Replication\<close>

text \<open>The end of a replica fetch: the log end offsets of the leader and of the follower, and the new high watermark.\<close>

definition replica_progress :: "broker_env \<Rightarrow> Broker \<Rightarrow> ReplicaFetchRequest \<Rightarrow> Partition \<Rightarrow> Record list \<Rightarrow> Broker \<times> int" where
  "replica_progress e b rreq p records =
     (let topic = rfq_Topic rreq; part = rfq_Partition rreq; leaderLEO = LogEndOffset p;
          followerLEO = (if records = [] then rfq_FetchOffset rreq else int64 (Offset (last records) + 1));
          b = fst (updateLeaderLEO e b topic part leaderLEO)
      in case updateReplicaLEO e b topic part (rfq_ReplicaID rreq) followerLEO leaderLEO of
           (b, hw) \<Rightarrow>
             (let b = put_partition b topic part (SetHighWatermark p hw)
              in case CheckAndComplete (b_purgatory b) (b_chans b) topic part hw of
                   (pu, cs) \<Rightarrow> (b\<lparr>b_purgatory := pu, b_chans := cs\<rparr>, hw)))"

definition replica_fetch_max :: "Broker \<Rightarrow> int" where
  "replica_fetch_max b =
     (let n = rc_ReplicaFetchMaxBytes (cfg_Replication (b_config b)) in if n \<le> 0 then 1024 * 1024 else n)"

definition handleReplicaFetch :: "broker_env \<Rightarrow> Broker HandlerFunc" where
  "handleReplicaFetch e req b =
     (case DecodeReplicaFetchRequest (rf_Payload req) of
        Inl _ \<Rightarrow> (b, frame_code codeUnknown)
      | Inr rreq \<Rightarrow>
          (case get_partition b (rfq_Topic rreq) (rfq_Partition rreq) of
             None \<Rightarrow> (b, frame_code codeUnknownTopicOrPartition)
           | Some p \<Rightarrow>
               (case isLeader b (rfq_Topic rreq) (rfq_Partition rreq) of
                  (b, False) \<Rightarrow> (b, frame_code codeNotLeaderForPartition)
                | (b, True) \<Rightarrow>
                    (case Partition_ReadFrom p (rfq_FetchOffset rreq) (replica_fetch_max b) of
                       (p, records, err) \<Rightarrow>
                         if (case err of None \<Rightarrow> False | Some x \<Rightarrow> \<not> errors_Is x EOF)
                         then (put_partition b (rfq_Topic rreq) (rfq_Partition rreq) p, frame_code codeUnknown)
                         else
                           (case replica_progress e b rreq p records of
                              (b, hw) \<Rightarrow> (b, frame_body (EncodeReplicaFetchResponse 0 hw records)))))))"

section \<open>Construction and shutdown\<close>

definition broker_mux :: "(string \<Rightarrow> int \<Rightarrow> int \<Rightarrow> go_error option) \<Rightarrow> (Broker \<Rightarrow> Broker) \<Rightarrow> nat \<Rightarrow> broker_env \<Rightarrow> Broker Mux" where
  "broker_mux slow others ch e =
     foldl (\<lambda>m (k, h). Handle m k h) NewMux
       [(apiKeyApiVersions, handleApiVersions), (apiKeyProduce, handleProduce slow e), (apiKeyFetch, handleFetch others ch),
        (apiKeyMetadata, handleMetadata e), (apiKeyCreateTopics, handleCreateTopics e), (apiKeyJoinGroup, handleJoinGroup e),
        (apiKeySyncGroup, handleSyncGroup others e), (apiKeyHeartbeat, handleHeartbeat e), (apiKeyLeaveGroup, handleLeaveGroup e),
        (apiKeyOffsetCommit, handleOffsetCommit e), (apiKeyOffsetFetch, handleOffsetFetch),
        (apiKeyListOffsets, handleListOffsets), (apiKeyReplicaFetch, handleReplicaFetch e)]"

fun load_topics :: "broker_env \<Rightarrow> Broker \<Rightarrow> TopicMeta list \<Rightarrow> Broker result" where
  "load_topics e b [] = Inr b"
| "load_topics e b (meta # metas) =
     (case validateTopicName (e_cwd e) (dataDir b) (tmeta_Name meta) of
        Some err \<Rightarrow> Inl (Wrapped (''broker: load topic '' @ tmeta_Name meta) err)
      | None \<Rightarrow>
          (case open_topic e b (tmeta_Name meta) (tmeta_NumPartitions meta) of
             (_, Some err) \<Rightarrow> Inl (Wrapped (''broker: load topic '' @ tmeta_Name meta) err)
           | (b, None) \<Rightarrow> load_topics e b metas))"

definition offset_dirs :: "broker_env \<Rightarrow> string \<Rightarrow> nat \<Rightarrow> dirent list" where
  "offset_dirs e base i = e_fs e (path_Join (path_Join (path_Abs (e_cwd e) base) ''__consumer_offsets'') (itoa (int i)))"

definition New :: "broker_env \<Rightarrow> meta_file \<Rightarrow> meta_file \<Rightarrow> BrokerCfg \<Rightarrow> Broker result option" where
  "New e metaTmp metaFile cfg =
     (let metaMgr = NewMetadataManager metaTmp metaFile;
          base = bc_DataDir (cfg_Broker cfg)
      in case OffsetStore_Start (offset_dirs e base) (e_now e) (NewOffsetStore (gc_OffsetsTopicPartitions (cfg_Group cfg))) of
           None \<Rightarrow> None
         | Some (_, Some err) \<Rightarrow> Some (Inl (Wrapped ''broker: offset store'' err))
         | Some (offsetStore, None) \<Rightarrow>
             Some (load_topics e
               \<lparr>b_config = cfg, b_meta = metaMgr, b_coord = NewGroupCoordinator, b_offsets = offsetStore,
                b_purgatory = NewPurgatory, b_chans = (\<lambda>_. []), b_epochs = NewEpochManager,
                b_localID = int32 (bc_ID (cfg_Broker cfg)), b_replicaIDs = clusterReplicaIDs cfg,
                b_isr = Map.empty, b_topics = [], b_listeners = (\<lambda>_. []), b_signals = (\<lambda>_. False)\<rparr>
               (ListTopics metaMgr)))"

definition server_config :: "BrokerCfg \<Rightarrow> ServerConfig" where
  "server_config cfg = \<lparr>sc_MaxConnections = bc_MaxConnections (cfg_Broker cfg),
     sc_IdleTimeout = ms_to_ns (bc_RequestTimeoutMs (cfg_Broker cfg)), sc_WriteTimeout = 10 * 1000000000,
     sc_MaxRequestBytes = DefaultMaxRequestBytes\<rparr>"

definition Broker_Shutdown :: "Broker \<Rightarrow> Broker" where
  "Broker_Shutdown b =
     b\<lparr>b_offsets := fst (OffsetStore_Close (b_offsets b)),
       b_topics := map (\<lambda>(name, t). (name, fst (Topic_Close t))) (b_topics b)\<rparr>"

end
