(* ===== verification/BrokerInv.thy ===== *)
theory BrokerInv
  imports BrokerHandlers GroupInv
begin

text \<open>
  The invariant of the broker and that every handler keeps it: the logs of the partitions are well formed, no
  high watermark passes the end of its log, the trackers of the in-sync replicas know the leader of
  their partition and never more records of it than its log has, and the group coordinator is consistent.
\<close>

section \<open>Logs and partitions\<close>

lemma batch_loop_keeps:
  assumes "log_inv l" and "\<forall>r \<in> set recs. typed_record r" and "HighestOffset l + int (length recs) < 2 ^ 63"
  shows "\<exists>l' b err k. batch_loop first base l recs now = (l', b, err) \<and> log_inv l' \<and> same_log l l' \<and>
    log_recs l' = log_recs l @ number_from (HighestOffset l) (take k recs)"
  using assms
proof (induction recs arbitrary: first base l)
  case Nil
  then show ?case by (simp add: same_log_def)
next
  case (Cons r recs)
  show ?case
  proof (cases "EncodedSize r \<le> MaxRecordSize")
    case True
    obtain l1 where l1: "append_one l r now = (l1, Inr (HighestOffset l))" "log_inv l1" "same_log l l1"
      "log_recs l1 = log_recs l @ [r\<lparr>Offset := HighestOffset l\<rparr>]"
      using append_one_ok [OF Cons.prems(1), of r now] Cons.prems True by auto
    have h: "HighestOffset l1 = HighestOffset l + 1"
      using HighestOffset_append [OF Cons.prems(1) l1(2,3,4)] by simp
    obtain l' b err k where l': "batch_loop False (if first then HighestOffset l else base) l1 recs now = (l', b, err)"
      "log_inv l'" "same_log l1 l'" "log_recs l' = log_recs l1 @ number_from (HighestOffset l1) (take k recs)"
      using Cons.IH [OF l1(2)] Cons.prems h by fastforce
    then show ?thesis using l1 h by (intro exI [of _ l'] exI [of _ b] exI [of _ err] exI [of _ "Suc k"]) (simp add: same_log_def)
  next
    case False
    then obtain l1 where "append_one l r now = (l1, Inl too_large)" "log_inv l1" "same_log l l1" "log_recs l1 = log_recs l"
      using append_one_too_large [OF Cons.prems(1), of r now] by auto
    then show ?thesis by (intro exI [of _ l1] exI [of _ "if first then 0 else base"] exI [of _ "Some too_large"] exI [of _ 0]) simp
  qed
qed

lemma AppendBatch_keeps:
  assumes "log_inv l" and "\<forall>r \<in> set recs. typed_record r" and "HighestOffset l + int (length recs) < 2 ^ 63"
  shows "\<exists>l' b err k. AppendBatch l recs now = (l', b, err) \<and> log_inv l' \<and> same_log l l' \<and>
    log_recs l' = log_recs l @ number_from (HighestOffset l) (take k recs)"
proof (cases "recs = []")
  case True
  then show ?thesis using assms(1) by (auto simp: AppendBatch_def same_log_def log_inv_def)
next
  case False
  then show ?thesis using batch_loop_keeps [OF assms, of True 0 now] assms(1) by (simp add: AppendBatch_def log_inv_def)
qed

text \<open>A step of a log that changes no record.\<close>

definition keeps :: "Log \<Rightarrow> Log \<Rightarrow> bool" where
  "keeps l l' \<longleftrightarrow> log_inv l' \<and> same_log l l' \<and> log_recs l' = log_recs l"

lemma keeps_refl: "log_inv l \<Longrightarrow> keeps l l"
  by (simp add: keeps_def same_log_def)

lemma keeps_trans: "keeps l l' \<Longrightarrow> keeps l' l'' \<Longrightarrow> keeps l l''"
  by (simp add: keeps_def same_log_def)

lemma readSegments_keeps: "keeps l\<^sub>0 l \<Longrightarrow> keeps l\<^sub>0 (fst (readSegments l i off mx out acc))"
proof (induction l i off mx out acc rule: readSegments.induct)
  case (1 l i off mx out acc)
  show ?case
  proof (cases "length (l_segments l) \<le> i")
    case True
    then show ?thesis using "1.prems" by (simp add: readSegments.simps [of l i])
  next
    case False
    then have "keeps l\<^sub>0 l'" if "flush_if_active l i = Inr l'" for l'
      using flush_if_active_ok [of l i] "1.prems" that keeps_trans [of l\<^sub>0 l l'] by (auto simp: keeps_def)
    with "1.IH" show ?thesis using False "1.prems"
      by (subst readSegments.simps) (auto simp: Let_def split: sum.split prod.split option.split)
  qed
qed

lemma Log_ReadFrom_keeps:
  assumes "log_inv l" and "Log_ReadFrom l off mx = (l', rs, err)"
  shows "keeps l l'"
  using assms(2) readSegments_keeps [OF keeps_refl [OF assms(1)], of 0 off mx "[]" 0] keeps_refl [OF assms(1)]
  by (auto simp: Log_ReadFrom_def split: if_splits)

lemma same_recs_end: "log_inv l \<Longrightarrow> keeps l l' \<Longrightarrow> HighestOffset l' = HighestOffset l"
  using HighestOffset_eq [of l] HighestOffset_eq [of l'] by (simp add: keeps_def same_log_def)

definition part_ok :: "int \<Rightarrow> Partition \<Rightarrow> bool" where
  "part_ok n p \<longleftrightarrow> \<not> pt_closed p \<and> log_inv (pt_log p) \<and> HighWatermark p \<le> LogEndOffset p \<and> LogEndOffset p \<le> n"

lemma part_ok_mono: "part_ok n p \<Longrightarrow> n \<le> n' \<Longrightarrow> part_ok n' p"
  by (simp add: part_ok_def)

lemma Partition_ReadFrom_keeps:
  assumes "part_ok n p" and "Partition_ReadFrom p off mx = (p', rs, err)"
  shows "part_ok n p'" and "LogEndOffset p' = LogEndOffset p" and "HighWatermark p' = HighWatermark p"
    and "log_recs (pt_log p') = log_recs (pt_log p)"
proof -
  obtain l' where l': "Log_ReadFrom (pt_log p) off mx = (l', rs, err)" "p' = p\<lparr>pt_log := l'\<rparr>"
    using assms(2) by (auto simp: Partition_ReadFrom_def split: prod.splits)
  have inv: "log_inv (pt_log p)" using assms(1) by (simp add: part_ok_def)
  note k = Log_ReadFrom_keeps [OF inv l'(1)]
  then show "LogEndOffset p' = LogEndOffset p" using same_recs_end [OF inv k] l'(2) by (simp add: LogEndOffset_def)
  then show "part_ok n p'" "HighWatermark p' = HighWatermark p" "log_recs (pt_log p') = log_recs (pt_log p)"
    using k l'(2) assms(1) by (simp_all add: part_ok_def HighWatermark_def keeps_def)
qed

lemma Partition_AppendBatch_keeps:
  assumes "part_ok n p" and "\<forall>r \<in> set recs. typed_record r" and "n + int (length recs) < 2 ^ 63"
    and "Partition_AppendBatch p recs now = (p', base, err)"
  shows "part_ok (n + int (length recs)) p'" and "LogEndOffset p \<le> LogEndOffset p'" and "HighWatermark p' = HighWatermark p"
proof -
  have inv: "log_inv (pt_log p)" and open_p: "\<not> pt_closed p" and leo: "LogEndOffset p \<le> n" "HighWatermark p \<le> LogEndOffset p"
    using assms(1) by (auto simp: part_ok_def)
  have "HighestOffset (pt_log p) + int (length recs) < 2 ^ 63" using assms(3) leo by (simp add: LogEndOffset_def)
  then obtain l' b e k where l': "AppendBatch (pt_log p) recs now = (l', b, e)" "log_inv l'" "same_log (pt_log p) l'"
    "log_recs l' = log_recs (pt_log p) @ number_from (HighestOffset (pt_log p)) (take k recs)"
    using AppendBatch_keeps [OF inv assms(2), of now] by blast
  have p': "p' = p\<lparr>pt_log := l'\<rparr>" using assms(4) l'(1) open_p by (simp add: Partition_AppendBatch_def)
  have "LogEndOffset p' = LogEndOffset p + int (min (length recs) k)"
    using HighestOffset_append [OF inv l'(2,3,4)] p' by (simp add: LogEndOffset_def)
  then show "part_ok (n + int (length recs)) p'" "LogEndOffset p \<le> LogEndOffset p'" "HighWatermark p' = HighWatermark p"
    using l'(2) p' open_p leo by (auto simp: part_ok_def HighWatermark_def)
qed

lemma LogEndOffset_nonneg: "part_ok n p \<Longrightarrow> 0 \<le> LogEndOffset p"
  using HighestOffset_eq [of "pt_log p"] base_nonneg [of "l_segments (pt_log p)" 0] log_nonempty [of "pt_log p"]
  by (auto simp: part_ok_def LogEndOffset_def LowestOffset_def log_inv_def hd_conv_nth)

lemma SetHighWatermark_ok:
  "part_ok n p \<Longrightarrow> hw \<le> LogEndOffset p \<Longrightarrow> part_ok n (SetHighWatermark p hw) \<and> LogEndOffset (SetHighWatermark p hw) = LogEndOffset p"
  by (simp add: part_ok_def SetHighWatermark_def HighWatermark_def LogEndOffset_def)

section \<open>Trackers\<close>

text \<open>The tracker of a broker \<open>n\<close> whose log ends at \<open>m\<close>.\<close>

definition track_ok :: "int \<Rightarrow> int \<Rightarrow> ISRTracker \<Rightarrow> bool" where
  "track_ok n m t \<longleftrightarrow> 0 \<le> t_highWatermark t \<and> t_highWatermark t \<le> m \<and> (leaderID t = n \<longrightarrow> n \<in> fst ` set (replicas t)) \<and>
     (\<forall>(k, rep) \<in> set (replicas t). rs_BrokerID rep = k \<and> 0 \<le> rs_LogEndOffset rep \<and> (k = n \<longrightarrow> rs_LogEndOffset rep \<le> m))"

lemma track_ok_mono: "track_ok n m t \<Longrightarrow> m \<le> m' \<Longrightarrow> track_ok n m' t"
  by (fastforce simp: track_ok_def)

definition reps_ok :: "int \<Rightarrow> int \<Rightarrow> (int \<times> ReplicaState) list \<Rightarrow> bool" where
  "reps_ok n m reps \<longleftrightarrow>
     (\<forall>(k, rep) \<in> set reps. rs_BrokerID rep = k \<and> 0 \<le> rs_LogEndOffset rep \<and> (k = n \<longrightarrow> rs_LogEndOffset rep \<le> m))"

lemma reps_ok_map:
  assumes "reps_ok n m reps"
    and "\<And>k rep. rs_BrokerID (f k rep) = rs_BrokerID rep \<and> rs_LogEndOffset (f k rep) = rs_LogEndOffset rep"
  shows "reps_ok n m (map (\<lambda>(k, rep). (k, f k rep)) reps)"
  using assms by (fastforce simp: reps_ok_def)

lemma advance_leo_ok:
  assumes "reps_ok n m reps" and "0 \<le> leo" and "k = n \<longrightarrow> leo \<le> m"
  shows "reps_ok n m (advance_leo k leo now reps)" and "fst ` set reps \<subseteq> fst ` set (advance_leo k leo now reps)"
  using assms by (auto simp: reps_ok_def advance_leo_def split: if_splits) (force+)

lemma calculateHW_bound:
  assumes "reps_ok n m (replicas t)" and "0 \<le> t_highWatermark t" "t_highWatermark t \<le> m" and "leaderID t = n" and "n \<in> fst ` set (replicas t)"
    and "\<forall>(k, rep) \<in> set (replicas t). rs_BrokerID rep = n \<longrightarrow> rs_InSync rep"
  shows "track_ok n m (fst (calculateHWLocked t)) \<and> snd (calculateHWLocked t) = t_highWatermark (fst (calculateHWLocked t)) \<and>
    leaderID (fst (calculateHWLocked t)) = n"
proof -
  obtain rep where rep: "(n, rep) \<in> set (replicas t)" using assms(5) by auto
  then have "rs_InSync rep" "rs_LogEndOffset rep \<le> m" using assms(1,6) by (auto simp: reps_ok_def)
  then have mem: "rs_LogEndOffset rep \<in> sync_leos (replicas t)" using rep by (force simp: sync_leos_def)
  have nonneg: "\<forall>x \<in> sync_leos (replicas t). 0 \<le> x" using assms(1) by (auto simp: sync_leos_def reps_ok_def)
  have "Min (sync_leos (replicas t)) \<le> m" using Min_le [OF finite_sync_leos mem] \<open>rs_LogEndOffset rep \<le> m\<close> by linarith
  then have "foldl min_leo (-1) (map snd (replicas t)) \<le> m" using foldl_min_leo [OF nonneg] mem by (metis empty_iff)
  then show ?thesis using assms by (auto simp: calculateHWLocked_def Let_def track_ok_def reps_ok_def)
qed

lemma updateISR_keys: "map fst (replicas (updateISRLocked t now)) = map fst (replicas t)"
  by (simp add: updateISRLocked_def Let_def case_prod_unfold)

lemma updateISR_ok:
  assumes "reps_ok n m (replicas t)" and "leaderID t = n"
  shows "reps_ok n m (replicas (updateISRLocked t now))" and "fst ` set (replicas (updateISRLocked t now)) = fst ` set (replicas t)"
    and "\<forall>(k, rep) \<in> set (replicas (updateISRLocked t now)). rs_BrokerID rep = n \<longrightarrow> rs_InSync rep"
    and "t_highWatermark (updateISRLocked t now) = t_highWatermark t" and "leaderID (updateISRLocked t now) = leaderID t"
proof -
  show "fst ` set (replicas (updateISRLocked t now)) = fst ` set (replicas t)"
    using updateISR_keys [of t now] by (metis list.set_map)
qed (use assms in \<open>auto simp: updateISRLocked_def Let_def reps_ok_def split: if_splits\<close>)

lemma UpdateLEO_track:
  assumes "track_ok n m t" and "leaderID t = n" and "0 \<le> leo" and "k = n \<longrightarrow> leo \<le> m"
    and "UpdateLEO t k leo leaderLEO now = (t', hw)"
  shows "track_ok n m t'" and "hw = t_highWatermark t'" and "leaderID t' = n" and "hw \<le> m" and "0 \<le> hw"
proof -
  define reps where "reps = advance_leo k leo now (replicas t)"
  have r: "reps_ok n m reps" "n \<in> fst ` set reps"
    using advance_leo_ok [of n m "replicas t" leo k now] assms(1-4) unfolding reps_def by (auto simp: track_ok_def reps_ok_def)
  obtain f where f: "UpdateLEO t k leo leaderLEO now =
      calculateHWLocked (updateISRLocked (t\<lparr>replicas := map (\<lambda>(k, rep). (k, f k rep)) reps\<rparr>) now)"
    and keep: "\<And>k rep. rs_BrokerID (f k rep) = rs_BrokerID rep \<and> rs_LogEndOffset (f k rep) = rs_LogEndOffset rep"
  proof -
    define eff where "eff = (case map_of reps (leaderID t) of
        Some leader \<Rightarrow> if leaderLEO < rs_LogEndOffset leader then rs_LogEndOffset leader else leaderLEO | None \<Rightarrow> leaderLEO)"
    define f where "f = (\<lambda>i (rep :: ReplicaState). if i = k \<and> eff \<le> rs_LogEndOffset rep then rep\<lparr>rs_LastCaughtUpTime := now\<rparr> else rep)"
    have fe: "(\<lambda>(id, rep). if id = k \<and> eff \<le> rs_LogEndOffset rep then (id, rep\<lparr>rs_LastCaughtUpTime := now\<rparr>) else (id, rep)) =
        (\<lambda>(k, rep). (k, f k rep))" by (auto simp: f_def fun_eq_iff)
    have "UpdateLEO t k leo leaderLEO now =
      calculateHWLocked (updateISRLocked (t\<lparr>replicas := map (\<lambda>(k, rep). (k, f k rep)) reps\<rparr>) now)"
      unfolding UpdateLEO_def Let_def reps_def [symmetric] eff_def [symmetric] fe ..
    then show thesis by (rule that) (simp add: f_def)
  qed
  let ?t = "updateISRLocked (t\<lparr>replicas := map (\<lambda>(k, rep). (k, f k rep)) reps\<rparr>) now"
  have "n \<in> fst ` set (map (\<lambda>(k, rep). (k, f k rep)) reps)" using r(2) by force
  moreover note u = updateISR_ok [of n m "t\<lparr>replicas := map (\<lambda>(k, rep). (k, f k rep)) reps\<rparr>" now]
  ultimately have "track_ok n m (fst (calculateHWLocked ?t)) \<and> snd (calculateHWLocked ?t) = t_highWatermark (fst (calculateHWLocked ?t)) \<and>
    leaderID (fst (calculateHWLocked ?t)) = n"
    using reps_ok_map [OF r(1), of f] keep assms(1,2) by (intro calculateHW_bound) (simp_all add: track_ok_def)
  moreover have "calculateHWLocked ?t = (t', hw)" using f assms(5) by simp
  ultimately have *: "track_ok n m t' \<and> hw = t_highWatermark t' \<and> leaderID t' = n" by simp
  then show "track_ok n m t'" "hw = t_highWatermark t'" "leaderID t' = n" by simp_all
  from * show "hw \<le> m" "0 \<le> hw" unfolding track_ok_def by simp_all
qed

lemma NewISRTracker_track:
  assumes "0 \<le> m" and "leader \<in> set ids"
  shows "track_ok n m (NewISRTracker dir topic part leader ids lag None now)"
    and "leaderID (NewISRTracker dir topic part leader ids lag None now) = leader"
  using assms by (auto simp: NewISRTracker_def loadCheckpoint_def track_ok_def Let_def image_image)

section \<open>The invariant\<close>

definition slot_ok :: "int \<Rightarrow> Broker \<Rightarrow> string \<Rightarrow> int \<Rightarrow> Partition \<Rightarrow> ISRTracker option \<Rightarrow> bool" where
  "slot_ok n b topic part p tr \<longleftrightarrow> part_ok n p \<and>
     (\<forall>t. tr = Some t \<longrightarrow> track_ok (b_localID b) (LogEndOffset p) t \<and> leaderID t = partitionLeader b topic part)"

definition broker_inv :: "BrokerCfg \<Rightarrow> int \<Rightarrow> Broker \<Rightarrow> bool" where
  "broker_inv cfg n b \<longleftrightarrow> b_config b = cfg \<and> gc_inv (b_coord b) \<and> b_replicaIDs b \<noteq> [] \<and>
     (\<forall>topic part. partitionLeader b topic part \<in> set (b_replicaIDs b)) \<and>
     (\<forall>name. getTopic b name \<noteq> None \<longrightarrow> GetTopic (b_meta b) name \<noteq> None) \<and>
     (\<forall>topic part. b_isr b (topic, part) \<noteq> None \<longrightarrow> get_partition b topic part \<noteq> None) \<and>
     (\<forall>topic part p. get_partition b topic part = Some p \<longrightarrow> slot_ok n b topic part p (b_isr b (topic, part)))"

text \<open>
  What a request finds: no checkpoint of high watermarks (none is ever written), logs on disk that open to
  well-formed ones, such as those of new or of closed logs, and a byte limit of replica fetches that does not
  overflow.
\<close>

definition env_ok :: "BrokerCfg \<Rightarrow> int \<Rightarrow> broker_env \<Rightarrow> bool" where
  "env_ok cfg n e \<longleftrightarrow> e_ckpt e = None \<and> valid_ord (e_ord e) \<and>
     rc_ReplicaFetchMaxBytes (cfg_Replication cfg) + int MaxRecordSize < 2 ^ 31 \<and>
     (\<forall>dir now l. NewLog (e_fs e dir) (storageConfigFrom cfg) now = Inr l \<longrightarrow> log_inv l \<and> HighestOffset l \<le> n)"

lemma broker_invD:
  assumes "broker_inv cfg n b"
  shows "b_config b = cfg" and "gc_inv (b_coord b)" and "b_replicaIDs b \<noteq> []"
    and "partitionLeader b topic part \<in> set (b_replicaIDs b)"
    and "b_isr b (topic, part) \<noteq> None \<Longrightarrow> get_partition b topic part \<noteq> None"
    and "get_partition b topic part = Some p \<Longrightarrow> slot_ok n b topic part p (b_isr b (topic, part))"
    and "getTopic b topic \<noteq> None \<Longrightarrow> GetTopic (b_meta b) topic \<noteq> None"
  using assms unfolding broker_inv_def by blast+

lemma slot_ok_mono: "slot_ok n b topic part p tr \<Longrightarrow> n \<le> n' \<Longrightarrow> slot_ok n' b topic part p tr"
  using part_ok_mono by (auto simp: slot_ok_def)

lemma broker_inv_mono: "broker_inv cfg n b \<Longrightarrow> n \<le> n' \<Longrightarrow> broker_inv cfg n' b"
  unfolding broker_inv_def by (intro conjI allI impI; (blast intro: slot_ok_mono)?)

text \<open>Changes that leave topics, trackers and leaders alone.\<close>

lemma broker_inv_cong:
  assumes "broker_inv cfg n b" and "b_config b' = b_config b" and "gc_inv (b_coord b')" and "b_replicaIDs b' = b_replicaIDs b"
    and "b_isr b' = b_isr b" and "b_topics b' = b_topics b" and "b_localID b' = b_localID b"
    and "\<And>topic part. partitionLeader b' topic part = partitionLeader b topic part"
    and "\<And>name. GetTopic (b_meta b) name \<noteq> None \<Longrightarrow> GetTopic (b_meta b') name \<noteq> None"
  shows "broker_inv cfg n b'"
proof -
  have gp: "get_partition b' topic part = get_partition b topic part" for topic part
    using assms(6) by (simp add: get_partition_def getTopic_def)
  have gt: "getTopic b' name = getTopic b name" for name using assms(6) by (simp add: getTopic_def)
  have sl: "slot_ok n b' topic part p tr = slot_ok n b topic part p tr" for topic part p tr
    unfolding slot_ok_def assms(7,8) ..
  show ?thesis using assms(1,3) unfolding broker_inv_def gp gt sl assms(2,4,5,8) using assms(9) by blast
qed

lemma partitionLeader_cong:
  "b_epochs b' = b_epochs b \<Longrightarrow> b_replicaIDs b' = b_replicaIDs b \<Longrightarrow> b_localID b' = b_localID b \<Longrightarrow>
   partitionLeader b' topic part = partitionLeader b topic part"
  by (auto simp: partitionLeader_def staticPartitionLeader_def split: sum.split)

lemma broker_inv_coord: "broker_inv cfg n b \<Longrightarrow> gc_inv gc \<Longrightarrow> broker_inv cfg n (b\<lparr>b_coord := gc\<rparr>)"
  by (erule broker_inv_cong) (simp_all, rule partitionLeader_cong, simp_all)

lemma broker_inv_same:
  assumes "broker_inv cfg n b" and "b_config b' = b_config b" and "b_coord b' = b_coord b" and "b_replicaIDs b' = b_replicaIDs b"
    and "b_isr b' = b_isr b" and "b_topics b' = b_topics b" and "b_localID b' = b_localID b" and "b_epochs b' = b_epochs b"
    and "\<And>name. GetTopic (b_meta b) name \<noteq> None \<Longrightarrow> GetTopic (b_meta b') name \<noteq> None"
  shows "broker_inv cfg n b'"
  by (rule broker_inv_cong [OF assms(1,2) _ assms(4-7) partitionLeader_cong [OF assms(8,4,7)] assms(9)])
    (simp_all add: assms(3) broker_invD(2) [OF assms(1)])

lemma broker_inv_other:
  assumes "broker_inv cfg n b"
  shows "broker_inv cfg n (b\<lparr>b_offsets := s\<rparr>)" and "broker_inv cfg n (b\<lparr>b_listeners := ls\<rparr>)"
    and "broker_inv cfg n (b\<lparr>b_signals := sg\<rparr>)" and "broker_inv cfg n (b\<lparr>b_purgatory := pu, b_chans := cs\<rparr>)"
    and "(\<And>name. GetTopic (b_meta b) name \<noteq> None \<Longrightarrow> GetTopic mm name \<noteq> None) \<Longrightarrow> broker_inv cfg n (b\<lparr>b_meta := mm\<rparr>)"
  by (rule broker_inv_same [OF assms], simp_all)+

lemma static_in: "b_replicaIDs b \<noteq> [] \<Longrightarrow> staticPartitionLeader b part \<in> set (b_replicaIDs b)"
proof -
  assume ne: "b_replicaIDs b \<noteq> []"
  have "\<bar>part smod int (length (b_replicaIDs b))\<bar> < int (length (b_replicaIDs b))"
    using ne smod_int_range [of "int (length (b_replicaIDs b))" part] by auto
  then show ?thesis using ne by (auto simp: staticPartitionLeader_def Let_def nth_mem nat_less_iff)
qed

lemma seeded_epoch: "\<exists>k. GetEpoch (fst (IncrementEpoch em topic part leader)) topic part = Inr (k, leader)"
  by (auto simp: GetEpoch_def IncrementEpoch_def Let_def split: option.split)

lemma seeded_epoch_other:
  assumes "(topic', part') \<noteq> (topic, part)"
  shows "GetEpoch (fst (IncrementEpoch em topic part leader)) topic' part' = GetEpoch em topic' part' \<or>
    ((\<exists>x. GetEpoch (fst (IncrementEpoch em topic part leader)) topic' part' = Inl x) \<and> (\<exists>x. GetEpoch em topic' part' = Inl x))"
  using assms by (cases "em topic"; cases "topic' = topic")
    (simp_all add: GetEpoch_def IncrementEpoch_def Let_def split: option.split)

lemma seed_leader:
  assumes "GetEpoch (b_epochs b) topic part = Inl err"
  defines "b' \<equiv> b\<lparr>b_epochs := fst (IncrementEpoch (b_epochs b) topic part (staticPartitionLeader b part))\<rparr>"
  shows "partitionLeader b' topic' part' = partitionLeader b topic' part'"
proof -
  have st: "staticPartitionLeader b' i = staticPartitionLeader b i" for i by (simp add: b'_def staticPartitionLeader_def)
  show ?thesis
  proof (cases "(topic', part') = (topic, part)")
    case True
    then show ?thesis
      using seeded_epoch [of "b_epochs b" topic part "staticPartitionLeader b part"] assms(1)
      by (auto simp: partitionLeader_def b'_def)
  next
    case False
    show ?thesis
      using seeded_epoch_other [OF False, of "b_epochs b" "staticPartitionLeader b part"] st
      by (auto simp: partitionLeader_def b'_def split: sum.split)
  qed
qed

lemma isLeader_ok:
  assumes "broker_inv cfg n b" and "isLeader b topic part = (b', r)"
  shows "broker_inv cfg n b'" and "b_topics b' = b_topics b" and "b_isr b' = b_isr b" and "b_localID b' = b_localID b"
    and "b_config b' = b_config b" and "r \<longleftrightarrow> partitionLeader b' topic part = b_localID b'"
    and "partitionLeader b' topic part = partitionLeader b topic part"
proof -
  have "broker_inv cfg n b' \<and> b_topics b' = b_topics b \<and> b_isr b' = b_isr b \<and> b_localID b' = b_localID b \<and> b_config b' = b_config b \<and>
    (r \<longleftrightarrow> partitionLeader b' topic part = b_localID b') \<and> partitionLeader b' topic part = partitionLeader b topic part"
  proof (cases "GetEpoch (b_epochs b) topic part")
    case (Inl err)
    then have b': "b' = b\<lparr>b_epochs := fst (IncrementEpoch (b_epochs b) topic part (staticPartitionLeader b part))\<rparr>"
      "r \<longleftrightarrow> staticPartitionLeader b part = b_localID b"
      using assms(2) by (simp_all add: isLeader_def Let_def)
    note sd = seed_leader [OF Inl]
    have "broker_inv cfg n b'" unfolding b'(1) by (rule broker_inv_cong [OF assms(1)]) (simp_all add: sd broker_invD(2) [OF assms(1)])
    moreover have "partitionLeader b topic part = staticPartitionLeader b part" using Inl by (simp add: partitionLeader_def)
    ultimately show ?thesis using b' sd [of topic part] by simp
  next
    case (Inr x)
    then show ?thesis using assms by (cases x) (auto simp: isLeader_def partitionLeader_def)
  qed
  then show "broker_inv cfg n b'" and "b_topics b' = b_topics b" and "b_isr b' = b_isr b" and "b_localID b' = b_localID b"
    and "b_config b' = b_config b" and "r \<longleftrightarrow> partitionLeader b' topic part = b_localID b'"
    and "partitionLeader b' topic part = partitionLeader b topic part" by simp_all
qed

lemma get_partition_cong: "b_topics b' = b_topics b \<Longrightarrow> get_partition b' = get_partition b"
  by (simp add: get_partition_def getTopic_def fun_eq_iff)

lemma get_partition_upd [simp]:
  "get_partition (b\<lparr>b_purgatory := pu\<rparr>) = get_partition b" "get_partition (b\<lparr>b_chans := cs\<rparr>) = get_partition b"
  "get_partition (b\<lparr>b_signals := sg\<rparr>) = get_partition b" "get_partition (b\<lparr>b_listeners := ls\<rparr>) = get_partition b"
  by (rule get_partition_cong, simp)+

lemma get_partition_put:
  assumes "get_partition b topic part = Some p"
  shows "get_partition (put_partition b topic part p') topic' part' =
    (if topic' = topic \<and> part' = part then Some p' else get_partition b topic' part')"
  using assms
  by (auto simp: get_partition_def put_partition_def getTopic_def GetPartition_def update_conv' split: option.splits)

lemma put_partition_simps [simp]:
  "b_config (put_partition b topic part p) = b_config b" "b_coord (put_partition b topic part p) = b_coord b"
  "b_replicaIDs (put_partition b topic part p) = b_replicaIDs b" "b_isr (put_partition b topic part p) = b_isr b"
  "b_localID (put_partition b topic part p) = b_localID b" "b_epochs (put_partition b topic part p) = b_epochs b"
  "b_meta (put_partition b topic part p) = b_meta b"
  "getTopic (put_partition b topic part p) name = None \<longleftrightarrow> getTopic b name = None"
  by (auto simp: put_partition_def getTopic_def update_conv' split: option.split)

text \<open>A change of one partition and its tracker.\<close>

lemma broker_inv_slot:
  assumes inv: "broker_inv cfg n b" and "n \<le> n'" and "part_ok n' p'"
    and gp: "\<And>t i. get_partition b' t i = (if t = topic \<and> i = part then Some p' else get_partition b t i)"
    and tr: "\<forall>t. b_isr b' (topic, part) = Some t \<longrightarrow> track_ok (b_localID b) (LogEndOffset p') t \<and> leaderID t = partitionLeader b topic part"
    and isr: "\<And>tp. tp \<noteq> (topic, part) \<Longrightarrow> b_isr b' tp = b_isr b tp"
    and same: "b_config b' = b_config b" "b_coord b' = b_coord b" "b_replicaIDs b' = b_replicaIDs b" "b_localID b' = b_localID b"
      "b_epochs b' = b_epochs b"
    and names: "\<And>name. getTopic b' name \<noteq> None \<Longrightarrow> GetTopic (b_meta b') name \<noteq> None"
  shows "broker_inv cfg n' b'"
proof -
  have pl: "partitionLeader b' t i = partitionLeader b t i" for t i
    by (rule partitionLeader_cong) (simp_all add: same)
  have "slot_ok n' b' t i q (b_isr b' (t, i))" if q: "get_partition b' t i = Some q" for t i q
  proof (cases "t = topic \<and> i = part")
    case True
    then show ?thesis using q gp tr assms(3) pl by (simp add: slot_ok_def same)
  next
    case False
    then have "slot_ok n b t i q (b_isr b' (t, i))" using q gp broker_invD(6) [OF inv, of t i q] isr [of "(t, i)"] by auto
    then show ?thesis using pl by (auto simp: slot_ok_def same dest: part_ok_mono [OF _ assms(2)])
  qed
  moreover have "get_partition b' t i \<noteq> None" if "b_isr b' (t, i) \<noteq> None" for t i
    using that gp [of t i] broker_invD(5) [OF inv, of t i] isr [of "(t, i)"] by (cases "t = topic \<and> i = part") auto
  ultimately show ?thesis
    using broker_invD(1-4) [OF inv] names unfolding broker_inv_def by (simp add: same pl)
qed

text \<open>The changes of the handlers: a tracker \<open>t\<close> that is stored, then a partition.\<close>

definition stored :: "Broker \<Rightarrow> string \<Rightarrow> int \<Rightarrow> ISRTracker \<Rightarrow> Broker" where
  "stored b topic part t = b\<lparr>b_isr := (b_isr b)((topic, part) \<mapsto> t)\<rparr>"

lemma stored_simps [simp]:
  "b_config (stored b topic part t) = b_config b" "b_coord (stored b topic part t) = b_coord b"
  "b_replicaIDs (stored b topic part t) = b_replicaIDs b" "b_topics (stored b topic part t) = b_topics b"
  "b_localID (stored b topic part t) = b_localID b" "b_epochs (stored b topic part t) = b_epochs b"
  "b_isr (stored b topic part t) = (b_isr b)((topic, part) \<mapsto> t)"
  "get_partition (stored b topic part t) = get_partition b" "b_meta (stored b topic part t) = b_meta b"
  "getTopic (stored b topic part t) = getTopic b"
  "stored (stored b topic part t) topic part t' = stored b topic part t'"
  by (simp_all add: stored_def get_partition_def getTopic_def fun_eq_iff)

lemma partitionLeader_stored [simp]: "partitionLeader (stored b topic part t) topic' part' = partitionLeader b topic' part'"
  by (rule partitionLeader_cong) simp_all

definition tracks :: "Broker \<Rightarrow> string \<Rightarrow> int \<Rightarrow> int \<Rightarrow> ISRTracker \<Rightarrow> bool" where
  "tracks b topic part m t \<longleftrightarrow> track_ok (b_localID b) m t \<and> leaderID t = partitionLeader b topic part"

lemma broker_inv_stored:
  assumes "broker_inv cfg n b" and "get_partition b topic part = Some p" and "tracks b topic part (LogEndOffset p) t"
  shows "broker_inv cfg n (stored b topic part t)"
  by (rule broker_inv_slot [OF assms(1) order_refl, of p _ topic part])
    (use assms broker_invD(6) [OF assms(1,2)] broker_invD(7) [OF assms(1)] in \<open>auto simp: slot_ok_def tracks_def\<close>)

lemma broker_inv_put:
  assumes "broker_inv cfg n b" and "get_partition b topic part = Some p" and "n \<le> n'" and "part_ok n' p'"
    and "LogEndOffset p \<le> LogEndOffset p'"
  shows "broker_inv cfg n' (put_partition b topic part p')"
  by (rule broker_inv_slot [OF assms(1,3,4), of _ topic part])
    (use assms(5) broker_invD(6) [OF assms(1,2)] broker_invD(7) [OF assms(1)] in \<open>auto simp: get_partition_put [OF assms(2)] slot_ok_def intro: track_ok_mono\<close>)

lemma broker_inv_put_stored:
  assumes "broker_inv cfg n b" and "get_partition b topic part = Some p" and "n \<le> n'" and "part_ok n' p'"
    and "tracks b topic part (LogEndOffset p') t"
  shows "broker_inv cfg n' (put_partition (stored b topic part t) topic part p')"
  by (rule broker_inv_slot [OF assms(1,3,4), of _ topic part])
    (use assms(2,5) broker_invD(7) [OF assms(1)] in \<open>auto simp: get_partition_put [of "stored b topic part t" topic part p] tracks_def\<close>)

lemma getOrCreateISRTracker_ok:
  assumes "broker_inv cfg n b" and "get_partition b topic part = Some p" and "e_ckpt e = None" and "LogEndOffset p \<le> m"
  shows "\<exists>t. getOrCreateISRTracker e b topic part = (stored b topic part t, t) \<and> tracks b topic part m t"
proof (cases "b_isr b (topic, part)")
  case None
  have "0 \<le> m" using LogEndOffset_nonneg [of n p] broker_invD(6) [OF assms(1,2)] assms(4) by (simp add: slot_ok_def)
  then show ?thesis
    using None NewISRTracker_track [OF _ broker_invD(4) [OF assms(1)], of m]
    by (simp add: getOrCreateISRTracker_def assms(3) Let_def stored_def tracks_def)
next
  case (Some t)
  then have "stored b topic part t = b" by (simp add: stored_def map_upd_triv)
  then show ?thesis
    using Some broker_invD(6) [OF assms(1,2)] track_ok_mono [OF _ assms(4)]
    by (auto simp: getOrCreateISRTracker_def slot_ok_def tracks_def)
qed

lemma updateReplicaLEO_ok:
  assumes "broker_inv cfg n b" and "get_partition b topic part = Some p" and "e_ckpt e = None" and "LogEndOffset p \<le> m"
    and "partitionLeader b topic part = b_localID b" and "0 \<le> leo" and "k = b_localID b \<longrightarrow> leo \<le> m"
  shows "\<exists>t hw. updateReplicaLEO e b topic part k leo leaderLEO = (stored b topic part t, hw) \<and>
    tracks b topic part m t \<and> hw = t_highWatermark t \<and> hw \<le> m"
proof -
  obtain t where t: "getOrCreateISRTracker e b topic part = (stored b topic part t, t)" "tracks b topic part m t"
    using getOrCreateISRTracker_ok [OF assms(1-4)] by blast
  obtain t' hw where u: "UpdateLEO t k leo leaderLEO (e_now e) = (t', hw)" by fastforce
  have "updateReplicaLEO e b topic part k leo leaderLEO = (stored b topic part t', hw)"
    by (simp add: updateReplicaLEO_def t(1) u) (simp add: stored_def)
  then show ?thesis
    using UpdateLEO_track [OF _ _ assms(6,7) u] t(2) assms(5) by (auto simp: tracks_def)
qed

lemma notifyAppended_ok: "broker_inv cfg n b \<Longrightarrow> broker_inv cfg n (notifyAppended b topic part)"
  by (simp add: notifyAppended_def broker_inv_other)

lemma after_append_ok:
  assumes "broker_inv cfg n b" and "get_partition b topic part = Some p" and "e_ckpt e = None"
    and "partitionLeader b topic part = b_localID b" and "n \<le> n'" and "part_ok n' p'" and "LogEndOffset p \<le> LogEndOffset p'"
  shows "broker_inv cfg n' (after_append e b topic part p')"
proof -
  obtain t hw where t: "updateLeaderLEO e b topic part (LogEndOffset p') = (stored b topic part t, hw)"
    "tracks b topic part (LogEndOffset p') t" "hw \<le> LogEndOffset p'"
    using updateReplicaLEO_ok [OF assms(1-3,7,4), of "LogEndOffset p'" "b_localID b" "LogEndOffset p'"]
      LogEndOffset_nonneg [OF assms(6)]
    by (auto simp: updateLeaderLEO_def)
  note s = SetHighWatermark_ok [OF assms(6) t(3)]
  have "broker_inv cfg n' (put_partition (stored b topic part t) topic part (SetHighWatermark p' hw))"
    using s t(2) by (intro broker_inv_put_stored [OF assms(1,2,5)]) simp_all
  then show ?thesis
    by (auto simp: after_append_def t(1) Let_def intro!: notifyAppended_ok broker_inv_other split: prod.split)
qed

end
