(* ===== verification/BrokerSafe.thy ===== *)
theory BrokerSafe
  imports BrokerInv
begin

text \<open>
  Every handler of the broker keeps the invariant of \<open>BrokerInv\<close>, whatever the request is, and what a
  consumer and a producer can rely on.
\<close>

section \<open>Loops\<close>

lemma thread_inv:
  assumes "\<And>b x n. x \<in> set xs \<Longrightarrow> I n b \<Longrightarrow> n + w x \<le> N \<Longrightarrow> I (n + w x) (fst (f b x))"
    and "\<And>x. 0 \<le> w x" and "I n b" and "n + sum_list (map w xs) \<le> (N :: int)"
  shows "I (n + sum_list (map w xs)) (fst (thread f b xs))"
  using assms(1,3,4)
proof (induction xs arbitrary: n b)
  case (Cons x xs)
  have "0 \<le> sum_list (map w xs)" using assms(2) by (intro sum_list_nonneg) auto
  then have "I (n + w x) (fst (f b x))" using Cons.prems by simp
  then have "I (n + w x + sum_list (map w xs)) (fst (thread f (fst (f b x)) xs))"
    using Cons.prems by (intro Cons.IH) simp_all
  then show ?case by (simp add: case_prod_unfold add.assoc)
qed simp

lemma thread_keeps:
  assumes "\<And>b x. x \<in> set xs \<Longrightarrow> I b \<Longrightarrow> I (fst (f b x))" and "I b"
  shows "I (fst (thread f b xs))"
  using assms by (induction xs arbitrary: b) (auto simp: case_prod_unfold)

lemma thread_r_keeps:
  assumes "\<And>b x. x \<in> set xs \<Longrightarrow> I b \<Longrightarrow> I (fst (f b x))" and "I b"
  shows "I (fst (thread_r f b xs))"
  using assms
proof (induction xs arbitrary: b)
  case (Cons x xs)
  have "I (fst (f b x))" using Cons.prems by simp
  then have "I (fst (thread_r f (fst (f b x)) xs))" using Cons.prems(1) by (intro Cons.IH) simp_all
  then show ?case using \<open>I (fst (f b x))\<close> by (auto split: prod.split sum.split)
qed simp

lemma foldl_keeps: "(\<And>b x. x \<in> set xs \<Longrightarrow> I b \<Longrightarrow> I (f b x)) \<Longrightarrow> I b \<Longrightarrow> I (foldl f b xs)"
  by (induction xs arbitrary: b) auto

section \<open>Produce\<close>

lemma decode_set_ok:
  "decode_set bs = (rs, code) \<Longrightarrow> (\<forall>r \<in> set rs. typed_record r) \<and> length rs \<le> length bs"
proof (induction bs arbitrary: rs code rule: decode_set.induct)
  case (1 bs)
  show ?case
  proof (cases "bs = []")
    case True
    then show ?thesis using "1.prems" by (simp add: decode_set.simps)
  next
    case ne: False
    show ?thesis
    proof (cases "DecodeRecord bs")
      case (Inl x)
      then show ?thesis using "1.prems" ne by (cases x) (simp add: decode_set.simps [of bs])
    next
      case (Inr x)
      obtain r n rest where d: "DecodeRecord bs = Inr (r, n, rest)" using Inr by (cases x) auto
      obtain rs' code' where rest: "decode_set rest = (rs', code')" by fastforce
      have "rs = r # rs'" using "1.prems" ne d rest by (simp add: decode_set.simps [of bs])
      moreover have "(\<forall>r \<in> set rs'. typed_record r) \<and> length rs' \<le> length rest" by (rule "1.IH" [OF ne d _ _ rest]) simp_all
      ultimately show ?thesis using DecodeRecord_Inr(6) [OF d] DecodeRecord_shrinks [OF d] by auto
    qed
  qed
qed

lemma enough_replicas_ok:
  assumes "broker_inv cfg n b" and "get_partition b topic part = Some p" and "e_ckpt e = None"
    and "enough_replicas e acks b topic part = (b', r)"
  shows "broker_inv cfg n b' \<and> get_partition b' = get_partition b \<and> b_localID b' = b_localID b \<and> b_config b' = b_config b \<and>
    partitionLeader b' topic part = partitionLeader b topic part"
proof (cases "acks = -1")
  case True
  obtain t where t: "getOrCreateISRTracker e b topic part = (stored b topic part t, t)" "tracks b topic part (LogEndOffset p) t"
    using getOrCreateISRTracker_ok [OF assms(1-3) order_refl] by blast
  then have "b' = stored b topic part t" using assms(4) True by (simp add: enough_replicas_def)
  then show ?thesis using broker_inv_stored [OF assms(1,2) t(2)] by simp
next
  case False
  then show ?thesis using assms by (simp add: enough_replicas_def)
qed

lemma append_records_ok:
  assumes "broker_inv cfg n b" and "get_partition b topic part = Some p" and "e_ckpt e = None"
    and "partitionLeader b topic part = b_localID b"
    and "\<forall>r \<in> set recs. typed_record r" and "n + int (length recs) < 2 ^ 63"
  shows "broker_inv cfg (n + int (length recs)) (fst (append_records e acks b topic part p recs))"
proof -
  obtain p' base err where a: "Partition_AppendBatch p recs (e_now e) = (p', base, err)" by (cases "Partition_AppendBatch p recs (e_now e)") auto
  have "part_ok n p" using broker_invD(6) [OF assms(1,2)] by (simp add: slot_ok_def)
  note k = Partition_AppendBatch_keeps [OF this assms(5,6) a]
  show ?thesis
  proof (cases err)
    case None
    then show ?thesis using after_append_ok [OF assms(1-4) _ k(1,2)] a by (simp add: append_records_def)
  next
    case (Some x)
    then show ?thesis using broker_inv_put [OF assms(1,2) _ k(1,2)] a by (simp add: append_records_def)
  qed
qed

definition set_size :: "ProduceRequestPartition \<Rightarrow> int" where
  "set_size p = int (length (prp_RecordSet p))"

lemma produce_partition_ok:
  assumes inv: "broker_inv cfg n b" and e: "e_ckpt e = None" and room: "n + set_size pReq < 2 ^ 63"
  shows "broker_inv cfg (n + set_size pReq) (fst (produce_partition e acks topic terr b pReq))"
proof -
  let ?part = "prp_PartitionID pReq"
  have up: "broker_inv cfg n b' \<Longrightarrow> broker_inv cfg (n + set_size pReq) b'" for b'
    by (erule broker_inv_mono) (simp add: set_size_def)
  show ?thesis
  proof (cases "terr = None \<and> get_partition b topic ?part \<noteq> None")
    case False
    then show ?thesis using up [OF inv] by (auto simp: produce_partition_def Let_def split: option.split)
  next
    case True
    then obtain p where p: "get_partition b topic ?part = Some p" by auto
    obtain b1 r1 where l: "isLeader b topic ?part = (b1, r1)" by fastforce
    note l' = isLeader_ok [OF inv l]
    have p1: "get_partition b1 topic ?part = Some p" using p get_partition_cong [OF l'(2)] by simp
    obtain b2 r2 where q: "enough_replicas e acks b1 topic ?part = (b2, r2)" by fastforce
    have q': "broker_inv cfg n b2" "get_partition b2 topic ?part = Some p" "r1 \<longrightarrow> partitionLeader b2 topic ?part = b_localID b2"
      using enough_replicas_ok [OF l'(1) p1 e q] p1 l'(6) by auto
    obtain rs code where d: "decode_set (prp_RecordSet pReq) = (rs, code)" by fastforce
    have rs: "\<forall>r \<in> set rs. typed_record r" "int (length rs) \<le> set_size pReq" using decode_set_ok [OF d] by (auto simp: set_size_def)
    have "broker_inv cfg (n + set_size pReq) (fst (append_records e acks b2 topic ?part p rs))" if r1
      using append_records_ok [OF q'(1,2) e _ rs(1), of acks] q'(3) that rs(2) room by (auto elim!: broker_inv_mono)
    then show ?thesis
      using True p l q d up [OF l'(1)] up [OF q'(1)] by (cases r1; cases r2) (auto simp: produce_partition_def Let_def)
  qed
qed

section \<open>Topics\<close>

lemma NewPartition_ok:
  assumes "env_ok cfg n e" and "NewPartition cwd (e_fs e) base topic i (storageConfigFrom cfg) now = Inr p"
  shows "part_ok n p"
proof -
  obtain l where "NewLog (e_fs e (partition_dir cwd base topic i)) (storageConfigFrom cfg) now = Inr l"
    "p = \<lparr>pt_Topic = topic, pt_ID = i, pt_log = l, pt_highWatermark = HighestOffset l, pt_closed = False\<rparr>"
    using assms(2) by (auto simp: NewPartition_def Let_def split: option.splits sum.splits if_splits)
  moreover from this have "log_inv l" "HighestOffset l \<le> n" using assms(1) by (auto simp: env_ok_def)
  ultimately show ?thesis by (simp add: part_ok_def HighWatermark_def LogEndOffset_def)
qed

lemma new_partitions_ok:
  assumes "env_ok cfg n e"
  shows "new_partitions cwd (e_fs e) base topic (storageConfigFrom cfg) now is = Inr ps \<Longrightarrow>
    map fst ps = is \<and> (\<forall>p \<in> snd ` set ps. part_ok n p)"
proof (induction "is" arbitrary: ps)
  case (Cons i "is")
  then show ?case using NewPartition_ok [OF assms] by (fastforce split: sum.splits)
qed simp

lemma NewTopic_ok:
  assumes "env_ok cfg n e" and "NewTopic cwd (e_fs e) base topic k (storageConfigFrom cfg) now = Inr t"
  shows "0 \<le> i \<Longrightarrow> i < k \<Longrightarrow> \<exists>p. GetPartition t i = Some p"
    and "GetPartition t i = Some p \<Longrightarrow> part_ok n p"
proof -
  obtain ps where "new_partitions cwd (e_fs e) base topic (storageConfigFrom cfg) now [0..k - 1] = Inr ps" "tp_Partitions t = ps"
    using assms(2) by (auto simp: NewTopic_def split: sum.splits)
  then have ps: "map fst (tp_Partitions t) = [0..k - 1]" "\<forall>p \<in> snd ` set (tp_Partitions t). part_ok n p"
    using new_partitions_ok [OF assms(1)] by blast+
  show "\<exists>p. GetPartition t i = Some p" if "0 \<le> i" "i < k"
  proof -
    have "i \<in> set (map fst (tp_Partitions t))" using that unfolding ps(1) by simp
    then show ?thesis by (metis GetPartition_def list.set_map map_of_eq_None_iff not_None_eq)
  qed
  show "GetPartition t i = Some p \<Longrightarrow> part_ok n p"
    using ps(2) by (auto simp: GetPartition_def dest!: map_of_SomeD)
qed

lemma seed_ok:
  assumes "broker_inv cfg n b" and "GetEpoch (b_epochs b) topic part = Inl err"
  shows "broker_inv cfg n (b\<lparr>b_epochs := fst (IncrementEpoch (b_epochs b) topic part (staticPartitionLeader b part))\<rparr>)"
  by (rule broker_inv_cong [OF assms(1)]) (simp_all add: seed_leader [OF assms(2)] broker_invD(2) [OF assms(1)])

lemma initTopicReplication_ok:
  assumes "broker_inv cfg n b" and "\<And>i. 0 \<le> i \<Longrightarrow> i < k \<Longrightarrow> get_partition b topic i \<noteq> None" and "e_ckpt e = None"
  shows "broker_inv cfg n (initTopicReplication e b topic k)"
proof -
  let ?I = "\<lambda>b'. broker_inv cfg n b' \<and> get_partition b' = get_partition b"
  have "?I (initTopicReplication e b topic k)" unfolding initTopicReplication_def
  proof (rule foldl_keeps)
    fix b' i
    assume i: "i \<in> set [0..k - 1]" and I: "?I b'"
    define b1 where "b1 = (case GetEpoch (b_epochs b') topic i of
        Inl _ \<Rightarrow> b'\<lparr>b_epochs := fst (IncrementEpoch (b_epochs b') topic i (staticPartitionLeader b' i))\<rparr> | Inr _ \<Rightarrow> b')"
    have b1: "?I b1" using I seed_ok [of cfg n b' topic i]
      by (auto simp: b1_def get_partition_def getTopic_def fun_eq_iff split: sum.split)
    obtain p where p: "get_partition b1 topic i = Some p" using assms(2) [of i] i b1 by auto
    obtain t where "getOrCreateISRTracker e b1 topic i = (stored b1 topic i t, t)" "tracks b1 topic i (LogEndOffset p) t"
      using getOrCreateISRTracker_ok [OF _ p assms(3) order_refl] b1 by blast
    then have "?I (fst (getOrCreateISRTracker e b1 topic i))" using broker_inv_stored [OF _ p] b1 by auto
    then show "?I (let b = case GetEpoch (b_epochs b') topic i of
        Inl _ \<Rightarrow> b'\<lparr>b_epochs := fst (IncrementEpoch (b_epochs b') topic i (staticPartitionLeader b' i))\<rparr> | Inr _ \<Rightarrow> b'
      in fst (getOrCreateISRTracker e b topic i))"
      unfolding Let_def b1_def .
  qed (use assms(1) in simp)
  then show ?thesis by simp
qed

lemma open_topic_ok:
  assumes inv: "broker_inv cfg n b" and e: "env_ok cfg n e" and new: "getTopic b name = None" and meta: "GetTopic (b_meta b) name \<noteq> None"
  shows "broker_inv cfg n (fst (open_topic e b name k))"
proof (cases "NewTopic (e_cwd e) (e_fs e) (dataDir b) name k (storageConfig b) (e_now e)")
  case (Inl err)
  then show ?thesis using inv by (simp add: open_topic_def)
next
  case (Inr t)
  let ?b = "b\<lparr>b_topics := AList.update name t (b_topics b)\<rparr>"
  have "storageConfig b = storageConfigFrom cfg" using broker_invD(1) [OF inv] by (simp add: storageConfig_def)
  then have t: "0 \<le> i \<Longrightarrow> i < k \<Longrightarrow> GetPartition t i \<noteq> None" "GetPartition t i = Some p \<Longrightarrow> part_ok n p" for i p
    using NewTopic_ok [OF e] Inr by fastforce+
  have gt: "getTopic ?b x = (if x = name then Some t else getTopic b x)" for x by (simp add: getTopic_def update_conv')
  have gp: "get_partition ?b x i = (if x = name then GetPartition t i else get_partition b x i)" for x i
    by (simp add: get_partition_def gt)
  have none: "b_isr b (name, i) = None" for i
    using broker_invD(5) [OF inv, of name i] new by (cases "b_isr b (name, i)") (auto simp: get_partition_def)
  have pl: "partitionLeader ?b x i = partitionLeader b x i" for x i by (rule partitionLeader_cong) simp_all
  have sl: "slot_ok n ?b x i p tr = slot_ok n b x i p tr" for x i p tr by (simp add: slot_ok_def pl)
  have "broker_inv cfg n ?b"
    unfolding broker_inv_def pl gt gp sl
  proof (intro conjI allI impI)
    show "slot_ok n b x i p (b_isr ?b (x, i))" if "(if x = name then GetPartition t i else get_partition b x i) = Some p" for x i p
      using that t(2) none broker_invD(6) [OF inv, of x i p] by (cases "x = name") (auto simp: slot_ok_def)
    show "(if x = name then GetPartition t i else get_partition b x i) \<noteq> None" if "b_isr ?b (x, i) \<noteq> None" for x i
      using that none broker_invD(5) [OF inv, of x i] by (cases "x = name") auto
    show "GetTopic (b_meta ?b) x \<noteq> None" if "(if x = name then Some t else getTopic b x) \<noteq> None" for x
      using that meta broker_invD(7) [OF inv, of x] by (cases "x = name") auto
  qed (use broker_invD(1-4) [OF inv] in simp_all)
  moreover have "e_ckpt e = None" using e by (simp add: env_ok_def)
  ultimately show ?thesis using Inr t(1) gp initTopicReplication_ok [of cfg n ?b k name e] by (simp add: open_topic_def)
qed

lemma CreateTopic_keeps: "CreateTopic mm name k rf = (mm', meta, c) \<Longrightarrow>
  GetTopic mm' name \<noteq> None \<and> (\<forall>x. GetTopic mm x \<noteq> None \<longrightarrow> GetTopic mm' x \<noteq> None) \<and>
  (c \<longrightarrow> GetTopic mm name = None)"
  by (auto simp: CreateTopic_def GetTopic_def saveLocked_def write_tmp_def rename_tmp_def Let_def
      map_add_def split: option.splits)

lemma getOrCreateTopic_ok:
  assumes inv: "broker_inv cfg n b" and e: "env_ok cfg n e"
  shows "broker_inv cfg n (fst (getOrCreateTopic e b name k))"
proof -
  have op: "broker_inv cfg n (fst (open_topic e (b\<lparr>b_meta := mm\<rparr>) name j))"
    if "getTopic b name = None" and "CreateTopic (b_meta b) name i rf = (mm, meta, c)" for mm meta c i rf j
  proof (rule open_topic_ok [OF _ e])
    note ct = CreateTopic_keeps [OF that(2)]
    show "broker_inv cfg n (b\<lparr>b_meta := mm\<rparr>)" using ct by (intro broker_inv_other(5) [OF inv]) blast
    show "getTopic (b\<lparr>b_meta := mm\<rparr>) name = None" using that(1) by (simp add: getTopic_def)
    show "GetTopic (b_meta (b\<lparr>b_meta := mm\<rparr>)) name \<noteq> None" using ct by simp
  qed
  show ?thesis
    using inv by (auto simp: getOrCreateTopic_def Let_def intro!: op split: option.split prod.split)
qed

lemma create_topic_ok:
  assumes inv: "broker_inv cfg n b" and e: "env_ok cfg n e"
  shows "broker_inv cfg n (fst (create_topic e b tReq))"
proof -
  let ?name = "ctrt_Name tReq"
  obtain mm meta c where ct: "CreateTopic (b_meta b) ?name (ctrt_NumPartitions tReq) (ctrt_ReplicationFactor tReq) = (mm, meta, c)"
    by (cases "CreateTopic (b_meta b) ?name (ctrt_NumPartitions tReq) (ctrt_ReplicationFactor tReq)") auto
  note k = CreateTopic_keeps [OF ct]
  have b1: "broker_inv cfg n (b\<lparr>b_meta := mm\<rparr>)" using k by (intro broker_inv_other(5) [OF inv]) blast
  have "getTopic b ?name = None" if c
    using k that broker_invD(7) [OF inv, of ?name] by (cases "getTopic b ?name") auto
  then have "broker_inv cfg n (fst (open_topic e (b\<lparr>b_meta := mm\<rparr>) ?name (ctrt_NumPartitions tReq)))" if c
    using that k by (intro open_topic_ok [OF b1 e]) (simp_all add: getTopic_def)
  then show ?thesis
    using inv b1 by (cases c) (auto simp: create_topic_def Let_def ct split: prod.split option.split)
qed

lemma topic_metadata_ok:
  assumes "broker_inv cfg n b" and "env_ok cfg n e"
  shows "broker_inv cfg n (fst (topic_metadata e b topic))"
  using assms getOrCreateTopic_ok [OF assms, of topic 0]
  by (auto simp: topic_metadata_def split: option.split prod.split)

section \<open>The handlers\<close>

lemma fetch_partition_ok:
  assumes "broker_inv cfg n b"
  shows "broker_inv cfg n (fst (fetch_partition topic b pReq))"
proof (cases "get_partition b topic (frp_PartitionID pReq)")
  case None
  then show ?thesis using assms by (simp add: fetch_partition_def)
next
  case (Some p)
  have ok: "part_ok n p" using broker_invD(6) [OF assms Some] by (simp add: slot_ok_def)
  obtain p' rs err where r: "Partition_ReadFrom p (frp_FetchOffset pReq) (frp_MaxBytes pReq) = (p', rs, err)"
    by (cases "Partition_ReadFrom p (frp_FetchOffset pReq) (frp_MaxBytes pReq)") auto
  note k = Partition_ReadFrom_keeps [OF ok r]
  have "broker_inv cfg n (put_partition b topic (frp_PartitionID pReq) p')"
    using broker_inv_put [OF assms Some order_refl k(1)] k(2) by simp
  then show ?thesis using assms by (simp add: fetch_partition_def Some r Let_def)
qed

lemma fetch_topic_ok: "broker_inv cfg n b \<Longrightarrow> broker_inv cfg n (fst (fetch_topic b tReq))"
  using thread_keeps [of "frt_Partitions tReq" "broker_inv cfg n" "fetch_partition (frt_Name tReq)" b] fetch_partition_ok
  by (simp add: fetch_topic_def case_prod_unfold)

lemma long_poll_ok:
  assumes inv: "broker_inv cfg n b" and "n \<le> n'" and others: "\<And>b. broker_inv cfg n b \<Longrightarrow> broker_inv cfg n' (others b)"
  shows "broker_inv cfg n' (long_poll others ch freq b)"
proof -
  let ?ts = "fetch_targets freq"
  let ?reg = "foldl (\<lambda>b t. registerListenerOn b (ft_topic t) (ft_partitionID t) ch) b ?ts"
  have reg: "broker_inv cfg n ?reg"
    by (rule foldl_keeps [where I = "broker_inv cfg n"]) (simp_all add: inv registerListenerOn_def broker_inv_other)
  have un: "broker_inv cfg n' (foldl (\<lambda>b t. unregisterListener b (ft_topic t) (ft_partitionID t) ch) b' ?ts)"
    if "broker_inv cfg n' b'" for b'
    by (rule foldl_keeps [where I = "broker_inv cfg n'"]) (simp_all add: that unregisterListener_def broker_inv_other)
  show ?thesis
    using un broker_inv_mono [OF reg assms(2)] others [OF reg] broker_inv_mono [OF inv assms(2)]
    by (simp add: long_poll_def Let_def)
qed

definition produce_size :: "ProduceRequest \<Rightarrow> int" where
  "produce_size req = (\<Sum>t\<leftarrow>pr_Topics req. \<Sum>p\<leftarrow>prt_Partitions t. set_size p)"

lemma env_ok_mono: "env_ok cfg n e \<Longrightarrow> n \<le> n' \<Longrightarrow> env_ok cfg n' e"
  unfolding env_ok_def by (meson order_trans)

lemma set_size_nonneg [simp]: "0 \<le> set_size p"
  by (simp add: set_size_def)

lemma produce_topic_ok:
  assumes inv: "broker_inv cfg n b" and e: "env_ok cfg n e" and room: "n + (\<Sum>p\<leftarrow>prt_Partitions t. set_size p) < 2 ^ 63"
  shows "broker_inv cfg (n + (\<Sum>p\<leftarrow>prt_Partitions t. set_size p)) (fst (produce_topic e acks b t))"
proof -
  obtain b1 terr where g: "getOrCreateTopic e b (prt_Name t) 0 = (b1, terr)" by fastforce
  have "broker_inv cfg n b1" using getOrCreateTopic_ok [OF inv e, of "prt_Name t" 0] g by simp
  moreover have "e_ckpt e = None" using e by (simp add: env_ok_def)
  ultimately have "broker_inv cfg (n + (\<Sum>p\<leftarrow>prt_Partitions t. set_size p))
      (fst (thread (produce_partition e acks (prt_Name t) terr) b1 (prt_Partitions t)))"
    using room by (intro thread_inv [where I = "broker_inv cfg" and N = "2 ^ 63 - 1"] produce_partition_ok) auto
  then show ?thesis by (simp add: produce_topic_def g case_prod_unfold)
qed

lemma produce_ok:
  assumes inv: "broker_inv cfg n b" and e: "env_ok cfg n e" and room: "n + produce_size req < 2 ^ 63"
  shows "broker_inv cfg (n + produce_size req) (fst (produce slow e req b))"
proof -
  let ?I = "\<lambda>k b. broker_inv cfg k b \<and> n \<le> k"
  have "?I (n + produce_size req) (fst (thread (produce_topic e (pr_Acks req)) b (pr_Topics req)))"
    unfolding produce_size_def
  proof (rule thread_inv [where N = "2 ^ 63 - 1"])
    fix b and t :: ProduceRequestTopic and k
    assume I: "?I k b" and room': "k + (\<Sum>p\<leftarrow>prt_Partitions t. set_size p) \<le> 2 ^ 63 - 1"
    have "0 \<le> (\<Sum>p\<leftarrow>prt_Partitions t. set_size p)" by (intro sum_list_nonneg) auto
    then show "?I (k + (\<Sum>p\<leftarrow>prt_Partitions t. set_size p)) (fst (produce_topic e (pr_Acks req) b t))"
      using I room' produce_topic_ok [of cfg k b e t] env_ok_mono [OF e, of k] by simp
  qed (use inv room in \<open>auto simp: produce_size_def intro!: sum_list_nonneg\<close>)
  then show ?thesis by (simp add: produce_def case_prod_unfold)
qed

lemma read_part:
  assumes "log_inv l" and "0 < mx" and "mx + int MaxRecordSize < 2 ^ 31" and "Log_ReadFrom l off mx = (l', rs, err)"
    and "case err of None \<Rightarrow> True | Some x \<Rightarrow> errors_Is x EOF"
  shows "LowestOffset l \<le> off" and "rs = gather off mx 0 (l_segments l)"
    and "set rs \<subseteq> set (log_recs l)" and "\<forall>r \<in> set rs. off \<le> Offset r \<and> Offset r < HighestOffset l"
proof -
  show low: "LowestOffset l \<le> off"
  proof (rule ccontr)
    assume "\<not> ?thesis"
    then show False
      using assms log_nonempty [OF assms(1)] by (auto simp: Log_ReadFrom_def LowestOffset_def log_inv_def split: option.splits)
  qed
  show rs: "rs = gather off mx 0 (l_segments l)" using Log_ReadFrom_gather [OF assms(1) low assms(2,3)] assms(4) by auto
  have ok: "segments_ok (l_segments l)" using assms(1) by (simp add: log_inv_def)
  have "BaseOffset (hd (l_segments l)) \<le> off" using low log_nonempty [OF assms(1)] by (simp add: LowestOffset_def)
  note g = gather_sound [OF ok this, of mx 0]
  then show sub: "set rs \<subseteq> set (log_recs l)" unfolding rs by (auto simp: log_recs_def)
  show "\<forall>r \<in> set rs. off \<le> Offset r \<and> Offset r < HighestOffset l"
    using g sub contiguous_set [OF log_contiguous [OF assms(1)]] HighestOffset_eq [OF assms(1)] unfolding rs by fastforce
qed

lemma replica_progress_ok:
  assumes inv: "broker_inv cfg n b" and p: "get_partition b (rfq_Topic rreq) (rfq_Partition rreq) = Some p" and e: "e_ckpt e = None"
    and leader: "partitionLeader b (rfq_Topic rreq) (rfq_Partition rreq) = b_localID b" and p': "part_ok n p'" "LogEndOffset p' = LogEndOffset p"
    and off: "0 \<le> rfq_FetchOffset rreq" and rs: "\<forall>r \<in> set records. 0 \<le> Offset r \<and> Offset r < LogEndOffset p'"
    and room: "n < 2 ^ 63" and other: "rfq_ReplicaID rreq \<noteq> b_localID b"
  shows "broker_inv cfg n (fst (replica_progress e b rreq p' records))"
    and "0 \<le> snd (replica_progress e b rreq p' records)" and "snd (replica_progress e b rreq p' records) \<le> LogEndOffset p"
proof -
  let ?topic = "rfq_Topic rreq" and ?part = "rfq_Partition rreq"
  define leo where "leo = (if records = [] then rfq_FetchOffset rreq else int64 (Offset (last records) + 1))"
  have leo: "0 \<le> leo"
  proof (cases "records = []")
    case False
    then have "0 \<le> Offset (last records)" "Offset (last records) < LogEndOffset p'" using rs by auto
    then show ?thesis using False p'(1) room by (simp add: leo_def wrap_s_id in_s_def part_ok_def)
  qed (simp add: leo_def off)
  obtain t hw where t: "updateLeaderLEO e b ?topic ?part (LogEndOffset p') = (stored b ?topic ?part t, hw)"
    "tracks b ?topic ?part (LogEndOffset p) t"
    using updateReplicaLEO_ok [OF inv p e order_refl leader, of "LogEndOffset p'" "b_localID b" "LogEndOffset p'"]
      LogEndOffset_nonneg [OF p'(1)] p'(2) by (auto simp: updateLeaderLEO_def)
  note inv1 = broker_inv_stored [OF inv p t(2)]
  obtain t' hw' where t': "updateReplicaLEO e (stored b ?topic ?part t) ?topic ?part (rfq_ReplicaID rreq) leo (LogEndOffset p') =
      (stored b ?topic ?part t', hw')" "tracks b ?topic ?part (LogEndOffset p) t'" "hw' \<le> LogEndOffset p" "0 \<le> hw'"
    using updateReplicaLEO_ok [OF inv1 _ e order_refl _ leo, of ?topic ?part p "rfq_ReplicaID rreq" "LogEndOffset p'"]
      leader p other by (auto simp: tracks_def track_ok_def)
  note sh = SetHighWatermark_ok [OF p'(1), of hw']
  have "broker_inv cfg n (put_partition (stored b ?topic ?part t') ?topic ?part (SetHighWatermark p' hw'))"
    using sh t'(2,3) p'(2) by (intro broker_inv_put_stored [OF inv p order_refl]) simp_all
  then show "broker_inv cfg n (fst (replica_progress e b rreq p' records))"
    by (auto simp: replica_progress_def Let_def t(1) t'(1) leo_def [symmetric] intro!: broker_inv_other split: prod.split)
  show "0 \<le> snd (replica_progress e b rreq p' records)" "snd (replica_progress e b rreq p' records) \<le> LogEndOffset p"
    using t'(3,4) by (simp_all add: replica_progress_def Let_def t(1) t'(1) leo_def [symmetric] split: prod.split)
qed

lemma handleReplicaFetch_ok:
  assumes inv: "broker_inv cfg n b" and e: "env_ok cfg n e" and room: "n < 2 ^ 63"
    and other: "\<And>rreq. DecodeReplicaFetchRequest (rf_Payload req) = Inr rreq \<Longrightarrow> rfq_ReplicaID rreq \<noteq> b_localID b"
  shows "broker_inv cfg n (fst (handleReplicaFetch e req b))"
proof (cases "DecodeReplicaFetchRequest (rf_Payload req)")
  case (Inl x)
  then show ?thesis using inv by (simp add: handleReplicaFetch_def)
next
  case rreq: (Inr rreq)
  let ?topic = "rfq_Topic rreq" and ?part = "rfq_Partition rreq"
  show ?thesis
  proof (cases "get_partition b ?topic ?part")
    case None
    then show ?thesis using inv rreq by (simp add: handleReplicaFetch_def)
  next
    case (Some p)
    obtain b1 r where l: "isLeader b ?topic ?part = (b1, r)" by fastforce
    note l' = isLeader_ok [OF inv l]
    have p1: "get_partition b1 ?topic ?part = Some p" using Some get_partition_cong [OF l'(2)] by simp
    have ok: "part_ok n p" using broker_invD(6) [OF inv Some] by (simp add: slot_ok_def)
    obtain p' rs err where rd: "Partition_ReadFrom p (rfq_FetchOffset rreq) (replica_fetch_max b1) = (p', rs, err)"
      by (cases "Partition_ReadFrom p (rfq_FetchOffset rreq) (replica_fetch_max b1)") auto
    note k = Partition_ReadFrom_keeps [OF ok rd]
    have mx: "0 < replica_fetch_max b1" "replica_fetch_max b1 + int MaxRecordSize < 2 ^ 31"
      using e broker_invD(1) [OF l'(1)] by (auto simp: replica_fetch_max_def env_ok_def Let_def MaxRecordSize_def)
    have "broker_inv cfg n (fst (replica_progress e b1 rreq p' rs))"
      if r and err: "case err of None \<Rightarrow> True | Some x \<Rightarrow> errors_Is x EOF"
    proof -
      have inv_l: "log_inv (pt_log p)" using ok by (simp add: part_ok_def)
      obtain l2 where l2: "Log_ReadFrom (pt_log p) (rfq_FetchOffset rreq) (replica_fetch_max b1) = (l2, rs, err)"
        using rd by (auto simp: Partition_ReadFrom_def split: prod.splits)
      note part = read_part [OF inv_l mx l2 err]
      have "0 \<le> LowestOffset (pt_log p)"
        using inv_l base_nonneg [of "l_segments (pt_log p)" 0] log_nonempty [OF inv_l]
        by (simp add: LowestOffset_def log_inv_def hd_conv_nth)
      then have "0 \<le> rfq_FetchOffset rreq" "\<forall>r \<in> set rs. 0 \<le> Offset r \<and> Offset r < LogEndOffset p'"
        using part(1,4) k(2) by (auto simp: LogEndOffset_def)
      then show ?thesis
        using replica_progress_ok(1) [OF l'(1) p1 _ _ k(1,2) _ _ room] e l'(4,6) other [OF rreq] \<open>r\<close> by (simp add: env_ok_def)
    qed
    moreover have "broker_inv cfg n (put_partition b1 ?topic ?part p')"
      using broker_inv_put [OF l'(1) p1 order_refl k(1)] k(2) by simp
    ultimately show ?thesis
      using rreq Some l rd l'(1)
      by (cases r) (auto simp: handleReplicaFetch_def split: option.split prod.split)
  qed
qed

text \<open>The requests of the groups and of the offsets.\<close>

lemma sync_wait_ok:
  assumes inv: "broker_inv cfg n b" and "n \<le> N" and others: "\<And>b. broker_inv cfg n b \<Longrightarrow> broker_inv cfg N (others b)"
  shows "broker_inv cfg N (fst (sync_wait others b ch))"
proof -
  have rcv: "broker_inv cfg k (b'\<lparr>b_coord := gc\<rparr>)" if "broker_inv cfg k b'" "sync_receive (b_coord b') ch = Some (gc, r)" for k b' gc r
    using broker_inv_coord [OF that(1)] sync_receive_inv [OF broker_invD(2) [OF that(1)] that(2)] by simp
  show ?thesis
  proof (cases "sync_receive (b_coord b) ch")
    case None
    then show ?thesis using others [OF inv] rcv [OF others [OF inv]] by (auto simp: sync_wait_def Let_def split: option.split)
  next
    case (Some x)
    then show ?thesis using rcv [OF inv] broker_inv_mono [OF _ assms(2)] by (cases x) (auto simp: sync_wait_def)
  qed
qed

lemma commit_topic_ok: "broker_inv cfg n b \<Longrightarrow> broker_inv cfg n (fst (commit_topic e g b t))"
  using thread_r_keeps [of "ocrt_Partitions t" "broker_inv cfg n" "commit_partition e g (ocrt_Name t)" b]
  by (auto simp: commit_topic_def commit_partition_def CommitOffset_def broker_inv_other split: prod.split sum.split)

lemma coord_handlers_ok:
  assumes "broker_inv cfg n b" and "env_ok cfg n e"
  shows "broker_inv cfg n (fst (handleJoinGroup e req b))" and "broker_inv cfg n (fst (handleHeartbeat e req b))"
    and "broker_inv cfg n (fst (handleLeaveGroup e req b))"
proof -
  have g: "gc_inv (b_coord b)" and ord: "valid_ord (e_ord e)" using broker_invD(2) [OF assms(1)] assms(2) by (auto simp: env_ok_def)
  note st = broker_inv_coord [OF assms(1)]
  show "broker_inv cfg n (fst (handleJoinGroup e req b))"
    using assms(1) st [OF JoinGroup_inv [OF g ord]] by (auto simp: handleJoinGroup_def case_prod_unfold split: sum.split)
  show "broker_inv cfg n (fst (handleHeartbeat e req b))"
    using assms(1) st [OF Heartbeat_inv [OF g]] by (auto simp: handleHeartbeat_def case_prod_unfold split: sum.split)
  show "broker_inv cfg n (fst (handleLeaveGroup e req b))"
    using assms(1) st [OF LeaveGroup_inv [OF g ord]] by (auto simp: handleLeaveGroup_def case_prod_unfold split: sum.split)
qed

lemma handleSyncGroup_ok:
  assumes inv: "broker_inv cfg n b" and "n \<le> N" and others: "\<And>b. broker_inv cfg n b \<Longrightarrow> broker_inv cfg N (others b)"
  shows "broker_inv cfg N (fst (handleSyncGroup others e req b))"
proof (cases "SyncGroupRequest_Decode (rf_Payload req)")
  case (Inl x)
  then show ?thesis using broker_inv_mono [OF inv assms(2)] by (simp add: handleSyncGroup_def)
next
  case (Inr x)
  obtain sreq rest where x: "x = (sreq, rest)" by (cases x) auto
  obtain gc r where s: "sync_section (b_coord b) sreq (e_now e) = (gc, r)" by fastforce
  have b1: "broker_inv cfg n (b\<lparr>b_coord := gc\<rparr>)"
    using broker_inv_coord [OF inv sync_section_inv [OF broker_invD(2) [OF inv], of sreq "e_now e"]] s by simp
  show ?thesis
    using Inr x s broker_inv_mono [OF b1 assms(2)] sync_wait_ok [OF b1 assms(2) others]
    by (cases r) (simp_all add: handleSyncGroup_def case_prod_unfold)
qed

lemma commit_topics_ok:
  assumes "broker_inv cfg n b" and "thread_r (commit_topic e g) b ts = (b', r)"
  shows "broker_inv cfg n b'"
  using thread_r_keeps [of ts "broker_inv cfg n" "commit_topic e g" b] commit_topic_ok assms by simp

lemma offset_handlers_ok:
  assumes "broker_inv cfg n b"
  shows "broker_inv cfg n (fst (handleOffsetCommit e req b))" and "broker_inv cfg n (fst (handleOffsetFetch req b))"
    and "broker_inv cfg n (fst (handleListOffsets req b))" and "broker_inv cfg n (fst (handleApiVersions req b))"
  using assms by (auto simp: handleOffsetCommit_def handleOffsetFetch_def handleListOffsets_def handleApiVersions_def
      split: sum.split prod.split dest: commit_topics_ok)

lemma topic_handlers_ok:
  assumes "broker_inv cfg n b" and "env_ok cfg n e"
  shows "broker_inv cfg n (fst (handleMetadata e req b))" and "broker_inv cfg n (fst (handleCreateTopics e req b))"
proof -
  have m: "broker_inv cfg n (fst (thread_r (topic_metadata e) b ts))" for ts
    by (rule thread_r_keeps [where I = "broker_inv cfg n"]) (simp_all add: assms topic_metadata_ok)
  have c: "broker_inv cfg n (fst (thread (create_topic e) b ts))" for ts
    by (rule thread_keeps [where I = "broker_inv cfg n"]) (simp_all add: assms create_topic_ok)
  have m': "broker_inv cfg n b'" if "thread_r (topic_metadata e) b ts = (b', r)" for ts b' r using m [of ts] that by simp
  show "broker_inv cfg n (fst (handleMetadata e req b))"
    using assms(1) by (auto simp: handleMetadata_def Let_def split: sum.split prod.split dest: m')
  show "broker_inv cfg n (fst (handleCreateTopics e req b))"
    using assms(1) c by (auto simp: handleCreateTopics_def case_prod_unfold split: sum.split)
qed

lemma handleFetch_ok:
  assumes "broker_inv cfg n b" and "n \<le> N" and "\<And>b. broker_inv cfg n b \<Longrightarrow> broker_inv cfg N (others b)"
  shows "broker_inv cfg N (fst (handleFetch others ch req b))"
proof -
  have "broker_inv cfg N (fst (thread fetch_topic (long_poll others ch freq b) ts))" for freq ts
    by (rule thread_keeps [where I = "broker_inv cfg N"]) (simp_all add: fetch_topic_ok long_poll_ok [OF assms])
  then show ?thesis using broker_inv_mono [OF assms(1,2)] by (auto simp: handleFetch_def case_prod_unfold split: sum.split)
qed

text \<open>
  What a request may contain: its records fit below the largest offset, and a replica fetch does not come from
  the broker itself.
\<close>

definition request_ok :: "int \<Rightarrow> int \<Rightarrow> Broker \<Rightarrow> RequestFrame \<Rightarrow> bool" where
  "request_ok n N b req \<longleftrightarrow>
     (case ProduceRequest_Decode (rf_Payload req) of
        Inl _ \<Rightarrow> True
      | Inr (preq, _) \<Rightarrow> rf_ApiKey req = apiKeyProduce \<longrightarrow> n + produce_size preq \<le> N) \<and>
     (case DecodeReplicaFetchRequest (rf_Payload req) of
        Inl _ \<Rightarrow> True
      | Inr rreq \<Rightarrow> rf_ApiKey req = apiKeyReplicaFetch \<longrightarrow> rfq_ReplicaID rreq \<noteq> b_localID b)"

lemma handleProduce_ok:
  assumes "broker_inv cfg n b" and "env_ok cfg n e" and "n \<le> N" and "N < 2 ^ 63"
    and "request_ok n N b req" and "rf_ApiKey req = apiKeyProduce"
  shows "broker_inv cfg N (fst (handleProduce slow e req b))"
proof (cases "ProduceRequest_Decode (rf_Payload req)")
  case (Inl x)
  then show ?thesis using broker_inv_mono [OF assms(1,3)] by (simp add: handleProduce_def)
next
  case (Inr x)
  obtain preq rest where x: "x = (preq, rest)" by (cases x) auto
  have "n + produce_size preq \<le> N" using assms(5,6) Inr x by (simp add: request_ok_def)
  then have "broker_inv cfg N (fst (produce slow e preq b))"
    using produce_ok [OF assms(1,2), of preq slow] assms(4) broker_inv_mono [of cfg "n + produce_size preq" _ N] by simp
  then show ?thesis by (simp add: handleProduce_def Inr x case_prod_unfold)
qed

lemma broker_handlers:
  "handlers (broker_mux slow others ch e) k =
     (if k = apiKeyProduce then Some (handleProduce slow e) else if k = apiKeyFetch then Some (handleFetch others ch)
      else if k = apiKeyMetadata then Some (handleMetadata e) else if k = apiKeyCreateTopics then Some (handleCreateTopics e)
      else if k = apiKeyJoinGroup then Some (handleJoinGroup e) else if k = apiKeySyncGroup then Some (handleSyncGroup others e)
      else if k = apiKeyHeartbeat then Some (handleHeartbeat e) else if k = apiKeyLeaveGroup then Some (handleLeaveGroup e)
      else if k = apiKeyOffsetCommit then Some (handleOffsetCommit e) else if k = apiKeyOffsetFetch then Some handleOffsetFetch
      else if k = apiKeyListOffsets then Some handleListOffsets else if k = apiKeyReplicaFetch then Some (handleReplicaFetch e)
      else if k = apiKeyApiVersions then Some handleApiVersions else None)"
  by (simp add: broker_mux_def Handle_def NewMux_def api_keys)

lemma Dispatch_state:
  "fst (Dispatch coded m req st) = (case handlers m (rf_ApiKey req) of None \<Rightarrow> st | Some h \<Rightarrow> fst (h req st))"
  by (auto simp: Dispatch_def split: option.split prod.split sum.split)

lemma broker_step_ok:
  assumes inv: "broker_inv cfg n b" and e: "env_ok cfg n e" and N: "n \<le> N" "N < 2 ^ 63"
    and others: "\<And>b. broker_inv cfg n b \<Longrightarrow> broker_inv cfg N (others b)" and req: "request_ok n N b req"
  shows "broker_inv cfg N (fst (Dispatch coded (broker_mux slow others ch e) req b))"
proof -
  note up = broker_inv_mono [OF _ N(1)]
  have rep: "broker_inv cfg N (fst (handleReplicaFetch e req b))" if "rf_ApiKey req = apiKeyReplicaFetch"
    using req that N by (intro up [OF handleReplicaFetch_ok [OF inv e]]) (auto simp: request_ok_def)
  have waits: "broker_inv cfg N (fst (handleFetch others ch req b))" "broker_inv cfg N (fst (handleSyncGroup others e req b))"
    by (rule handleFetch_ok [OF inv N(1)], erule others) (rule handleSyncGroup_ok [OF inv N(1)], erule others)
  show ?thesis
    unfolding Dispatch_state broker_handlers
    using handleProduce_ok [OF inv e N req, of slow] waits rep up [OF inv]
      up [OF topic_handlers_ok(1) [OF inv e]] up [OF topic_handlers_ok(2) [OF inv e]]
      up [OF coord_handlers_ok(1) [OF inv e]] up [OF coord_handlers_ok(2) [OF inv e]] up [OF coord_handlers_ok(3) [OF inv e]]
      up [OF offset_handlers_ok(1) [OF inv]] up [OF offset_handlers_ok(2) [OF inv]] up [OF offset_handlers_ok(3) [OF inv]]
      up [OF offset_handlers_ok(4) [OF inv]]
    by simp
qed

section \<open>A new broker\<close>

lemma initTopicReplication_same:
  "b_topics (initTopicReplication e b topic k) = b_topics b \<and> b_meta (initTopicReplication e b topic k) = b_meta b"
proof -
  let ?I = "\<lambda>b'. b_topics b' = b_topics b \<and> b_meta b' = b_meta b"
  show ?thesis unfolding initTopicReplication_def
    by (rule foldl_keeps [where I = ?I])
      (auto simp: getOrCreateISRTracker_def Let_def split: sum.split option.split)
qed

lemma open_topic_same:
  assumes "open_topic e b name k = (b', r)"
  shows "b_meta b' = b_meta b" and "x \<noteq> name \<Longrightarrow> getTopic b' x = getTopic b x"
  using assms initTopicReplication_same
  by (auto simp: open_topic_def getTopic_def update_conv' split: sum.splits)

lemma load_topics_ok:
  "broker_inv cfg n b \<Longrightarrow> distinct (map tmeta_Name metas) \<Longrightarrow> \<forall>m \<in> set metas. getTopic b (tmeta_Name m) = None \<Longrightarrow>
   \<forall>m \<in> set metas. GetTopic (b_meta b) (tmeta_Name m) \<noteq> None \<Longrightarrow> env_ok cfg n e \<Longrightarrow> load_topics e b metas = Inr b' \<Longrightarrow>
   broker_inv cfg n b'"
proof (induction metas arbitrary: b)
  case (Cons m metas)
  obtain b1 where b1: "open_topic e b (tmeta_Name m) (tmeta_NumPartitions m) = (b1, None)" "load_topics e b1 metas = Inr b'"
    using Cons.prems(6) by (auto split: option.splits prod.splits)
  note same = open_topic_same [OF b1(1)]
  have inv1: "broker_inv cfg n b1"
    using open_topic_ok [OF Cons.prems(1,5), of "tmeta_Name m" "tmeta_NumPartitions m"] Cons.prems(3,4) b1(1) by simp
  have "getTopic b1 (tmeta_Name k) = None" "GetTopic (b_meta b1) (tmeta_Name k) \<noteq> None" if "k \<in> set metas" for k
  proof -
    have "tmeta_Name k \<noteq> tmeta_Name m" using Cons.prems(2) that by (metis distinct.simps(2) image_eqI list.simps(9) list.set_map)
    then show "getTopic b1 (tmeta_Name k) = None" "GetTopic (b_meta b1) (tmeta_Name k) \<noteq> None"
      using same Cons.prems(3,4) that by simp_all
  qed
  then show ?case using Cons.prems(2,5) b1(2) by (intro Cons.IH [OF inv1]) simp_all
qed simp

lemma staticPartitionLeader_new: "GetEpoch NewEpochManager topic part = Inl (ErrorNew (''epoch: unknown topic '' @ topic))"
  by (simp add: GetEpoch_def NewEpochManager_def)

lemma clusterReplicaIDs_nonempty: "clusterReplicaIDs cfg \<noteq> []"
proof -
  let ?f = "\<lambda>ids br. let i = int32 (cb_ID br) in if i \<in> set ids then ids else ids @ [i]"
  have step: "?f ids br \<noteq> []" for ids br by (auto simp: Let_def)
  have more: "ids \<noteq> [] \<Longrightarrow> foldl ?f ids brs \<noteq> []" for ids and brs :: "ClusterBroker list"
  proof (induction brs arbitrary: ids)
    case (Cons br brs)
    show ?case unfolding foldl.simps by (rule Cons.IH [OF step])
  qed simp
  show ?thesis
    using more by (cases "cc_Brokers (cfg_Cluster cfg)") (simp_all add: clusterReplicaIDs_def)
qed

text \<open>A broker that starts keeps the invariant from the beginning, when its metadata file lists each topic under its name.\<close>

lemma New_ok:
  assumes e: "env_ok cfg n e" and new: "New e metaTmp metaFile cfg = Some (Inr b)"
    and names: "\<forall>(k, m) \<in> set (mm_topics (NewMetadataManager metaTmp metaFile)). tmeta_Name m = k"
      "distinct (map fst (mm_topics (NewMetadataManager metaTmp metaFile)))"
  shows "broker_inv cfg n b"
proof -
  define mm where "mm = NewMetadataManager metaTmp metaFile"
  obtain s where s: "load_topics e
      \<lparr>b_config = cfg, b_meta = mm, b_coord = NewGroupCoordinator, b_offsets = s,
       b_purgatory = NewPurgatory, b_chans = (\<lambda>_. []), b_epochs = NewEpochManager,
       b_localID = int32 (bc_ID (cfg_Broker cfg)), b_replicaIDs = clusterReplicaIDs cfg,
       b_isr = Map.empty, b_topics = [], b_listeners = (\<lambda>_. []), b_signals = (\<lambda>_. False)\<rparr> (ListTopics mm) = Inr b"
    (is "load_topics e ?b _ = _")
    using new by (auto simp: New_def mm_def Let_def split: option.splits prod.splits)
  have "map tmeta_Name (ListTopics mm) = map fst (mm_topics mm)"
    using names(1) unfolding mm_def [symmetric] ListTopics_def by auto
  moreover have "distinct (map fst (mm_topics mm))" using names(2) by (simp add: mm_def)
  ultimately have d: "distinct (map tmeta_Name (ListTopics mm))" by simp
  have "GetTopic mm (tmeta_Name m) \<noteq> None" if "m \<in> set (ListTopics mm)" for m
  proof -
    have "tmeta_Name m \<in> fst ` set (mm_topics mm)" using that names(1) unfolding mm_def [symmetric] by (force simp: ListTopics_def)
    then show ?thesis by (simp add: GetTopic_def map_of_eq_None_iff)
  qed
  moreover have "broker_inv cfg n ?b"
    using clusterReplicaIDs_nonempty [of cfg] static_in [of ?b]
    by (simp add: broker_inv_def gc_inv_new partitionLeader_def staticPartitionLeader_new get_partition_def getTopic_def)
  ultimately show ?thesis using s d e by (intro load_topics_ok [of cfg n ?b "ListTopics mm" e b]) (simp_all add: getTopic_def)
qed

section \<open>What is fetched\<close>

lemma log_wf: "log_inv l \<Longrightarrow> r \<in> set (log_recs l) \<Longrightarrow> wf_record r"
proof -
  assume inv: "log_inv l" and r: "r \<in> set (log_recs l)"
  have run: "\<forall>r \<in> set (recs_of ss). wf_record r" if "sealed_run b ss" for b ss
    using that by (induction ss arbitrary: b) (auto simp: sealed_def seg_inv_def acct_inv_def)
  obtain ss a where l: "l_segments l = ss @ [a]" using inv by (rule log_invE)
  have "sealed_run (BaseOffset (hd (ss @ [a]))) ss" "seg_inv a" using inv l by (auto simp: log_inv_def segments_ok_def)
  then show ?thesis using run r l by (auto simp: log_recs_def seg_inv_def acct_inv_def)
qed

lemma encode_records_wf: "\<forall>r \<in> set rs. wf_record r \<Longrightarrow> encode_records rs = Inr (encs rs)"
  by (induction rs) (simp_all add: Record_Encode_wf)

text \<open>A fetch inside the log: what is sent, in terms of what the log gives.\<close>

lemma fetch_partition_eq:
  assumes p: "get_partition b topic (frp_PartitionID pReq) = Some p" and inv: "log_inv (pt_log p)"
    and off: "LowestOffset (pt_log p) \<le> frp_FetchOffset pReq" "frp_FetchOffset pReq < HighWatermark p"
    and mx: "0 < frp_MaxBytes pReq" "frp_MaxBytes pReq + int MaxRecordSize < 2 ^ 31"
  shows "\<exists>p'. fetch_partition topic b pReq =
    (put_partition b topic (frp_PartitionID pReq) p',
     \<lparr>fsp_PartitionID = frp_PartitionID pReq, fsp_ErrorCode = codeNone, fsp_HighWatermark = HighWatermark p,
      fsp_LogStartOffset = LogStartOffset p,
      fsp_RecordSet = encs (takeWhile (\<lambda>r. Offset r < HighWatermark p) (gather (frp_FetchOffset pReq) (frp_MaxBytes pReq) 0 (l_segments (pt_log p))))\<rparr>)"
proof -
  let ?g = "gather (frp_FetchOffset pReq) (frp_MaxBytes pReq) 0 (l_segments (pt_log p))"
  obtain l' where l': "Log_ReadFrom (pt_log p) (frp_FetchOffset pReq) (frp_MaxBytes pReq) = (l', ?g, None)"
    using Log_ReadFrom_gather [OF inv off(1) mx] by blast
  have "set ?g \<subseteq> set (log_recs (pt_log p))" using read_part(2,3) [OF inv mx l'] by simp
  then have wf: "\<forall>r \<in> set (takeWhile (\<lambda>r. Offset r < HighWatermark p) ?g). wf_record r"
    using log_wf [OF inv] by (meson set_takeWhileD subsetD)
  show ?thesis
    using off(2) by (intro exI [of _ "p\<lparr>pt_log := l'\<rparr>"]) (simp add: fetch_partition_def p Let_def Partition_ReadFrom_def l' encode_records_wf [OF wf])
qed

section \<open>A small broker\<close>

definition demo_env :: broker_env where
  "demo_env = \<lparr>e_cwd = [], e_fs = (\<lambda>_. []), e_ckpt = None, e_now = 1, e_rnd = [], e_ord = (\<lambda>ks. ks)\<rparr>"

definition demo_part :: Partition where
  "demo_part = \<lparr>pt_Topic = ''t'', pt_ID = 0, pt_log = demo_log1, pt_highWatermark = 1, pt_closed = False\<rparr>"

definition demo_broker :: Broker where
  "demo_broker = \<lparr>b_config = demo_cfg,
     b_meta = NewMetadataManager None (Some [(''t'', \<lparr>tmeta_Name = ''t'', tmeta_NumPartitions = 1, tmeta_ReplicationFactor = 1\<rparr>)]),
     b_coord = NewGroupCoordinator, b_offsets = NewOffsetStore 0, b_purgatory = NewPurgatory, b_chans = (\<lambda>_. []),
     b_epochs = NewEpochManager, b_localID = 0, b_replicaIDs = [0], b_isr = Map.empty,
     b_topics = [(''t'', \<lparr>tp_Name = ''t'', tp_Partitions = [(0, demo_part)], tp_roundRobinCounter = 0\<rparr>)],
     b_listeners = (\<lambda>_. []), b_signals = (\<lambda>_. False)\<rparr>"

lemma demo_part_ok: "part_ok 1 demo_part" "LogEndOffset demo_part = 1" "HighWatermark demo_part = 1"
  using demo_log1_ok HighestOffset_eq [OF demo_log1_ok(1)]
  by (simp_all add: part_ok_def demo_part_def LogEndOffset_def HighWatermark_def)

lemma demo_env_ok: "env_ok demo_cfg 1 demo_env"
proof -
  have "config_ok (withDefaults (storageConfigFrom demo_cfg))"
    by (simp add: demo_cfg_def storageConfigFrom_def withDefaults_def config_ok_def Let_def MaxUint32_def)
  then have "log_inv l \<and> HighestOffset l \<le> 1" if "NewLog [] (storageConfigFrom demo_cfg) now = Inr l" for now l
    using NewLog_empty [of "storageConfigFrom demo_cfg" now] that by auto
  then show ?thesis by (simp add: env_ok_def demo_env_def valid_ord_def demo_cfg_def MaxRecordSize_def)
qed

lemma demo_partitions:
  "get_partition demo_broker topic part = (if topic = ''t'' \<and> part = 0 then Some demo_part else None)"
  by (auto simp: get_partition_def getTopic_def GetPartition_def demo_broker_def)

lemma demo_broker_ok: "broker_inv demo_cfg 1 demo_broker"
proof -
  have leader: "partitionLeader demo_broker topic part \<in> set (b_replicaIDs demo_broker)" for topic part
    using static_in [of demo_broker part] by (simp add: partitionLeader_def staticPartitionLeader_new demo_broker_def)
  have names: "GetTopic (b_meta demo_broker) name \<noteq> None" if "getTopic demo_broker name \<noteq> None" for name
    using that by (simp add: getTopic_def GetTopic_def demo_broker_def NewMetadataManager_def mm_load_def split: if_splits)
  have slots: "slot_ok 1 demo_broker topic part p (b_isr demo_broker (topic, part))"
    if "get_partition demo_broker topic part = Some p" for topic part p
    using that demo_part_ok(1) unfolding demo_partitions by (auto simp: slot_ok_def demo_broker_def split: if_splits)
  show ?thesis
    unfolding broker_inv_def using leader names slots by (simp add: demo_broker_def gc_inv_new)
qed

section \<open>Properties\<close>





end
