(* ===== verification/BrokerE2E.thy ===== *)
theory BrokerE2E
  imports BrokerSafe
begin

text \<open>
  A producer and a consumer of a broker without followers: the records of a produce request, sent as bytes through
  the dispatcher, are what a fetch at the returned offset gives back.
\<close>

section \<open>A partition without followers\<close>

definition alone :: "Broker \<Rightarrow> string \<Rightarrow> int \<Rightarrow> bool" where
  "alone b topic part \<longleftrightarrow> b_replicaIDs b = [b_localID b] \<and>
     (\<forall>t. b_isr b (topic, part) = Some t \<longrightarrow>
        (\<forall>(k, rep) \<in> set (replicas t). k = b_localID b \<and> rs_InSync rep))"

definition sole :: "int \<Rightarrow> ISRTracker \<Rightarrow> bool" where
  "sole n t \<longleftrightarrow> (\<forall>(k, rep) \<in> set (replicas t). k = n \<and> rs_InSync rep)"

lemma getOrCreateISRTracker_sole:
  assumes "alone b topic part" and "getOrCreateISRTracker e b topic part = (b', t)" and "e_ckpt e = None"
  shows "sole (b_localID b) t"
  using assms by (auto simp: alone_def sole_def getOrCreateISRTracker_def NewISRTracker_def loadCheckpoint_def Let_def split: option.splits)

lemma sole_hw:
  assumes "sole n t" and "track_ok n m t" and "leaderID t = n" and "0 \<le> m"
    and "UpdateLEO t n m m now = (t', hw)"
  shows "hw = m"
proof -
  have ne: "replicas t \<noteq> []" using assms(2,3) by (auto simp: track_ok_def)
  define reps where "reps = advance_leo n m now (replicas t)"
  have mem: "map_of (replicas t) n \<noteq> None" using assms(2,3) by (auto simp: track_ok_def map_of_eq_None_iff)
  have old: "\<forall>(k, rep) \<in> set (replicas t). k = n \<and> rs_LogEndOffset rep \<le> m \<and> rs_BrokerID rep = n"
    using assms(1,2) by (auto simp: sole_def track_ok_def)
  have eq: "reps = map (\<lambda>(id, rep). if id = n \<and> rs_LogEndOffset rep < m then (id, rep\<lparr>rs_LogEndOffset := m\<rparr>) else (id, rep)) (replicas t)"
    using mem by (auto simp: reps_def advance_leo_def)
  have reps: "\<forall>(k, rep) \<in> set reps. k = n \<and> rs_LogEndOffset rep = m \<and> rs_BrokerID rep = n" "reps \<noteq> []"
    using old ne unfolding eq by (auto simp: not_less split: if_splits)
  define f where "f = (\<lambda>eff (i, rep). if i = n \<and> eff \<le> rs_LogEndOffset rep
      then (i, rep\<lparr>rs_LastCaughtUpTime := now\<rparr>) else (i, rep :: ReplicaState))"
  obtain eff where eff: "UpdateLEO t n m m now = calculateHWLocked (updateISRLocked (t\<lparr>replicas := map (f eff) reps\<rparr>) now)"
    unfolding UpdateLEO_def Let_def reps_def f_def by blast
  define t1 where "t1 = updateISRLocked (t\<lparr>replicas := map (f eff) reps\<rparr>) now"
  have all: "\<forall>(k, rep) \<in> set (replicas t1). rs_LogEndOffset rep = m \<and> rs_InSync rep" "replicas t1 \<noteq> []" "t_highWatermark t1 = t_highWatermark t"
    using reps assms(3) unfolding t1_def by (auto simp: updateISRLocked_def f_def Let_def split: if_splits)
  have "sync_leos (replicas t1) = {m}" using all(1,2) by (cases "replicas t1") (fastforce simp: sync_leos_def)+
  then have "foldl min_leo (-1) (map snd (replicas t1)) = m" using foldl_min_leo [of "replicas t1"] assms(4) by simp
  then show ?thesis
    using assms(2,5) eff all(3) unfolding t1_def [symmetric] by (auto simp: calculateHWLocked_def Let_def track_ok_def split: if_splits)
qed

lemma decode_set_encs: "\<forall>r \<in> set rs. wf_record r \<Longrightarrow> decode_set (encs rs) = (rs, codeNone)"
  by (induction rs) (simp_all add: decode_set.simps [of "[]"] decode_set.simps [of "enc _ @ _"] DecodeRecord_enc)

lemma enough_alone:
  assumes "broker_inv cfg n b" and "get_partition b topic part = Some p" and "e_ckpt e = None" and "alone b topic part"
    and "acks = -1 \<longrightarrow> minInsyncReplicas b \<le> 1"
  shows "\<exists>b'. enough_replicas e acks b topic part = (b', True) \<and> broker_inv cfg n b' \<and> get_partition b' = get_partition b \<and>
    alone b' topic part \<and> b_localID b' = b_localID b \<and> partitionLeader b' topic part = partitionLeader b topic part"
proof (cases "acks = -1")
  case True
  obtain t where t: "getOrCreateISRTracker e b topic part = (stored b topic part t, t)" "tracks b topic part (LogEndOffset p) t"
    using getOrCreateISRTracker_ok [OF assms(1-3) order_refl] by blast
  have s: "sole (b_localID b) t" by (rule getOrCreateISRTracker_sole [OF assms(4) t(1) assms(3)])
  have "partitionLeader b topic part = b_localID b" using broker_invD(4) [OF assms(1)] assms(4) by (simp add: alone_def)
  then have "replicas t \<noteq> []" using t(2) by (auto simp: tracks_def track_ok_def)
  then have "1 \<le> length (GetISR t)" using s by (cases "replicas t") (auto simp: GetISR_def sole_def)
  then have "enough_replicas e acks b topic part = (stored b topic part t, True)"
    using True t(1) assms(5) by (simp add: enough_replicas_def minInsyncReplicas_def)
  moreover have "alone (stored b topic part t) topic part" using s assms(4) by (simp add: alone_def sole_def)
  ultimately show ?thesis using broker_inv_stored [OF assms(1,2) t(2)] by simp
next
  case False
  then show ?thesis using assms by (simp add: enough_replicas_def)
qed

lemma after_append_alone:
  assumes inv: "broker_inv cfg n b" and p: "get_partition b topic part = Some p" and e: "e_ckpt e = None" and al: "alone b topic part"
    and p': "part_ok n' p'" "LogEndOffset p \<le> LogEndOffset p'"
  shows "\<exists>t. get_partition (after_append e b topic part p') topic part = Some (p'\<lparr>pt_highWatermark := LogEndOffset p'\<rparr>) \<and>
    b_isr (after_append e b topic part p') (topic, part) = Some t \<and> t_highWatermark t = LogEndOffset p'"
proof -
  let ?m = "LogEndOffset p'"
  have leader: "partitionLeader b topic part = b_localID b" using broker_invD(4) [OF inv] al by (simp add: alone_def)
  have nn: "0 \<le> ?m" by (rule LogEndOffset_nonneg [OF p'(1)])
  obtain t where t: "getOrCreateISRTracker e b topic part = (stored b topic part t, t)" "tracks b topic part ?m t"
    using getOrCreateISRTracker_ok [OF inv p e p'(2)] by blast
  have s: "sole (b_localID b) t" by (rule getOrCreateISRTracker_sole [OF al t(1) e])
  obtain t' hw where u: "UpdateLEO t (b_localID b) ?m ?m (e_now e) = (t', hw)" by fastforce
  have hw: "hw = ?m" using sole_hw [OF s _ _ nn u] t(2) leader by (simp add: tracks_def)
  have "hw = t_highWatermark t'" using UpdateLEO_track(2) [of "b_localID b" ?m, OF _ _ nn _ u] t(2) leader by (simp add: tracks_def)
  moreover have "updateLeaderLEO e b topic part ?m = (stored b topic part t', hw)"
    by (simp add: updateLeaderLEO_def updateReplicaLEO_def t(1) u) (simp add: stored_def)
  moreover have "SetHighWatermark p' ?m = p'\<lparr>pt_highWatermark := ?m\<rparr>"
    using p'(1) by (cases p') (auto simp: SetHighWatermark_def part_ok_def HighWatermark_def)
  ultimately show ?thesis
    using p hw by (auto simp: after_append_def Let_def notifyAppended_def get_partition_put [of "stored b topic part t'" topic part p] split: prod.split)
qed

lemma produce_alone:
  assumes inv: "broker_inv cfg n b" and p: "get_partition b topic part = Some p" and e: "e_ckpt e = None" and al: "alone b topic part"
    and ack: "acks = -1 \<longrightarrow> minInsyncReplicas b \<le> 1"
    and sz: "lc_MaxMessageBytes (cfg_Log cfg) \<le> 0 \<or> int (length (encs rs)) \<le> lc_MaxMessageBytes (cfg_Log cfg)"
    and rs: "rs \<noteq> []" "\<forall>r \<in> set rs. wf_record r" and room: "n + int (length rs) < 2 ^ 63"
  shows "\<exists>b' p' t. produce_partition e acks topic None b \<lparr>prp_PartitionID = part, prp_RecordSet = encs rs\<rparr> =
      (b', \<lparr>psp_PartitionID = part, psp_ErrorCode = codeNone, psp_BaseOffset = LogEndOffset p, psp_LogAppendTime = e_now e div 1000000\<rparr>,
       if acks = -1 then Some (LogEndOffset p') else None) \<and>
    get_partition b' topic part = Some p' \<and> log_inv (pt_log p') \<and> LogStartOffset p' = LogStartOffset p \<and>
    log_recs (pt_log p') = log_recs (pt_log p) @ number_from (LogEndOffset p) rs \<and>
    LogEndOffset p' = LogEndOffset p + int (length rs) \<and> HighWatermark p' = LogEndOffset p' \<and>
    b_isr b' (topic, part) = Some t \<and> t_highWatermark t = LogEndOffset p'"
proof -
  obtain b1 r where l: "isLeader b topic part = (b1, r)" by fastforce
  note l' = isLeader_ok [OF inv l]
  have leader: "partitionLeader b topic part = b_localID b" using broker_invD(4) [OF inv] al by (simp add: alone_def)
  then have r: r using l'(4,6,7) by simp
  have p1: "get_partition b1 topic part = Some p" using p get_partition_cong [OF l'(2)] by simp
  have same: "b_replicaIDs b1 = b_replicaIDs b" "b_config b1 = b_config b"
    using l by (auto simp: isLeader_def Let_def split: sum.splits)
  have al1: "alone b1 topic part" using al l'(3,4) same by (simp add: alone_def)
  have "acks = -1 \<longrightarrow> minInsyncReplicas b1 \<le> 1" using ack same by (simp add: minInsyncReplicas_def)
  then obtain b2 where b2: "enough_replicas e acks b1 topic part = (b2, True)" "broker_inv cfg n b2"
    "get_partition b2 topic part = Some p" "alone b2 topic part"
    using enough_alone [OF l'(1) p1 e al1] p1 by metis
  have pok: "part_ok n p" using broker_invD(6) [OF inv p] by (simp add: slot_ok_def)
  then have lg: "log_inv (pt_log p)" "\<not> pt_closed p" "HighestOffset (pt_log p) \<le> n" by (auto simp: part_ok_def LogEndOffset_def)
  have ok: "\<forall>r \<in> set rs. typed_record r \<and> EncodedSize r \<le> MaxRecordSize" "\<forall>r \<in> set rs. typed_record r" using rs(2) by (auto simp: wf_record_def)
  have "HighestOffset (pt_log p) + int (length rs) < 2 ^ 63" using lg(3) room by linarith
  then obtain l1 where l1: "AppendBatch (pt_log p) rs (e_now e) = (l1, HighestOffset (pt_log p), None)" "log_inv l1" "same_log (pt_log p) l1"
    "log_recs l1 = log_recs (pt_log p) @ number_from (HighestOffset (pt_log p)) rs"
    using AppendBatch_ok [OF lg(1) rs(1) ok(1), of "e_now e"] by blast
  let ?p = "p\<lparr>pt_log := l1\<rparr>"
  have ap: "Partition_AppendBatch p rs (e_now e) = (?p, LogEndOffset p, None)"
    using l1(1) lg(2) by (simp add: Partition_AppendBatch_def LogEndOffset_def)
  note k = Partition_AppendBatch_keeps [OF pok ok(2) room ap]
  obtain t where t: "get_partition (after_append e b2 topic part ?p) topic part = Some (?p\<lparr>pt_highWatermark := LogEndOffset ?p\<rparr>)"
    "b_isr (after_append e b2 topic part ?p) (topic, part) = Some t" "t_highWatermark t = LogEndOffset ?p"
    using after_append_alone [OF b2(2,3) e b2(4) k(1,2)] by blast
  let ?q = "?p\<lparr>pt_highWatermark := LogEndOffset ?p\<rparr>"
  have "produce_partition e acks topic None b \<lparr>prp_PartitionID = part, prp_RecordSet = encs rs\<rparr> =
      (after_append e b2 topic part ?p,
       \<lparr>psp_PartitionID = part, psp_ErrorCode = codeNone, psp_BaseOffset = LogEndOffset p, psp_LogAppendTime = e_now e div 1000000\<rparr>,
       if acks = -1 then Some (LogEndOffset ?q) else None)"
    using l r p b2(1) sz rs(1) broker_invD(1) [OF inv]
    by (auto simp: produce_partition_def Let_def decode_set_encs [OF rs(2)] append_records_def ap codeNone_def LogEndOffset_def)
  moreover have "LogEndOffset ?q = LogEndOffset p + int (length rs)"
    using HighestOffset_append [OF lg(1) l1(2,3,4)] by (simp add: LogEndOffset_def)
  ultimately show ?thesis
    using t l1 by (intro exI [of _ "after_append e b2 topic part ?p"] exI [of _ ?q] exI [of _ t])
      (simp add: LogEndOffset_def HighWatermark_def LogStartOffset_def same_log_def)
qed

section \<open>On the wire\<close>

definition one_produce :: "int \<Rightarrow> int \<Rightarrow> string \<Rightarrow> int \<Rightarrow> bytes \<Rightarrow> ProduceRequest" where
  "one_produce acks timeout topic part bs =
     \<lparr>pr_Acks = acks, pr_TimeoutMs = timeout,
      pr_Topics = [\<lparr>prt_Name = topic, prt_Partitions = [\<lparr>prp_PartitionID = part, prp_RecordSet = bs\<rparr>]\<rparr>]\<rparr>"

definition one_fetch :: "int \<Rightarrow> string \<Rightarrow> int \<Rightarrow> int \<Rightarrow> int \<Rightarrow> FetchRequest" where
  "one_fetch maxWait topic part offset maxBytes =
     \<lparr>fr_MaxWaitMs = maxWait, fr_MinBytes = 1, fr_MaxBytes = maxBytes,
      fr_Topics = [\<lparr>frt_Name = topic,
        frt_Partitions = [\<lparr>frp_PartitionID = part, frp_FetchOffset = offset, frp_MaxBytes = maxBytes\<rparr>]\<rparr>]\<rparr>"

lemma decodes_whole: "decodes w m x \<Longrightarrow> w = Inr bs \<Longrightarrow> m bs = Inr (x, [])"
  by (metis append_Nil2 decodes_def sum.inject(2))

lemma decodes_out: "decodes w m x \<Longrightarrow> \<exists>out. w = Inr out \<and> m out = Inr (x, [])"
  using decodes_whole by (auto simp: decodes_def)

lemma acked_alone:
  assumes "b_isr b (topic, part) = Some t" and "t_highWatermark t = leo" and "psp_PartitionID r = part"
  shows "acked (waitForAcksAll slow e b) topic (r, if acks = -1 then Some leo else None) = r"
  using assms by (simp add: acked_def waitForAcksAll_def getOrCreateISRTracker_def)

lemma produce_wire:
  assumes inv: "broker_inv cfg n b" and p: "get_partition b topic part = Some p" and e: "e_ckpt e = None" and al: "alone b topic part"
    and name: "validateTopicName (e_cwd e) (dataDir b) topic = None" and ty: "in_s 32 part" "in_s 16 acks" "in_s 32 tmo" "in_s 64 (e_now e)"
    and ack: "acks = -1 \<longrightarrow> minInsyncReplicas b \<le> 1"
    and sz: "lc_MaxMessageBytes (cfg_Log cfg) \<le> 0 \<or> int (length (encs rs)) \<le> lc_MaxMessageBytes (cfg_Log cfg)"
      "int (length (encs rs)) \<le> MaxBytesLength"
    and rs: "rs \<noteq> []" "\<forall>r \<in> set rs. wf_record r" and room: "n + int (length rs) < 2 ^ 63"
    and wire: "ProduceRequest_Encode (one_produce acks tmo topic part (encs rs)) = Inr body"
    and run: "Dispatch coded (broker_mux slow others ch e) \<lparr>rf_Size = sz0, rf_ApiKey = apiKeyProduce, rf_ApiVersion = 1,
      rf_CorrelationID = corr, rf_ClientID = client, rf_Payload = body\<rparr> b = (b', resp)"
  shows "sf_ErrorCode resp = 0 \<and> sf_CorrelationID resp = corr \<and>
      ProduceResponse_Decode (sf_Payload resp) = Inr (\<lparr>ps_Topics = [\<lparr>pst_Name = topic, pst_Partitions =
        [\<lparr>psp_PartitionID = part, psp_ErrorCode = codeNone, psp_BaseOffset = LogEndOffset p, psp_LogAppendTime = e_now e div 1000000\<rparr>]\<rparr>]\<rparr>, [])"
    and "\<exists>p'. get_partition b' topic part = Some p' \<and> log_inv (pt_log p') \<and> LogStartOffset p' = LogStartOffset p \<and>
      log_recs (pt_log p') = log_recs (pt_log p) @ number_from (LogEndOffset p) rs \<and>
      LogEndOffset p' = LogEndOffset p + int (length rs) \<and> HighWatermark p' = LogEndOffset p'"
    and "ProduceResponse_Encode \<lparr>ps_Topics = [\<lparr>pst_Name = topic, pst_Partitions =
        [\<lparr>psp_PartitionID = part, psp_ErrorCode = codeNone, psp_BaseOffset = LogEndOffset p, psp_LogAppendTime = e_now e div 1000000\<rparr>]\<rparr>]\<rparr> = Inr (sf_Payload resp)"
proof -
  let ?r = "\<lparr>psp_PartitionID = part, psp_ErrorCode = codeNone, psp_BaseOffset = LogEndOffset p, psp_LogAppendTime = e_now e div 1000000\<rparr>"
  obtain b1 p' t where b1: "produce_partition e acks topic None b \<lparr>prp_PartitionID = part, prp_RecordSet = encs rs\<rparr> =
      (b1, ?r, if acks = -1 then Some (LogEndOffset p') else None)"
    and p': "get_partition b1 topic part = Some p'" "log_inv (pt_log p')" "LogStartOffset p' = LogStartOffset p"
      "log_recs (pt_log p') = log_recs (pt_log p) @ number_from (LogEndOffset p) rs"
      "LogEndOffset p' = LogEndOffset p + int (length rs)" "HighWatermark p' = LogEndOffset p'"
    and t: "b_isr b1 (topic, part) = Some t" "t_highWatermark t = LogEndOffset p'"
    using produce_alone [OF inv p e al ack sz(1) rs room] by blast
  let ?resp = "\<lparr>ps_Topics = [\<lparr>pst_Name = topic, pst_Partitions = [?r]\<rparr>]\<rparr>"
  have len: "int (length topic) \<le> MaxInt16" using name by (simp add: validateTopicName_iff maxTopicNameLen_def MaxInt16_def)
  have "wf_ProduceRequest (one_produce acks tmo topic part (encs rs))"
    using ty sz(2) len by (simp add: one_produce_def wf_ProduceRequest_def wf_ProduceRequestTopic_def wf_ProduceRequestPartition_def)
  then have dec: "ProduceRequest_Decode body = Inr (one_produce acks tmo topic part (encs rs), [])"
    using decodes_whole [OF decodes_ProduceRequest wire] by simp
  have "getOrCreateTopic e b topic 0 = (b, None)"
    using name p by (auto simp: getOrCreateTopic_def get_partition_def split: option.splits)
  then have pr: "produce slow e (one_produce acks tmo topic part (encs rs)) b = (b1, ?resp)"
    using b1 acked_alone [OF t, of ?r slow e acks] by (simp add: produce_def one_produce_def produce_topic_def)
  have "part_ok n p" using broker_invD(6) [OF inv p] by (simp add: slot_ok_def)
  then have "in_s 64 (LogEndOffset p)" using LogEndOffset_nonneg [of n p] room by (simp add: part_ok_def in_s_def)
  moreover have "in_s 64 (e_now e div 1000000)" using ty(4) by (auto simp: in_s_def)
  ultimately have "wf_ProduceResponse ?resp"
    using ty(1) len by (simp add: wf_ProduceResponse_def wf_ProduceResponseTopic_def wf_ProduceResponsePartition_def codeNone_def in_s_def MaxInt32_def)
  then obtain out where out: "ProduceResponse_Encode ?resp = Inr out" "ProduceResponse_Decode out = Inr (?resp, [])"
    using decodes_out [OF decodes_ProduceResponse] by blast
  have b': "b' = b1" "sf_ErrorCode resp = 0" "sf_CorrelationID resp = corr" "sf_Payload resp = out"
    using run by (auto simp: Dispatch_def broker_handlers handleProduce_def dec pr frame_body_def out(1))
  show "sf_ErrorCode resp = 0 \<and> sf_CorrelationID resp = corr \<and> ProduceResponse_Decode (sf_Payload resp) = Inr (?resp, [])"
    using b' out(2) by simp
  show "\<exists>p'. get_partition b' topic part = Some p' \<and> log_inv (pt_log p') \<and> LogStartOffset p' = LogStartOffset p \<and>
      log_recs (pt_log p') = log_recs (pt_log p) @ number_from (LogEndOffset p) rs \<and>
      LogEndOffset p' = LogEndOffset p + int (length rs) \<and> HighWatermark p' = LogEndOffset p'"
    using b'(1) p' by blast
  show "ProduceResponse_Encode ?resp = Inr (sf_Payload resp)" using b'(4) out(1) by simp
qed

lemma length_encs_number_from [simp]: "length (encs (number_from k rs)) = length (encs rs)"
  by (induction rs arbitrary: k) simp_all

text \<open>What the log gives from the end it had before the append.\<close>

lemma gather_new:
  assumes inv: "log_inv l" and recs: "log_recs l = old @ new" and off: "off = LowestOffset l + int (length old)"
    and new: "new \<noteq> []" and mx: "int (length (encs new)) \<le> mx"
  shows "\<exists>k. gather off mx 0 (l_segments l) = take k new \<and> 0 < k \<and> k \<le> length new \<and>
    (BaseOffset (active l) \<le> off \<longrightarrow> k = length new)"
proof -
  have ok: "segments_ok (l_segments l)" and ne: "l_segments l \<noteq> []" using inv log_nonempty by (auto simp: log_inv_def)
  have base: "BaseOffset (hd (l_segments l)) = LowestOffset l" using ne by (simp add: LowestOffset_def)
  have rl: "recs_of (l_segments l) = old @ new" using recs by (simp add: log_recs_def)
  have n: "nat (off - BaseOffset (hd (l_segments l))) = length old" using base off by simp
  have low: "BaseOffset (hd (l_segments l)) \<le> off" using base off by simp
  obtain k where k: "gather off mx 0 (l_segments l) = take k new"
    using gather_contiguous [OF ok low, of 0 mx] mx unfolding n rl by auto
  have "off < HighestOffset l" using HighestOffset_eq [OF inv] recs off new by simp
  then have "off < seg_end (active l)" using seg_inv_end [OF active_inv [OF inv]] ne by (simp add: HighestOffset_def)
  moreover have "0 < mx" using mx new length_encs_ge [of new] by (cases new) auto
  ultimately have "gather off mx 0 (l_segments l) \<noteq> []" using gather_progress [OF ok low] by simp
  then have pos: "0 < min k (length new)" using k new by auto
  have full: "gather off mx 0 (l_segments l) = new" if act: "BaseOffset (active l) \<le> off"
  proof -
    let ?j = "nat (off - BaseOffset (active l))"
    have split: "old @ new = recs_of (butlast (l_segments l)) @ seg_recs (active l)" using log_recs_active [OF inv] recs by simp
    have "BaseOffset (active l) = LowestOffset l + int (length (recs_of (butlast (l_segments l))))"
      using ok base by (simp add: segments_ok_def)
    then have "?j = length old - length (recs_of (butlast (l_segments l)))" "length (recs_of (butlast (l_segments l))) \<le> length old"
      using act off by auto
    then have "drop ?j (seg_recs (active l)) = drop (length old) (recs_of (butlast (l_segments l)) @ seg_recs (active l))" by simp
    then have "drop ?j (seg_recs (active l)) = new" unfolding split [symmetric] by simp
    then show ?thesis using gather_active [OF ok act, of mx 0] budget_all [of 0 new mx] mx by simp
  qed
  show ?thesis
    by (rule exI [of _ "if BaseOffset (active l) \<le> off then length new else min k (length new)"]) (use k pos full new in \<open>auto simp: min_def\<close>)
qed

lemma long_poll_ready:
  assumes "get_partition b topic part = Some p" and "off < LogEndOffset p"
  shows "get_partition (long_poll others ch (one_fetch w topic part off mx) b) = get_partition b"
  using assms
  by (simp add: long_poll_def fetch_targets_def one_fetch_def registerListenerOn_def unregisterListener_def fetchTargetHasNewData_def Let_def)

lemma fetch_wire:
  assumes p: "get_partition b topic part = Some p" and inv: "log_inv (pt_log p)"
    and off: "LowestOffset (pt_log p) \<le> off" "off < HighWatermark p" "HighWatermark p = LogEndOffset p" "LogEndOffset p < 2 ^ 63"
    and mx: "0 < mx" "mx + int MaxRecordSize < 2 ^ 31" and ty: "in_s 32 part" "in_s 32 w" "int (length topic) \<le> MaxInt16"
    and size: "int (length (encs (gather off mx 0 (l_segments (pt_log p))))) \<le> MaxBytesLength"
    and wire: "FetchRequest_Encode (one_fetch w topic part off mx) = Inr body"
    and run: "Dispatch coded (broker_mux slow others ch e) \<lparr>rf_Size = sz0, rf_ApiKey = apiKeyFetch, rf_ApiVersion = 1,
      rf_CorrelationID = corr, rf_ClientID = client, rf_Payload = body\<rparr> b = (b', resp)"
  shows "sf_ErrorCode resp = 0 \<and> FetchResponse_Decode (sf_Payload resp) = Inr (\<lparr>fs_Topics = [\<lparr>fst_Name = topic, fst_Partitions =
      [\<lparr>fsp_PartitionID = part, fsp_ErrorCode = codeNone, fsp_HighWatermark = LogEndOffset p, fsp_LogStartOffset = LogStartOffset p,
        fsp_RecordSet = encs (gather off mx 0 (l_segments (pt_log p)))\<rparr>]\<rparr>]\<rparr>, [])"
    and "FetchResponse_Encode \<lparr>fs_Topics = [\<lparr>fst_Name = topic, fst_Partitions =
      [\<lparr>fsp_PartitionID = part, fsp_ErrorCode = codeNone, fsp_HighWatermark = LogEndOffset p, fsp_LogStartOffset = LogStartOffset p,
        fsp_RecordSet = encs (gather off mx 0 (l_segments (pt_log p)))\<rparr>]\<rparr>]\<rparr> = Inr (sf_Payload resp)"
proof -
  let ?q = "\<lparr>frp_PartitionID = part, frp_FetchOffset = off, frp_MaxBytes = mx\<rparr>" and ?g = "gather off mx 0 (l_segments (pt_log p))"
  let ?b = "long_poll others ch (one_fetch w topic part off mx) b"
  have low: "0 \<le> LowestOffset (pt_log p)"
    using inv base_nonneg [of "l_segments (pt_log p)" 0] log_nonempty [OF inv] by (simp add: LowestOffset_def log_inv_def hd_conv_nth)
  have num: "in_s 64 off" "in_s 32 mx" "in_s 64 (LogEndOffset p)" "in_s 64 (LogStartOffset p)"
    using off low mx by (auto simp: in_s_def LogStartOffset_def MaxRecordSize_def)
  obtain l' where l': "Log_ReadFrom (pt_log p) off mx = (l', ?g, None)" using Log_ReadFrom_gather [OF inv off(1) mx] by blast
  have "\<forall>r \<in> set ?g. Offset r < HighWatermark p" using read_part(4) [OF inv mx l'] off(3) by (simp add: LogEndOffset_def)
  then have tw: "takeWhile (\<lambda>r. Offset r < HighWatermark p) ?g = ?g" by (simp add: takeWhile_eq_all_conv)
  have "get_partition ?b topic (frp_PartitionID ?q) = Some p" using long_poll_ready [OF p] off p by simp
  from fetch_partition_eq [OF this inv, simplified, OF off(1,2) mx(1) mx(2) [simplified]] obtain p' where
    "fetch_partition topic ?b ?q = (put_partition ?b topic part p',
      \<lparr>fsp_PartitionID = part, fsp_ErrorCode = codeNone, fsp_HighWatermark = HighWatermark p, fsp_LogStartOffset = LogStartOffset p,
       fsp_RecordSet = encs ?g\<rparr>)"
    unfolding tw by blast
  note fp = this [unfolded off(3)]
  let ?resp = "\<lparr>fs_Topics = [\<lparr>fst_Name = topic, fst_Partitions =
      [\<lparr>fsp_PartitionID = part, fsp_ErrorCode = codeNone, fsp_HighWatermark = LogEndOffset p, fsp_LogStartOffset = LogStartOffset p,
        fsp_RecordSet = encs ?g\<rparr>]\<rparr>]\<rparr>"
  have "wf_FetchRequest (one_fetch w topic part off mx)"
    using num ty by (simp add: one_fetch_def wf_FetchRequest_def wf_FetchRequestTopic_def wf_FetchRequestPartition_def in_s_def)
  then have dec: "FetchRequest_Decode body = Inr (one_fetch w topic part off mx, [])"
    using decodes_whole [OF decodes_FetchRequest wire] by simp
  have "wf_FetchResponse ?resp"
    using num ty size by (simp add: wf_FetchResponse_def wf_FetchResponseTopic_def wf_FetchResponsePartition_def codeNone_def in_s_def MaxInt32_def)
  then obtain out where out: "FetchResponse_Encode ?resp = Inr out" "FetchResponse_Decode out = Inr (?resp, [])"
    using decodes_out [OF decodes_FetchResponse] by blast
  have "thread fetch_topic ?b (fr_Topics (one_fetch w topic part off mx)) = (put_partition ?b topic part p', fs_Topics ?resp)"
    using fp by (simp add: one_fetch_def fetch_topic_def)
  then have "sf_ErrorCode resp = 0" "sf_Payload resp = out"
    using run out(1) by (auto simp: Dispatch_def broker_handlers api_keys handleFetch_def dec frame_body_def)
  then show "sf_ErrorCode resp = 0 \<and> FetchResponse_Decode (sf_Payload resp) = Inr (?resp, [])"
    "FetchResponse_Encode ?resp = Inr (sf_Payload resp)"
    using out by simp_all
qed

section \<open>Property\<close>



end
