(* ===== verification/Follower.thy ===== *)
theory Follower
  imports BrokerE2E
begin

text \<open>
  The follower side of replication in \<^verbatim>\<open>internal/broker/broker_replication.go\<close>: one round of fetches from a leader, and
  what a round does to the log of a follower when the leader is the broker of \<open>BrokerHandlers\<close>.

  \<open>exchange\<close> is the network: what comes back for a request frame sent to an address. The cancellation of
  a round is not modelled.
\<close>

section \<open>One round of fetches\<close>

definition sendReplicaFetch ::
    "(string \<Rightarrow> RequestFrame \<Rightarrow> ResponseFrame result) \<Rightarrow> Broker \<Rightarrow> string \<Rightarrow> string \<Rightarrow> int \<Rightarrow> int \<Rightarrow> int \<Rightarrow> (Record list \<times> int) result" where
  "sendReplicaFetch exchange b addr topic part fetchOffset maxWaitMs =
     (case EncodeReplicaFetchRequest \<lparr>rfq_ReplicaID = b_localID b, rfq_MaxWaitMs = maxWaitMs, rfq_Topic = topic,
             rfq_Partition = part, rfq_FetchOffset = fetchOffset\<rparr> of
        Inl err \<Rightarrow> Inl err
      | Inr body \<Rightarrow>
          (case exchange addr \<lparr>rf_Size = 0, rf_ApiKey = apiKeyReplicaFetch, rf_ApiVersion = 1, rf_CorrelationID = 1,
                  rf_ClientID = ''replica-'' @ itoa (b_localID b), rf_Payload = body\<rparr> of
             Inl err \<Rightarrow> Inl err
           | Inr resp \<Rightarrow>
               if sf_ErrorCode resp \<noteq> 0 then Inl (ErrorNew (''replica fetch error code '' @ itoa (sf_ErrorCode resp)))
               else
                 (case DecodeReplicaFetchResponse (sf_Payload resp) of
                    Inl err \<Rightarrow> Inl err
                  | Inr (errCode, hw, records) \<Rightarrow>
                      if errCode \<noteq> 0 then Inl (ErrorNew (''replica fetch body error code '' @ itoa errCode))
                      else Inr (records, hw))))"

text \<open>The follower adopts the high watermark of the leader, capped at the end of its own log.\<close>

definition adopt_hw :: "Broker \<Rightarrow> string \<Rightarrow> int \<Rightarrow> int \<Rightarrow> Broker" where
  "adopt_hw b topic part hw =
     (case get_partition b topic part of
        None \<Rightarrow> b
      | Some p \<Rightarrow> put_partition b topic part (SetHighWatermark p (if LogEndOffset p < hw then LogEndOffset p else hw)))"

definition fetch_target ::
    "(string \<Rightarrow> RequestFrame \<Rightarrow> ResponseFrame result) \<Rightarrow> broker_env \<Rightarrow> string \<Rightarrow> int \<Rightarrow>
     Broker \<times> (string \<times> int \<Rightarrow> int) \<Rightarrow> string \<times> int \<Rightarrow> Broker \<times> (string \<times> int \<Rightarrow> int)" where
  "fetch_target exchange e addr maxWait = (\<lambda>(b, offsets) (topic, part).
     let fetchOff = offsets (topic, part);
         fetchOff = (case get_partition b topic part of
                       None \<Rightarrow> fetchOff
                     | Some p \<Rightarrow> if fetchOff < LogEndOffset p then LogEndOffset p else fetchOff)
     in case sendReplicaFetch exchange b addr topic part fetchOff maxWait of
          Inl _ \<Rightarrow> (b, offsets)
        | Inr (records, hw) \<Rightarrow>
            if records = [] then (adopt_hw b topic part hw, offsets((topic, part) := fetchOff))
            else
              (case get_partition b topic part of
                 None \<Rightarrow> (b, offsets)
               | Some p \<Rightarrow>
                   (case Partition_AppendBatch p records (e_now e) of
                      (p, _, Some _) \<Rightarrow> (put_partition b topic part p, offsets)
                    | (p, _, None) \<Rightarrow>
                        (adopt_hw (put_partition b topic part p) topic part hw, offsets((topic, part) := LogEndOffset p)))))"

definition follower_targets :: "Broker \<Rightarrow> int \<Rightarrow> (string \<times> int) list" where
  "follower_targets b leader =
     concat (map (\<lambda>(name, t). map (\<lambda>(pID, _). (name, pID))
       (filter (\<lambda>(pID, _). partitionLeader b name pID = leader) (tp_Partitions t))) (b_topics b))"

definition followerFetchOnce ::
    "(string \<Rightarrow> RequestFrame \<Rightarrow> ResponseFrame result) \<Rightarrow> broker_env \<Rightarrow> int \<Rightarrow>
     Broker \<times> (string \<times> int \<Rightarrow> int) \<Rightarrow> Broker \<times> (string \<times> int \<Rightarrow> int)" where
  "followerFetchOnce exchange e leader = (\<lambda>(b, offsets).
     case brokerAddr b leader of
       None \<Rightarrow> (b, offsets)
     | Some addr \<Rightarrow>
         (let maxWait = int32 (rc_ReplicaFetchWaitMaxMs (cfg_Replication (b_config b)));
              maxWait = (if maxWait \<le> 0 then 500 else maxWait)
          in foldl (fetch_target exchange e addr maxWait) (b, offsets) (follower_targets b leader)))"

text \<open>The loop of a fetcher: a round at every tick until it is cancelled.\<close>

primrec followerFetchLoop ::
    "(nat \<Rightarrow> string \<Rightarrow> RequestFrame \<Rightarrow> ResponseFrame result) \<Rightarrow> (nat \<Rightarrow> broker_env) \<Rightarrow> int \<Rightarrow> nat \<Rightarrow>
     Broker \<times> (string \<times> int \<Rightarrow> int) \<Rightarrow> Broker \<times> (string \<times> int \<Rightarrow> int)" where
  "followerFetchLoop exchange e leader 0 st = st"
| "followerFetchLoop exchange e leader (Suc k) st =
     followerFetchOnce (exchange k) (e k) leader (followerFetchLoop exchange e leader k st)"

section \<open>What the leader answers\<close>

lemma handleReplicaFetch_answer:
  assumes inv: "broker_inv cfg n b" and e: "env_ok cfg n e" and room: "n < 2 ^ 63"
    and req: "DecodeReplicaFetchRequest (rf_Payload req) = Inr rreq" and other: "rfq_ReplicaID rreq \<noteq> b_localID b"
    and p: "get_partition b (rfq_Topic rreq) (rfq_Partition rreq) = Some p"
    and leader: "partitionLeader b (rfq_Topic rreq) (rfq_Partition rreq) = b_localID b"
    and off: "LowestOffset (pt_log p) \<le> rfq_FetchOffset rreq"
  shows "\<exists>b' hw. handleReplicaFetch e req b =
      (b', frame_body (EncodeReplicaFetchResponse 0 hw (gather (rfq_FetchOffset rreq) (replica_fetch_max b) 0 (l_segments (pt_log p))))) \<and>
    0 \<le> hw \<and> hw \<le> LogEndOffset p"
proof -
  let ?topic = "rfq_Topic rreq" and ?part = "rfq_Partition rreq" and ?off = "rfq_FetchOffset rreq"
  obtain b1 r where l: "isLeader b ?topic ?part = (b1, r)" by fastforce
  note l' = isLeader_ok [OF inv l]
  have r: r using l'(4,6,7) leader by simp
  have p1: "get_partition b1 ?topic ?part = Some p" using p get_partition_cong [OF l'(2)] by simp
  have ok: "part_ok n p" using broker_invD(6) [OF inv p] by (simp add: slot_ok_def)
  then have lg: "log_inv (pt_log p)" by (simp add: part_ok_def)
  have mxe: "replica_fetch_max b1 = replica_fetch_max b" using l'(5) by (simp add: replica_fetch_max_def)
  have mx: "0 < replica_fetch_max b" "replica_fetch_max b + int MaxRecordSize < 2 ^ 31"
    using e broker_invD(1) [OF inv] by (auto simp: replica_fetch_max_def env_ok_def Let_def MaxRecordSize_def)
  let ?g = "gather ?off (replica_fetch_max b) 0 (l_segments (pt_log p))"
  obtain l2 where l2: "Log_ReadFrom (pt_log p) ?off (replica_fetch_max b) = (l2, ?g, None)"
    using Log_ReadFrom_gather [OF lg off mx] by blast
  let ?p = "p\<lparr>pt_log := l2\<rparr>"
  have rd: "Partition_ReadFrom p ?off (replica_fetch_max b) = (?p, ?g, None)" by (simp add: Partition_ReadFrom_def l2)
  note k = Partition_ReadFrom_keeps [OF ok rd]
  have "0 \<le> LowestOffset (pt_log p)"
    using lg base_nonneg [of "l_segments (pt_log p)" 0] log_nonempty [OF lg] by (simp add: LowestOffset_def log_inv_def hd_conv_nth)
  then have bounds: "0 \<le> ?off" "\<forall>r \<in> set ?g. 0 \<le> Offset r \<and> Offset r < LogEndOffset ?p"
    using read_part(4) [OF lg mx l2] off k(2) by (auto simp: LogEndOffset_def)
  have ck: "e_ckpt e = None" using e by (simp add: env_ok_def)
  have ld: "partitionLeader b1 ?topic ?part = b_localID b1" "rfq_ReplicaID rreq \<noteq> b_localID b1" using l'(4,7) leader other by simp_all
  obtain b2 hw where pr: "replica_progress e b1 rreq ?p ?g = (b2, hw)" by fastforce
  have "0 \<le> hw" "hw \<le> LogEndOffset p"
    using replica_progress_ok(2,3) [OF l'(1) p1 ck ld(1) k(1,2) bounds room ld(2)] pr by simp_all
  moreover have "handleReplicaFetch e req b = (b2, frame_body (EncodeReplicaFetchResponse 0 hw ?g))"
    using req p l r rd pr mxe by (simp add: handleReplicaFetch_def)
  ultimately show ?thesis by blast
qed

section \<open>A leader and a follower\<close>

text \<open>What a follower at \<open>off\<close> receives from the leader \<open>b\<close> over a network that delivers.\<close>

lemma sendReplicaFetch_answer:
  assumes inv: "broker_inv cfg n b" and e: "env_ok cfg n e" and room: "n < 2 ^ 63" and p: "get_partition b topic part = Some p"
    and leader: "partitionLeader b topic part = b_localID b" and other: "b_localID f \<noteq> b_localID b"
    and off: "LowestOffset (pt_log p) \<le> off" "off < 2 ^ 63"
    and ty: "in_s 32 (b_localID f)" "in_s 32 wait" "in_s 32 part" "int (length topic) \<le> MaxInt16"
    and net: "\<And>req. exchange addr req = Inr (snd (Dispatch coded (broker_mux slow others ch e) req b))"
  shows "\<exists>hw. sendReplicaFetch exchange f addr topic part off wait =
      Inr (gather off (replica_fetch_max b) 0 (l_segments (pt_log p)), hw) \<and> 0 \<le> hw \<and> hw \<le> LogEndOffset p"
proof -
  let ?q = "\<lparr>rfq_ReplicaID = b_localID f, rfq_MaxWaitMs = wait, rfq_Topic = topic, rfq_Partition = part, rfq_FetchOffset = off\<rparr>"
  let ?g = "gather off (replica_fetch_max b) 0 (l_segments (pt_log p))"
  have lg: "log_inv (pt_log p)" "LogEndOffset p \<le> n" using broker_invD(6) [OF inv p] by (auto simp: slot_ok_def part_ok_def)
  have "0 \<le> LowestOffset (pt_log p)"
    using lg(1) base_nonneg [of "l_segments (pt_log p)" 0] log_nonempty [OF lg(1)] by (simp add: LowestOffset_def log_inv_def hd_conv_nth)
  then have "wf_ReplicaFetchRequest ?q" using ty off by (simp add: wf_ReplicaFetchRequest_def in_s_def)
  then obtain body where body: "EncodeReplicaFetchRequest ?q = Inr body" "replica_fetch_fields body = Inr (?q, [])"
    using decodes_out [OF decodes_replica_fetch] by blast
  define fr where "fr = \<lparr>rf_Size = 0, rf_ApiKey = apiKeyReplicaFetch, rf_ApiVersion = 1, rf_CorrelationID = 1,
      rf_ClientID = ''replica-'' @ itoa (b_localID f), rf_Payload = body\<rparr>"
  have "DecodeReplicaFetchRequest (rf_Payload fr) = Inr ?q" using body(2) by (simp add: DecodeReplicaFetchRequest_def fr_def)
  then obtain b' hw where h: "handleReplicaFetch e fr b = (b', frame_body (EncodeReplicaFetchResponse 0 hw ?g))" "0 \<le> hw" "hw \<le> LogEndOffset p"
    using handleReplicaFetch_answer [OF inv e room, of fr ?q p] other p leader off(1) by auto
  have mx: "0 < replica_fetch_max b" "replica_fetch_max b + int MaxRecordSize < 2 ^ 31"
    using e broker_invD(1) [OF inv] by (auto simp: replica_fetch_max_def env_ok_def Let_def MaxRecordSize_def)
  obtain l2 where l2: "Log_ReadFrom (pt_log p) off (replica_fetch_max b) = (l2, ?g, None)"
    using Log_ReadFrom_gather [OF lg(1) off(1) mx] by blast
  have "\<forall>r \<in> set ?g. wf_record r" using read_part(3) [OF lg(1) mx l2] log_wf [OF lg(1)] by auto
  then obtain out where out: "EncodeReplicaFetchResponse 0 hw ?g = Inr out" "DecodeReplicaFetchResponse out = Inr (0, hw, ?g)"
    using ReplicaFetchResponse_roundtrip [of 0 hw ?g] h(2,3) lg(2) room by (auto simp: in_s_def)
  have "handlers (broker_mux slow others ch e) (rf_ApiKey fr) = Some (handleReplicaFetch e)"
    by (simp add: broker_handlers api_keys fr_def)
  then have "sf_ErrorCode (snd (Dispatch coded (broker_mux slow others ch e) fr b)) = 0"
      "sf_Payload (snd (Dispatch coded (broker_mux slow others ch e) fr b)) = out"
    by (simp_all add: Dispatch_def h(1) frame_body_def out(1))
  then show ?thesis
    unfolding sendReplicaFetch_def body(1) sum.case fr_def [symmetric] net using out(2) h(2,3) by simp
qed

text \<open>
  The leader sends what follows the records of the follower when it reads from its active segment or when all of
  it fits into one answer.
\<close>

definition no_gap :: "Log \<Rightarrow> nat \<Rightarrow> int \<Rightarrow> bool" where
  "no_gap l k mx \<longleftrightarrow> BaseOffset (active l) \<le> LowestOffset l + int k \<or> int (length (encs (drop k (log_recs l)))) \<le> mx"

lemma gather_follows:
  assumes inv: "log_inv l" and k: "k \<le> length (log_recs l)" and mx: "0 < mx" and gap: "no_gap l k mx"
  shows "\<exists>j. gather (LowestOffset l + int k) mx 0 (l_segments l) = take j (drop k (log_recs l)) \<and>
    k + j \<le> length (log_recs l) \<and> (k < length (log_recs l) \<longrightarrow> 0 < j)"
proof -
  let ?off = "LowestOffset l + int k" and ?d = "drop k (log_recs l)"
  have ok: "segments_ok (l_segments l)" and ne: "l_segments l \<noteq> []" using inv log_nonempty by (auto simp: log_inv_def)
  have base: "BaseOffset (hd (l_segments l)) = LowestOffset l" using ne by (simp add: LowestOffset_def)
  then have low: "BaseOffset (hd (l_segments l)) \<le> ?off" by simp
  have "\<exists>j. gather ?off mx 0 (l_segments l) = take j ?d"
  proof (cases "BaseOffset (active l) \<le> ?off")
    case True
    let ?j = "nat (?off - BaseOffset (active l))"
    have "BaseOffset (active l) = LowestOffset l + int (length (recs_of (butlast (l_segments l))))"
      using ok base by (simp add: segments_ok_def)
    then have "?j = k - length (recs_of (butlast (l_segments l)))" "length (recs_of (butlast (l_segments l))) \<le> k" using True by auto
    then have "drop ?j (seg_recs (active l)) = ?d" unfolding log_recs_active [OF inv] by simp
    then show ?thesis using gather_active [OF ok True, of mx 0] budget_prefix [of mx 0 ?d] by auto
  next
    case False
    then have "int (length (encs ?d)) \<le> mx" using gap by (simp add: no_gap_def)
    then show ?thesis using gather_contiguous [OF ok low, of 0 mx] base by (simp add: log_recs_def)
  qed
  then obtain j where j: "gather ?off mx 0 (l_segments l) = take j ?d" by blast
  have "gather ?off mx 0 (l_segments l) \<noteq> []" if "k < length (log_recs l)"
  proof -
    have "?off < seg_end (active l)"
      using that HighestOffset_eq [OF inv] seg_inv_end [OF active_inv [OF inv]] ne by (simp add: HighestOffset_def)
    then show ?thesis using gather_progress [OF ok low] mx by simp
  qed
  then have "k < length (log_recs l) \<longrightarrow> 0 < min j (length ?d)" using j by (cases j) auto
  moreover have "take j ?d = take (min j (length ?d)) ?d" by (simp add: min_def)
  ultimately show ?thesis using j k by (intro exI [of _ "min j (length ?d)"]) auto
qed

lemma number_from_contiguous: "contiguous k rs \<Longrightarrow> number_from k rs = rs"
proof (induction rs arbitrary: k)
  case (Cons r rs)
  have "Offset r = k" "contiguous (k + 1) rs" using Cons.prems by (auto simp: contiguous_iff nth_Cons split: nat.splits)
  then show ?case using Cons.IH by (cases r) simp
qed simp

lemma contiguous_part: "contiguous b rs \<Longrightarrow> contiguous (b + int k) (take j (drop k rs))"
proof -
  assume c: "contiguous b rs"
  have "Offset (rs ! (k + i)) = b + int k + int i" if "i < length rs - k" for i
    using c that by (simp add: contiguous_iff)
  then have "contiguous (b + int k) (drop k rs)" unfolding contiguous_iff by (auto simp: nth_drop)
  then show ?thesis unfolding contiguous_iff by (metis length_take min_less_iff_conj nth_take)
qed

lemma adopt_hw_ok:
  assumes "get_partition b topic part = Some p" and "part_ok n p"
  shows "\<exists>p'. get_partition (adopt_hw b topic part hw) topic part = Some p' \<and> pt_log p' = pt_log p \<and> part_ok n p'"
  using assms SetHighWatermark_ok [OF assms(2), of "if LogEndOffset p < hw then LogEndOffset p else hw"]
  by (auto simp: adopt_hw_def get_partition_put [OF assms(1)] SetHighWatermark_def)

section \<open>Property\<close>


definition demo_follower :: Broker where
  "demo_follower = demo_broker\<lparr>b_localID := 2,
     b_topics := [(''t'', \<lparr>tp_Name = ''t'', tp_Partitions = [(0, demo_part\<lparr>pt_log := demo_log, pt_highWatermark := 0\<rparr>)],
       tp_roundRobinCounter = 0\<rparr>)]\<rparr>"


text \<open>
  A replica fetch that names the leader itself as the follower is believed: it moves the high watermark of a
  partition with one record to the requested offset.
\<close>

lemma self_fetch_passes_end:
  "snd (replica_progress demo_env demo_broker
     \<lparr>rfq_ReplicaID = b_localID demo_broker, rfq_MaxWaitMs = 0, rfq_Topic = ''t'', rfq_Partition = 0, rfq_FetchOffset = 7\<rparr> demo_part []) = 7"
  "LogEndOffset demo_part = 1"
proof -
  let ?t = "\<lambda>leo. \<lparr>replicas = [(0, \<lparr>rs_BrokerID = 0, rs_LogEndOffset = leo, rs_LastCaughtUpTime = 1, rs_InSync = True\<rparr>)],
      leaderID = 0, replicaLagTimeMaxMs = 30000, t_highWatermark = leo, t_dataDir = ''/data'', t_topic = ''t'', t_partition = 0\<rparr>"
  have leader: "partitionLeader demo_broker ''t'' 0 = 0"
    by (simp add: partitionLeader_def staticPartitionLeader_new demo_broker_def staticPartitionLeader_def)
  have one: "getOrCreateISRTracker demo_env demo_broker ''t'' 0 = (stored demo_broker ''t'' 0 (?t 0), ?t 0)"
  proof -
    have "b_isr demo_broker (''t'', 0) = None" "dataDir demo_broker = ''/data''" "b_replicaIDs demo_broker = [0]"
      "lagTimeMaxMs demo_broker = 30000" "e_ckpt demo_env = None" "e_now demo_env = 1"
      by (simp_all add: demo_broker_def demo_env_def demo_cfg_def dataDir_def lagTimeMaxMs_def)
    then show ?thesis by (simp add: getOrCreateISRTracker_def leader NewISRTracker_def loadCheckpoint_def stored_def Let_def)
  qed
  have step: "UpdateLEO (?t i) 0 j 1 1 = (?t j, j)" if "0 \<le> i" "i < j" for i j
    using that by (simp add: UpdateLEO_def advance_leo_def updateISRLocked_def calculateHWLocked_def min_leo_def Let_def)
  have ids: "b_localID demo_broker = 0" "e_now demo_env = 1" by (simp_all add: demo_broker_def demo_env_def)
  have l: "updateLeaderLEO demo_env demo_broker ''t'' 0 1 = (stored demo_broker ''t'' 0 (?t 1), 1)"
    by (simp add: updateLeaderLEO_def updateReplicaLEO_def one ids step) (simp add: stored_def)
  have "getOrCreateISRTracker demo_env (stored demo_broker ''t'' 0 (?t 1)) ''t'' 0 = (stored demo_broker ''t'' 0 (?t 1), ?t 1)"
    by (simp add: getOrCreateISRTracker_def)
  then have "updateReplicaLEO demo_env (stored demo_broker ''t'' 0 (?t 1)) ''t'' 0 0 7 1 = (stored demo_broker ''t'' 0 (?t 7), 7)"
    by (simp add: updateReplicaLEO_def ids step) (simp add: stored_def)
  then show "snd (replica_progress demo_env demo_broker
     \<lparr>rfq_ReplicaID = b_localID demo_broker, rfq_MaxWaitMs = 0, rfq_Topic = ''t'', rfq_Partition = 0, rfq_FetchOffset = 7\<rparr> demo_part []) = 7"
    by (simp add: replica_progress_def demo_part_ok(2) ids l Let_def split: prod.split)
qed (rule demo_part_ok(2))

end
