(* ===== verification/Link.thy ===== *)
theory Link
  imports Server
begin

text \<open>
  What the clients of \<^verbatim>\<open>pkg/client\<close> share: dialling the broker addresses and one request with its response
  over a connection, at the level of the bytes that are sent and received.

  The network is a parameter: \<open>n_dial\<close> says whether an address accepts a connection, and \<open>n_send\<close> what the bytes of a
  request do to the world behind the connection and which bytes come back. \<open>server_net\<close> is the network
  with the server of \<open>Server\<close> at every address; the locale \<open>rpc\<close> is what the clients rely on.
\<close>

section \<open>Connections\<close>

record 'w network =
  n_dial :: "'w \<Rightarrow> string \<Rightarrow> go_error option"
  n_send :: "'w \<Rightarrow> string \<Rightarrow> bytes \<Rightarrow> 'w \<times> bytes result"

text \<open>A connection with its buffered reader: the bytes that have arrived and are not read yet.\<close>

record conn =
  c_addr :: string
  c_in :: bytes

text \<open>The loop over the addresses in \<open>getConn\<close>: the first one that answers, or the last error.\<close>

fun dial_any :: "'w network \<Rightarrow> 'w \<Rightarrow> string list \<Rightarrow> go_error option \<Rightarrow> go_error option + conn" where
  "dial_any net w [] lastErr = Inl lastErr"
| "dial_any net w (addr # addrs) lastErr =
     (case n_dial net w addr of
        None \<Rightarrow> Inr \<lparr>c_addr = addr, c_in = []\<rparr>
      | Some e \<Rightarrow> dial_any net w addrs (Some e))"

text \<open>The error of a failed connect: \<open>%w\<close> of a nil error wraps nothing.\<close>

definition connect_failed :: "string \<Rightarrow> go_error option \<Rightarrow> go_error" where
  "connect_failed msg lastErr = (case lastErr of None \<Rightarrow> ErrorNew msg | Some e \<Rightarrow> Wrapped msg e)"

text \<open>
  One round trip on a connection: write and flush the frame, read one response and compare the
  correlation id. \<open>who\<close> is the prefix of the error messages.
\<close>

definition round_trip :: "'w network \<Rightarrow> string \<Rightarrow> 'w \<Rightarrow> conn \<Rightarrow> RequestFrame \<Rightarrow> 'w \<times> conn \<times> ResponseFrame result" where
  "round_trip net who w c frame =
     (case RequestFrame_Write frame of
        Inl e \<Rightarrow> (w, c, Inl (Wrapped (who @ '': write frame'') e))
      | Inr (_, bs) \<Rightarrow>
          (case n_send net w (c_addr c) bs of
             (w, Inl e) \<Rightarrow> (w, c, Inl (Wrapped (who @ '': flush frame'') e))
           | (w, Inr inp) \<Rightarrow>
               (case ReadResponseFrame (c_in c @ inp) of
                  Inl e \<Rightarrow> (w, c, Inl (Wrapped (who @ '': read response'') e))
                | Inr (respFrame, rest) \<Rightarrow>
                    (w, c\<lparr>c_in := rest\<rparr>,
                     if sf_CorrelationID respFrame \<noteq> rf_CorrelationID frame
                     then Inl (ErrorNew (who @ '': correlation id mismatch: got '' @ itoa (sf_CorrelationID respFrame) @
                                 '', want '' @ itoa (rf_CorrelationID frame)))
                     else Inr respFrame))))"

text \<open>A frame as \<open>Write\<close> sends it.\<close>

definition request :: "int \<Rightarrow> int \<Rightarrow> string \<Rightarrow> bytes \<Rightarrow> RequestFrame" where
  "request apiKey corrID clientID body =
     \<lparr>rf_Size = 0, rf_ApiKey = apiKey, rf_ApiVersion = 1, rf_CorrelationID = corrID, rf_ClientID = clientID, rf_Payload = body\<rparr>"

section \<open>What a client relies on\<close>

text \<open>The size that \<open>Write\<close> sets.\<close>

definition request_sized :: "RequestFrame \<Rightarrow> RequestFrame" where
  "request_sized f = f\<lparr>rf_Size := 14 + int (length (rf_ClientID f)) + int (length (rf_Payload f))\<rparr>"

lemma wire_request_sized: "wire (RequestFrame_Write (request_sized f)) = wire (RequestFrame_Write f)"
proof -
  have "request_body (request_sized f) = request_body f" by (simp add: request_body_def request_sized_def)
  then show ?thesis by (simp add: RequestFrame_Write_def wire_def request_sized_def Let_def split: sum.split)
qed

text \<open>
  A server at the other end: it accepts connections, and the bytes of a well-formed request are answered with
  the bytes of the response that the service \<open>step\<close> gives, under the correlation id of the request.
\<close>

locale rpc =
  fixes net :: "'w network" and step :: "RequestFrame \<Rightarrow> 'w \<Rightarrow> 'w \<times> ResponseFrame" and lim :: int
  assumes dial: "n_dial net w addr = None"
    and send: "wf_RequestFrame lim req \<Longrightarrow> wire (RequestFrame_Write req) = Inr bs \<Longrightarrow> step req w = (w', resp) \<Longrightarrow>
      wf_ResponseFrame (sized resp) \<Longrightarrow> wire (ResponseFrame_Write resp) = Inr out \<Longrightarrow> n_send net w addr bs = (w', Inr out)"
    and correlation: "step req w = (w', resp) \<Longrightarrow> sf_CorrelationID resp = rf_CorrelationID req"
begin

lemma dial_first: "dial_any net w (addr # addrs) e = Inr \<lparr>c_addr = addr, c_in = []\<rparr>"
  by (simp add: dial)

lemma round_trip_ok:
  assumes req: "wf_RequestFrame lim (request_sized req)" and st: "step (request_sized req) w = (w', resp)"
    and resp: "wf_ResponseFrame (sized resp)" and buf: "c_in c = []"
  shows "round_trip net who w c req = (w', c, Inr (sized resp))"
proof -
  obtain bs where bs: "wire (RequestFrame_Write (request_sized req)) = Inr bs"
    using request_frame.enc_total [OF req] by blast
  then obtain f where f: "RequestFrame_Write req = Inr (f, bs)"
    unfolding wire_request_sized by (auto simp: wire_def split: sum.split_asm)
  obtain out where out: "wire (ResponseFrame_Write (sized resp)) = Inr out"
    using response_frame.enc_total [OF resp] by blast
  have "n_send net w (c_addr c) bs = (w', Inr out)" using send [OF req bs st resp] out by (simp add: wire_sized)
  moreover have "ReadResponseFrame (out @ []) = Inr (sized resp, [])" using response_frame.dec_enc [OF resp out] .
  moreover have "sf_CorrelationID (sized resp) = rf_CorrelationID req"
    using correlation [OF st] by (simp add: sized_def request_sized_def)
  ultimately show ?thesis using f buf by (simp add: round_trip_def)
qed

end

section \<open>The server as a network\<close>

definition server_net :: "(go_error \<Rightarrow> int option) \<Rightarrow> 'st Mux \<Rightarrow> ServerConfig \<Rightarrow> 'st network" where
  "server_net coded m cfg =
     \<lparr>n_dial = (\<lambda>_ _. None),
      n_send = (\<lambda>st _ bs. case handleConn coded m cfg bs st of (st, out) \<Rightarrow> (st, Inr out))\<rparr>"

interpretation server: rpc "server_net coded m cfg" "Dispatch coded m" "request_limit cfg" for coded m cfg
proof unfold_locales
  fix req bs w w' resp out addr
  assume req: "wf_RequestFrame (request_limit cfg) req" and bs: "wire (RequestFrame_Write req) = Inr bs"
    and d: "Dispatch coded m req w = (w', resp)" and resp: "wf_ResponseFrame (sized resp)" and out: "wire (ResponseFrame_Write resp) = Inr out"
  have "\<exists>out'. serve coded m (request_limit cfg) bs w = (w', out') \<and>
      seqW (map (\<lambda>r. wire (ResponseFrame_Write r)) (map sized [resp])) = Inr out'"
    by (rule serve_pipeline [of "[req]"]) (use req bs d resp in simp_all)
  then show "n_send (server_net coded m cfg) w addr bs = (w', Inr out)"
    using out by (simp add: server_net_def handleConn_def wire_sized)
next
  fix req w w' resp
  assume "Dispatch coded m req w = (w', resp)"
  then show "sf_CorrelationID resp = rf_CorrelationID req" using Dispatch_correlation [of coded m req w] by simp
qed (simp add: server_net_def)

end
