(* ===== verification/Producer.thy ===== *)
theory Producer
  imports Link RecordFmt "HOL-Library.AList" "HOL-Library.Multiset"
begin

text \<open>
  The producer client, \<^verbatim>\<open>pkg/client/producer.go\<close>: the synchronous path (\<open>SendBatch\<close> and the round trip of
  \<open>produceRecords\<close>) and the batcher behind \<open>Send\<close> when \<open>LingerMs\<close> is positive.

  A context is given by its error at the time of the call. Concurrent callers of the batcher are the
  steps of \<open>batch_step\<close>: the sections under \<open>batch.mu\<close> and the round trips under \<open>reqMu\<close> are atomic. A
  channel of a waiting caller is a number; what the flusher put into it is in \<open>ps_answers\<close>. The statistics
  of the batch fill (floating point) are left out.
\<close>

section \<open>Configuration and state\<close>

record Message =
  ms_Key :: "bytes option"
  ms_Value :: "bytes option"
  ms_Offset :: int
  ms_Timestamp :: int

record ProducerConfig =
  pc_ClientID :: string
  pc_Acks :: int
  pc_TimeoutMs :: int
  pc_LingerMs :: int
  pc_BatchSize :: int

definition DefaultProducerConfig :: ProducerConfig where
  "DefaultProducerConfig =
     \<lparr>pc_ClientID = ''mini-kafka-producer'', pc_Acks = 1, pc_TimeoutMs = 30000, pc_LingerMs = 0, pc_BatchSize = 16384\<rparr>"

type_synonym topicPartition = "string \<times> int"

text \<open>\<open>pb_id\<close> is the identity of the batch, which the timer callback compares.\<close>

record pendingBatch =
  pb_id :: nat
  pb_records :: "Record list"
  pb_bytes :: int
  pb_waiters :: "nat list"
  pb_timer :: bool

record Producer =
  pd_addrs :: "string list"
  pd_config :: ProducerConfig
  pd_conn :: "conn option"
  pd_closed :: bool
  pd_finalized :: bool
  pd_nextID :: int
  pd_pending :: "(topicPartition \<times> pendingBatch) list"

definition NewProducer :: "string list \<Rightarrow> ProducerConfig \<Rightarrow> Producer result" where
  "NewProducer addrs cfg =
     (if addrs = [] then Inl (ErrorNew ''producer: at least one broker address required'')
      else
        (let cfg = (if pc_ClientID cfg = [] then cfg\<lparr>pc_ClientID := ''mini-kafka-producer''\<rparr> else cfg);
             cfg = (if pc_Acks cfg = 0 then cfg\<lparr>pc_Acks := 1\<rparr> else cfg);
             cfg = (if pc_TimeoutMs cfg \<le> 0 then cfg\<lparr>pc_TimeoutMs := 30000\<rparr> else cfg);
             cfg = (if pc_BatchSize cfg \<le> 0 then cfg\<lparr>pc_BatchSize := 16384\<rparr> else cfg)
         in Inr \<lparr>pd_addrs = addrs, pd_config = cfg, pd_conn = None, pd_closed = False, pd_finalized = False,
                 pd_nextID = 0, pd_pending = []\<rparr>))"

section \<open>The synchronous path\<close>

definition Producer_getConn :: "'w network \<Rightarrow> 'w \<Rightarrow> Producer \<Rightarrow> Producer \<times> conn result" where
  "Producer_getConn net w p =
     (case pd_conn p of
        Some c \<Rightarrow> (p, Inr c)
      | None \<Rightarrow>
          if pd_finalized p then (p, Inl (ErrorNew ''producer closed''))
          else
            (case dial_any net w (pd_addrs p) None of
               Inr c \<Rightarrow> (p\<lparr>pd_conn := Some c\<rparr>, Inr c)
             | Inl lastErr \<Rightarrow> (p, Inl (connect_failed ''producer connect failed'' lastErr))))"

definition Producer_closeConn :: "Producer \<Rightarrow> Producer" where
  "Producer_closeConn p = p\<lparr>pd_conn := None\<rparr>"

text \<open>The request of \<open>produceRecords\<close>: one topic with one partition.\<close>

definition produce_request :: "ProducerConfig \<Rightarrow> string \<Rightarrow> int \<Rightarrow> bytes \<Rightarrow> ProduceRequest" where
  "produce_request cfg topic part recordSet =
     \<lparr>pr_Acks = pc_Acks cfg, pr_TimeoutMs = pc_TimeoutMs cfg,
      pr_Topics = [\<lparr>prt_Name = topic, prt_Partitions = [\<lparr>prp_PartitionID = part, prp_RecordSet = recordSet\<rparr>]\<rparr>]\<rparr>"

text \<open>The offsets of \<open>n\<close> records from the response frame.\<close>

definition produce_offsets :: "nat \<Rightarrow> ResponseFrame \<Rightarrow> int list result" where
  "produce_offsets n respFrame =
     (if sf_ErrorCode respFrame \<noteq> 0
      then Inl (ErrorNew (''producer: broker returned error code '' @ itoa (sf_ErrorCode respFrame)))
      else
        (case ProduceResponse_Decode (sf_Payload respFrame) of
           Inl e \<Rightarrow> Inl (Wrapped ''producer: produce response decode'' e)
         | Inr (produceResp, _) \<Rightarrow>
             (case ps_Topics produceResp of
                [] \<Rightarrow> Inl (ErrorNew ''producer: malformed response from broker'')
              | t # _ \<Rightarrow>
                  (case pst_Partitions t of
                     [] \<Rightarrow> Inl (ErrorNew ''producer: malformed response from broker'')
                   | partResp # _ \<Rightarrow>
                       if psp_ErrorCode partResp \<noteq> 0
                       then Inl (ErrorNew (''producer: partition error code '' @ itoa (psp_ErrorCode partResp)))
                       else Inr (map (\<lambda>i. int64 (psp_BaseOffset partResp + int i)) [0..<n])))))"

definition produceRecords ::
    "'w network \<Rightarrow> 'w \<Rightarrow> Producer \<Rightarrow> string \<Rightarrow> int \<Rightarrow> Record list \<Rightarrow> 'w \<times> Producer \<times> int list result" where
  "produceRecords net w p topic part records =
     (if records = [] then (w, p, Inr [])
      else
        (case seqW (map Record_Encode records) of
           Inl e \<Rightarrow> (w, p, Inl (Wrapped ''producer: record encode'' e))
         | Inr recBuf \<Rightarrow>
             (case ProduceRequest_Encode (produce_request (pd_config p) topic part recBuf) of
                Inl e \<Rightarrow> (w, p, Inl (Wrapped ''producer: produce request encode'' e))
              | Inr body \<Rightarrow>
                  (let corrID = int32 (pd_nextID p + 1);
                       p = p\<lparr>pd_nextID := corrID\<rparr>
                   in case Producer_getConn net w p of
                        (p, Inl e) \<Rightarrow> (w, p, Inl e)
                      | (p, Inr c) \<Rightarrow>
                          (case round_trip net ''producer'' w c (request 0 corrID (pc_ClientID (pd_config p)) body) of
                             (w, _, Inl e) \<Rightarrow> (w, Producer_closeConn p, Inl e)
                           | (w, c, Inr respFrame) \<Rightarrow>
                               (w, p\<lparr>pd_conn := Some c\<rparr>, produce_offsets (length records) respFrame))))))"

text \<open>The record of a message; \<open>now\<close> is in milliseconds.\<close>

definition message_record :: "int \<Rightarrow> Message \<Rightarrow> Record" where
  "message_record now msg =
     \<lparr>Offset = 0, Timestamp = (if ms_Timestamp msg \<le> 0 then now else ms_Timestamp msg), Attributes = 0,
      Key = ms_Key msg, Value = ms_Value msg\<rparr>"

definition SendBatch ::
    "'w network \<Rightarrow> int \<Rightarrow> go_error option \<Rightarrow> 'w \<Rightarrow> Producer \<Rightarrow> string \<Rightarrow> int \<Rightarrow> Message list \<Rightarrow> 'w \<times> Producer \<times> int list result" where
  "SendBatch net now ctx w p topic part msgs =
     (if msgs = [] then (w, p, Inr [])
      else
        (case ctx of
           Some e \<Rightarrow> (w, p, Inl e)
         | None \<Rightarrow>
             if pd_closed p then (w, p, Inl (ErrorNew ''producer closed''))
             else produceRecords net w p topic part (map (message_record now) msgs)))"

text \<open>\<open>Send\<close> with \<open>LingerMs \<le> 0\<close>.\<close>

definition Send ::
    "'w network \<Rightarrow> int \<Rightarrow> go_error option \<Rightarrow> 'w \<Rightarrow> Producer \<Rightarrow> string \<Rightarrow> int \<Rightarrow> bytes option \<Rightarrow> bytes option \<Rightarrow> 'w \<times> Producer \<times> int result" where
  "Send net now ctx w p topic part key val =
     (case SendBatch net now ctx w p topic part [\<lparr>ms_Key = key, ms_Value = val, ms_Offset = 0, ms_Timestamp = 0\<rparr>] of
        (w, p, Inl e) \<Rightarrow> (w, p, Inl e)
      | (w, p, Inr []) \<Rightarrow> (w, p, Inl (ErrorNew ''producer: empty offset response''))
      | (w, p, Inr (offset # _)) \<Rightarrow> (w, p, Inr offset))"

section \<open>A round trip with a server\<close>

text \<open>A producer that can send: it is connected with nothing unread, or can connect.\<close>

definition producer_ready :: "Producer \<Rightarrow> bool" where
  "producer_ready p \<longleftrightarrow> \<not> pd_closed p \<and>
     (case pd_conn p of None \<Rightarrow> \<not> pd_finalized p \<and> pd_addrs p \<noteq> [] | Some c \<Rightarrow> c_in c = [])"

lemma NewProducer_ready: "NewProducer addrs cfg = Inr p \<Longrightarrow> producer_ready p"
  by (auto simp: NewProducer_def producer_ready_def Let_def split: if_split_asm)

lemma encode_wf_records: "\<forall>r \<in> set rs. wf_record r \<Longrightarrow> seqW (map Record_Encode rs) = Inr (encs rs)"
  by (induction rs) (simp_all add: Record_Encode_wf)

context rpc
begin

lemma Producer_getConn_ok:
  assumes "producer_ready p"
  obtains c where "Producer_getConn net w (p\<lparr>pd_nextID := k\<rparr>) = (p\<lparr>pd_nextID := k, pd_conn := Some c\<rparr>, Inr c)" "c_in c = []"
proof (cases "pd_conn p")
  case None
  then obtain a as where "pd_addrs p = a # as" using assms by (cases "pd_addrs p") (auto simp: producer_ready_def)
  then show ?thesis
    using that [of "\<lparr>c_addr = a, c_in = []\<rparr>"] None assms by (simp add: Producer_getConn_def producer_ready_def dial)
next
  case (Some c)
  then show ?thesis using that [of c] assms by (simp add: Producer_getConn_def producer_ready_def)
qed

lemma SendBatch_ok:
  assumes ready: "producer_ready p" and msgs: "msgs \<noteq> []" "\<forall>m \<in> set msgs. wf_record (message_record now m)"
    and body: "ProduceRequest_Encode (produce_request (pd_config p) topic part (encs (map (message_record now) msgs))) = Inr body"
    and req: "req = request_sized (request 0 (int32 (pd_nextID p + 1)) (pc_ClientID (pd_config p)) body)"
    and lim: "wf_RequestFrame lim req" and st: "step req w = (w', resp)" and resp: "wf_ResponseFrame (sized resp)"
  shows "\<exists>p'. SendBatch net now None w p topic part msgs = (w', p', produce_offsets (length msgs) (sized resp)) \<and> producer_ready p'"
proof -
  let ?k = "int32 (pd_nextID p + 1)"
  obtain c where c: "Producer_getConn net w (p\<lparr>pd_nextID := ?k\<rparr>) = (p\<lparr>pd_nextID := ?k, pd_conn := Some c\<rparr>, Inr c)" "c_in c = []"
    using Producer_getConn_ok [OF ready] by blast
  have "round_trip net ''producer'' w c (request 0 ?k (pc_ClientID (pd_config p)) body) = (w', c, Inr (sized resp))"
    using lim st resp c(2) unfolding req by (rule round_trip_ok)
  moreover have "seqW (map Record_Encode (map (message_record now) msgs)) = Inr (encs (map (message_record now) msgs))"
    using msgs(2) by (intro encode_wf_records) simp
  ultimately show ?thesis
    using ready msgs(1) body c by (simp add: SendBatch_def produceRecords_def producer_ready_def Let_def)
qed

end

section \<open>The batcher\<close>

text \<open>
  The section of \<open>sendBatched\<close> under \<open>batch.mu\<close>: the record joins the pending batch of its partition, and a
  batch that has reached \<open>BatchSize\<close> is detached for the caller to flush. \<open>fresh\<close> is the identity of a new batch.
\<close>

definition enqueue :: "Producer \<Rightarrow> nat \<Rightarrow> topicPartition \<Rightarrow> Record \<Rightarrow> nat \<Rightarrow> Producer \<times> pendingBatch option result" where
  "enqueue p fresh tp rec waiter =
     (if pd_closed p then (p, Inl (ErrorNew ''producer closed''))
      else
        (let pb = (case map_of (pd_pending p) tp of
                     None \<Rightarrow> \<lparr>pb_id = fresh, pb_records = [], pb_bytes = 0, pb_waiters = [], pb_timer = True\<rparr>
                   | Some pb \<Rightarrow> pb);
             pb = pb\<lparr>pb_records := pb_records pb @ [rec], pb_bytes := pb_bytes pb + int (EncodedSize rec),
                     pb_waiters := pb_waiters pb @ [waiter]\<rparr>
         in if pc_BatchSize (pd_config p) \<le> pb_bytes pb
            then (p\<lparr>pd_pending := AList.delete tp (pd_pending p)\<rparr>, Inr (Some (pb\<lparr>pb_timer := False\<rparr>)))
            else (p\<lparr>pd_pending := AList.update tp pb (pd_pending p)\<rparr>, Inr None)))"

text \<open>The timer callback for the batch with identity \<open>bid\<close>.\<close>

definition lingerFire :: "Producer \<Rightarrow> topicPartition \<Rightarrow> nat \<Rightarrow> Producer \<times> pendingBatch option" where
  "lingerFire p tp bid =
     (case map_of (pd_pending p) tp of
        None \<Rightarrow> (p, None)
      | Some cur \<Rightarrow>
          if pb_id cur \<noteq> bid then (p, None)
          else (p\<lparr>pd_pending := AList.delete tp (pd_pending p)\<rparr>, Some (cur\<lparr>pb_timer := False\<rparr>)))"

text \<open>Closing detaches every pending batch.\<close>

definition flushAllPending :: "Producer \<Rightarrow> Producer \<times> (topicPartition \<times> pendingBatch) list" where
  "flushAllPending p =
     (p\<lparr>pd_pending := []\<rparr>, map (\<lambda>(tp, pb). (tp, pb\<lparr>pb_timer := False\<rparr>)) (pd_pending p))"

record batchResult =
  br_offset :: int
  br_err :: "go_error option"

text \<open>What each waiter of a batch is sent.\<close>

definition fan_out :: "int list result \<Rightarrow> nat list \<Rightarrow> (nat \<times> batchResult) list" where
  "fan_out res waiters =
     (case res of
        Inl err \<Rightarrow> map (\<lambda>wt. (wt, \<lparr>br_offset = -1, br_err = Some err\<rparr>)) waiters
      | Inr offsets \<Rightarrow>
          map (\<lambda>(i, wt).
            (wt, if length offsets \<le> i
                 then \<lparr>br_offset = -1, br_err = Some (ErrorNew (''producer: missing offset for record '' @ itoa (int i)))\<rparr>
                 else \<lparr>br_offset = offsets ! i, br_err = None\<rparr>))
          (zip [0..<length waiters] waiters))"

definition flushBatch ::
    "'w network \<Rightarrow> 'w \<Rightarrow> Producer \<Rightarrow> topicPartition \<Rightarrow> pendingBatch \<Rightarrow> 'w \<times> Producer \<times> (nat \<times> batchResult) list" where
  "flushBatch net w p tp pb =
     (if pb_records pb = [] then (w, p, [])
      else
        (case produceRecords net w p (fst tp) (snd tp) (pb_records pb) of
           (w, p, res) \<Rightarrow> (w, p, fan_out res (pb_waiters pb))))"

text \<open>\<open>Close\<close> up to the flush of the pending batches, and its end.\<close>

definition close_mark :: "Producer \<Rightarrow> Producer" where
  "close_mark p = (if pd_finalized p then p else p\<lparr>pd_closed := True\<rparr>)"

definition close_final :: "Producer \<Rightarrow> Producer" where
  "close_final p = (if pd_finalized p then p else p\<lparr>pd_finalized := True, pd_conn := None\<rparr>)"

text \<open>The batches flushed one after another, as \<open>Close\<close> does.\<close>

fun flush_each ::
    "'w network \<Rightarrow> 'w \<Rightarrow> Producer \<Rightarrow> (topicPartition \<times> pendingBatch) list \<Rightarrow> 'w \<times> Producer \<times> (nat \<times> batchResult) list" where
  "flush_each net w p [] = (w, p, [])"
| "flush_each net w p ((tp, pb) # bs) =
     (case flushBatch net w p tp pb of
        (w, p, ans) \<Rightarrow> (case flush_each net w p bs of (w, p, rest) \<Rightarrow> (w, p, ans @ rest)))"

text \<open>
  \<open>Close\<close> of a producer that nothing else uses: no new record is accepted, the pending batches are sent, and the
  connection is closed.
\<close>

definition Producer_Close :: "'w network \<Rightarrow> 'w \<Rightarrow> Producer \<Rightarrow> 'w \<times> Producer \<times> (nat \<times> batchResult) list" where
  "Producer_Close net w p =
     (if pd_finalized p then (w, p, [])
      else
        (let alreadyClosing = pd_closed p;
             p = close_mark p
         in if \<not> alreadyClosing \<and> 0 < pc_LingerMs (pd_config p)
            then (case flushAllPending p of
                    (p, batches) \<Rightarrow> (case flush_each net w p batches of (w, p, ans) \<Rightarrow> (w, close_final p, ans)))
            else (w, close_final p, [])))"

section \<open>Concurrent callers\<close>

text \<open>
  \<open>ps_inflight\<close> are the detached batches whose flush has not run yet. \<open>ps_sends\<close> (accepted records with their waiters) and
  \<open>ps_flushed\<close> (flushed batches with the result of the round trip) record the history.
\<close>

record 'w batch_sys =
  ps_world :: 'w
  ps_prod :: Producer
  ps_inflight :: "(topicPartition \<times> pendingBatch) list"
  ps_answers :: "(nat \<times> batchResult) list"
  ps_drained :: bool
  ps_fresh :: nat
  ps_sends :: "(nat \<times> topicPartition \<times> Record) list"
  ps_flushed :: "(pendingBatch \<times> int list result) list"

inductive batch_step :: "'w network \<Rightarrow> 'w batch_sys \<Rightarrow> 'w batch_sys \<Rightarrow> bool" for net where
  send: "batch_step net s (s\<lparr>ps_prod := p, ps_inflight := ps_inflight s @ (case out of None \<Rightarrow> [] | Some pb \<Rightarrow> [(tp, pb)]),
           ps_fresh := Suc (ps_fresh s), ps_sends := ps_sends s @ [(ps_fresh s, tp, rec)]\<rparr>)"
    if "enqueue (ps_prod s) (ps_fresh s) tp rec (ps_fresh s) = (p, Inr out)"
| timer: "batch_step net s (s\<lparr>ps_prod := p, ps_inflight := ps_inflight s @ [(tp, pb)]\<rparr>)"
    if "lingerFire (ps_prod s) tp bid = (p, Some pb)"
| flush: "batch_step net s (s\<lparr>ps_world := w, ps_prod := p, ps_inflight := xs @ ys, ps_answers := ps_answers s @ ans,
           ps_flushed := ps_flushed s @ [(pb, snd (snd (produceRecords net (ps_world s) (ps_prod s) (fst tp) (snd tp) (pb_records pb))))]\<rparr>)"
    if "ps_inflight s = xs @ (tp, pb) # ys" and "flushBatch net (ps_world s) (ps_prod s) tp pb = (w, p, ans)"
| direct: "batch_step net s (s\<lparr>ps_world := w, ps_prod := p\<rparr>)"
    if "SendBatch net now ctx (ps_world s) (ps_prod s) topic part msgs = (w, p, res)"
| mark: "batch_step net s (s\<lparr>ps_prod := close_mark (ps_prod s)\<rparr>)"
| drain: "batch_step net s (s\<lparr>ps_prod := p, ps_inflight := ps_inflight s @ batches, ps_drained := True\<rparr>)"
    if "pd_closed (ps_prod s)" and "flushAllPending (ps_prod s) = (p, batches)"
| final: "batch_step net s (s\<lparr>ps_prod := close_final (ps_prod s)\<rparr>)"
    if "pd_closed (ps_prod s)"
| other: "batch_step net s (s\<lparr>ps_world := w\<rparr>)"

definition batch_init :: "'w \<Rightarrow> Producer \<Rightarrow> 'w batch_sys" where
  "batch_init w p =
     \<lparr>ps_world = w, ps_prod = p, ps_inflight = [], ps_answers = [], ps_drained = False, ps_fresh = 0, ps_sends = [], ps_flushed = []\<rparr>"

inductive batch_run :: "'w network \<Rightarrow> 'w batch_sys \<Rightarrow> 'w batch_sys \<Rightarrow> bool" for net where
  start: "batch_run net s s"
| step: "batch_run net s t \<Longrightarrow> batch_step net t u \<Longrightarrow> batch_run net s u"

section \<open>The invariant of the batcher\<close>

definition waiters_of :: "(topicPartition \<times> pendingBatch) list \<Rightarrow> nat multiset" where
  "waiters_of bs = mset (concat (map (\<lambda>(_, pb). pb_waiters pb) bs))"

text \<open>A batch holds the records of its waiters, for its partition, in the order they were sent.\<close>

definition batch_of :: "(nat \<times> topicPartition \<times> Record) list \<Rightarrow> topicPartition \<times> pendingBatch \<Rightarrow> bool" where
  "batch_of sends = (\<lambda>(tp, pb). pb_records pb \<noteq> [] \<and> sorted_wrt (<) (pb_waiters pb) \<and>
     list_all2 (\<lambda>wt r. (wt, tp, r) \<in> set sends) (pb_waiters pb) (pb_records pb) \<and>
     pb_bytes pb = (\<Sum>r\<leftarrow>pb_records pb. int (EncodedSize r)))"

definition batch_inv :: "'w batch_sys \<Rightarrow> bool" where
  "batch_inv s \<longleftrightarrow>
     waiters_of (pd_pending (ps_prod s)) + waiters_of (ps_inflight s) + mset (map fst (ps_answers s)) = mset (map fst (ps_sends s)) \<and>
     map fst (ps_sends s) = [0..<ps_fresh s] \<and> distinct (map fst (pd_pending (ps_prod s))) \<and>
     (\<forall>b \<in> set (pd_pending (ps_prod s)) \<union> set (ps_inflight s). batch_of (ps_sends s) b) \<and>
     (\<forall>(_, pb) \<in> set (pd_pending (ps_prod s)). pb_bytes pb < pc_BatchSize (pd_config (ps_prod s))) \<and>
     ps_answers s = concat (map (\<lambda>(pb, res). fan_out res (pb_waiters pb)) (ps_flushed s)) \<and>
     (\<forall>(pb, _) \<in> set (ps_flushed s). \<exists>tp. batch_of (ps_sends s) (tp, pb)) \<and>
     (ps_drained s \<longrightarrow> pd_closed (ps_prod s) \<and> pd_pending (ps_prod s) = [])"

text \<open>A round trip leaves the batches alone.\<close>

definition same_batches :: "Producer \<Rightarrow> Producer \<Rightarrow> bool" where
  "same_batches p p' \<longleftrightarrow> pd_pending p' = pd_pending p \<and> pd_config p' = pd_config p \<and> pd_closed p' = pd_closed p"

lemma getConn_same: "Producer_getConn net w p = (p', r) \<Longrightarrow> same_batches p p'"
  by (auto simp: Producer_getConn_def same_batches_def split: option.split_asm if_split_asm sum.split_asm)

lemma produceRecords_same: "produceRecords net w p topic part rs = (w', p', r) \<Longrightarrow> same_batches p p'"
  by (auto simp: produceRecords_def Let_def Producer_closeConn_def same_batches_def
      dest!: getConn_same split: if_split_asm sum.split_asm prod.split_asm)

lemma SendBatch_same: "SendBatch net now ctx w p topic part msgs = (w', p', r) \<Longrightarrow> same_batches p p'"
  by (auto simp: SendBatch_def same_batches_def dest!: produceRecords_same split: if_split_asm option.split_asm)

lemma close_same [simp]:
  "pd_pending (close_mark p) = pd_pending p" "pd_config (close_mark p) = pd_config p"
  "pd_pending (close_final p) = pd_pending p" "pd_config (close_final p) = pd_config p" "pd_closed (close_final p) = pd_closed p"
  "pd_closed p \<Longrightarrow> pd_closed (close_mark p)"
  by (simp_all add: close_mark_def close_final_def)

lemma fan_out_waiters [simp]: "map fst (fan_out res ws) = ws"
  by (cases res) (auto simp: fan_out_def comp_def split_def intro: nth_equalityI)

lemma flushBatch_eq:
  assumes "pb_records pb \<noteq> []"
  shows "flushBatch net w p tp pb =
    (case produceRecords net w p (fst tp) (snd tp) (pb_records pb) of (w, p, res) \<Rightarrow> (w, p, fan_out res (pb_waiters pb)))"
  using assms by (simp add: flushBatch_def)

lemma waiters_of_simps [simp]:
  "waiters_of [] = {#}" "waiters_of (b # bs) = mset (pb_waiters (snd b)) + waiters_of bs"
  "waiters_of (xs @ ys) = waiters_of xs + waiters_of ys"
  by (simp_all add: waiters_of_def split_def)

lemma waiters_of_delete:
  assumes "distinct (map fst bs)"
  shows "waiters_of bs = waiters_of (AList.delete tp bs) + (case map_of bs tp of None \<Rightarrow> {#} | Some pb \<Rightarrow> mset (pb_waiters pb))"
  using assms
proof (induction bs)
  case (Cons b bs)
  show ?case
  proof (cases "fst b = tp")
    case True
    then have "map_of bs tp = None" using Cons.prems by (force simp: map_of_eq_None_iff)
    then show ?thesis using True Cons by (cases b) simp
  qed (use Cons in \<open>cases b, simp\<close>)
qed simp

lemma waiters_of_update:
  assumes "distinct (map fst bs)"
  shows "waiters_of (AList.update tp pb bs) = waiters_of (AList.delete tp bs) + mset (pb_waiters pb)"
  using assms
proof (induction bs)
  case (Cons b bs)
  show ?case
  proof (cases "fst b = tp")
    case True
    then have "AList.delete tp bs = bs" using Cons.prems by (intro delete_id) auto
    then show ?thesis using True by (cases b) simp
  qed (use Cons in \<open>cases b, simp\<close>)
qed simp

lemma batch_of_timer [simp]: "batch_of sends (tp, pb\<lparr>pb_timer := b\<rparr>) = batch_of sends (tp, pb)"
  by (simp add: batch_of_def)

lemma batch_of_more: "batch_of sends b \<Longrightarrow> batch_of (sends @ xs) b"
  by (auto simp: batch_of_def elim: list_all2_mono)

lemma batch_of_waiters: "batch_of sends (tp, pb) \<Longrightarrow> wt \<in> set (pb_waiters pb) \<Longrightarrow> wt \<in> set (map fst sends)"
  by (force simp: batch_of_def list_all2_conv_all_nth in_set_conv_nth)

lemma batch_of_add:
  assumes "pb_records pb = [] \<and> pb_waiters pb = [] \<and> pb_bytes pb = 0 \<or> batch_of sends (tp, pb)" and "map fst sends = [0..<f]"
  shows "batch_of (sends @ [(f, tp, rec)]) (tp, pb\<lparr>pb_records := pb_records pb @ [rec],
    pb_bytes := pb_bytes pb + int (EncodedSize rec), pb_waiters := pb_waiters pb @ [f]\<rparr>)"
  using assms(1)
proof
  assume b: "batch_of sends (tp, pb)"
  have "\<forall>wt \<in> set (pb_waiters pb). wt < f" using batch_of_waiters [OF b] assms(2) by auto
  moreover have "list_all2 (\<lambda>wt r. (wt, tp, r) \<in> set (sends @ [(f, tp, rec)])) (pb_waiters pb) (pb_records pb)"
    using b by (auto simp: batch_of_def elim: list_all2_mono)
  ultimately show ?thesis using b by (auto simp: batch_of_def sorted_wrt_append intro: list_all2_appendI)
qed (auto simp: batch_of_def)

lemma enqueue_cases:
  assumes enq: "enqueue p f tp rec f = (p', Inr out)" and old: "\<forall>b \<in> set (pd_pending p). batch_of sends b"
    and ids: "map fst sends = [0..<f]"
  obtains (kept) pb where "out = None" "p' = p\<lparr>pd_pending := AList.update tp pb (pd_pending p)\<rparr>"
      "batch_of (sends @ [(f, tp, rec)]) (tp, pb)" "pb_bytes pb < pc_BatchSize (pd_config p)"
      "mset (pb_waiters pb) = (case map_of (pd_pending p) tp of None \<Rightarrow> {#} | Some b \<Rightarrow> mset (pb_waiters b)) + {#f#}"
  | (full) pb where "out = Some pb" "p' = p\<lparr>pd_pending := AList.delete tp (pd_pending p)\<rparr>"
      "batch_of (sends @ [(f, tp, rec)]) (tp, pb)"
      "mset (pb_waiters pb) = (case map_of (pd_pending p) tp of None \<Rightarrow> {#} | Some b \<Rightarrow> mset (pb_waiters b)) + {#f#}"
proof -
  define pb0 where "pb0 = (case map_of (pd_pending p) tp of
      None \<Rightarrow> \<lparr>pb_id = f, pb_records = [], pb_bytes = 0, pb_waiters = [], pb_timer = True\<rparr> | Some pb \<Rightarrow> pb)"
  define pb where "pb = pb0\<lparr>pb_records := pb_records pb0 @ [rec], pb_bytes := pb_bytes pb0 + int (EncodedSize rec),
      pb_waiters := pb_waiters pb0 @ [f]\<rparr>"
  have "pb_records pb0 = [] \<and> pb_waiters pb0 = [] \<and> pb_bytes pb0 = 0 \<or> batch_of sends (tp, pb0)"
    using old by (auto simp: pb0_def split: option.split dest: map_of_SomeD)
  then have ok: "batch_of (sends @ [(f, tp, rec)]) (tp, pb)" unfolding pb_def using ids by (rule batch_of_add)
  have ws: "mset (pb_waiters pb) = (case map_of (pd_pending p) tp of None \<Rightarrow> {#} | Some b \<Rightarrow> mset (pb_waiters b)) + {#f#}"
    by (simp add: pb_def pb0_def split: option.split)
  have "enqueue p f tp rec f =
    (if pd_closed p then (p, Inl (ErrorNew ''producer closed''))
     else if pc_BatchSize (pd_config p) \<le> pb_bytes pb
     then (p\<lparr>pd_pending := AList.delete tp (pd_pending p)\<rparr>, Inr (Some (pb\<lparr>pb_timer := False\<rparr>)))
     else (p\<lparr>pd_pending := AList.update tp pb (pd_pending p)\<rparr>, Inr None))"
    unfolding enqueue_def Let_def pb_def pb0_def ..
  then show thesis
    using enq ok ws kept [of pb] full [of "pb\<lparr>pb_timer := False\<rparr>"] by (auto split: if_split_asm)
qed

lemma set_delete: "b \<in> set (AList.delete k bs) \<Longrightarrow> b \<in> set bs"
  by (induction bs) (auto split: if_split_asm)

lemma set_update: "b \<in> set (AList.update k v bs) \<Longrightarrow> b = (k, v) \<or> b \<in> set bs"
  by (induction bs) (auto split: if_split_asm)

lemma send_keeps:
  assumes inv: "batch_inv s" and enq: "enqueue (ps_prod s) (ps_fresh s) tp rec (ps_fresh s) = (p, Inr out)"
  shows "batch_inv (s\<lparr>ps_prod := p, ps_inflight := ps_inflight s @ (case out of None \<Rightarrow> [] | Some pb \<Rightarrow> [(tp, pb)]),
           ps_fresh := Suc (ps_fresh s), ps_sends := ps_sends s @ [(ps_fresh s, tp, rec)]\<rparr>)"
proof -
  let ?P = "pd_pending (ps_prod s)" and ?more = "ps_sends s @ [(ps_fresh s, tp, rec)]"
  have old: "\<forall>b \<in> set ?P. batch_of (ps_sends s) b" and ids: "map fst (ps_sends s) = [0..<ps_fresh s]"
    and keys: "distinct (map fst ?P)" using inv by (auto simp: batch_inv_def)
  have open_: "\<not> pd_closed (ps_prod s)" using enq by (auto simp: enqueue_def split: if_split_asm)
  have more: "\<forall>b \<in> set ?P \<union> set (ps_inflight s). batch_of ?more b" "\<forall>(pb, _) \<in> set (ps_flushed s). \<exists>tp. batch_of ?more (tp, pb)"
    using inv batch_of_more unfolding batch_inv_def by blast+
  have del: "\<forall>b \<in> set (AList.delete tp ?P). b \<in> set ?P" using set_delete by fast
  show ?thesis
    using enq old ids
  proof (cases rule: enqueue_cases)
    case (kept pb)
    have "\<forall>b \<in> set (AList.update tp pb ?P). b = (tp, pb) \<or> b \<in> set ?P" using set_update by fast
    then show ?thesis
      using inv kept more keys open_ waiters_of_delete [OF keys, of tp] waiters_of_update [OF keys, of tp pb]
      unfolding batch_inv_def by (auto simp: distinct_update simp del: mset_map mset_upt)
  next
    case (full pb)
    then show ?thesis
      using inv more del keys open_ waiters_of_delete [OF keys, of tp] unfolding batch_inv_def
      by (auto simp: distinct_delete ac_simps simp del: mset_map mset_upt)
  qed
qed

lemma flush_keeps:
  assumes inv: "batch_inv s" and split: "ps_inflight s = xs @ (tp, pb) # ys"
    and run: "flushBatch net (ps_world s) (ps_prod s) tp pb = (w, p, ans)"
  shows "batch_inv (s\<lparr>ps_world := w, ps_prod := p, ps_inflight := xs @ ys, ps_answers := ps_answers s @ ans,
    ps_flushed := ps_flushed s @ [(pb, snd (snd (produceRecords net (ps_world s) (ps_prod s) (fst tp) (snd tp) (pb_records pb))))]\<rparr>)"
proof -
  obtain res where pr: "produceRecords net (ps_world s) (ps_prod s) (fst tp) (snd tp) (pb_records pb) = (w, p, res)"
    and ans: "ans = fan_out res (pb_waiters pb)"
  proof -
    have "pb_records pb \<noteq> []" using inv split by (auto simp: batch_inv_def batch_of_def)
    from that flushBatch_eq [OF this, of net "ps_world s" "ps_prod s" tp] run show thesis by (auto split: prod.split_asm)
  qed
  have b: "batch_of (ps_sends s) (tp, pb)" using inv split by (auto simp: batch_inv_def)
  then have b': "\<exists>a c. batch_of (ps_sends s) ((a, c), pb)" by (cases tp) blast
  have "same_batches (ps_prod s) p" using produceRecords_same [OF pr] .
  moreover have "mset (map fst ans) = mset (pb_waiters pb)" by (simp only: ans fan_out_waiters)
  ultimately show ?thesis
    using inv b' unfolding batch_inv_def pr same_batches_def
    by (auto simp: split ans ac_simps simp del: mset_map mset_upt simp: map_append)
qed

lemma timer_keeps:
  assumes inv: "batch_inv s" and fire: "lingerFire (ps_prod s) tp bid = (p, Some pb)"
  shows "batch_inv (s\<lparr>ps_prod := p, ps_inflight := ps_inflight s @ [(tp, pb)]\<rparr>)"
proof -
  let ?P = "pd_pending (ps_prod s)"
  obtain cur where cur: "map_of ?P tp = Some cur" "p = (ps_prod s)\<lparr>pd_pending := AList.delete tp ?P\<rparr>" "pb = cur\<lparr>pb_timer := False\<rparr>"
    using fire by (auto simp: lingerFire_def split: option.split_asm if_split_asm)
  have keys: "distinct (map fst ?P)" and "batch_of (ps_sends s) (tp, cur)"
    using inv map_of_SomeD [OF cur(1)] by (auto simp: batch_inv_def)
  moreover have "\<forall>b \<in> set (AList.delete tp ?P). b \<in> set ?P" using set_delete by fast
  ultimately show ?thesis
    using inv cur waiters_of_delete [OF keys, of tp] unfolding batch_inv_def
    by (auto simp: distinct_delete ac_simps simp del: mset_map mset_upt)
qed

lemma drain_keeps:
  assumes "batch_inv s" and "pd_closed (ps_prod s)" and "flushAllPending (ps_prod s) = (p, batches)"
  shows "batch_inv (s\<lparr>ps_prod := p, ps_inflight := ps_inflight s @ batches, ps_drained := True\<rparr>)"
proof -
  have "waiters_of batches = waiters_of (pd_pending (ps_prod s))"
    using assms(3) by (auto simp: flushAllPending_def waiters_of_def comp_def split_def)
  then show ?thesis
    using assms unfolding batch_inv_def by (auto simp: flushAllPending_def ac_simps simp del: mset_map mset_upt)
qed

lemma rest_keeps:
  assumes "batch_inv s" and "pd_pending p = pd_pending (ps_prod s)" and "pd_config p = pd_config (ps_prod s)"
    and "pd_closed (ps_prod s) \<longrightarrow> pd_closed p"
  shows "batch_inv (s\<lparr>ps_world := w, ps_prod := p\<rparr>)" "batch_inv (s\<lparr>ps_prod := p\<rparr>)" "batch_inv (s\<lparr>ps_world := w\<rparr>)"
  using assms unfolding batch_inv_def by (auto simp del: mset_map mset_upt)

lemma batch_step_keeps:
  assumes "batch_step net s t" and "batch_inv s"
  shows "batch_inv t"
  using assms
proof (induction rule: batch_step.induct)
  case (direct now ctx s topic part msgs w p res)
  then show ?case using SendBatch_same [OF direct(1)] by (intro rest_keeps) (simp_all add: same_batches_def)
next
  case (other s w)
  then show ?case by (rule rest_keeps(3) [OF _ refl refl]) simp
qed (simp_all only: send_keeps timer_keeps flush_keeps drain_keeps, simp_all add: rest_keeps)

lemma batch_run_inv: "batch_run net s t \<Longrightarrow> batch_inv s \<Longrightarrow> batch_inv t"
  by (induction rule: batch_run.induct) (auto intro: batch_step_keeps)

lemma batch_init_inv: "NewProducer addrs cfg = Inr p \<Longrightarrow> batch_inv (batch_init w p)"
  by (auto simp: NewProducer_def batch_init_def batch_inv_def Let_def split: if_split_asm)

lemma fan_out_success:
  assumes "(wt, r) \<in> set (fan_out res ws)" and "br_err r = None"
  shows "\<exists>offsets i. res = Inr offsets \<and> i < length ws \<and> i < length offsets \<and> ws ! i = wt \<and> br_offset r = offsets ! i"
  using assms by (force simp: fan_out_def set_zip split: sum.split_asm if_split_asm)

lemma flush_each_waiters:
  assumes "\<forall>b \<in> set bs. batch_of sends b" and "flush_each net w p bs = (w', p', ans)"
  shows "mset (map fst ans) = waiters_of bs"
  using assms
proof (induction bs arbitrary: w p ans)
  case (Cons b bs)
  obtain tp pb where b: "b = (tp, pb)" by (cases b)
  have "pb_records pb \<noteq> []" using Cons.prems(1) b by (simp add: batch_of_def)
  then obtain w1 p1 res where f: "flushBatch net w p tp pb = (w1, p1, fan_out res (pb_waiters pb))"
    using flushBatch_eq [of pb net w p tp] by (cases "produceRecords net w p (fst tp) (snd tp) (pb_records pb)") simp
  obtain rest where rest: "flush_each net w1 p1 bs = (w', p', rest)" "ans = fan_out res (pb_waiters pb) @ rest"
    using Cons.prems(2) b f by (auto split: prod.split_asm)
  have "map fst ans = pb_waiters pb @ map fst rest" using rest(2) by simp
  moreover have "mset (map fst rest) = waiters_of bs" using Cons.IH [OF _ rest(1)] Cons.prems(1) by simp
  ultimately show ?case using b by (simp del: mset_map)
qed simp

section \<open>Property\<close>


definition demo_producer :: Producer where
  "demo_producer =
     \<lparr>pd_addrs = [''b:9092''], pd_config = DefaultProducerConfig\<lparr>pc_LingerMs := 5\<rparr>, pd_conn = None, pd_closed = False,
      pd_finalized = False, pd_nextID = 0, pd_pending = []\<rparr>"

lemma demo_producer_new: "NewProducer [''b:9092''] (DefaultProducerConfig\<lparr>pc_LingerMs := 5\<rparr>) = Inr demo_producer"
  by (simp add: NewProducer_def demo_producer_def DefaultProducerConfig_def Let_def)


end
