(* ===== verification/Consumer.thy ===== *)
theory Consumer
  imports Producer
begin

text \<open>
  The consumer client, \<^verbatim>\<open>pkg/client/consumer.go\<close>: connections and \<open>Fetch\<close>. The context of \<open>Fetch\<close> is not used
  by the code.
\<close>

section \<open>Configuration and state\<close>

record ConsumerConfig =
  cc_ClientID :: string
  cc_MaxWaitMs :: int
  cc_MinBytes :: int
  cc_MaxBytes :: int

definition DefaultConsumerConfig :: ConsumerConfig where
  "DefaultConsumerConfig =
     \<lparr>cc_ClientID = ''mini-kafka-consumer'', cc_MaxWaitMs = 500, cc_MinBytes = 1, cc_MaxBytes = 1024 * 1024\<rparr>"

record Consumer =
  cs_addrs :: "string list"
  cs_config :: ConsumerConfig
  cs_conn :: "conn option"
  cs_closed :: bool
  cs_nextID :: int

definition NewConsumer :: "string list \<Rightarrow> ConsumerConfig \<Rightarrow> Consumer result" where
  "NewConsumer addrs cfg =
     (if addrs = [] then Inl (ErrorNew ''consumer: at least one broker address required'')
      else
        (let cfg = (if cc_ClientID cfg = [] then cfg\<lparr>cc_ClientID := ''mini-kafka-consumer''\<rparr> else cfg);
             cfg = (if cc_MaxBytes cfg \<le> 0 then cfg\<lparr>cc_MaxBytes := 1024 * 1024\<rparr> else cfg)
         in Inr \<lparr>cs_addrs = addrs, cs_config = cfg, cs_conn = None, cs_closed = False, cs_nextID = 0\<rparr>))"

section \<open>Fetching\<close>

definition Consumer_getConn :: "'w network \<Rightarrow> 'w \<Rightarrow> Consumer \<Rightarrow> Consumer \<times> conn result" where
  "Consumer_getConn net w c =
     (if cs_closed c then (c, Inl (ErrorNew ''consumer closed''))
      else
        (case cs_conn c of
           Some cn \<Rightarrow> (c, Inr cn)
         | None \<Rightarrow>
             (case dial_any net w (cs_addrs c) None of
                Inr cn \<Rightarrow> (c\<lparr>cs_conn := Some cn\<rparr>, Inr cn)
              | Inl lastErr \<Rightarrow> (c, Inl (connect_failed ''consumer connect failed'' lastErr)))))"

definition Consumer_closeConn :: "Consumer \<Rightarrow> Consumer" where
  "Consumer_closeConn c = c\<lparr>cs_conn := None\<rparr>"

definition record_message :: "Record \<Rightarrow> Message" where
  "record_message rec = \<lparr>ms_Key = Key rec, ms_Value = Value rec, ms_Offset = Offset rec, ms_Timestamp = Timestamp rec\<rparr>"

text \<open>The loop over the record set of the response: \<open>io.EOF\<close> ends it, any other error fails the fetch.\<close>

function decode_messages :: "bytes \<Rightarrow> Message list \<Rightarrow> Message list result" where
  "decode_messages buf messages =
     (if buf = [] then Inr messages
      else
        (case DecodeRecord buf of
           Inl (e, _) \<Rightarrow>
             if errors_Is e EOF then Inr messages else Inl (Wrapped ''consumer: record decode error'' e)
         | Inr (rec, _, rest) \<Rightarrow> decode_messages rest (messages @ [record_message rec])))"
  by pat_completeness auto
termination
  by (relation "measure (\<lambda>(buf, _). length buf)") (auto dest: DecodeRecord_shrinks)

declare decode_messages.simps [simp del]

definition fetch_request :: "ConsumerConfig \<Rightarrow> string \<Rightarrow> int \<Rightarrow> int \<Rightarrow> FetchRequest" where
  "fetch_request cfg topic part fetchOffset =
     \<lparr>fr_MaxWaitMs = cc_MaxWaitMs cfg, fr_MinBytes = cc_MinBytes cfg, fr_MaxBytes = cc_MaxBytes cfg,
      fr_Topics = [\<lparr>frt_Name = topic,
        frt_Partitions = [\<lparr>frp_PartitionID = part, frp_FetchOffset = fetchOffset, frp_MaxBytes = cc_MaxBytes cfg\<rparr>]\<rparr>]\<rparr>"

text \<open>The messages in a response frame.\<close>

definition fetch_messages :: "ResponseFrame \<Rightarrow> Message list result" where
  "fetch_messages respFrame =
     (if sf_ErrorCode respFrame \<noteq> 0 then Inl (ErrorNew (''consumer: broker error code '' @ itoa (sf_ErrorCode respFrame)))
      else
        (case FetchResponse_Decode (sf_Payload respFrame) of
           Inl e \<Rightarrow> Inl (Wrapped ''consumer: fetch response decode'' e)
         | Inr (fetchResp, _) \<Rightarrow>
             (case fs_Topics fetchResp of
                [] \<Rightarrow> Inl (ErrorNew ''consumer: empty response from broker'')
              | t # _ \<Rightarrow>
                  (case fst_Partitions t of
                     [] \<Rightarrow> Inl (ErrorNew ''consumer: empty response from broker'')
                   | partResp # _ \<Rightarrow>
                       if fsp_ErrorCode partResp \<noteq> 0
                       then Inl (ErrorNew (''consumer: partition error code '' @ itoa (fsp_ErrorCode partResp)))
                       else decode_messages (fsp_RecordSet partResp) []))))"

definition Consumer_Fetch ::
    "'w network \<Rightarrow> 'w \<Rightarrow> Consumer \<Rightarrow> string \<Rightarrow> int \<Rightarrow> int \<Rightarrow> 'w \<times> Consumer \<times> Message list result" where
  "Consumer_Fetch net w c topic part fetchOffset =
     (case FetchRequest_Encode (fetch_request (cs_config c) topic part fetchOffset) of
        Inl e \<Rightarrow> (w, c, Inl (Wrapped ''consumer: fetch request encode'' e))
      | Inr body \<Rightarrow>
          (let corrID = int32 (cs_nextID c + 1);
               c = c\<lparr>cs_nextID := corrID\<rparr>
           in case Consumer_getConn net w c of
                (c, Inl e) \<Rightarrow> (w, c, Inl e)
              | (c, Inr cn) \<Rightarrow>
                  (case round_trip net ''consumer'' w cn (request 1 corrID (cc_ClientID (cs_config c)) body) of
                     (w, _, Inl e) \<Rightarrow> (w, Consumer_closeConn c, Inl e)
                   | (w, cn, Inr respFrame) \<Rightarrow> (w, c\<lparr>cs_conn := Some cn\<rparr>, fetch_messages respFrame))))"

definition Consumer_Close :: "Consumer \<Rightarrow> Consumer" where
  "Consumer_Close c = c\<lparr>cs_closed := True, cs_conn := None\<rparr>"

text \<open>The messages of a set of whole records are the records in their order.\<close>

lemma decode_messages_encs:
  "\<forall>r \<in> set rs. wf_record r \<Longrightarrow> decode_messages (encs rs) ms = Inr (ms @ map record_message rs)"
proof (induction rs arbitrary: ms)
  case (Cons r rs)
  then show ?case by (subst decode_messages.simps) (simp add: DecodeRecord_enc)
qed (simp add: decode_messages.simps)

section \<open>A round trip with a server\<close>

definition consumer_ready :: "Consumer \<Rightarrow> bool" where
  "consumer_ready c \<longleftrightarrow> \<not> cs_closed c \<and> (case cs_conn c of None \<Rightarrow> cs_addrs c \<noteq> [] | Some cn \<Rightarrow> c_in cn = [])"

lemma NewConsumer_ready: "NewConsumer addrs cfg = Inr c \<Longrightarrow> consumer_ready c"
  by (auto simp: NewConsumer_def consumer_ready_def Let_def split: if_split_asm)

context rpc
begin

lemma Consumer_getConn_ok:
  assumes "consumer_ready c"
  obtains cn where "Consumer_getConn net w (c\<lparr>cs_nextID := k\<rparr>) = (c\<lparr>cs_nextID := k, cs_conn := Some cn\<rparr>, Inr cn)" "c_in cn = []"
proof (cases "cs_conn c")
  case None
  then obtain a as where "cs_addrs c = a # as" using assms by (cases "cs_addrs c") (auto simp: consumer_ready_def)
  then show ?thesis
    using that [of "\<lparr>c_addr = a, c_in = []\<rparr>"] None assms by (simp add: Consumer_getConn_def consumer_ready_def dial)
next
  case (Some cn)
  then show ?thesis using that [of cn] assms by (simp add: Consumer_getConn_def consumer_ready_def)
qed

lemma Consumer_Fetch_ok:
  assumes ready: "consumer_ready c" and body: "FetchRequest_Encode (fetch_request (cs_config c) topic part off) = Inr body"
    and req: "req = request_sized (request 1 (int32 (cs_nextID c + 1)) (cc_ClientID (cs_config c)) body)"
    and lim: "wf_RequestFrame lim req" and st: "step req w = (w', resp)" and resp: "wf_ResponseFrame (sized resp)"
  shows "\<exists>c'. Consumer_Fetch net w c topic part off = (w', c', fetch_messages (sized resp)) \<and> consumer_ready c'"
proof -
  let ?k = "int32 (cs_nextID c + 1)"
  obtain cn where cn: "Consumer_getConn net w (c\<lparr>cs_nextID := ?k\<rparr>) = (c\<lparr>cs_nextID := ?k, cs_conn := Some cn\<rparr>, Inr cn)" "c_in cn = []"
    using Consumer_getConn_ok [OF ready] by blast
  have "round_trip net ''consumer'' w cn (request 1 ?k (cc_ClientID (cs_config c)) body) = (w', cn, Inr (sized resp))"
    using lim st resp cn(2) unfolding req by (rule round_trip_ok)
  then show ?thesis using ready body cn by (simp add: Consumer_Fetch_def consumer_ready_def Let_def)
qed

end

end
