(* ===== verification/GroupConsumer.thy ===== *)
theory GroupConsumer
  imports Consumer Assignor GroupCoord
begin

text \<open>
  The group consumer client, \<^verbatim>\<open>pkg/client/group_consumer.go\<close>: joining a group, partition assignment by the leader, initial offsets,
  polling, commits, one tick of each background loop and closing.

  Every request uses a connection of its own, so an operation is a sequence of requests on the world of the network with
  the state of the consumer between them. Go iterates over maps in an arbitrary order, given by \<open>iter\<close>. The rebalance
  callbacks are recorded in \<open>gk_events\<close>. The goroutines and their timers are not modelled: \<open>heartbeat_tick\<close> and
  \<open>Commit\<close> are what they run.
\<close>

section \<open>Configuration and state\<close>

record GroupConsumerConfig =
  gf_ClientID :: string
  gf_SessionTimeoutMs :: int
  gf_HeartbeatIntervalMs :: int
  gf_RebalanceTimeoutMs :: int
  gf_AutoCommit :: bool
  gf_AutoCommitInterval :: int
  gf_AutoOffsetReset :: string
  gf_MaxWaitMs :: int
  gf_MinBytes :: int
  gf_MaxBytes :: int
  gf_AssignorStrategy :: string
  gf_OnRevoked :: bool
  gf_OnAssigned :: bool

definition DefaultGroupConsumerConfig :: GroupConsumerConfig where
  "DefaultGroupConsumerConfig =
     \<lparr>gf_ClientID = ''mini-kafka-group-consumer'', gf_SessionTimeoutMs = 45000, gf_HeartbeatIntervalMs = 3000,
      gf_RebalanceTimeoutMs = 60000, gf_AutoCommit = True, gf_AutoCommitInterval = 5 * 1000000000, gf_AutoOffsetReset = ''earliest'',
      gf_MaxWaitMs = 500, gf_MinBytes = 1, gf_MaxBytes = 1024 * 1024, gf_AssignorStrategy = ''range'',
      gf_OnRevoked = False, gf_OnAssigned = False\<rparr>"

datatype callback = Revoked "topicPartition list" | Assigned "topicPartition list"

record GroupConsumer =
  gk_addrs :: "string list"
  gk_groupID :: string
  gk_topics :: "string list"
  gk_config :: GroupConsumerConfig
  gk_closed :: bool
  gk_nextID :: int
  gk_memberID :: string
  gk_generationID :: int
  gk_leaderID :: string
  gk_assigned :: "topicPartition list"
  gk_offsets :: "(topicPartition \<times> int) list"
  gk_events :: "callback list"

record iter =
  it_keys :: order
  it_parts :: "topicPartition list \<Rightarrow> topicPartition list"

text \<open>A step that may fail after it has changed the world and the consumer.\<close>

definition bindC :: "'w \<times> 'g \<times> 'a result \<Rightarrow> ('w \<Rightarrow> 'g \<Rightarrow> 'a \<Rightarrow> 'w \<times> 'g \<times> 'b result) \<Rightarrow> 'w \<times> 'g \<times> 'b result" where
  "bindC m f = (case m of (w, g, Inl e) \<Rightarrow> (w, g, Inl e) | (w, g, Inr x) \<Rightarrow> f w g x)"

definition wrapC :: "string \<Rightarrow> 'w \<times> 'g \<times> 'a result \<Rightarrow> 'w \<times> 'g \<times> 'a result" where
  "wrapC msg m = (case m of (w, g, Inl e) \<Rightarrow> (w, g, Inl (if is_panic e then e else Wrapped msg e)) | (w, g, Inr x) \<Rightarrow> (w, g, Inr x))"

text \<open>A map of slices filled by \<open>m[k] = append(m[k], v)\<close>, and an iteration over it.\<close>

definition append_at :: "(string \<times> 'v list) list \<Rightarrow> string \<times> 'v \<Rightarrow> (string \<times> 'v list) list" where
  "append_at m = (\<lambda>(k, v). AList.update k ((case map_of m k of None \<Rightarrow> [] | Some vs \<Rightarrow> vs) @ [v]) m)"

definition group_by :: "(string \<times> 'v) list \<Rightarrow> (string \<times> 'v list) list" where
  "group_by kvs = foldl append_at [] kvs"

definition iterate :: "order \<Rightarrow> (string \<times> 'v) list \<Rightarrow> (string \<times> 'v) list" where
  "iterate ord m = List.map_filter (\<lambda>k. map_option (Pair k) (map_of m k)) (ord (map fst m))"

section \<open>Requests\<close>

definition dialNewConn :: "'w network \<Rightarrow> 'w \<Rightarrow> GroupConsumer \<Rightarrow> conn result" where
  "dialNewConn net w g =
     (case dial_any net w (gk_addrs g) None of
        Inr c \<Rightarrow> Inr c
      | Inl lastErr \<Rightarrow> Inl (connect_failed ''group_consumer connect failed'' lastErr))"

definition sendRequestOnConn ::
    "'w network \<Rightarrow> 'w \<Rightarrow> GroupConsumer \<Rightarrow> conn \<Rightarrow> int \<Rightarrow> bytes \<Rightarrow> 'w \<times> GroupConsumer \<times> ResponseFrame result" where
  "sendRequestOnConn net w g c apiKey body =
     (let corrID = int32 (gk_nextID g + 1);
          g = g\<lparr>gk_nextID := corrID\<rparr>
      in case round_trip net ''group_consumer'' w c (request apiKey corrID (gf_ClientID (gk_config g)) body) of
           (w, _, r) \<Rightarrow> (w, g, r))"

definition sendRequest ::
    "'w network \<Rightarrow> 'w \<Rightarrow> GroupConsumer \<Rightarrow> int \<Rightarrow> bytes \<Rightarrow> 'w \<times> GroupConsumer \<times> ResponseFrame result" where
  "sendRequest net w g apiKey body =
     (case dialNewConn net w g of
        Inl e \<Rightarrow> (w, g, Inl e)
      | Inr c \<Rightarrow> sendRequestOnConn net w g c apiKey body)"

text \<open>The answer of a request as a value: the encoding of the request, the round trip and the decoding.\<close>

definition decode_payload :: "'a reader \<Rightarrow> 'w \<Rightarrow> 'g \<Rightarrow> ResponseFrame \<Rightarrow> 'w \<times> 'g \<times> 'a result" where
  "decode_payload dec w g resp = (w, g, case dec (sf_Payload resp) of Inl e \<Rightarrow> Inl e | Inr (x, _) \<Rightarrow> Inr x)"

definition frame_ok :: "string \<Rightarrow> 'w \<Rightarrow> 'g \<Rightarrow> ResponseFrame \<Rightarrow> 'w \<times> 'g \<times> ResponseFrame result" where
  "frame_ok msg w g resp =
     (w, g, if sf_ErrorCode resp \<noteq> 0 then Inl (ErrorNew (msg @ itoa (sf_ErrorCode resp))) else Inr resp)"

section \<open>Initial offsets\<close>

definition offset_fetch_request :: "iter \<Rightarrow> GroupConsumer \<Rightarrow> OffsetFetchRequest" where
  "offset_fetch_request it g =
     \<lparr>ofr_GroupID = gk_groupID g,
      ofr_Topics = map (\<lambda>(t, ps). \<lparr>ofrt_Name = t, ofrt_Partitions = ps\<rparr>) (iterate (it_keys it) (group_by (gk_assigned g)))\<rparr>"

text \<open>The committed offsets of the response; a partition without one is marked with -1.\<close>

definition store_committed :: "OffsetFetchResponse \<Rightarrow> (topicPartition \<times> int) list \<Rightarrow> (topicPartition \<times> int) list" where
  "store_committed resp offsets =
     foldl (\<lambda>os t. foldl (\<lambda>os p. AList.update (ofst_Name t, ofsp_PartitionID p) (if 0 \<le> ofsp_Offset p then ofsp_Offset p else -1) os)
       os (ofst_Partitions t)) offsets (ofs_Topics resp)"

definition reset_timestamp :: "string \<Rightarrow> int result" where
  "reset_timestamp policy =
     (if policy = ''earliest'' then Inr (-2)
      else if policy = ''latest'' then Inr (-1)
      else if policy = ''none'' then Inl (ErrorNew ''group_consumer: no committed offset and auto.offset.reset=none'')
      else Inr (-2))"

definition unset_partitions :: "iter \<Rightarrow> GroupConsumer \<Rightarrow> topicPartition list" where
  "unset_partitions it g =
     filter (\<lambda>tp. case map_of (gk_offsets g) tp of None \<Rightarrow> False | Some off \<Rightarrow> off < 0) (it_parts it (map fst (gk_offsets g)))"

definition list_offsets_request :: "iter \<Rightarrow> topicPartition list \<Rightarrow> int \<Rightarrow> ListOffsetsRequest" where
  "list_offsets_request it tps timestamp =
     \<lparr>lor_Topics = map (\<lambda>(t, ps). \<lparr>lort_Name = t, lort_Partitions = map (\<lambda>p. \<lparr>lorp_PartitionID = p, lorp_Timestamp = timestamp\<rparr>) ps\<rparr>)
        (iterate (it_keys it) (group_by tps))\<rparr>"

definition store_listed :: "ListOffsetsResponse \<Rightarrow> (topicPartition \<times> int) list \<Rightarrow> (topicPartition \<times> int) list" where
  "store_listed resp offsets =
     foldl (\<lambda>os t. foldl (\<lambda>os p. if losp_ErrorCode p = 0 then AList.update (lost_Name t, losp_PartitionID p) (losp_Offset p) os else os)
       os (lost_Partitions t)) offsets (los_Topics resp)"

definition resolveUnsetOffsets :: "'w network \<Rightarrow> iter \<Rightarrow> 'w \<Rightarrow> GroupConsumer \<Rightarrow> 'w \<times> GroupConsumer \<times> unit result" where
  "resolveUnsetOffsets net it w g =
     (let needResolve = unset_partitions it g
      in if needResolve = [] then (w, g, Inr ())
         else
           (case reset_timestamp (gf_AutoOffsetReset (gk_config g)) of
              Inl e \<Rightarrow> (w, g, Inl e)
            | Inr timestamp \<Rightarrow>
                (case ListOffsetsRequest_Encode (list_offsets_request it needResolve timestamp) of
                   Inl e \<Rightarrow> (w, g, Inl e)
                 | Inr body \<Rightarrow>
                     bindC (sendRequest net w g 10 body) (\<lambda>w g resp.
                     bindC (decode_payload ListOffsetsResponse_Decode w g resp) (\<lambda>w g listResp.
                       (w, g\<lparr>gk_offsets := store_listed listResp (gk_offsets g)\<rparr>, Inr ()))))))"

definition fetchInitialOffsets :: "'w network \<Rightarrow> iter \<Rightarrow> 'w \<Rightarrow> GroupConsumer \<Rightarrow> 'w \<times> GroupConsumer \<times> unit result" where
  "fetchInitialOffsets net it w g =
     (if gk_assigned g = [] then (w, g, Inr ())
      else
        (case OffsetFetchRequest_Encode (offset_fetch_request it g) of
           Inl e \<Rightarrow> (w, g, Inl e)
         | Inr body \<Rightarrow>
             bindC (sendRequest net w g 9 body) (\<lambda>w g resp.
             bindC (decode_payload OffsetFetchResponse_Decode w g resp) (\<lambda>w g fetchResp.
               resolveUnsetOffsets net it w (g\<lparr>gk_offsets := store_committed fetchResp (gk_offsets g)\<rparr>)))))"

section \<open>Joining\<close>

definition join_request :: "GroupConsumer \<Rightarrow> JoinGroupRequest" where
  "join_request g =
     \<lparr>jgr_GroupID = gk_groupID g, jgr_SessionTimeoutMs = gf_SessionTimeoutMs (gk_config g), jgr_MemberID = gk_memberID g,
      jgr_ProtocolType = ''consumer'', jgr_Protocols = [\<lparr>jgp_Name = gf_AssignorStrategy (gk_config g), jgp_Metadata = []\<rparr>]\<rparr>"

text \<open>Step 1: the answer to \<open>JoinGroup\<close>, which names the member, the generation and the leader.\<close>

definition join_group :: "'w network \<Rightarrow> 'w \<Rightarrow> GroupConsumer \<Rightarrow> 'w \<times> GroupConsumer \<times> JoinGroupResponse result" where
  "join_group net w g =
     (case JoinGroupRequest_Encode (join_request g) of
        Inl e \<Rightarrow> (w, g, Inl (Wrapped ''encode join'' e))
      | Inr body \<Rightarrow>
          bindC (wrapC ''join request'' (sendRequest net w g 4 body)) (\<lambda>w g resp.
          bindC (frame_ok ''join frame error code '' w g resp) (\<lambda>w g resp.
          bindC (wrapC ''decode join response'' (decode_payload JoinGroupResponse_Decode w g resp)) (\<lambda>w g joinResp.
            if jgs_ErrorCode joinResp \<noteq> 0 then (w, g, Inl (ErrorNew (''join error code '' @ itoa (jgs_ErrorCode joinResp))))
            else (w, g\<lparr>gk_memberID := jgs_MemberID joinResp, gk_generationID := jgs_GenerationID joinResp,
                       gk_leaderID := jgs_LeaderID joinResp\<rparr>, Inr joinResp)))))"

definition topic_counts_of :: "MetadataResponse \<Rightarrow> topic_counts" where
  "topic_counts_of resp =
     foldl (\<lambda>m t. if tm_ErrorCode t = 0 then AList.update (tm_Name t) (int32 (int (length (tm_Partitions t)))) m else m) [] (ms_Topics resp)"

definition fetchTopicMetadata :: "'w network \<Rightarrow> 'w \<Rightarrow> GroupConsumer \<Rightarrow> 'w \<times> GroupConsumer \<times> topic_counts result" where
  "fetchTopicMetadata net w g =
     (case MetadataRequest_Encode \<lparr>mr_Topics = Some (gk_topics g)\<rparr> of
        Inl e \<Rightarrow> (w, g, Inl e)
      | Inr body \<Rightarrow>
          bindC (sendRequest net w g 2 body) (\<lambda>w g resp.
          bindC (decode_payload MetadataResponse_Decode w g resp) (\<lambda>w g metaResp. (w, g, Inr (topic_counts_of metaResp)))))"

text \<open>The assignments of the members in the order of the iteration over the map.\<close>

fun encode_assignments :: "(string \<rightharpoonup> MemberAssignment) \<Rightarrow> string list \<Rightarrow> SyncGroupAssignment list result" where
  "encode_assignments assignments [] = Inr []"
| "encode_assignments assignments (mID # mIDs) =
     (case assignments mID of
        None \<Rightarrow> encode_assignments assignments mIDs
      | Some ma \<Rightarrow>
          (case EncodeAssignment ma of
             Inl e \<Rightarrow> Inl (Wrapped (''encode assignment for '' @ mID) e)
           | Inr encoded \<Rightarrow>
               (case encode_assignments assignments mIDs of
                  Inl e \<Rightarrow> Inl e
                | Inr rest \<Rightarrow> Inr (\<lparr>sga_MemberID = mID, sga_Assignment = encoded\<rparr> # rest))))"

definition leader_assignments :: "iter \<Rightarrow> GroupConsumer \<Rightarrow> JoinGroupResponse \<Rightarrow> topic_counts \<Rightarrow> SyncGroupAssignment list result" where
  "leader_assignments it g joinResp topicPartitions =
     (let memberIDs = map jgm_MemberID (jgs_Members joinResp)
      in case GetAssignor (gf_AssignorStrategy (gk_config g)) of
           Inl e \<Rightarrow> Inl (Wrapped ''get assignor'' e)
         | Inr strategy \<Rightarrow> encode_assignments (Assign strategy memberIDs topicPartitions) (it_keys it (remdups memberIDs)))"

text \<open>The leader computes the assignments, the others send none.\<close>

definition sync_assignments ::
    "'w network \<Rightarrow> iter \<Rightarrow> 'w \<Rightarrow> GroupConsumer \<Rightarrow> JoinGroupResponse \<Rightarrow> 'w \<times> GroupConsumer \<times> SyncGroupAssignment list result" where
  "sync_assignments net it w g joinResp =
     (if jgs_MemberID joinResp = jgs_LeaderID joinResp
      then bindC (wrapC ''leader fetch metadata'' (fetchTopicMetadata net w g)) (\<lambda>w g counts.
             (w, g, leader_assignments it g joinResp counts))
      else (w, g, Inr []))"

text \<open>Step 2: the own assignment from the answer to \<open>SyncGroup\<close>.\<close>

definition sync_group ::
    "'w network \<Rightarrow> 'w \<Rightarrow> GroupConsumer \<Rightarrow> JoinGroupResponse \<Rightarrow> SyncGroupAssignment list \<Rightarrow> 'w \<times> GroupConsumer \<times> MemberAssignment result" where
  "sync_group net w g joinResp assignments =
     (case SyncGroupRequest_Encode \<lparr>sgr_GroupID = gk_groupID g, sgr_GenerationID = jgs_GenerationID joinResp,
             sgr_MemberID = jgs_MemberID joinResp, sgr_Assignments = assignments\<rparr> of
        Inl e \<Rightarrow> (w, g, Inl (Wrapped ''encode sync'' e))
      | Inr body \<Rightarrow>
          bindC (wrapC ''sync request'' (sendRequest net w g 5 body)) (\<lambda>w g resp.
          bindC (frame_ok ''sync frame error code '' w g resp) (\<lambda>w g resp.
          bindC (wrapC ''decode sync response'' (decode_payload SyncGroupResponse_Decode w g resp)) (\<lambda>w g syncResponse.
            if sgs_ErrorCode syncResponse \<noteq> 0 then (w, g, Inl (ErrorNew (''sync error code '' @ itoa (sgs_ErrorCode syncResponse))))
            else wrapC ''decode assignment'' (w, g, DecodeAssignment (sgs_Assignment syncResponse))))))"

definition assigned_partitions :: "MemberAssignment \<Rightarrow> topicPartition list" where
  "assigned_partitions ma = concat (map (\<lambda>ta. map (Pair (pa_Topic ta)) (pa_Partitions ta)) (ma_Topics ma))"

definition notify :: "bool \<Rightarrow> (topicPartition list \<Rightarrow> callback) \<Rightarrow> topicPartition list \<Rightarrow> GroupConsumer \<Rightarrow> GroupConsumer" where
  "notify wanted cb tps g = (if wanted \<and> tps \<noteq> [] then g\<lparr>gk_events := gk_events g @ [cb tps]\<rparr> else g)"

definition joinAndSync :: "'w network \<Rightarrow> iter \<Rightarrow> 'w \<Rightarrow> GroupConsumer \<Rightarrow> 'w \<times> GroupConsumer \<times> unit result" where
  "joinAndSync net it w g =
     bindC (join_group net w g) (\<lambda>w g joinResp.
     bindC (sync_assignments net it w g joinResp) (\<lambda>w g assignments.
     bindC (sync_group net w g joinResp assignments) (\<lambda>w g assignment.
       let oldAssigned = gk_assigned g;
           newAssigned = assigned_partitions assignment;
           g = notify (gf_OnRevoked (gk_config g)) Revoked oldAssigned g;
           g = g\<lparr>gk_assigned := newAssigned\<rparr>
       in bindC (wrapC ''fetch initial offsets'' (fetchInitialOffsets net it w g)) (\<lambda>w g _.
            (w, notify (gf_OnAssigned (gk_config g)) Assigned newAssigned g, Inr ())))))"

definition NewGroupConsumer ::
    "'w network \<Rightarrow> iter \<Rightarrow> 'w \<Rightarrow> string list \<Rightarrow> string \<Rightarrow> string list \<Rightarrow> GroupConsumerConfig \<Rightarrow> 'w \<times> GroupConsumer result" where
  "NewGroupConsumer net it w addrs groupID topics cfg =
     (if addrs = [] then (w, Inl (ErrorNew ''group_consumer: at least one broker address required''))
      else if groupID = [] then (w, Inl (ErrorNew ''group_consumer: groupID required''))
      else if topics = [] then (w, Inl (ErrorNew ''group_consumer: at least one topic required''))
      else
        (let cfg = (if gf_ClientID cfg = [] then cfg\<lparr>gf_ClientID := ''mini-kafka-group-consumer''\<rparr> else cfg);
             cfg = (if gf_SessionTimeoutMs cfg \<le> 0 then cfg\<lparr>gf_SessionTimeoutMs := 45000\<rparr> else cfg);
             cfg = (if gf_HeartbeatIntervalMs cfg \<le> 0 then cfg\<lparr>gf_HeartbeatIntervalMs := 3000\<rparr> else cfg);
             cfg = (if gf_MaxBytes cfg \<le> 0 then cfg\<lparr>gf_MaxBytes := 1024 * 1024\<rparr> else cfg);
             cfg = (if gf_AutoCommitInterval cfg \<le> 0 then cfg\<lparr>gf_AutoCommitInterval := 5 * 1000000000\<rparr> else cfg);
             cfg = (if gf_AutoOffsetReset cfg = [] then cfg\<lparr>gf_AutoOffsetReset := ''earliest''\<rparr> else cfg);
             cfg = (if gf_AssignorStrategy cfg = [] then cfg\<lparr>gf_AssignorStrategy := ''range''\<rparr> else cfg);
             g = \<lparr>gk_addrs = addrs, gk_groupID = groupID, gk_topics = topics, gk_config = cfg, gk_closed = False, gk_nextID = 0,
                  gk_memberID = [], gk_generationID = 0, gk_leaderID = [], gk_assigned = [], gk_offsets = [], gk_events = []\<rparr>
         in case wrapC ''group_consumer: initial join'' (joinAndSync net it w g) of
              (w, _, Inl e) \<Rightarrow> (w, Inl e)
            | (w, g, Inr _) \<Rightarrow> (w, Inr g)))"

section \<open>Background loops\<close>

definition rejoin_codes :: "int set" where
  "rejoin_codes = {10, 11, 9}"

text \<open>
  One tick of \<open>heartbeatLoop\<close>: a heartbeat, and a rejoin when the coordinator asks for it. Failures are
  ignored. In the code the rejoin runs in a goroutine of its own.
\<close>

definition heartbeat :: "'w network \<Rightarrow> 'w \<Rightarrow> GroupConsumer \<Rightarrow> 'w \<times> GroupConsumer \<times> HeartbeatResponse result" where
  "heartbeat net w g =
     (case HeartbeatRequest_Encode \<lparr>hbr_GroupID = gk_groupID g, hbr_GenerationID = gk_generationID g, hbr_MemberID = gk_memberID g\<rparr> of
        Inl e \<Rightarrow> (w, g, Inl e)
      | Inr body \<Rightarrow> bindC (sendRequest net w g 6 body) (decode_payload HeartbeatResponse_Decode))"

definition heartbeat_tick :: "'w network \<Rightarrow> iter \<Rightarrow> 'w \<Rightarrow> GroupConsumer \<Rightarrow> 'w \<times> GroupConsumer" where
  "heartbeat_tick net it w g =
     (if gk_memberID g = [] then (w, g)
      else
        (case heartbeat net w g of
           (w, g, Inl _) \<Rightarrow> (w, g)
         | (w, g, Inr hbResp) \<Rightarrow>
             if hbs_ErrorCode hbResp \<in> rejoin_codes
             then (case joinAndSync net it w g of (w, g, _) \<Rightarrow> (w, g))
             else (w, g)))"

section \<open>Polling\<close>

text \<open>The loop over one record set: any error ends it.\<close>

function poll_records :: "bytes \<Rightarrow> Record list" where
  "poll_records buf =
     (if buf = [] then []
      else (case DecodeRecord buf of Inl _ \<Rightarrow> [] | Inr (rec, _, rest) \<Rightarrow> rec # poll_records rest))"
  by pat_completeness auto
termination
  by (relation "measure length") (auto dest: DecodeRecord_shrinks)

declare poll_records.simps [simp del]

definition poll_request :: "iter \<Rightarrow> GroupConsumer \<Rightarrow> FetchRequest" where
  "poll_request it g =
     (let cfg = gk_config g;
          wanted = map (\<lambda>(t, p). (t, \<lparr>frp_PartitionID = p,
                     frp_FetchOffset = (case map_of (gk_offsets g) (t, p) of None \<Rightarrow> 0 | Some off \<Rightarrow> if off < 0 then 0 else off),
                     frp_MaxBytes = gf_MaxBytes cfg\<rparr>)) (gk_assigned g)
      in \<lparr>fr_MaxWaitMs = gf_MaxWaitMs cfg, fr_MinBytes = gf_MinBytes cfg, fr_MaxBytes = gf_MaxBytes cfg,
          fr_Topics = map (\<lambda>(t, ps). \<lparr>frt_Name = t, frt_Partitions = ps\<rparr>) (iterate (it_keys it) (group_by wanted))\<rparr>)"

text \<open>The records of one partition of the response: they are returned, and the offset of the next fetch is behind the last.\<close>

definition poll_partition ::
    "string \<Rightarrow> (topicPartition \<times> int) list \<times> Message list \<Rightarrow> FetchResponsePartition \<Rightarrow> (topicPartition \<times> int) list \<times> Message list" where
  "poll_partition topic = (\<lambda>(offsets, messages) p.
     if fsp_ErrorCode p \<noteq> 0 then (offsets, messages)
     else
       foldl (\<lambda>(os, ms) rec. (AList.update (topic, fsp_PartitionID p) (int64 (Offset rec + 1)) os, ms @ [record_message rec]))
         (offsets, messages) (poll_records (fsp_RecordSet p)))"

definition poll_response ::
    "FetchResponse \<Rightarrow> (topicPartition \<times> int) list \<Rightarrow> (topicPartition \<times> int) list \<times> Message list" where
  "poll_response resp offsets =
     foldl (\<lambda>acc t. foldl (poll_partition (fst_Name t)) acc (fst_Partitions t)) (offsets, []) (fs_Topics resp)"

text \<open>\<open>woken\<close> is how the wait ends when nothing is assigned: by the timeout, or with an error.\<close>

definition Poll :: "'w network \<Rightarrow> iter \<Rightarrow> go_error option \<Rightarrow> 'w \<Rightarrow> GroupConsumer \<Rightarrow> 'w \<times> GroupConsumer \<times> Message list result" where
  "Poll net it woken w g =
     (if gk_closed g then (w, g, Inl (ErrorNew ''group_consumer closed''))
      else if gk_assigned g = [] then (w, g, case woken of None \<Rightarrow> Inr [] | Some e \<Rightarrow> Inl e)
      else
        (case FetchRequest_Encode (poll_request it g) of
           Inl e \<Rightarrow> (w, g, Inl (Wrapped ''group_consumer: fetch encode'' e))
         | Inr body \<Rightarrow>
             bindC (wrapC ''group_consumer: fetch request'' (sendRequest net w g 1 body)) (\<lambda>w g resp.
             bindC (frame_ok ''group_consumer: broker error code '' w g resp) (\<lambda>w g resp.
             bindC (wrapC ''group_consumer: fetch response decode'' (decode_payload FetchResponse_Decode w g resp)) (\<lambda>w g fetchResp.
               (case poll_response fetchResp (gk_offsets g) of
                  (offsets, messages) \<Rightarrow> (w, g\<lparr>gk_offsets := offsets\<rparr>, Inr messages)))))))"

section \<open>Committing and closing\<close>

definition commit_topics :: "iter \<Rightarrow> GroupConsumer \<Rightarrow> (string \<times> OffsetCommitRequestPartition list) list" where
  "commit_topics it g =
     group_by (List.map_filter (\<lambda>(t, p). case map_of (gk_offsets g) (t, p) of
         None \<Rightarrow> None
       | Some off \<Rightarrow> if 0 \<le> off then Some (t, \<lparr>ocrp_PartitionID = p, ocrp_Offset = off, ocrp_Metadata = []\<rparr>) else None)
       (it_parts it (map fst (gk_offsets g))))"

definition commit_request :: "GroupConsumer \<Rightarrow> (string \<times> OffsetCommitRequestPartition list) list \<Rightarrow> OffsetCommitRequest" where
  "commit_request g topics =
     \<lparr>ocr_GroupID = gk_groupID g, ocr_GenerationID = gk_generationID g, ocr_MemberID = gk_memberID g,
      ocr_Topics = map (\<lambda>(t, ps). \<lparr>ocrt_Name = t, ocrt_Partitions = ps\<rparr>) topics\<rparr>"

definition send_commit :: "'w network \<Rightarrow> 'w \<Rightarrow> GroupConsumer \<Rightarrow> OffsetCommitRequest \<Rightarrow> 'w \<times> GroupConsumer \<times> unit result" where
  "send_commit net w g commitReq =
     (case OffsetCommitRequest_Encode commitReq of
        Inl e \<Rightarrow> (w, g, Inl (Wrapped ''group_consumer: commit encode'' e))
      | Inr body \<Rightarrow>
          bindC (wrapC ''group_consumer: commit request'' (sendRequest net w g 8 body)) (\<lambda>w g resp.
          bindC (frame_ok ''group_consumer: commit error code '' w g resp) (\<lambda>w g _. (w, g, Inr ()))))"

definition Commit :: "'w network \<Rightarrow> iter \<Rightarrow> 'w \<Rightarrow> GroupConsumer \<Rightarrow> 'w \<times> GroupConsumer \<times> unit result" where
  "Commit net it w g =
     (if gk_closed g then (w, g, Inl (ErrorNew ''group_consumer closed''))
      else
        (let topicMap = commit_topics it g
         in if topicMap = [] then (w, g, Inr ())
            else send_commit net w g (commit_request g (iterate (it_keys it) topicMap))))"

definition CommitOffset_one :: "'w network \<Rightarrow> 'w \<Rightarrow> GroupConsumer \<Rightarrow> topicPartition \<Rightarrow> int \<Rightarrow> 'w \<times> GroupConsumer \<times> unit result" where
  "CommitOffset_one net w g tp offset =
     (let g = g\<lparr>gk_offsets := AList.update tp offset (gk_offsets g)\<rparr>
      in send_commit net w g (commit_request g [(fst tp, [\<lparr>ocrp_PartitionID = snd tp, ocrp_Offset = offset, ocrp_Metadata = []\<rparr>])]))"

definition GroupConsumer_Close :: "'w network \<Rightarrow> 'w \<Rightarrow> GroupConsumer \<Rightarrow> 'w \<times> GroupConsumer" where
  "GroupConsumer_Close net w g =
     (if gk_closed g then (w, g)
      else
        (let g = notify (gf_OnRevoked (gk_config g)) Revoked (gk_assigned g) (g\<lparr>gk_closed := True\<rparr>)
         in if gk_memberID g = [] then (w, g)
            else
              (case LeaveGroupRequest_Encode \<lparr>lgr_GroupID = gk_groupID g, lgr_MemberID = gk_memberID g\<rparr> of
                 Inl _ \<Rightarrow> (w, g)
               | Inr body \<Rightarrow> (case sendRequest net w g 7 body of (w, g, _) \<Rightarrow> (w, g)))))"

section \<open>Maps of slices\<close>

definition valid_iter :: "iter \<Rightarrow> bool" where
  "valid_iter it \<longleftrightarrow> (\<forall>ks. set (it_keys it ks) = set ks \<and> (distinct ks \<longrightarrow> distinct (it_keys it ks))) \<and>
     (\<forall>ks. set (it_parts it ks) = set ks \<and> (distinct ks \<longrightarrow> distinct (it_parts it ks)))"

text \<open>The entries of a map of slices.\<close>

definition entries :: "(string \<times> 'v list) list \<Rightarrow> (string \<times> 'v) list" where
  "entries m = concat (map (\<lambda>(k, vs). map (Pair k) vs) m)"

lemma entries_simps [simp]: "entries [] = []" "entries ((k, vs) # m) = map (Pair k) vs @ entries m"
  by (simp_all add: entries_def)

lemma entries_set: "set (entries m) = {(k, v). \<exists>vs. (k, vs) \<in> set m \<and> v \<in> set vs}"
  by (force simp: entries_def)

lemma append_at_entries:
  assumes "distinct (map fst m)"
  shows "distinct (map fst (append_at m (k, v)))" "mset (entries (append_at m (k, v))) = mset (entries m) + {#(k, v)#}"
proof -
  show "distinct (map fst (append_at m (k, v)))" using assms by (simp add: append_at_def distinct_update)
  show "mset (entries (append_at m (k, v))) = mset (entries m) + {#(k, v)#}"
    using assms
  proof (induction m)
    case (Cons x m)
    obtain k' vs where "x = (k', vs)" by force
    then show ?case using Cons by (cases "k' = k") (auto simp: append_at_def)
  qed (simp add: append_at_def)
qed

lemma group_by_entries: "distinct (map fst (group_by kvs)) \<and> mset (entries (group_by kvs)) = mset kvs"
proof (induction kvs rule: rev_induct)
  case (snoc x kvs)
  then show ?case using append_at_entries [of "group_by kvs" "fst x" "snd x"] by (simp add: group_by_def)
qed (simp add: group_by_def)

lemma mset_map_filter: "mset xs = mset ys \<Longrightarrow> mset (List.map_filter f xs) = mset (List.map_filter f ys)"
  by (simp add: List.map_filter_def)

lemma map_filter_same: "\<forall>x \<in> set xs. f x = h x \<Longrightarrow> List.map_filter f xs = List.map_filter h xs"
  by (induction xs) (simp_all add: List.map_filter_simps split: option.split)

lemma iterate_perm:
  assumes "valid_iter it" and "distinct (map fst m)"
  shows "mset (iterate (it_keys it) m) = mset m"
proof -
  let ?f = "\<lambda>k. map_option (Pair k) (map_of m k)" and ?ks = "it_keys it (map fst m)"
  have "distinct ?ks" "set ?ks = set (map fst m)" using assms by (auto simp: valid_iter_def)
  then have "mset ?ks = mset (map fst m)" using assms(2) set_eq_iff_mset_eq_distinct by blast
  then have perm: "mset (List.map_filter ?f ?ks) = mset (List.map_filter ?f (map fst m))"
    by (rule mset_map_filter)
  have "List.map_filter ?f (map fst m) = m"
    using assms(2)
  proof (induction m)
    case (Cons x m)
    have "\<forall>k \<in> set (map fst m). map_of (x # m) k = map_of m k" using Cons.prems by (cases x) auto
    then have "List.map_filter (\<lambda>k. map_option (Pair k) (map_of (x # m) k)) (map fst m) =
      List.map_filter (\<lambda>k. map_option (Pair k) (map_of m k)) (map fst m)"
      by (intro map_filter_same) simp
    then show ?case using Cons by (cases x) (simp add: List.map_filter_simps)
  qed (simp add: List.map_filter_simps)
  then show ?thesis using perm by (simp add: iterate_def)
qed

end
