(* ===== verification/ClientE2E.thy ===== *)
theory ClientE2E
  imports Consumer BrokerE2E
begin

text \<open>
  A producer client and a consumer client of one broker, through the bytes of their connections, the server, the
  dispatcher and the handlers.
\<close>

section \<open>Sizes of the messages\<close>

lemma PutArray_one: "PutArray f [x] = seqW [Inr (be_put 4 1), f x]"
  by (simp add: PutArray_def PutArrayHeader_def PutInt32_def MaxInt32_def wrap_s_def)

lemmas put_defs = PutArray_one PutInt16_def PutInt32_def PutInt64_def

lemma produce_body_length:
  assumes "int (length topic) \<le> MaxInt16" and "int (length bs) \<le> MaxBytesLength"
  shows "\<exists>body. ProduceRequest_Encode (one_produce acks tmo topic part bs) = Inr body \<and> length body = 24 + length topic + length bs"
proof -
  obtain t where t: "PutString topic = Inr t" "length t = 2 + length topic" using assms(1) by (rule PutString_length)
  have "int (length bs) \<le> MaxInt32" using assms(2) by (simp add: MaxBytesLength_def MaxInt32_def)
  then obtain s where "PutBytes bs = Inr s" "length s = 4 + length bs" by (rule PutBytes_length)
  with t show ?thesis
    by (simp add: one_produce_def ProduceRequest_Encode_def ProduceRequestTopic_Encode_def ProduceRequestPartition_Encode_def
        put_defs)
qed

lemma produce_answer_length:
  assumes "int (length topic) \<le> MaxInt16"
    and "ProduceResponse_Encode \<lparr>ps_Topics = [\<lparr>pst_Name = topic, pst_Partitions = [r]\<rparr>]\<rparr> = Inr out"
  shows "length out = 32 + length topic"
proof -
  obtain t where "PutString topic = Inr t" "length t = 2 + length topic" using assms(1) by (rule PutString_length)
  then show ?thesis
    using assms(2) by (auto simp: ProduceResponse_Encode_def ProduceResponseTopic_Encode_def ProduceResponsePartition_Encode_def
        put_defs)
qed

lemma fetch_body_length:
  assumes "int (length topic) \<le> MaxInt16"
  shows "\<exists>body. FetchRequest_Encode (one_fetch w topic part off mx) = Inr body \<and> length body = 38 + length topic"
proof -
  obtain t where "PutString topic = Inr t" "length t = 2 + length topic" using assms(1) by (rule PutString_length)
  then show ?thesis
    by (simp add: one_fetch_def FetchRequest_Encode_def FetchRequestTopic_Encode_def FetchRequestPartition_Encode_def
        put_defs)
qed

lemma fetch_answer_length:
  assumes "int (length topic) \<le> MaxInt16" and "int (length (fsp_RecordSet r)) \<le> MaxBytesLength"
    and "FetchResponse_Encode \<lparr>fs_Topics = [\<lparr>fst_Name = topic, fst_Partitions = [r]\<rparr>]\<rparr> = Inr out"
  shows "length out = 36 + length topic + length (fsp_RecordSet r)"
proof -
  obtain t where t: "PutString topic = Inr t" "length t = 2 + length topic" using assms(1) by (rule PutString_length)
  have "int (length (fsp_RecordSet r)) \<le> MaxInt32" using assms(2) by (simp add: MaxBytesLength_def MaxInt32_def)
  then obtain s where "PutBytes (fsp_RecordSet r) = Inr s" "length s = 4 + length (fsp_RecordSet r)" by (rule PutBytes_length)
  with t show ?thesis
    using assms(3) by (auto simp: FetchResponse_Encode_def FetchResponseTopic_Encode_def FetchResponsePartition_Encode_def
        put_defs)
qed

text \<open>Frames within the limits.\<close>

lemma request_sized_wf:
  assumes "in_s 16 key" and "int (length client) \<le> MaxInt16" and "int (length body) \<le> MaxBytesLength"
    and "14 + int (length client) + int (length body) \<le> MaxFrameSize"
    and "0 < lim \<longrightarrow> 14 + int (length client) + int (length body) \<le> lim"
  shows "wf_RequestFrame lim (request_sized (request key (int32 c) client body))"
  using assms by (simp add: wf_RequestFrame_def request_sized_def request_def in_s_wrap_s) (simp add: in_s_def)

lemma answer_sized_wf:
  assumes "sf_CorrelationID resp = int32 c" and "sf_ErrorCode resp = 0" and "10 + int (length (sf_Payload resp)) \<le> MaxFrameSize"
  shows "wf_ResponseFrame (sized resp)"
  using assms by (simp add: wf_ResponseFrame_def sized_def in_s_wrap_s MaxFrameSize_def MaxBytesLength_def)

section \<open>Sending\<close>

lemma one_produce_request: "produce_request cfg topic part bs = one_produce (pc_Acks cfg) (pc_TimeoutMs cfg) topic part bs"
  by (simp add: produce_request_def one_produce_def)

lemma one_fetch_request: "cc_MinBytes cfg = 1 \<Longrightarrow> fetch_request cfg topic part off = one_fetch (cc_MaxWaitMs cfg) topic part off (cc_MaxBytes cfg)"
  by (simp add: fetch_request_def one_fetch_def)

lemma request_eq:
  "request_sized (request key corr client body) =
     \<lparr>rf_Size = 14 + int (length client) + int (length body), rf_ApiKey = key, rf_ApiVersion = 1, rf_CorrelationID = corr,
      rf_ClientID = client, rf_Payload = body\<rparr>"
  by (simp add: request_sized_def request_def)

lemma SendBatch_alone:
  assumes inv: "broker_inv cfg n b" and p: "get_partition b topic part = Some p" and e: "e_ckpt e = None" and al: "alone b topic part"
    and name: "validateTopicName (e_cwd e) (dataDir b) topic = None" and ty: "in_s 32 part" "in_s 64 (e_now e)"
    and conf: "in_s 16 (pc_Acks (pd_config pd))" "in_s 32 (pc_TimeoutMs (pd_config pd))"
      "pc_Acks (pd_config pd) = -1 \<longrightarrow> minInsyncReplicas b \<le> 1" "int (length (pc_ClientID (pd_config pd))) \<le> MaxInt16"
    and rs: "rs = map (message_record now) msgs" "msgs \<noteq> []" "\<forall>r \<in> set rs. wf_record r" and room: "n + int (length msgs) < 2 ^ 63"
    and sz: "lc_MaxMessageBytes (cfg_Log cfg) \<le> 0 \<or> int (length (encs rs)) \<le> lc_MaxMessageBytes (cfg_Log cfg)"
      "38 + int (length (pc_ClientID (pd_config pd))) + int (length topic) + int (length (encs rs)) \<le> MaxFrameSize"
      "0 < request_limit scfg \<longrightarrow>
         38 + int (length (pc_ClientID (pd_config pd))) + int (length topic) + int (length (encs rs)) \<le> request_limit scfg"
    and ready: "producer_ready pd"
    and run: "SendBatch (server_net coded (broker_mux slow others ch e) scfg) now None b pd topic part msgs = (b', pd', r)"
  shows "r = Inr (map (\<lambda>i. LogEndOffset p + int i) [0..<length msgs]) \<and> producer_ready pd' \<and>
    (\<exists>p'. get_partition b' topic part = Some p' \<and> log_inv (pt_log p') \<and> LogStartOffset p' = LogStartOffset p \<and>
      log_recs (pt_log p') = log_recs (pt_log p) @ number_from (LogEndOffset p) rs \<and>
      LogEndOffset p' = LogEndOffset p + int (length rs) \<and> HighWatermark p' = LogEndOffset p')"
proof -
  let ?pc = "pd_config pd" and ?c = "int32 (pd_nextID pd + 1)"
  have len: "int (length topic) \<le> MaxInt16" using name by (simp add: validateTopicName_iff maxTopicNameLen_def MaxInt16_def)
  have bytes: "int (length (encs rs)) \<le> MaxBytesLength" using sz(2) by (simp add: MaxFrameSize_def MaxBytesLength_def)
  obtain body where body: "ProduceRequest_Encode (one_produce (pc_Acks ?pc) (pc_TimeoutMs ?pc) topic part (encs rs)) = Inr body"
    "length body = 24 + length topic + length (encs rs)"
    using produce_body_length [OF len bytes] by blast
  define req where "req = request_sized (request 0 ?c (pc_ClientID ?pc) body)"
  obtain b1 resp where d: "Dispatch coded (broker_mux slow others ch e) req b = (b1, resp)" by fastforce
  have rs': "rs \<noteq> []" "n + int (length rs) < 2 ^ 63" using rs(1,2) room by simp_all
  have d': "Dispatch coded (broker_mux slow others ch e) \<lparr>rf_Size = 14 + int (length (pc_ClientID ?pc)) + int (length body),
      rf_ApiKey = apiKeyProduce, rf_ApiVersion = 1, rf_CorrelationID = ?c, rf_ClientID = pc_ClientID ?pc, rf_Payload = body\<rparr> b = (b1, resp)"
    using d by (simp add: req_def request_eq apiKeyProduce_def)
  note pw = produce_wire [OF inv p e al name ty(1) conf(1,2) ty(2) conf(3) sz(1) bytes rs'(1) rs(3) rs'(2) body(1) d']
  have "length (sf_Payload resp) = 32 + length topic" using produce_answer_length [OF len pw(3)] .
  then have resp: "wf_ResponseFrame (sized resp)"
    using pw(1) sz(2) len by (intro answer_sized_wf [where c = "pd_nextID pd + 1"]) (simp_all add: MaxFrameSize_def MaxInt16_def)
  have req: "wf_RequestFrame (request_limit scfg) req"
    unfolding req_def using conf(4) body(2) sz(2,3)
    by (intro request_sized_wf) (auto simp: MaxFrameSize_def MaxBytesLength_def in_s_def)
  have "ProduceRequest_Encode (produce_request ?pc topic part (encs (map (message_record now) msgs))) = Inr body"
    using body(1) rs(1) by (simp add: one_produce_request)
  from server.SendBatch_ok [OF ready rs(2) _ this req_def req d resp] rs(1,3) run
  have r: "b' = b1" "r = produce_offsets (length msgs) (sized resp)" "producer_ready pd'" by auto
  have "part_ok n p" using broker_invD(6) [OF inv p] by (simp add: slot_ok_def)
  then have "0 \<le> LogEndOffset p" "LogEndOffset p \<le> n" using LogEndOffset_nonneg [of n p] by (simp_all add: part_ok_def)
  then have "int64 (LogEndOffset p + int i) = LogEndOffset p + int i" if "i < length msgs" for i
    using that room by (intro wrap_s_id) (auto simp: in_s_def)
  then have "r = Inr (map (\<lambda>i. LogEndOffset p + int i) [0..<length msgs])"
    using r(2) pw(1) by (simp add: produce_offsets_def sized_def codeNone_def)
  then show ?thesis using r pw(2) by blast
qed

section \<open>Fetching\<close>

lemma Consumer_Fetch_back:
  assumes p: "get_partition b topic part = Some p" and inv: "log_inv (pt_log p)"
    and off: "LowestOffset (pt_log p) \<le> off" "off < HighWatermark p" "HighWatermark p = LogEndOffset p" "LogEndOffset p < 2 ^ 63"
    and conf: "cc_MinBytes (cs_config c) = 1" "in_s 32 (cc_MaxWaitMs (cs_config c))" "0 < cc_MaxBytes (cs_config c)"
      "cc_MaxBytes (cs_config c) + int MaxRecordSize < 2 ^ 31" "int (length (cc_ClientID (cs_config c))) \<le> MaxInt16"
    and ty: "in_s 32 part" "int (length topic) \<le> MaxInt16"
    and g: "g = gather off (cc_MaxBytes (cs_config c)) 0 (l_segments (pt_log p))"
    and size: "46 + int (length topic) + int (length (encs g)) \<le> MaxFrameSize"
      "0 < request_limit scfg \<longrightarrow> 52 + int (length (cc_ClientID (cs_config c))) + int (length topic) \<le> request_limit scfg"
    and ready: "consumer_ready c"
    and run: "Consumer_Fetch (server_net coded (broker_mux slow others ch e) scfg) b c topic part off = (b', c', r)"
  shows "r = Inr (map record_message g) \<and> consumer_ready c'"
proof -
  let ?cc = "cs_config c" and ?k = "int32 (cs_nextID c + 1)"
  obtain body where body: "FetchRequest_Encode (one_fetch (cc_MaxWaitMs ?cc) topic part off (cc_MaxBytes ?cc)) = Inr body"
    "length body = 38 + length topic"
    using fetch_body_length [OF ty(2)] by blast
  define req where "req = request_sized (request 1 ?k (cc_ClientID ?cc) body)"
  obtain b1 resp where d: "Dispatch coded (broker_mux slow others ch e) req b = (b1, resp)" by fastforce
  then have d': "Dispatch coded (broker_mux slow others ch e) \<lparr>rf_Size = 14 + int (length (cc_ClientID ?cc)) + int (length body),
      rf_ApiKey = apiKeyFetch, rf_ApiVersion = 1, rf_CorrelationID = ?k, rf_ClientID = cc_ClientID ?cc, rf_Payload = body\<rparr> b = (b1, resp)"
    by (simp add: req_def request_eq apiKeyFetch_def)
  have bytes: "int (length (encs (gather off (cc_MaxBytes ?cc) 0 (l_segments (pt_log p))))) \<le> MaxBytesLength"
    using size(1) g by (simp add: MaxFrameSize_def MaxBytesLength_def)
  note fw = fetch_wire [OF p inv off conf(3,4) ty(1) conf(2) ty(2) bytes body(1) d']
  have "length (sf_Payload resp) = 36 + length topic + length (encs g)"
    using fetch_answer_length [OF ty(2) _ fw(2)] bytes g by simp
  moreover have "sf_CorrelationID resp = ?k" using Dispatch_correlation [of coded "broker_mux slow others ch e" req b] d by (simp add: req_def request_eq)
  ultimately have resp: "wf_ResponseFrame (sized resp)"
    using fw(1) size(1) by (intro answer_sized_wf [where c = "cs_nextID c + 1"]) (simp_all add: MaxFrameSize_def)
  have req: "wf_RequestFrame (request_limit scfg) req"
    unfolding req_def using conf(5) body(2) size(2) ty(2)
    by (intro request_sized_wf) (auto simp: MaxFrameSize_def MaxBytesLength_def MaxInt16_def in_s_def)
  have "FetchRequest_Encode (fetch_request ?cc topic part off) = Inr body" using body(1) conf(1) by (simp add: one_fetch_request)
  from server.Consumer_Fetch_ok [OF ready this req_def req d resp] run
  have r: "r = fetch_messages (sized resp)" "consumer_ready c'" by auto
  have "\<forall>x \<in> set g. wf_record x"
    using log_wf [OF inv] gather_sound [of "l_segments (pt_log p)" off] inv off(1) log_nonempty [OF inv]
    unfolding g by (auto simp: log_inv_def LowestOffset_def log_recs_def)
  then show ?thesis
    using r fw(1) decode_messages_encs [of g "[]"] by (simp add: fetch_messages_def sized_def codeNone_def g)
qed

section \<open>Property\<close>

text \<open>The messages as a consumer gets them: numbered from the base offset, with the time of sending where none was given.\<close>

definition delivered :: "int \<Rightarrow> int \<Rightarrow> Message list \<Rightarrow> Message list" where
  "delivered now base msgs = map (\<lambda>(i, m). m\<lparr>ms_Offset := base + int i, ms_Timestamp := if ms_Timestamp m \<le> 0 then now else ms_Timestamp m\<rparr>)
     (enumerate 0 msgs)"

lemma delivered_records: "map record_message (number_from base (map (message_record now) msgs)) = delivered now base msgs"
proof -
  have "map record_message (number_from (base + int k) (map (message_record now) msgs)) =
    map (\<lambda>(i, m). m\<lparr>ms_Offset := base + int i, ms_Timestamp := if ms_Timestamp m \<le> 0 then now else ms_Timestamp m\<rparr>) (enumerate k msgs)" for k
  proof (induction msgs arbitrary: k)
    case (Cons m msgs)
    then show ?case using Cons.IH [of "Suc k"] by (simp add: record_message_def message_record_def algebra_simps)
  qed simp
  from this [of 0] show ?thesis by (simp add: delivered_def)
qed

text \<open>
  C1: From client to client. A producer sends messages to a broker without followers and gets consecutive offsets
  from the end of the log on; a consumer with room for them that fetches at the first of these offsets gets the same keys and values in the
  same order, under these offsets: a non-empty prefix of them, and all of them when the log has not started a new
  segment since. Both clients can go on on their connections.
\<close>

theorem Client_roundtrip:
  assumes inv: "broker_inv cfg n b" and p: "get_partition b topic part = Some p" and e: "e_ckpt e = None" and al: "alone b topic part"
    and name: "validateTopicName (e_cwd e) (dataDir b) topic = None" and ty: "in_s 32 part" "in_s 64 (e_now e)"
    and prod: "in_s 16 (pc_Acks (pd_config pd))" "in_s 32 (pc_TimeoutMs (pd_config pd))"
      "pc_Acks (pd_config pd) = -1 \<longrightarrow> minInsyncReplicas b \<le> 1" "int (length (pc_ClientID (pd_config pd))) \<le> MaxInt16" "producer_ready pd"
    and cons: "cc_MinBytes (cs_config c) = 1" "in_s 32 (cc_MaxWaitMs (cs_config c))" "int (length (encs rs)) \<le> cc_MaxBytes (cs_config c)"
      "cc_MaxBytes (cs_config c) + int MaxRecordSize < 2 ^ 31" "int (length (cc_ClientID (cs_config c))) \<le> MaxInt16" "consumer_ready c"
    and rs: "rs = map (message_record now) msgs" "msgs \<noteq> []" "\<forall>r \<in> set rs. wf_record r" and room: "n + int (length msgs) < 2 ^ 63"
    and sz: "lc_MaxMessageBytes (cfg_Log cfg) \<le> 0 \<or> int (length (encs rs)) \<le> lc_MaxMessageBytes (cfg_Log cfg)"
      "46 + int (length (pc_ClientID (pd_config pd))) + int (length topic) + int (length (encs rs)) \<le> MaxFrameSize"
      "0 < request_limit scfg \<longrightarrow>
         38 + int (length (pc_ClientID (pd_config pd))) + int (length topic) + int (length (encs rs)) \<le> request_limit scfg"
      "0 < request_limit scfg \<longrightarrow> 52 + int (length (cc_ClientID (cs_config c))) + int (length topic) \<le> request_limit scfg"
    and run: "SendBatch (server_net coded (broker_mux slow others ch e) scfg) now None b pd topic part msgs = (b', pd', offsets)"
      "Consumer_Fetch (server_net coded (broker_mux slow others ch e') scfg) b' c topic part (LogEndOffset p) = (b'', c', messages)"
  shows "\<exists>k p'. offsets = Inr (map (\<lambda>i. LogEndOffset p + int i) [0..<length msgs]) \<and>
      messages = Inr (take k (delivered now (LogEndOffset p) msgs)) \<and> 0 < k \<and> k \<le> length msgs \<and>
      get_partition b' topic part = Some p' \<and> (BaseOffset (active (pt_log p')) \<le> LogEndOffset p \<longrightarrow> k = length msgs) \<and>
      producer_ready pd' \<and> consumer_ready c'"
proof -
  have sz': "38 + int (length (pc_ClientID (pd_config pd))) + int (length topic) + int (length (encs rs)) \<le> MaxFrameSize" using sz(2) by simp
  note send = SendBatch_alone [OF inv p e al name ty prod(1-4) rs room sz(1) sz' sz(3) prod(5) run(1)]
  then obtain p' where p': "get_partition b' topic part = Some p'" "log_inv (pt_log p')" "LogStartOffset p' = LogStartOffset p"
    "log_recs (pt_log p') = log_recs (pt_log p) @ number_from (LogEndOffset p) rs"
    "LogEndOffset p' = LogEndOffset p + int (length rs)" "HighWatermark p' = LogEndOffset p'" by blast
  have lg: "log_inv (pt_log p)" "LogEndOffset p \<le> n" using broker_invD(6) [OF inv p] by (auto simp: slot_ok_def part_ok_def)
  let ?new = "number_from (LogEndOffset p) rs" and ?mx = "cc_MaxBytes (cs_config c)"
  have leo: "LogEndOffset p = LowestOffset (pt_log p') + int (length (log_recs (pt_log p)))"
    using HighestOffset_eq [OF lg(1)] p'(3) by (simp add: LogEndOffset_def LogStartOffset_def)
  have ne: "?new \<noteq> []" using rs(1,2) length_number_from [of "LogEndOffset p" rs] by (metis length_0_conv length_map)
  obtain k where k: "gather (LogEndOffset p) ?mx 0 (l_segments (pt_log p')) = take k ?new" "0 < k" "k \<le> length rs"
    "BaseOffset (active (pt_log p')) \<le> LogEndOffset p \<longrightarrow> k = length rs"
    using gather_new [OF p'(2,4) leo ne] cons(3) by auto
  have "length (encs (take k ?new)) \<le> length (encs ?new)" using encs_take_drop [of ?new k] by simp
  then have size: "46 + int (length topic) + int (length (encs (take k ?new))) \<le> MaxFrameSize" using sz(2) by simp
  have "0 < ?mx" using cons(3) rs(1,2) length_encs_ge [of rs] by (cases msgs) auto
  moreover have "int (length topic) \<le> MaxInt16" using name by (simp add: validateTopicName_iff maxTopicNameLen_def MaxInt16_def)
  ultimately have fetched: "messages = Inr (map record_message (take k ?new)) \<and> consumer_ready c'"
    using leo p'(5,6) lg(2) room rs(1,2)
    by (intro Consumer_Fetch_back [OF p'(1,2) _ _ p'(6) _ cons(1,2) _ cons(4,5) ty(1) _ k(1) [symmetric] size sz(4) cons(6) run(2)]) auto
  have "map record_message (take k ?new) = take k (delivered now (LogEndOffset p) msgs)"
    by (simp add: take_map [symmetric] rs(1) delivered_records)
  then show ?thesis using send fetched k p'(1) rs(1) by (intro exI [of _ k] exI [of _ p']) simp
qed

definition demo_consumer :: Consumer where
  "demo_consumer =
     \<lparr>cs_addrs = [''b:9092''], cs_config = DefaultConsumerConfig, cs_conn = None, cs_closed = False, cs_nextID = 0\<rparr>"

definition demo_message :: Message where
  "demo_message = \<lparr>ms_Key = Some [1], ms_Value = Some [2, 3], ms_Offset = 0, ms_Timestamp = 0\<rparr>"

definition demo_net :: "Broker network" where
  "demo_net = server_net (\<lambda>_. None) (broker_mux (\<lambda>_ _ _. None) (\<lambda>b. b) 0 demo_env)
     \<lparr>sc_MaxConnections = 10, sc_IdleTimeout = 0, sc_WriteTimeout = 0, sc_MaxRequestBytes = 0\<rparr>"

theorem Client_roundtrip_witness:
  "(let (b, _, offsets) = SendBatch demo_net 7 None demo_broker demo_producer ''t'' 0 [demo_message];
        (_, _, messages) = Consumer_Fetch demo_net b demo_consumer ''t'' 0 1
    in offsets = Inr [1] \<and> messages = Inr [demo_message\<lparr>ms_Offset := 1, ms_Timestamp := 7\<rparr>])"
proof -
  let ?scfg = "\<lparr>sc_MaxConnections = 10, sc_IdleTimeout = 0, sc_WriteTimeout = 0, sc_MaxRequestBytes = 0\<rparr>"
  obtain b' pd' offsets where send: "SendBatch demo_net 7 None demo_broker demo_producer ''t'' 0 [demo_message] = (b', pd', offsets)" by (metis surj_pair)
  obtain b'' c' messages where fetch: "Consumer_Fetch demo_net b' demo_consumer ''t'' 0 1 = (b'', c', messages)" by (metis surj_pair)
  have p: "get_partition demo_broker ''t'' 0 = Some demo_part" by (simp add: demo_partitions)
  have pre: "alone demo_broker ''t'' 0" "minInsyncReplicas demo_broker \<le> 1" "lc_MaxMessageBytes (cfg_Log demo_cfg) \<le> 0"
    "validateTopicName (e_cwd demo_env) (dataDir demo_broker) ''t'' = None" "e_ckpt demo_env = None" "in_s 64 (e_now demo_env)"
    by (simp_all add: alone_def demo_broker_def minInsyncReplicas_def demo_cfg_def demo_env_def validateTopicName_iff
        topicNamePattern_def topic_char_def maxTopicNameLen_def in_s_def Let_def)
  have ready: "producer_ready demo_producer" "consumer_ready demo_consumer"
    by (simp_all add: producer_ready_def demo_producer_def consumer_ready_def demo_consumer_def)
  have conf: "pd_config demo_producer = DefaultProducerConfig\<lparr>pc_LingerMs := 5\<rparr>" "cs_config demo_consumer = DefaultConsumerConfig"
    by (simp_all add: demo_producer_def demo_consumer_def)
  have wf: "wf_record (message_record 7 demo_message)" "length (encs [message_record 7 demo_message]) = 36"
    by (simp_all add: wf_record_def typed_record_def message_record_def demo_message_def EncodedSize_def MaxRecordSize_def in_s_def)
  have "\<exists>k p'. offsets = Inr (map (\<lambda>i. LogEndOffset demo_part + int i) [0..<length [demo_message]]) \<and>
      messages = Inr (take k (delivered 7 (LogEndOffset demo_part) [demo_message])) \<and> 0 < k \<and> k \<le> length [demo_message] \<and>
      get_partition b' ''t'' 0 = Some p' \<and> (BaseOffset (active (pt_log p')) \<le> LogEndOffset demo_part \<longrightarrow> k = length [demo_message]) \<and>
      producer_ready pd' \<and> consumer_ready c'"
    by (rule Client_roundtrip [OF demo_broker_ok p pre(5,1,4) _ pre(6), where now = 7 and pd = demo_producer and c = demo_consumer and
        rs = "[message_record 7 demo_message]" and coded = "\<lambda>_. None" and slow = "\<lambda>_ _ _. None" and others = "\<lambda>b. b" and ch = 0 and
        e' = demo_env and scfg = ?scfg and b' = b' and pd' = pd' and b'' = b''])
      (use send fetch ready pre(2,3) wf demo_part_ok(2) in
        \<open>simp_all add: conf demo_net_def DefaultProducerConfig_def DefaultConsumerConfig_def request_limit_def DefaultMaxRequestBytes_def
           in_s_def MaxInt16_def MaxFrameSize_def MaxRecordSize_def\<close>)
  then obtain k where "offsets = Inr [1]" "messages = Inr (take k (delivered 7 1 [demo_message]))" "0 < k"
    using demo_part_ok(2) by auto
  moreover have "take k (delivered 7 1 [demo_message]) = [demo_message\<lparr>ms_Offset := 1, ms_Timestamp := 7\<rparr>]"
    using \<open>0 < k\<close> by (cases k) (simp_all add: delivered_def demo_message_def)
  ultimately show ?thesis using send fetch by simp
qed

end
