(* ===== verification/GroupE2E.thy ===== *)
theory GroupE2E
  imports GroupConsumer ClientE2E
begin

text \<open>
  Handing over the progress of a consumer group: the offsets that one member commits through the broker are those
  from which the next owner of the partitions resumes.
\<close>

section \<open>A request of the group consumer\<close>

context rpc
begin

lemma sendRequest_ok:
  assumes "gk_addrs g \<noteq> []" and "req = request_sized (request key (int32 (gk_nextID g + 1)) (gf_ClientID (gk_config g)) body)"
    and "wf_RequestFrame lim req" and "step req w = (w', resp)" and "wf_ResponseFrame (sized resp)"
  shows "sendRequest net w g key body = (w', g\<lparr>gk_nextID := int32 (gk_nextID g + 1)\<rparr>, Inr (sized resp))"
proof -
  obtain a as where a: "gk_addrs g = a # as" using assms(1) by (cases "gk_addrs g") auto
  have "round_trip net ''group_consumer'' w \<lparr>c_addr = a, c_in = []\<rparr>
      (request key (int32 (gk_nextID g + 1)) (gf_ClientID (gk_config g)) body) = (w', \<lparr>c_addr = a, c_in = []\<rparr>, Inr (sized resp))"
    using assms(3-5) unfolding assms(2) by (rule round_trip_ok) simp
  then show ?thesis by (simp add: sendRequest_def dialNewConn_def a dial sendRequestOnConn_def Let_def)
qed

end

text \<open>A response is not much longer than its request when its elements are not.\<close>

lemma seqW_map_le:
  assumes "\<forall>x \<in> set xs. \<forall>a b. f x = Inr a \<longrightarrow> h (\<phi> x) = Inr b \<longrightarrow> length b \<le> k * length a"
    and "seqW (map f xs) = Inr a" and "seqW (map h (map \<phi> xs)) = Inr b"
  shows "length b \<le> k * length a"
  using assms
proof (induction xs arbitrary: a b)
  case (Cons x xs)
  obtain a1 a2 where a: "f x = Inr a1" "seqW (map f xs) = Inr a2" "a = a1 @ a2"
    using Cons.prems(2) by (auto split: sum.split_asm)
  obtain b1 b2 where b: "h (\<phi> x) = Inr b1" "seqW (map h (map \<phi> xs)) = Inr b2" "b = b1 @ b2"
    using Cons.prems(3) by (auto split: sum.split_asm)
  have "length b1 \<le> k * length a1" "length b2 \<le> k * length a2" using Cons a b by auto
  then show ?case using a b by (simp add: algebra_simps)
qed simp

lemma PutArray_le:
  assumes "\<forall>x \<in> set xs. \<forall>a b. f x = Inr a \<longrightarrow> h (\<phi> x) = Inr b \<longrightarrow> length b \<le> k * length a"
    and "PutArray f xs = Inr a" and "PutArray h (map \<phi> xs) = Inr b" and "0 < k"
  shows "length b \<le> k * length a"
proof -
  obtain hd0 a' where a: "PutArrayHeader (int (length xs)) = Inr hd0" "seqW (map f xs) = Inr a'" "a = hd0 @ a'"
    using assms(2) by (auto simp: PutArray_def split: sum.split_asm)
  obtain b' where b: "seqW (map h (map \<phi> xs)) = Inr b'" "b = hd0 @ b'"
    using assms(3) a(1) by (auto simp: PutArray_def split: sum.split_asm)
  have "length hd0 \<le> k * length hd0" using assms(4) by simp
  then have "length hd0 + length b' \<le> k * length hd0 + k * length a'"
    using seqW_map_le [OF assms(1) a(2) b(1)] by (rule add_mono)
  then show ?thesis using a(3) b(2) by (simp add: distrib_left)
qed

section \<open>The broker stores the offsets\<close>

text \<open>The offset store has room for these commits, one after another.\<close>

fun commits_fit :: "OffsetStore \<Rightarrow> string \<Rightarrow> (topicPartition \<times> int) list \<Rightarrow> int \<Rightarrow> bool" where
  "commits_fit s grp [] now \<longleftrightarrow> True"
| "commits_fit s grp (((t, p), off) # cs) now \<longleftrightarrow>
     commit_ok s grp t p off now \<and>
     (case OffsetStore_Commit s grp t p off now of Inl _ \<Rightarrow> True | Inr s' \<Rightarrow> commits_fit s' grp cs now)"

definition put_offsets :: "string \<Rightarrow> (string \<rightharpoonup> int) \<Rightarrow> (topicPartition \<times> int) list \<Rightarrow> (string \<rightharpoonup> int)" where
  "put_offsets grp c cs = foldl (\<lambda>c ((t, p), off). c(offset_key grp t p \<mapsto> off)) c cs"

definition part_commits :: "string \<Rightarrow> OffsetCommitRequestPartition list \<Rightarrow> (topicPartition \<times> int) list" where
  "part_commits t ps = map (\<lambda>p. ((t, ocrp_PartitionID p), ocrp_Offset p)) ps"

definition topic_commits :: "OffsetCommitRequestTopic list \<Rightarrow> (topicPartition \<times> int) list" where
  "topic_commits ts = concat (map (\<lambda>t. part_commits (ocrt_Name t) (ocrt_Partitions t)) ts)"

lemma commit_partitions:
  assumes "os_inv (b_offsets b)" and "commits_fit (b_offsets b) grp (part_commits t ps @ cs) (e_now e)"
  shows "\<exists>s. thread_r (commit_partition e grp t) b ps =
      (b\<lparr>b_offsets := s\<rparr>, Inr (map (\<lambda>p. \<lparr>ocsp_PartitionID = ocrp_PartitionID p, ocsp_ErrorCode = codeNone\<rparr>) ps)) \<and>
    os_inv s \<and> commits_fit s grp cs (e_now e) \<and> os_cache s = put_offsets grp (os_cache (b_offsets b)) (part_commits t ps)"
  using assms
proof (induction ps arbitrary: b)
  case Nil
  then show ?case by (intro exI [of _ "b_offsets b"]) (simp add: part_commits_def put_offsets_def)
next
  case (Cons p ps)
  have ok: "commit_ok (b_offsets b) grp t (ocrp_PartitionID p) (ocrp_Offset p) (e_now e)" using Cons.prems(2) by (simp add: part_commits_def)
  obtain s1 where s1: "OffsetStore_Commit (b_offsets b) grp t (ocrp_PartitionID p) (ocrp_Offset p) (e_now e) = Inr s1" "os_inv s1"
    "os_cache s1 = (os_cache (b_offsets b))(offset_key grp t (ocrp_PartitionID p) \<mapsto> ocrp_Offset p)"
    using Commit_ok [OF Cons.prems(1) ok] by blast
  let ?b = "b\<lparr>b_offsets := s1\<rparr>"
  have "commits_fit (b_offsets ?b) grp (part_commits t ps @ cs) (e_now e)" using Cons.prems(2) s1(1) by (simp add: part_commits_def)
  from Cons.IH [OF _ this] s1(2) obtain s where s: "thread_r (commit_partition e grp t) ?b ps =
      (?b\<lparr>b_offsets := s\<rparr>, Inr (map (\<lambda>p. \<lparr>ocsp_PartitionID = ocrp_PartitionID p, ocsp_ErrorCode = codeNone\<rparr>) ps))"
    "os_inv s" "commits_fit s grp cs (e_now e)" "os_cache s = put_offsets grp (os_cache s1) (part_commits t ps)" by auto
  moreover have "commit_partition e grp t b p = (?b, Inr \<lparr>ocsp_PartitionID = ocrp_PartitionID p, ocsp_ErrorCode = codeNone\<rparr>)"
    using s1(1) by (simp add: commit_partition_def CommitOffset_def)
  ultimately show ?case
    using s1(3) by (intro exI [of _ s]) (simp add: part_commits_def put_offsets_def)
qed

lemma commit_topics_stored:
  assumes "os_inv (b_offsets b)" and "commits_fit (b_offsets b) grp (topic_commits ts) (e_now e)"
  shows "\<exists>s. thread_r (commit_topic e grp) b ts =
      (b\<lparr>b_offsets := s\<rparr>, Inr (map (\<lambda>t. \<lparr>ocst_Name = ocrt_Name t,
         ocst_Partitions = map (\<lambda>p. \<lparr>ocsp_PartitionID = ocrp_PartitionID p, ocsp_ErrorCode = codeNone\<rparr>) (ocrt_Partitions t)\<rparr>) ts)) \<and>
    os_inv s \<and> os_cache s = put_offsets grp (os_cache (b_offsets b)) (topic_commits ts)"
  using assms
proof (induction ts arbitrary: b)
  case Nil
  then show ?case by (intro exI [of _ "b_offsets b"]) (simp add: topic_commits_def put_offsets_def)
next
  case (Cons t ts)
  have "commits_fit (b_offsets b) grp (part_commits (ocrt_Name t) (ocrt_Partitions t) @ topic_commits ts) (e_now e)"
    using Cons.prems(2) by (simp add: topic_commits_def)
  from commit_partitions [OF Cons.prems(1) this] obtain s1 where s1: "thread_r (commit_partition e grp (ocrt_Name t)) b (ocrt_Partitions t) =
      (b\<lparr>b_offsets := s1\<rparr>, Inr (map (\<lambda>p. \<lparr>ocsp_PartitionID = ocrp_PartitionID p, ocsp_ErrorCode = codeNone\<rparr>) (ocrt_Partitions t)))"
    "os_inv s1" "commits_fit s1 grp (topic_commits ts) (e_now e)"
    "os_cache s1 = put_offsets grp (os_cache (b_offsets b)) (part_commits (ocrt_Name t) (ocrt_Partitions t))" by blast
  from Cons.IH [of "b\<lparr>b_offsets := s1\<rparr>"] s1(2,3) obtain s where "thread_r (commit_topic e grp) (b\<lparr>b_offsets := s1\<rparr>) ts =
      (b\<lparr>b_offsets := s\<rparr>, Inr (map (\<lambda>t. \<lparr>ocst_Name = ocrt_Name t,
         ocst_Partitions = map (\<lambda>p. \<lparr>ocsp_PartitionID = ocrp_PartitionID p, ocsp_ErrorCode = codeNone\<rparr>) (ocrt_Partitions t)\<rparr>) ts))"
    "os_inv s" "os_cache s = put_offsets grp (os_cache s1) (topic_commits ts)" by auto
  moreover have "commit_topic e grp b t = (b\<lparr>b_offsets := s1\<rparr>, Inr \<lparr>ocst_Name = ocrt_Name t,
      ocst_Partitions = map (\<lambda>p. \<lparr>ocsp_PartitionID = ocrp_PartitionID p, ocsp_ErrorCode = codeNone\<rparr>) (ocrt_Partitions t)\<rparr>)"
    using s1(1) by (simp add: commit_topic_def)
  ultimately show ?case
    using s1(4) by (intro exI [of _ s]) (simp add: topic_commits_def put_offsets_def)
qed

lemma commits_fit_ok:
  assumes "os_inv s" and "commits_fit s grp cs now" and "((t, p), off) \<in> set cs"
  shows "CHR '':'' \<notin> set t \<and> length t \<le> 32767 \<and> in_s 32 p \<and> in_s 64 off"
  using assms
proof (induction s grp cs now rule: commits_fit.induct)
  case (2 s grp t' p' off' cs now)
  obtain s1 where "OffsetStore_Commit s grp t' p' off' now = Inr s1" "os_inv s1"
    using Commit_ok [OF 2(2), of grp t' p' off' now] 2(3) by auto
  then show ?case using 2 by (auto simp: commit_ok_def)
qed simp

lemma put_offsets_get:
  assumes "\<forall>((t, p), off) \<in> set cs. CHR '':'' \<notin> set t \<and> f (t, p) = Some off" and "((t, p), off) \<in> set cs"
  shows "put_offsets grp c cs (offset_key grp t p) = Some off"
  using assms
proof (induction cs rule: rev_induct)
  case (snoc x cs)
  obtain t' p' off' where x: "x = ((t', p'), off')" by (metis surj_pair)
  have "offset_key grp t p = offset_key grp t' p' \<longleftrightarrow> t = t' \<and> p = p'"
    using offset_key_inj [of grp t p grp t' p'] snoc.prems x by auto
  then show ?case using snoc x by (auto simp: put_offsets_def)
qed simp

lemma commit_wire:
  assumes inv: "os_inv (b_offsets b)" and fit: "commits_fit (b_offsets b) (ocr_GroupID creq) (topic_commits (ocr_Topics creq)) (e_now e)"
    and wf: "wf_OffsetCommitRequest creq" and body: "OffsetCommitRequest_Encode creq = Inr body"
    and run: "Dispatch coded (broker_mux slow others ch e) \<lparr>rf_Size = sz0, rf_ApiKey = apiKeyOffsetCommit, rf_ApiVersion = 1,
      rf_CorrelationID = corr, rf_ClientID = client, rf_Payload = body\<rparr> b = (b', resp)"
  shows "\<exists>s. b' = b\<lparr>b_offsets := s\<rparr> \<and> os_cache s = put_offsets (ocr_GroupID creq) (os_cache (b_offsets b)) (topic_commits (ocr_Topics creq)) \<and>
    sf_ErrorCode resp = 0 \<and> length (sf_Payload resp) \<le> length body"
proof -
  let ?t = "\<lambda>t. \<lparr>ocst_Name = ocrt_Name t,
      ocst_Partitions = map (\<lambda>p. \<lparr>ocsp_PartitionID = ocrp_PartitionID p, ocsp_ErrorCode = codeNone\<rparr>) (ocrt_Partitions t)\<rparr>"
  let ?resp = "\<lparr>ocs_Topics = map ?t (ocr_Topics creq)\<rparr>"
  have dec: "OffsetCommitRequest_Decode body = Inr (creq, [])" using decodes_whole [OF decodes_OffsetCommitRequest [OF wf] body] .
  obtain s where s: "thread_r (commit_topic e (ocr_GroupID creq)) b (ocr_Topics creq) = (b\<lparr>b_offsets := s\<rparr>, Inr (ocs_Topics ?resp))"
    "os_cache s = put_offsets (ocr_GroupID creq) (os_cache (b_offsets b)) (topic_commits (ocr_Topics creq))"
    using commit_topics_stored [OF inv fit] by auto
  have "wf_OffsetCommitResponse ?resp"
    using wf by (auto simp: wf_OffsetCommitResponse_def wf_OffsetCommitResponseTopic_def wf_OffsetCommitResponsePartition_def wf_OffsetCommitRequest_def
        wf_OffsetCommitRequestTopic_def wf_OffsetCommitRequestPartition_def codeNone_def in_s_def MaxInt32_def)
  then obtain out where out: "OffsetCommitResponse_Encode ?resp = Inr out" using decodes_out [OF decodes_OffsetCommitResponse] by blast
  have parts: "length b \<le> 1 * length a" if "PutArray OffsetCommitRequestPartition_Encode ps = Inr a"
    "PutArray OffsetCommitResponsePartition_Encode (map (\<lambda>p. \<lparr>ocsp_PartitionID = ocrp_PartitionID p, ocsp_ErrorCode = codeNone\<rparr>) ps) = Inr b" for ps a b
    using that by (rule PutArray_le [rotated]) (auto simp: OffsetCommitRequestPartition_Encode_def OffsetCommitResponsePartition_Encode_def
        PutInt16_def PutInt32_def PutInt64_def split: sum.split_asm)
  have "\<forall>t \<in> set (ocr_Topics creq). \<forall>a b. OffsetCommitRequestTopic_Encode t = Inr a \<longrightarrow> OffsetCommitResponseTopic_Encode (?t t) = Inr b \<longrightarrow>
      length b \<le> 1 * length a"
    using parts by (auto simp: OffsetCommitRequestTopic_Encode_def OffsetCommitResponseTopic_Encode_def split: sum.split_asm)
  moreover obtain a where a: "PutArray OffsetCommitRequestTopic_Encode (ocr_Topics creq) = Inr a" "length a \<le> length body"
    using body by (auto simp: OffsetCommitRequest_Encode_def split: sum.split_asm)
  moreover have "PutArray OffsetCommitResponseTopic_Encode (map ?t (ocr_Topics creq)) = Inr out"
    using out by (auto simp: OffsetCommitResponse_Encode_def split: sum.split_asm)
  ultimately have "length out \<le> 1 * length a" by (intro PutArray_le [where k = 1]) auto
  moreover have "b' = b\<lparr>b_offsets := s\<rparr>" "sf_ErrorCode resp = 0" "sf_Payload resp = out"
    using run out s(1) by (auto simp: Dispatch_def broker_handlers api_keys handleOffsetCommit_def dec frame_body_def)
  ultimately show ?thesis using s(2) a(2) by auto
qed

lemma offset_fetch_wire:
  assumes wf: "wf_OffsetFetchRequest freq" and body: "OffsetFetchRequest_Encode freq = Inr body"
    and vals: "\<forall>t \<in> set (ofr_Topics freq). \<forall>p \<in> set (ofrt_Partitions t). in_s 64 (FetchOffset b (ofr_GroupID freq) (ofrt_Name t) p)"
    and run: "Dispatch coded (broker_mux slow others ch e) \<lparr>rf_Size = sz0, rf_ApiKey = apiKeyOffsetFetch, rf_ApiVersion = 1,
      rf_CorrelationID = corr, rf_ClientID = client, rf_Payload = body\<rparr> b = (b', resp)"
  shows "b' = b \<and> sf_ErrorCode resp = 0 \<and> length (sf_Payload resp) \<le> 4 * length body \<and>
    OffsetFetchResponse_Decode (sf_Payload resp) = Inr (\<lparr>ofs_Topics = map (offset_topic b (ofr_GroupID freq)) (ofr_Topics freq)\<rparr>, [])"
proof -
  let ?resp = "\<lparr>ofs_Topics = map (offset_topic b (ofr_GroupID freq)) (ofr_Topics freq)\<rparr>"
  have dec: "OffsetFetchRequest_Decode body = Inr (freq, [])" using decodes_whole [OF decodes_OffsetFetchRequest [OF wf] body] .
  have "wf_OffsetFetchResponse ?resp"
    using wf vals by (auto simp: wf_OffsetFetchResponse_def wf_OffsetFetchResponseTopic_def wf_OffsetFetchResponsePartition_def offset_topic_def
        wf_OffsetFetchRequest_def wf_OffsetFetchRequestTopic_def codeNone_def in_s_def MaxInt32_def)
  then obtain out where out: "OffsetFetchResponse_Encode ?resp = Inr out" "OffsetFetchResponse_Decode out = Inr (?resp, [])"
    using decodes_out [OF decodes_OffsetFetchResponse] by blast
  have parts: "length b \<le> 4 * length a" if "PutArray PutInt32 ps = Inr a"
    "PutArray OffsetFetchResponsePartition_Encode (map (\<lambda>p. \<lparr>ofsp_PartitionID = p, ofsp_Offset = v p, ofsp_ErrorCode = codeNone\<rparr>) ps) = Inr b" for ps a b v
    using that by (rule PutArray_le [rotated]) (auto simp: OffsetFetchResponsePartition_Encode_def PutInt16_def PutInt32_def PutInt64_def)
  have topics: "length b \<le> 4 * length a" if enc: "OffsetFetchRequestTopic_Encode t = Inr a"
    "OffsetFetchResponseTopic_Encode (offset_topic b0 grp t) = Inr b" for t a b b0 grp
  proof -
    obtain n a' b' where n: "PutString (ofrt_Name t) = Inr n" "PutArray PutInt32 (ofrt_Partitions t) = Inr a'" "a = n @ a'" "b = n @ b'"
      and b': "PutArray OffsetFetchResponsePartition_Encode (map (\<lambda>p. \<lparr>ofsp_PartitionID = p,
          ofsp_Offset = FetchOffset b0 grp (ofrt_Name t) p, ofsp_ErrorCode = codeNone\<rparr>) (ofrt_Partitions t)) = Inr b'"
      using enc by (auto simp: OffsetFetchRequestTopic_Encode_def OffsetFetchResponseTopic_Encode_def offset_topic_def split: sum.split_asm)
    show ?thesis using parts [OF n(2) b'] n(3,4) by simp
  qed
  obtain a where a: "PutArray OffsetFetchRequestTopic_Encode (ofr_Topics freq) = Inr a" "length a \<le> length body"
    using body by (auto simp: OffsetFetchRequest_Encode_def split: sum.split_asm)
  moreover have "PutArray OffsetFetchResponseTopic_Encode (map (offset_topic b (ofr_GroupID freq)) (ofr_Topics freq)) = Inr out"
    using out(1) by (auto simp: OffsetFetchResponse_Encode_def split: sum.split_asm)
  ultimately have "length out \<le> 4 * length a" using topics by (intro PutArray_le [where k = 4]) auto
  moreover have "b' = b" "sf_ErrorCode resp = 0" "sf_Payload resp = out"
    using run out by (auto simp: Dispatch_def broker_handlers api_keys handleOffsetFetch_def dec frame_body_def)
  ultimately show ?thesis using out(2) a(2) by auto
qed

section \<open>What is in the requests\<close>

lemma entries_perm: "mset m = mset m' \<Longrightarrow> mset (entries m) = mset (entries m')"
  by (simp add: entries_def mset_concat sum_mset_sum_list [symmetric] comp_def)

lemma set_entries_iterate: "valid_iter it \<Longrightarrow> set (entries (iterate (it_keys it) (group_by kvs))) = set kvs"
  using entries_perm [OF iterate_perm [of it "group_by kvs"]] group_by_entries [of kvs] by (metis set_mset_mset)

lemma topic_commits_entries:
  "topic_commits (map (\<lambda>(t, ps). \<lparr>ocrt_Name = t, ocrt_Partitions = ps\<rparr>) m) = map (\<lambda>(t, p). ((t, ocrp_PartitionID p), ocrp_Offset p)) (entries m)"
  by (induction m) (auto simp: topic_commits_def part_commits_def)

lemma set_map_filter: "set (List.map_filter f xs) = {y. \<exists>x \<in> set xs. f x = Some y}"
  by (induction xs) (auto simp: List.map_filter_simps split: option.split)

lemma commit_request_commits:
  assumes "valid_iter it"
  shows "((t, p), off) \<in> set (topic_commits (ocr_Topics (commit_request g (iterate (it_keys it) (commit_topics it g))))) \<longleftrightarrow>
    map_of (gk_offsets g) (t, p) = Some off \<and> 0 \<le> off"
proof -
  let ?f = "\<lambda>(t, p). case map_of (gk_offsets g) (t, p) of
         None \<Rightarrow> None
       | Some off \<Rightarrow> if 0 \<le> off then Some (t, \<lparr>ocrp_PartitionID = p, ocrp_Offset = off, ocrp_Metadata = []\<rparr>) else None"
  have ks: "set (it_parts it (map fst (gk_offsets g))) = set (map fst (gk_offsets g))" using assms by (simp add: valid_iter_def)
  have "set (entries (iterate (it_keys it) (commit_topics it g))) = {y. \<exists>x \<in> set (map fst (gk_offsets g)). ?f x = Some y}"
    unfolding commit_topics_def set_entries_iterate [OF assms] set_map_filter ks ..
  then have mem: "(t', q) \<in> set (entries (iterate (it_keys it) (commit_topics it g))) \<longleftrightarrow>
      (\<exists>x \<in> set (map fst (gk_offsets g)). ?f x = Some (t', q))" for t' q by simp
  have f: "?f x = Some (t', q) \<longleftrightarrow> (\<exists>p off. x = (t', p) \<and> map_of (gk_offsets g) (t', p) = Some off \<and> 0 \<le> off \<and>
      q = \<lparr>ocrp_PartitionID = p, ocrp_Offset = off, ocrp_Metadata = []\<rparr>)" for x t' q
    by (cases x) (auto split: option.split)
  have dom: "map_of (gk_offsets g) x = Some off \<Longrightarrow> x \<in> set (map fst (gk_offsets g))" for x off
    by (drule map_of_SomeD) force
  have "(t', q) \<in> set (entries (iterate (it_keys it) (commit_topics it g))) \<longleftrightarrow>
      (\<exists>p off. map_of (gk_offsets g) (t', p) = Some off \<and> 0 \<le> off \<and> q = \<lparr>ocrp_PartitionID = p, ocrp_Offset = off, ocrp_Metadata = []\<rparr>)" for t' q
    unfolding mem f using dom by blast
  then show ?thesis
    by (auto simp: commit_request_def topic_commits_entries image_iff
        intro!: bexI [of _ "(t, \<lparr>ocrp_PartitionID = p, ocrp_Offset = off, ocrp_Metadata = []\<rparr>)"])
qed

text \<open>A request within the limits of the server; the response may be four times as long.\<close>

definition fits :: "ServerConfig \<Rightarrow> GroupConsumer \<Rightarrow> bytes result \<Rightarrow> bool" where
  "fits scfg g w \<longleftrightarrow> int (length (gf_ClientID (gk_config g))) \<le> MaxInt16 \<and>
     (case w of Inl _ \<Rightarrow> False | Inr body \<Rightarrow>
        14 + int (length (gf_ClientID (gk_config g))) + 4 * int (length body) \<le> MaxFrameSize \<and>
        (0 < request_limit scfg \<longrightarrow> 14 + int (length (gf_ClientID (gk_config g))) + int (length body) \<le> request_limit scfg))"

lemma group_request:
  assumes "gk_addrs g \<noteq> []" and "fits scfg g (Inr body)" and "in_s 16 key"
    and d: "Dispatch coded m \<lparr>rf_Size = 14 + int (length (gf_ClientID (gk_config g))) + int (length body), rf_ApiKey = key, rf_ApiVersion = 1,
      rf_CorrelationID = int32 (gk_nextID g + 1), rf_ClientID = gf_ClientID (gk_config g), rf_Payload = body\<rparr> w = (w', resp)"
    and "sf_ErrorCode resp = 0" and "length (sf_Payload resp) \<le> 4 * length body"
  shows "sendRequest (server_net coded m scfg) w g key body = (w', g\<lparr>gk_nextID := int32 (gk_nextID g + 1)\<rparr>, Inr (sized resp))"
proof (rule server.sendRequest_ok [OF assms(1) refl])
  let ?req = "request_sized (request key (int32 (gk_nextID g + 1)) (gf_ClientID (gk_config g)) body)"
  show "wf_RequestFrame (request_limit scfg) ?req"
    using assms(2,3) by (intro request_sized_wf) (auto simp: fits_def MaxFrameSize_def MaxBytesLength_def)
  show "Dispatch coded m ?req w = (w', resp)" using d by (simp add: request_eq)
  then have "sf_CorrelationID resp = int32 (gk_nextID g + 1)" using Dispatch_correlation [of coded m ?req w] by (simp add: request_eq)
  then show "wf_ResponseFrame (sized resp)"
    using assms(2,5,6) by (intro answer_sized_wf) (auto simp: fits_def)
qed

lemma Commit_stored:
  assumes it: "valid_iter it" and inv: "os_inv (b_offsets b)" and g: "\<not> gk_closed g" "gk_addrs g \<noteq> []"
    and creq: "creq = commit_request g (iterate (it_keys it) (commit_topics it g))"
    and wf: "wf_OffsetCommitRequest creq" "fits scfg g (OffsetCommitRequest_Encode creq)"
    and fit: "commits_fit (b_offsets b) (gk_groupID g) (topic_commits (ocr_Topics creq)) (e_now e)"
    and run: "Commit (server_net coded (broker_mux slow others ch e) scfg) it b g = (b', g', r)"
  shows "r = Inr ()" and "\<And>t p off. map_of (gk_offsets g) (t, p) = Some off \<Longrightarrow> 0 \<le> off \<Longrightarrow> FetchOffset b' (gk_groupID g) t p = off \<and> in_s 64 off"
proof -
  let ?cs = "topic_commits (ocr_Topics creq)"
  have grp: "ocr_GroupID creq = gk_groupID g" by (simp add: creq commit_request_def)
  have mem: "((t, p), off) \<in> set ?cs \<longleftrightarrow> map_of (gk_offsets g) (t, p) = Some off \<and> 0 \<le> off" for t p off
    unfolding creq by (rule commit_request_commits [OF it])
  obtain body where body: "OffsetCommitRequest_Encode creq = Inr body" using decodes_out [OF decodes_OffsetCommitRequest [OF wf(1)]] by blast
  obtain b1 resp where d: "Dispatch coded (broker_mux slow others ch e) \<lparr>rf_Size = 14 + int (length (gf_ClientID (gk_config g))) + int (length body),
      rf_ApiKey = apiKeyOffsetCommit, rf_ApiVersion = 1, rf_CorrelationID = int32 (gk_nextID g + 1), rf_ClientID = gf_ClientID (gk_config g),
      rf_Payload = body\<rparr> b = (b1, resp)" by fastforce
  obtain s where s: "b1 = b\<lparr>b_offsets := s\<rparr>" "os_cache s = put_offsets (gk_groupID g) (os_cache (b_offsets b)) ?cs"
    "sf_ErrorCode resp = 0" "length (sf_Payload resp) \<le> length body"
    using commit_wire [OF inv fit [folded grp] wf(1) body d] grp by auto
  have "sendRequest (server_net coded (broker_mux slow others ch e) scfg) b g apiKeyOffsetCommit body =
      (b1, g\<lparr>gk_nextID := int32 (gk_nextID g + 1)\<rparr>, Inr (sized resp))"
    using wf(2) body s(3,4) by (intro group_request [OF g(2) _ _ d]) (simp_all add: apiKeyOffsetCommit_def in_s_def)
  then have sent: "send_commit (server_net coded (broker_mux slow others ch e) scfg) b g creq = (b1, g\<lparr>gk_nextID := int32 (gk_nextID g + 1)\<rparr>, Inr ())"
    using body s(3) by (simp add: send_commit_def bindC_def wrapC_def frame_ok_def sized_def apiKeyOffsetCommit_def)
  have none: "?cs = []" if "commit_topics it g = []"
    using that by (simp add: creq commit_request_def iterate_def topic_commits_def List.map_filter_def)
  have b': "r = Inr () \<and> (b' = b1 \<or> ?cs = [])"
    using run g(1) sent none unfolding creq by (auto simp: Commit_def Let_def split: if_split_asm)
  then show "r = Inr ()" by blast
  show "FetchOffset b' (gk_groupID g) t p = off \<and> in_s 64 off" if "map_of (gk_offsets g) (t, p) = Some off" "0 \<le> off" for t p off
  proof -
    have m: "((t, p), off) \<in> set ?cs" using that mem by blast
    have "\<forall>((t, p), off) \<in> set ?cs. CHR '':'' \<notin> set t \<and> map_of (gk_offsets g) (t, p) = Some off"
      using commits_fit_ok [OF inv fit] mem by fast
    then have "os_cache s (offset_key (gk_groupID g) t p) = Some off" unfolding s(2) using m by (rule put_offsets_get)
    then show ?thesis using commits_fit_ok [OF inv fit m] b' m s(1) by (auto simp: FetchOffset_def OffsetStore_Fetch_def)
  qed
qed

section \<open>The next owner resumes\<close>

definition offset_entries :: "OffsetFetchResponse \<Rightarrow> (topicPartition \<times> int) list" where
  "offset_entries resp =
     concat (map (\<lambda>t. map (\<lambda>p. ((ofst_Name t, ofsp_PartitionID p), if 0 \<le> ofsp_Offset p then ofsp_Offset p else -1)) (ofst_Partitions t)) (ofs_Topics resp))"

lemma foldl_concat: "foldl (\<lambda>a x. foldl f a (h x)) a xs = foldl f a (concat (map h xs))"
  by (induction xs arbitrary: a) simp_all

lemma store_committed_entries: "store_committed resp os = foldl (\<lambda>os (tp, v). AList.update tp v os) os (offset_entries resp)"
proof -
  have "store_committed resp os = foldl (\<lambda>os t. foldl (\<lambda>os (tp, v). AList.update tp v os) os
      (map (\<lambda>p. ((ofst_Name t, ofsp_PartitionID p), if 0 \<le> ofsp_Offset p then ofsp_Offset p else -1)) (ofst_Partitions t))) os (ofs_Topics resp)"
    by (simp add: store_committed_def foldl_map)
  then show ?thesis by (simp only: foldl_concat offset_entries_def)
qed

lemma foldl_update_get:
  assumes "\<forall>(tp, v) \<in> set es. v = F tp"
  shows "map_of (foldl (\<lambda>os (tp, v). AList.update tp v os) os es) x = (if x \<in> fst ` set es then Some (F x) else map_of os x)"
  using assms
proof (induction es rule: rev_induct)
  case (snoc e es)
  then show ?case by (cases e) (auto simp: update_conv')
qed simp

lemma offset_entries_answer:
  "offset_entries \<lparr>ofs_Topics = map (offset_topic b grp) (map (\<lambda>(t, ps). \<lparr>ofrt_Name = t, ofrt_Partitions = ps\<rparr>) m)\<rparr> =
     map (\<lambda>(t, p). ((t, p), if 0 \<le> FetchOffset b grp t p then FetchOffset b grp t p else -1)) (entries m)"
  by (induction m) (auto simp: offset_entries_def offset_topic_def)

lemma fetchInitialOffsets_committed:
  assumes it: "valid_iter it" and h: "gk_addrs h \<noteq> []" "gk_assigned h \<noteq> []"
    and wf: "wf_OffsetFetchRequest (offset_fetch_request it h)" "fits scfg h (OffsetFetchRequest_Encode (offset_fetch_request it h))"
    and vals: "\<forall>(t, p) \<in> set (gk_assigned h). 0 \<le> FetchOffset b (gk_groupID h) t p \<and> in_s 64 (FetchOffset b (gk_groupID h) t p)"
    and known: "\<forall>(tp, off) \<in> set (gk_offsets h). 0 \<le> off"
    and run: "fetchInitialOffsets (server_net coded (broker_mux slow others ch e) scfg) it b h = (b', h', r)"
  shows "r = Inr () \<and> (\<forall>(t, p) \<in> set (gk_assigned h). map_of (gk_offsets h') (t, p) = Some (FetchOffset b (gk_groupID h) t p))"
proof -
  let ?m = "iterate (it_keys it) (group_by (gk_assigned h))" and ?F = "\<lambda>(t, p). FetchOffset b (gk_groupID h) t p"
  let ?freq = "offset_fetch_request it h"
  have grp: "ofr_GroupID ?freq = gk_groupID h" and tops: "ofr_Topics ?freq = map (\<lambda>(t, ps). \<lparr>ofrt_Name = t, ofrt_Partitions = ps\<rparr>) ?m"
    by (simp_all add: offset_fetch_request_def)
  have ent: "set (entries ?m) = set (gk_assigned h)" by (rule set_entries_iterate [OF it])
  obtain body where body: "OffsetFetchRequest_Encode ?freq = Inr body" using decodes_out [OF decodes_OffsetFetchRequest [OF wf(1)]] by blast
  obtain b1 resp where d: "Dispatch coded (broker_mux slow others ch e) \<lparr>rf_Size = 14 + int (length (gf_ClientID (gk_config h))) + int (length body),
      rf_ApiKey = apiKeyOffsetFetch, rf_ApiVersion = 1, rf_CorrelationID = int32 (gk_nextID h + 1), rf_ClientID = gf_ClientID (gk_config h),
      rf_Payload = body\<rparr> b = (b1, resp)" by fastforce
  have "\<forall>t \<in> set (ofr_Topics ?freq). \<forall>p \<in> set (ofrt_Partitions t). (ofrt_Name t, p) \<in> set (entries ?m)"
    by (auto simp: offset_fetch_request_def entries_set)
  then have "\<forall>t \<in> set (ofr_Topics ?freq). \<forall>p \<in> set (ofrt_Partitions t). in_s 64 (FetchOffset b (ofr_GroupID ?freq) (ofrt_Name t) p)"
    unfolding ent grp using vals by fast
  note fw = offset_fetch_wire [OF wf(1) body this d]
  let ?h = "h\<lparr>gk_nextID := int32 (gk_nextID h + 1)\<rparr>"
  have "sendRequest (server_net coded (broker_mux slow others ch e) scfg) b h apiKeyOffsetFetch body = (b1, ?h, Inr (sized resp))"
    using wf(2) body fw by (intro group_request [OF h(1) _ _ d]) (simp_all add: apiKeyOffsetFetch_def in_s_def)
  define os where "os = foldl (\<lambda>os (tp, v). AList.update tp v os) (gk_offsets h) (map (\<lambda>tp. (tp, ?F tp)) (entries ?m))"
  have "offset_entries \<lparr>ofs_Topics = map (offset_topic b (ofr_GroupID ?freq)) (ofr_Topics ?freq)\<rparr> = map (\<lambda>tp. (tp, ?F tp)) (entries ?m)"
    unfolding grp tops offset_entries_answer using vals ent by (intro map_cong) auto
  then have st: "store_committed \<lparr>ofs_Topics = map (offset_topic b (ofr_GroupID ?freq)) (ofr_Topics ?freq)\<rparr> (gk_offsets h) = os"
    by (simp add: store_committed_entries os_def)
  have get: "map_of os x = (if x \<in> set (gk_assigned h) then Some (?F x) else map_of (gk_offsets h) x)" for x
    unfolding os_def using foldl_update_get [of "map (\<lambda>tp. (tp, ?F tp)) (entries ?m)" ?F "gk_offsets h" x] ent by (simp add: image_image split_def)
  have "0 \<le> off" if "map_of os x = Some off" for x off
    using that vals known map_of_SomeD [of "gk_offsets h" x off] unfolding get by (auto split: if_split_asm)
  then have "unset_partitions it (?h\<lparr>gk_offsets := os\<rparr>) = []"
    by (force simp: unset_partitions_def filter_empty_conv split: option.split)
  then have "h' = ?h\<lparr>gk_offsets := os\<rparr>" "r = Inr ()"
    using run h(2) body \<open>sendRequest _ b h apiKeyOffsetFetch body = _\<close> fw st
    by (auto simp: fetchInitialOffsets_def bindC_def decode_payload_def sized_def resolveUnsetOffsets_def apiKeyOffsetFetch_def)
  then show ?thesis using get by auto
qed

section \<open>Property\<close>

text \<open>
  C40: Handover. A member of a group commits its offsets through the broker; the member that owns the partitions next,
  here or after a rebalance, starts at exactly these offsets: no record the first member had not committed is skipped,
  and none before is read again. The store must have room for the commits, and the messages must fit the limits of the
  wire format and of the server.
\<close>

theorem Group_handover:
  assumes it: "valid_iter it" "valid_iter it'" and inv: "os_inv (b_offsets b)" and g: "\<not> gk_closed g" "gk_addrs g \<noteq> []"
    and creq: "creq = commit_request g (iterate (it_keys it) (commit_topics it g))"
    and wf: "wf_OffsetCommitRequest creq" "fits scfg g (OffsetCommitRequest_Encode creq)"
    and fit: "commits_fit (b_offsets b) (gk_groupID g) (topic_commits (ocr_Topics creq)) (e_now e)"
    and h: "gk_addrs h \<noteq> []" "gk_groupID h = gk_groupID g" "\<forall>(tp, off) \<in> set (gk_offsets h). 0 \<le> off"
    and freq: "wf_OffsetFetchRequest (offset_fetch_request it' h)" "fits scfg h (OffsetFetchRequest_Encode (offset_fetch_request it' h))"
    and own: "\<forall>tp \<in> set (gk_assigned h). \<exists>off. map_of (gk_offsets g) tp = Some off \<and> 0 \<le> off"
    and run: "Commit (server_net coded (broker_mux slow others ch e) scfg) it b g = (b', g', r)"
      "fetchInitialOffsets (server_net coded (broker_mux slow others ch e') scfg) it' b' h = (b'', h', r')"
  shows "r = Inr () \<and> r' = Inr () \<and> (\<forall>tp \<in> set (gk_assigned h). map_of (gk_offsets h') tp = map_of (gk_offsets g) tp)"
proof -
  note com = Commit_stored [OF it(1) inv g creq wf fit run(1)]
  show ?thesis
  proof (cases "gk_assigned h = []")
    case True
    then show ?thesis using com(1) run(2) by (simp add: fetchInitialOffsets_def)
  next
    case False
    have stored: "\<forall>(t, p) \<in> set (gk_assigned h). map_of (gk_offsets g) (t, p) = Some (FetchOffset b' (gk_groupID h) t p) \<and>
        0 \<le> FetchOffset b' (gk_groupID h) t p \<and> in_s 64 (FetchOffset b' (gk_groupID h) t p)"
      using own com(2) h(2) by fastforce
    then have "r' = Inr () \<and> (\<forall>(t, p) \<in> set (gk_assigned h). map_of (gk_offsets h') (t, p) = Some (FetchOffset b' (gk_groupID h) t p))"
      by (intro fetchInitialOffsets_committed [OF it(2) h(1) False freq _ h(3) run(2)]) auto
    then show ?thesis using com(1) stored by fastforce
  qed
qed

definition demo_iter :: iter where
  "demo_iter = \<lparr>it_keys = (\<lambda>ks. ks), it_parts = (\<lambda>ks. ks)\<rparr>"

definition demo_member :: "topicPartition list \<Rightarrow> (topicPartition \<times> int) list \<Rightarrow> GroupConsumer" where
  "demo_member assigned offsets =
     \<lparr>gk_addrs = [''b:9092''], gk_groupID = ''g'', gk_topics = [''t''], gk_config = DefaultGroupConsumerConfig, gk_closed = False,
      gk_nextID = 0, gk_memberID = ''m'', gk_generationID = 1, gk_leaderID = ''m'', gk_assigned = assigned, gk_offsets = offsets,
      gk_events = []\<rparr>"

lemma demo_commit_request:
  "commit_request (demo_member [] [((''t'', 0), 7)]) (iterate (it_keys demo_iter) (commit_topics demo_iter (demo_member [] [((''t'', 0), 7)]))) =
     \<lparr>ocr_GroupID = ''g'', ocr_GenerationID = 1, ocr_MemberID = ''m'',
      ocr_Topics = [\<lparr>ocrt_Name = ''t'', ocrt_Partitions = [\<lparr>ocrp_PartitionID = 0, ocrp_Offset = 7, ocrp_Metadata = []\<rparr>]\<rparr>]\<rparr>"
  by (simp add: commit_request_def commit_topics_def iterate_def demo_iter_def demo_member_def group_by_def append_at_def List.map_filter_simps)

lemma demo_offset_fetch:
  "offset_fetch_request demo_iter (demo_member [(''t'', 0)] []) = \<lparr>ofr_GroupID = ''g'', ofr_Topics = [\<lparr>ofrt_Name = ''t'', ofrt_Partitions = [0]\<rparr>]\<rparr>"
  by (simp add: offset_fetch_request_def iterate_def demo_iter_def demo_member_def group_by_def append_at_def List.map_filter_simps)

theorem Group_handover_witness:
  "\<exists>s. let net = server_net (\<lambda>_. None) (broker_mux (\<lambda>_ _ _. None) (\<lambda>b. b) 0 demo_env)
            \<lparr>sc_MaxConnections = 10, sc_IdleTimeout = 0, sc_WriteTimeout = 0, sc_MaxRequestBytes = 0\<rparr>;
          (b, _, r) = Commit net demo_iter (demo_broker\<lparr>b_offsets := s\<rparr>) (demo_member [] [((''t'', 0), 7)]);
          (_, h, r') = fetchInitialOffsets net demo_iter b (demo_member [(''t'', 0)] [])
      in r = Inr () \<and> r' = Inr () \<and> map_of (gk_offsets h) (''t'', 0) = Some 7"
proof -
  obtain s where s: "os_inv s" "os_numParts s = 1" "\<forall>l \<in> set (os_logs s). log_recs l = []"
    using Start_fresh [of 1 0] by (auto simp: NewOffsetStore_def)
  have "offset_part (os_numParts s) ''g'' < length (os_logs s)"
    using offset_part_less [of 1 "''g''"] s(1,2) by (simp add: os_inv_def)
  then have "log_recs (os_logs s ! offset_part (os_numParts s) ''g'') = []" using s(3) by simp
  then have "commit_ok s ''g'' ''t'' 0 7 (e_now demo_env)"
    by (simp add: commit_ok_def in_s_def offset_record_def EncodedSize_def offset_key_def itoa_def digits.simps demo_env_def)
  then have fit: "commits_fit s ''g'' [((''t'', 0), 7)] (e_now demo_env)" by (simp split: sum.split)
  let ?scfg = "\<lparr>sc_MaxConnections = 10, sc_IdleTimeout = 0, sc_WriteTimeout = 0, sc_MaxRequestBytes = 0\<rparr>"
  let ?net = "server_net (\<lambda>_. None) (broker_mux (\<lambda>_ _ _. None) (\<lambda>b. b) 0 demo_env) ?scfg"
  let ?b = "demo_broker\<lparr>b_offsets := s\<rparr>" and ?g = "demo_member [] [((''t'', 0), 7)]" and ?h = "demo_member [(''t'', 0)] []"
  have str: "PutString ''g'' = Inr (be_put 2 1 @ bytes_of ''g'')" "PutString ''t'' = Inr (be_put 2 1 @ bytes_of ''t'')"
    "PutString ''m'' = Inr (be_put 2 1 @ bytes_of ''m'')" "PutString [] = Inr (be_put 2 0)"
    by (simp_all add: PutString_def PutInt16_def MaxInt16_def wrap_s_def)
  obtain b' g' r where run1: "Commit ?net demo_iter ?b ?g = (b', g', r)" by (metis surj_pair)
  obtain b'' h' r' where run2: "fetchInitialOffsets ?net demo_iter b' ?h = (b'', h', r')" by (metis surj_pair)
  have it: "valid_iter demo_iter" by (simp add: valid_iter_def demo_iter_def)
  have "r = Inr () \<and> r' = Inr () \<and> (\<forall>tp \<in> set (gk_assigned ?h). map_of (gk_offsets h') tp = map_of (gk_offsets ?g) tp)"
  proof (rule Group_handover [OF it it _ _ _ refl _ _ _ _ _ _ _ _ _ run1 run2], unfold demo_commit_request demo_offset_fetch)
    show "commits_fit (b_offsets ?b) (gk_groupID ?g) (topic_commits (ocr_Topics \<lparr>ocr_GroupID = ''g'', ocr_GenerationID = 1, ocr_MemberID = ''m'',
      ocr_Topics = [\<lparr>ocrt_Name = ''t'', ocrt_Partitions = [\<lparr>ocrp_PartitionID = 0, ocrp_Offset = 7, ocrp_Metadata = []\<rparr>]\<rparr>]\<rparr>)) (e_now demo_env)"
      using fit by (simp add: topic_commits_def part_commits_def demo_member_def)
  qed (simp_all add: s(1) demo_member_def wf_OffsetCommitRequest_def wf_OffsetCommitRequestTopic_def wf_OffsetCommitRequestPartition_def
      wf_OffsetFetchRequest_def wf_OffsetFetchRequestTopic_def in_s_def MaxInt16_def fits_def OffsetCommitRequest_Encode_def
      OffsetCommitRequestTopic_Encode_def OffsetCommitRequestPartition_Encode_def OffsetFetchRequest_Encode_def OffsetFetchRequestTopic_Encode_def
      put_defs str DefaultGroupConsumerConfig_def MaxFrameSize_def request_limit_def DefaultMaxRequestBytes_def bytes_of_def)
  then show ?thesis using run1 run2 by (intro exI [of _ s]) (simp add: demo_member_def Let_def)
qed

end
